(* ===== verification/Estella_Prelude.thy ===== *)
theory Estella_Prelude
  imports Main "HOL-Library.Word"
begin

text \<open>
  Shared vocabulary of the development: the machine integer types of the C sources, byte
  strings, the shape of a counted C loop, page arithmetic on 64-bit words and the fact
  collections the component theories extend.

  \<^item> \<open>u8\<close>, \<open>u16\<close>, \<open>u32\<close>, \<open>u64\<close> are \<open>uint8_t\<close> \<dots> \<open>uint64_t\<close>; \<open>size_t\<close>, \<open>uintptr_t\<close>
    and pointers are \<open>u64\<close> as well (the kernel is built for x86-64).  Arithmetic on them wraps.
  \<^item> \<open>for_upto n body s\<close> is the loop \<open>for (size_t i = 0; i < n; i++)\<close> without an early exit.
  \<^item> \<open>for_range\<close> is a loop whose counter advances by a fixed stride and that may, for a bad
    stride, run for ever: it returns \<open>None\<close> then.
\<close>

unbundle bit_operations_syntax

section \<open>Types and fact collections\<close>

type_synonym u8 = "8 word"
type_synonym u16 = "16 word"
type_synonym u32 = "32 word"
type_synonym u64 = "64 word"

named_theorems unat_simps \<open>reading 64-bit arithmetic as arithmetic on natural numbers\<close>
named_theorems mem_simps \<open>reads over writes of the byte memory\<close>

abbreviation PAGE_SIZE :: u64 where
  "PAGE_SIZE \<equiv> 4096"

text \<open>The bytes of a C string literal, without its terminator.\<close>

definition bytes :: "string \<Rightarrow> u8 list" where
  "bytes s = map of_char s"

lemma bytes_Nil [simp]: "bytes [] = []"
  by (simp add: bytes_def)

lemma bytes_Cons [simp]: "bytes (c # cs) = of_char c # bytes cs"
  by (simp add: bytes_def)

section \<open>Words read as natural numbers\<close>

lemma unat_u64_less: "unat (x :: u64) < 18446744073709551616"
  using unsigned_less [of x] by simp

lemma unat_add_small:
  "unat (a :: u64) + unat b < 18446744073709551616 \<Longrightarrow> unat (a + b) = unat a + unat b"
  by (simp add: unat_word_ariths)

lemma unat_mult_small:
  "unat (a :: u64) * unat b < 18446744073709551616 \<Longrightarrow> unat (a * b) = unat a * unat b"
  by (simp add: unat_word_ariths)

lemma unat_diff_small: "(b :: u64) \<le> a \<Longrightarrow> unat (a - b) = unat a - unat b"
  by (simp add: unat_sub)

lemma unat_of_nat_small [unat_simps]:
  "n < 18446744073709551616 \<Longrightarrow> unat (of_nat n :: u64) = n"
  by (simp add: unat_of_nat)

lemma unat_inc_small:
  "unat (a :: u64) < 18446744073709551615 \<Longrightarrow> unat (a + 1) = unat a + 1"
  by (simp add: unat_word_ariths)

lemma unat_dec_small: "(a :: u64) \<noteq> 0 \<Longrightarrow> unat (a - 1) = unat a - 1"
  by (simp add: unat_minus_one)

lemma unat_div_u64 [unat_simps]: "unat (a div b :: u64) = unat a div unat b"
  by (simp add: unat_div)

lemma unat_mod_u64 [unat_simps]: "unat (a mod b :: u64) = unat a mod unat b"
  by (simp add: unat_mod)

lemma word_less_unat [unat_simps]: "(a :: u64) < b \<longleftrightarrow> unat a < unat b"
  by (simp add: word_less_nat_alt)

lemma word_le_unat [unat_simps]: "(a :: u64) \<le> b \<longleftrightarrow> unat a \<le> unat b"
  by (simp add: word_le_nat_alt)

lemma word_eq_unat: "(a :: u64) = b \<longleftrightarrow> unat a = unat b"
  by (rule word_unat_eq_iff)

lemma unat_zero_iff: "unat (a :: u64) = 0 \<longleftrightarrow> a = 0"
  by (simp add: unat_eq_0)

lemma of_nat_unat_u64 [simp]: "of_nat (unat (x :: u64)) = x"
  by simp

lemma unat_ucast_u32 [simp]: "unat (ucast (x :: u32) :: u64) = unat x"
proof -
  have "unat x < 2 ^ 64" using unsigned_less [of x, where 'a = nat] by simp
  then show ?thesis by (simp add: unsigned_ucast_eq take_bit_nat_eq_self)
qed

lemma unat_ucast_u8 [simp]: "unat (ucast (x :: u8) :: u64) = unat x"
proof -
  have "unat x < 2 ^ 64" using unsigned_less [of x, where 'a = nat] by simp
  then show ?thesis by (simp add: unsigned_ucast_eq take_bit_nat_eq_self)
qed

lemma unat_diff_sum:
  assumes "(a :: u64) \<noteq> b"
  shows "unat (a - b) + unat (b - a) = 18446744073709551616"
proof -
  have "(unat (a - b) + unat (b - a)) mod 18446744073709551616 = unat ((a - b) + (b - a))"
    by (simp only: unat_word_ariths(1)) simp
  then have "18446744073709551616 dvd unat (a - b) + unat (b - a)"
    by (simp add: mod_eq_0_iff_dvd)
  then obtain q where q: "unat (a - b) + unat (b - a) = 18446744073709551616 * q" ..
  have "unat (a - b) \<noteq> 0" using assms by (simp add: unat_zero_iff)
  then have "q = 1"
    using q unat_u64_less [of "a - b"] unat_u64_less [of "b - a"]
    by (cases q; cases "q - 1") auto
  then show ?thesis using q by simp
qed

text \<open>Clearing the low bits of a word.\<close>

lemma and_not_mask: "(x :: u64) AND NOT (mask k) = push_bit k (drop_bit k x)"
  by (rule bit_word_eqI) (auto simp: bit_and_iff bit_not_iff bit_mask_iff bit_push_bit_iff bit_drop_bit_eq)

lemma and_not_4095: "(x :: u64) AND NOT 4095 = (x div 4096) * 4096"
proof -
  have "(4095 :: u64) = mask 12" by (simp add: mask_eq_exp_minus_1)
  moreover have "push_bit 12 (drop_bit 12 x) = (x div 4096) * 4096"
    by (simp add: push_bit_eq_mult drop_bit_eq_div)
  ultimately show ?thesis by (simp only: and_not_mask)
qed

section \<open>Counted loops\<close>

definition for_upto :: "u64 \<Rightarrow> (u64 \<Rightarrow> 's \<Rightarrow> 's) \<Rightarrow> 's \<Rightarrow> 's" where
  "for_upto n body s = fold (\<lambda>i. body (of_nat i)) [0..<unat n] s"

lemma for_upto_0 [simp]: "for_upto 0 body s = s"
  by (simp add: for_upto_def)

text \<open>A predicate on the number of completed iterations that every iteration advances.\<close>

lemma fold_upt_invariant:
  assumes "P 0 s" and "\<And>i t. i < n \<Longrightarrow> P i t \<Longrightarrow> P (Suc i) (body i t)"
  shows "P n (fold body [0..<n] s)"
  using assms(2)
proof (induction n)
  case 0
  then show ?case by (simp add: assms(1))
next
  case (Suc n)
  have "P n (fold body [0..<n] s)"
    by (rule Suc.IH) (simp add: Suc.prems)
  then show ?case by (simp add: Suc.prems)
qed

lemma for_upto_invariant:
  assumes "P 0 s"
    and "\<And>i t. i < unat n \<Longrightarrow> P i t \<Longrightarrow> P (Suc i) (body (of_nat i) t)"
  shows "P (unat n) (for_upto n body s)"
  unfolding for_upto_def using assms by (rule fold_upt_invariant)

partial_function (option) for_range ::
  "u64 \<Rightarrow> u64 \<Rightarrow> u64 \<Rightarrow> (u64 \<Rightarrow> 's \<Rightarrow> 's) \<Rightarrow> 's \<Rightarrow> 's option" where
  "for_range a e stride body s =
     (if a < e then for_range (a + stride) e stride body (body a s) else Some s)"

declare for_range.simps [code]

text \<open>
  When the end is a whole number of strides away and below the top of the address space,
  the loop returns after exactly that many iterations.
\<close>

lemma for_range_fold:
  assumes "unat e = unat a + k * unat stride" and "0 < stride"
  shows "for_range a e stride body s =
     Some (fold (\<lambda>i. body (a + of_nat i * stride)) [0..<k] s)"
  using assms(1)
proof (induction k arbitrary: a s)
  case 0
  then have "\<not> a < e" by (simp add: word_less_unat)
  then show ?case by (simp add: for_range.simps)
next
  case (Suc k)
  have pos: "0 < unat stride"
    using assms(2) by (simp add: word_less_unat)
  have less: "a < e"
    using Suc.prems pos by (simp add: word_less_unat)
  have "unat a + unat stride \<le> unat e"
    using Suc.prems by simp
  then have "unat (a + stride) = unat a + unat stride"
    using unat_u64_less [of e] by (intro unat_add_small) linarith
  then have next_eq: "unat e = unat (a + stride) + k * unat stride"
    using Suc.prems by simp
  have "for_range a e stride body s = for_range (a + stride) e stride body (body a s)"
    using less by (subst for_range.simps) simp
  also have "\<dots> = Some (fold (\<lambda>i. body (a + stride + of_nat i * stride)) [0..<k] (body a s))"
    by (rule Suc.IH [OF next_eq])
  also have "fold (\<lambda>i. body (a + stride + of_nat i * stride)) [0..<k] (body a s)
      = fold (\<lambda>i. body (a + of_nat i * stride)) (map Suc [0..<k]) (body a s)"
    by (simp add: fold_map comp_def algebra_simps)
  also have "\<dots> = fold (\<lambda>i. body (a + of_nat i * stride)) [0..<Suc k] s"
    by (simp add: map_Suc_upt upt_rec [of 0 "Suc k"] del: upt_Suc)
  finally show ?case .
qed

end
