(* ===== verification/Klib_Memory.thy ===== *)
theory Klib_Memory
  imports Estella_Prelude
begin

text \<open>
  The byte memory and the routines of \<open>kernel/klib/memory.c\<close>.

  Memory is a total function from 64-bit virtual addresses to bytes, as the kernel sees it:
  physical memory appears at \<open>hhdm_offset\<close> plus its physical address.  A \<open>uint64_t\<close> in memory
  occupies eight bytes, lowest byte first.  The loops of \<open>memcpy\<close>, \<open>memset\<close>, \<open>memmove\<close> and
  \<open>memcmp\<close> are kept as loops; the lemmas give what they compute in one step.
\<close>

type_synonym memory = "u64 \<Rightarrow> u8"

section \<open>The routines of memory.c\<close>

definition memcpy :: "u64 \<Rightarrow> u64 \<Rightarrow> u64 \<Rightarrow> memory \<Rightarrow> memory" where
  "memcpy dest src n m = for_upto n (\<lambda>i m. m(dest + i := m (src + i))) m"

definition memset :: "u64 \<Rightarrow> u32 \<Rightarrow> u64 \<Rightarrow> memory \<Rightarrow> memory" where
  "memset s c n m = for_upto n (\<lambda>i m. m(s + i := ucast c)) m"

definition memmove :: "u64 \<Rightarrow> u64 \<Rightarrow> u64 \<Rightarrow> memory \<Rightarrow> memory" where
  "memmove dest src n m =
     (if src > dest then for_upto n (\<lambda>i m. m(dest + i := m (src + i))) m
      else if src < dest
      then fold (\<lambda>i m. m(dest + (of_nat i - 1) := m (src + (of_nat i - 1))))
             (rev [1..<Suc (unat n)]) m
      else m)"

text \<open>\<open>memcmp\<close> only reads; each pointer comes with the memory it points into.\<close>

fun memcmp_loop :: "memory \<Rightarrow> u64 \<Rightarrow> memory \<Rightarrow> u64 \<Rightarrow> nat list \<Rightarrow> int" where
  "memcmp_loop m1 s1 m2 s2 [] = 0"
| "memcmp_loop m1 s1 m2 s2 (i # is) =
     (if m1 (s1 + of_nat i) \<noteq> m2 (s2 + of_nat i)
      then (if m1 (s1 + of_nat i) < m2 (s2 + of_nat i) then - 1 else 1)
      else memcmp_loop m1 s1 m2 s2 is)"

definition memcmp :: "memory \<Rightarrow> u64 \<Rightarrow> memory \<Rightarrow> u64 \<Rightarrow> u64 \<Rightarrow> int" where
  "memcmp m1 s1 m2 s2 n = memcmp_loop m1 s1 m2 s2 [0..<unat n]"

section \<open>What the loops compute\<close>

text \<open>
  \<open>a - s < n\<close> on words says that \<open>a\<close> lies in the \<open>n\<close> bytes starting at \<open>s\<close>, also when they
  wrap around the top of the address space.
\<close>

abbreviation in_region :: "u64 \<Rightarrow> u64 \<Rightarrow> u64 \<Rightarrow> bool" where
  "in_region s n a \<equiv> a - s < n"

lemma offset_inj: "(s :: u64) + of_nat i = a \<longleftrightarrow> of_nat i = a - s"
  by (auto simp: algebra_simps)

lemma memset_fold:
  "k \<le> 18446744073709551616 \<Longrightarrow>
   fold (\<lambda>i (m :: memory). m(s + of_nat i := c)) [0..<k] m a =
     (if unat (a - s) < k then c else m a)"
proof (induction k)
  case 0
  then show ?case by simp
next
  case (Suc k)
  have "s + of_nat k = a \<longleftrightarrow> k = unat (a - s)"
    using Suc.prems unat_of_nat_small [of k] by (auto simp: offset_inj)
  then show ?case using Suc by auto
qed

lemma memset_apply [mem_simps]:
  "memset s c n m a = (if in_region s n a then ucast c else m a)"
  using memset_fold [of "unat n" s "ucast c" m a] unat_u64_less [of n]
  by (simp add: memset_def for_upto_def word_less_unat)

lemma copy_fold_forward:
  assumes "k \<le> 18446744073709551616"
    and "\<And>i j. j < i \<Longrightarrow> i < k \<Longrightarrow> src + of_nat i \<noteq> dest + (of_nat j :: u64)"
  shows "fold (\<lambda>i (m :: memory). m(dest + of_nat i := m (src + of_nat i))) [0..<k] m a =
     (if unat (a - dest) < k then m (src + (a - dest)) else m a)"
  using assms
proof (induction k arbitrary: a)
  case 0
  then show ?case by simp
next
  case (Suc k)
  define mk where "mk = fold (\<lambda>i (m :: memory). m(dest + of_nat i := m (src + of_nat i))) [0..<k] m"
  have IH: "mk b = (if unat (b - dest) < k then m (src + (b - dest)) else m b)" for b
    unfolding mk_def by (rule Suc.IH) (use Suc.prems in auto)
  have step: "fold (\<lambda>i (m :: memory). m(dest + of_nat i := m (src + of_nat i))) [0..<Suc k] m
      = mk(dest + of_nat k := mk (src + of_nat k))"
    by (simp add: mk_def)
  have keep: "mk (src + of_nat k) = m (src + of_nat k)"
  proof (cases "unat (src + of_nat k - dest) < k")
    case True
    have "src + of_nat k = dest + of_nat (unat (src + of_nat k - dest))"
      by simp
    with True Suc.prems(2) [of "unat (src + of_nat k - dest)" k] show ?thesis by simp
  next
    case False
    then show ?thesis by (simp only: IH if_False)
  qed
  have hit: "dest + of_nat k = a \<longleftrightarrow> k = unat (a - dest)"
    using Suc.prems(1) unat_of_nat_small [of k] by (auto simp: offset_inj)
  show ?case
  proof (cases "dest + of_nat k = a")
    case True
    then have "a - dest = of_nat k" by auto
    then show ?thesis unfolding step using True hit by (simp add: keep)
  next
    case False
    then show ?thesis unfolding step using hit by (auto simp: IH)
  qed
qed

lemma memcpy_apply [mem_simps]:
  assumes "\<And>i. i < n \<Longrightarrow> \<not> in_region dest n (src + i)"
  shows "memcpy dest src n m a =
     (if in_region dest n a then m (src + (a - dest)) else m a)"
proof -
  have "src + of_nat i \<noteq> dest + (of_nat j :: u64)" if "j < i" "i < unat n" for i j
  proof
    assume eq: "src + of_nat i = dest + (of_nat j :: u64)"
    have "i < 18446744073709551616" using that(2) unat_u64_less [of n] by simp
    then have "(of_nat i :: u64) < n" "(of_nat j :: u64) < n"
      using that by (simp_all add: word_less_unat unat_of_nat_small)
    with assms [of "of_nat i"] show False by (simp add: eq)
  qed
  then show ?thesis
    using copy_fold_forward [of "unat n" src dest m a] unat_u64_less [of n]
    by (simp add: memcpy_def for_upto_def word_less_unat)
qed

lemma copy_fold_backward:
  assumes "k \<le> 18446744073709551616"
    and "\<And>i j. j < i \<Longrightarrow> i < k \<Longrightarrow> src + of_nat j \<noteq> dest + (of_nat i :: u64)"
  shows "fold (\<lambda>i (m :: memory). m(dest + (of_nat i - 1) := m (src + (of_nat i - 1))))
       (rev [1..<Suc k]) m a =
     (if unat (a - dest) < k then m (src + (a - dest)) else m a)"
  using assms
proof (induction k arbitrary: m)
  case 0
  then show ?case by simp
next
  case (Suc k)
  define m1 where "m1 = m(dest + of_nat k := m (src + of_nat k))"
  have "fold (\<lambda>i (m :: memory). m(dest + (of_nat i - 1) := m (src + (of_nat i - 1))))
       (rev [1..<Suc (Suc k)]) m a
     = fold (\<lambda>i (m :: memory). m(dest + (of_nat i - 1) := m (src + (of_nat i - 1))))
       (rev [1..<Suc k]) m1 a"
    by (simp add: m1_def)
  also have "\<dots> = (if unat (a - dest) < k then m1 (src + (a - dest)) else m1 a)"
    by (rule Suc.IH) (use Suc.prems in auto)
  also have "\<dots> = (if unat (a - dest) < Suc k then m (src + (a - dest)) else m a)"
  proof (cases "unat (a - dest) < k")
    case True
    then have "src + of_nat (unat (a - dest)) \<noteq> dest + of_nat k"
      by (intro Suc.prems(2)) auto
    then show ?thesis using True by (simp add: m1_def)
  next
    case False
    have hit: "dest + of_nat k = a \<longleftrightarrow> k = unat (a - dest)"
      using Suc.prems(1) unat_of_nat_small [of k] by (auto simp: offset_inj)
    show ?thesis
    proof (cases "dest + of_nat k = a")
      case True
      then have "a - dest = of_nat k" by auto
      then show ?thesis using False True hit by (auto simp: m1_def)
    next
      case False
      then show ?thesis using \<open>\<not> unat (a - dest) < k\<close> hit by (auto simp: m1_def)
    qed
  qed
  finally show ?case .
qed

lemma offset_neq:
  assumes "unat (p :: u64) + i < 18446744073709551616"
    and "unat q + j < 18446744073709551616" and "unat p + i \<noteq> unat q + j"
  shows "p + of_nat i \<noteq> q + of_nat j"
proof
  assume "p + of_nat i = q + of_nat j"
  then have "unat (p + of_nat i) = unat (q + of_nat j)" by simp
  with assms show False
    by (simp add: unat_add_small unat_of_nat_small)
qed

theorem memmove_apply:
  assumes "unat src + unat n \<le> 18446744073709551616"
    and "unat dest + unat n \<le> 18446744073709551616"
  shows "memmove dest src n m a =
     (if in_region dest n a then m (src + (a - dest)) else m a)"
proof -
  have k: "unat n \<le> 18446744073709551616" using unat_u64_less [of n] by simp
  consider "src > dest" | "src < dest" | "src = dest" by (meson linorder_less_linear)
  then show ?thesis
  proof cases
    case 1
    have "src + of_nat i \<noteq> dest + (of_nat j :: u64)" if "j < i" "i < unat n" for i j
      by (rule offset_neq) (use 1 that assms in \<open>simp_all add: word_less_unat\<close>)
    from copy_fold_forward [OF k this] 1 show ?thesis
      by (simp add: memmove_def for_upto_def word_less_unat)
  next
    case 2
    have "src + of_nat j \<noteq> dest + (of_nat i :: u64)" if "j < i" "i < unat n" for i j
      by (rule offset_neq) (use 2 that assms in \<open>simp_all add: word_less_unat\<close>)
    from copy_fold_backward [OF k this] 2 show ?thesis
      by (simp add: memmove_def word_less_unat del: upt_Suc)
  next
    case 3
    then show ?thesis by (simp add: memmove_def)
  qed
qed

lemma memcmp_loop_zero:
  "memcmp_loop m1 s1 m2 s2 is = 0 \<longleftrightarrow> (\<forall>i\<in>set is. m1 (s1 + of_nat i) = m2 (s2 + of_nat i))"
  by (induction "is") auto

lemma memcmp_loop_less:
  assumes "sorted_wrt (<) is"
  shows "memcmp_loop m1 s1 m2 s2 is = - 1 \<longleftrightarrow>
    (\<exists>k\<in>set is. m1 (s1 + of_nat k) < m2 (s2 + of_nat k)
       \<and> (\<forall>i\<in>set is. i < k \<longrightarrow> m1 (s1 + of_nat i) = m2 (s2 + of_nat i)))"
  using assms
proof (induction "is")
  case Nil
  then show ?case by simp
next
  case (Cons j js)
  have later: "j < i" if "i \<in> set js" for i using Cons.prems that by simp
  show ?case
  proof (cases "m1 (s1 + of_nat j) = m2 (s2 + of_nat j)")
    case True
    then show ?thesis using Cons.IH Cons.prems by (simp add: ball_simps)
  next
    case False
    have "\<not> (\<exists>k\<in>set js. \<forall>i\<in>insert j (set js). i < k \<longrightarrow> m1 (s1 + of_nat i) = m2 (s2 + of_nat i))"
      using False later by blast
    moreover have "\<not> i < j" if "i \<in> set js" for i using later [OF that] by simp
    ultimately show ?thesis using False by auto
  qed
qed

section \<open>Little-endian loads and stores\<close>

text \<open>\<open>le_word\<close> joins bytes, lowest first; \<open>read64\<close> and \<open>write64\<close> are a \<open>uint64_t\<close> access.\<close>

definition le_word :: "u8 list \<Rightarrow> 'a::len word" where
  "le_word bs = foldr (\<lambda>b acc. ucast b OR push_bit 8 acc) bs 0"

definition read64 :: "memory \<Rightarrow> u64 \<Rightarrow> u64" where
  "read64 m a = le_word (map (\<lambda>i. m (a + of_nat i)) [0..<8])"

definition write64 :: "u64 \<Rightarrow> u64 \<Rightarrow> memory \<Rightarrow> memory" where
  "write64 a v m = (\<lambda>b. if b - a < 8 then ucast (drop_bit (8 * unat (b - a)) v) else m b)"

lemma bit_le_word:
  "bit (le_word bs :: 'a::len word) n \<longleftrightarrow>
     n < LENGTH('a) \<and> n div 8 < length bs \<and> bit (bs ! (n div 8)) (n mod 8)"
proof (induction bs arbitrary: n)
  case Nil
  then show ?case by (simp add: le_word_def)
next
  case (Cons b bs)
  have eq: "le_word (b # bs) = (ucast b OR push_bit 8 (le_word bs) :: 'a word)"
    by (simp add: le_word_def)
  show ?case
  proof (cases "n < 8")
    case True
    then have "n div 8 = 0" "n mod 8 = n" by simp_all
    with True show ?thesis by (auto simp: eq bit_or_iff bit_ucast_iff bit_push_bit_iff)
  next
    case False
    then obtain k where n: "n = k + 8" by (metis add.commute le_add_diff_inverse not_less)
    have "\<not> bit b (k + 8)" using bit_imp_le_length [of b "k + 8"] by auto
    moreover have "(k + 8) div 8 = Suc (k div 8)" by simp
    ultimately show ?thesis
      by (auto simp: n eq bit_or_iff bit_ucast_iff bit_push_bit_iff Cons.IH)
  qed
qed

lemma bit_read64:
  "bit (read64 m a) n \<longleftrightarrow> n < 64 \<and> bit (m (a + of_nat (n div 8))) (n mod 8)"
proof -
  have "length (map (\<lambda>i. m (a + of_nat i)) [0..<8]) = 8" by simp
  moreover have "n div 8 < 8 \<Longrightarrow>
      map (\<lambda>i. m (a + of_nat i)) [0..<8] ! (n div 8) = m (a + of_nat (n div 8))"
    by (simp del: upt_rec_numeral)
  moreover have "n < 64 \<longleftrightarrow> n div 8 < 8" by presburger
  ultimately show ?thesis unfolding read64_def bit_le_word by auto
qed

lemma read64_write64_same: "read64 (write64 a v m) a = v"
proof (rule bit_word_eqI)
  fix n assume "n < LENGTH(64)"
  then have n: "n < 64" by simp
  then have "n div 8 < 8" by simp
  then have "(of_nat (n div 8) :: u64) < 8" "unat (of_nat (n div 8) :: u64) = n div 8"
    by (simp_all add: word_less_unat unat_of_nat_small)
  then show "bit (read64 (write64 a v m) a) n = bit v n"
    using n by (simp add: bit_read64 write64_def bit_ucast_iff bit_drop_bit_eq)
qed

lemma read64_cong: "(\<And>i. i < 8 \<Longrightarrow> m (a + i) = m' (a + i)) \<Longrightarrow> read64 m a = read64 m' a"
  unfolding read64_def
  by (rule arg_cong [where f = le_word])
    (simp add: word_less_unat unat_of_nat_small del: upt_rec_numeral)

lemma write64_outside: "8 \<le> b - a \<Longrightarrow> write64 a v m b = m b"
  by (simp add: write64_def word_less_unat word_le_unat)

text \<open>
  Two regions that do not overlap: \<open>k\<close> bytes at \<open>a\<close> and \<open>j\<close> bytes at \<open>b\<close>.
\<close>

lemma regions_apart:
  fixes a b i :: u64
  assumes "k \<le> b - a" and "j \<le> a - b" and "i < j"
  shows "k \<le> b + i - a"
proof (cases "a = b")
  case True
  then show ?thesis using assms by (simp add: word_le_unat word_less_unat)
next
  case False
  have i: "unat i < unat (a - b)" using assms(2,3) by (simp add: word_le_unat word_less_unat)
  then have "unat (b - a) + unat i < 18446744073709551616"
    using unat_diff_sum [OF False] by linarith
  then have "unat (b - a + i) = unat (b - a) + unat i" by (rule unat_add_small)
  moreover have "b + i - a = b - a + i" by simp
  ultimately have "unat (b + i - a) = unat (b - a) + unat i" by (simp only:)
  then show ?thesis using assms(1) by (simp add: word_le_unat)
qed

lemma read64_write64_other:
  assumes "8 \<le> b - a" and "8 \<le> a - b"
  shows "read64 (write64 a v m) b = read64 m b"
  by (rule read64_cong, rule write64_outside, rule regions_apart [OF assms])

text \<open>\<open>uint32_t\<close> and \<open>uint16_t\<close> accesses.\<close>

definition read32 :: "memory \<Rightarrow> u64 \<Rightarrow> u32" where
  "read32 m a = le_word (map (\<lambda>i. m (a + of_nat i)) [0..<4])"

definition write32 :: "u64 \<Rightarrow> u32 \<Rightarrow> memory \<Rightarrow> memory" where
  "write32 a v m = (\<lambda>b. if b - a < 4 then ucast (drop_bit (8 * unat (b - a)) v) else m b)"

definition read16 :: "memory \<Rightarrow> u64 \<Rightarrow> u16" where
  "read16 m a = le_word (map (\<lambda>i. m (a + of_nat i)) [0..<2])"

lemma bit_read32:
  "bit (read32 m a) n \<longleftrightarrow> n < 32 \<and> bit (m (a + of_nat (n div 8))) (n mod 8)"
proof -
  have "length (map (\<lambda>i. m (a + of_nat i)) [0..<4]) = 4" by simp
  moreover have "n div 8 < 4 \<Longrightarrow>
      map (\<lambda>i. m (a + of_nat i)) [0..<4] ! (n div 8) = m (a + of_nat (n div 8))"
    by (simp del: upt_rec_numeral)
  moreover have "n < 32 \<longleftrightarrow> n div 8 < 4" by presburger
  ultimately show ?thesis unfolding read32_def bit_le_word by auto
qed

lemma read32_write32_same: "read32 (write32 a v m) a = v"
proof (rule bit_word_eqI)
  fix n assume "n < LENGTH(32)"
  then have n: "n < 32" by simp
  then have "n div 8 < 4" by simp
  then have "(of_nat (n div 8) :: u64) < 4" "unat (of_nat (n div 8) :: u64) = n div 8"
    by (simp_all add: word_less_unat unat_of_nat_small)
  then show "bit (read32 (write32 a v m) a) n = bit v n"
    using n by (simp add: bit_read32 write32_def bit_ucast_iff bit_drop_bit_eq)
qed

lemma read32_cong: "(\<And>i. i < 4 \<Longrightarrow> m (a + i) = m' (a + i)) \<Longrightarrow> read32 m a = read32 m' a"
  unfolding read32_def
  by (rule arg_cong [where f = le_word])
    (simp add: word_less_unat unat_of_nat_small del: upt_rec_numeral)

lemma read16_cong: "(\<And>i. i < 2 \<Longrightarrow> m (a + i) = m' (a + i)) \<Longrightarrow> read16 m a = read16 m' a"
  unfolding read16_def
  by (rule arg_cong [where f = le_word])
    (simp add: word_less_unat unat_of_nat_small del: upt_rec_numeral)

lemma write32_outside: "4 \<le> b - a \<Longrightarrow> write32 a v m b = m b"
  by (simp add: write32_def word_less_unat word_le_unat)

lemma read32_write32_other:
  assumes "4 \<le> b - a" and "4 \<le> a - b"
  shows "read32 (write32 a v m) b = read32 m b"
  by (rule read32_cong, rule write32_outside, rule regions_apart [OF assms])

lemma read32_write64_other:
  assumes "8 \<le> b - a" and "4 \<le> a - b"
  shows "read32 (write64 a v m) b = read32 m b"
  by (rule read32_cong, rule write64_outside, rule regions_apart [OF assms])

lemma read64_write32_other:
  assumes "4 \<le> b - a" and "8 \<le> a - b"
  shows "read64 (write32 a v m) b = read64 m b"
  by (rule read64_cong, rule write32_outside, rule regions_apart [OF assms])

end
