(* ===== verification/Klib_String.thy ===== *)
theory Klib_String
  imports Klib_Memory
begin

text \<open>
  The routines of \<open>kernel/klib/string.c\<close>.

  A C string is a byte sequence in memory that ends at the first zero byte; \<open>cstr m a bs\<close> says
  that \<open>bs\<close> is the string at address \<open>a\<close>.  The loops that search for the terminator have no
  bound, so \<open>strlen\<close>, \<open>strcat\<close> and \<open>strcmp\<close> are partial functions (\<open>None\<close>: the loop does not
  end); \<open>strncmp\<close> counts down and is total.  The number printers write into a buffer in memory.

  The comparison routines only read, and take each pointer together with the memory it points
  into: a string literal of the sources is a memory of its own, \<open>lit s\<close>, with the string at
  address 0.
\<close>

section \<open>The routines of string.c\<close>

partial_function (option) strlen_loop :: "memory \<Rightarrow> u64 \<Rightarrow> u64 \<Rightarrow> u64 option" where
  "strlen_loop m s len = (if m (s + len) \<noteq> 0 then strlen_loop m s (len + 1) else Some len)"

definition strlen :: "memory \<Rightarrow> u64 \<Rightarrow> u64 option" where
  "strlen m s = (if s = 0 then Some 0 else strlen_loop m s 0)"

partial_function (option) strcat_end :: "memory \<Rightarrow> u64 \<Rightarrow> u64 option" where
  "strcat_end m e = (if m e \<noteq> 0 then strcat_end m (e + 1) else Some e)"

partial_function (option) strcat_copy :: "u64 \<Rightarrow> u64 \<Rightarrow> memory \<Rightarrow> memory option" where
  "strcat_copy e src m =
     (if m src \<noteq> 0 then strcat_copy (e + 1) (src + 1) (m(e := m src)) else Some (m(e := 0)))"

definition strcat :: "u64 \<Rightarrow> u64 \<Rightarrow> memory \<Rightarrow> memory option" where
  "strcat dest src m = Option.bind (strcat_end m dest) (\<lambda>e. strcat_copy e src m)"

partial_function (option) strcmp :: "memory \<Rightarrow> u64 \<Rightarrow> memory \<Rightarrow> u64 \<Rightarrow> int option" where
  "strcmp m1 s1 m2 s2 =
     (if m1 s1 \<noteq> 0 \<and> m1 s1 = m2 s2 then strcmp m1 (s1 + 1) m2 (s2 + 1)
      else Some (uint (m1 s1) - uint (m2 s2)))"

function strncmp :: "memory \<Rightarrow> u64 \<Rightarrow> memory \<Rightarrow> u64 \<Rightarrow> u64 \<Rightarrow> int" where
  "strncmp m1 s1 m2 s2 n =
     (if n \<noteq> 0 \<and> m1 s1 \<noteq> 0 \<and> m1 s1 = m2 s2 then strncmp m1 (s1 + 1) m2 (s2 + 1) (n - 1)
      else if n = 0 then 0
      else uint (m1 s1) - uint (m2 s2))"
  by pat_completeness auto
termination
  by (relation "measure (\<lambda>(m1, s1, m2, s2, n). unat n)") (auto simp: unat_dec_small unat_gt_0)

declare strncmp.simps [simp del]

definition hex_digit :: "u64 \<Rightarrow> u8" where
  "hex_digit d = bytes ''0123456789ABCDEF'' ! unat d"

definition u64_to_hex :: "u64 \<Rightarrow> u64 \<Rightarrow> memory \<Rightarrow> memory" where
  "u64_to_hex value buffer m =
     (let m = m(buffer := of_char CHR ''0'');
          m = m(buffer + 1 := of_char CHR ''x'');
          m = fold (\<lambda>i m. m(buffer + (2 + of_nat i) :=
                    hex_digit (drop_bit ((15 - i) * 4) value AND 0xF))) [0..<16] m
      in m(buffer + 18 := 0))"

text \<open>
  \<open>u64_to_dec\<close> first collects the digits of the value, lowest first, in a local array of 21
  bytes and then writes them to the buffer in reverse.
\<close>

function u64_to_dec_temp :: "u64 \<Rightarrow> u8 list \<Rightarrow> u8 list" where
  "u64_to_dec_temp value temp =
     (if value > 0 \<and> length temp < 21
      then u64_to_dec_temp (value div 10) (temp @ [ucast (48 + value mod 10)])
      else temp)"
  by pat_completeness auto
termination
  by (relation "measure (\<lambda>(value, temp). 21 - length temp)") auto

declare u64_to_dec_temp.simps [simp del]

definition u64_to_dec_bytes :: "u64 \<Rightarrow> u8 list" where
  "u64_to_dec_bytes value =
     (if value = 0 then [of_char CHR ''0''] else rev (u64_to_dec_temp value []))"

fun store_bytes :: "u64 \<Rightarrow> u8 list \<Rightarrow> memory \<Rightarrow> memory" where
  "store_bytes a [] m = m"
| "store_bytes a (b # bs) m = store_bytes (a + 1) bs (m(a := b))"

definition u64_to_dec :: "u64 \<Rightarrow> u64 \<Rightarrow> memory \<Rightarrow> memory" where
  "u64_to_dec value buffer m = store_bytes buffer (u64_to_dec_bytes value @ [0]) m"

section \<open>Strings in memory\<close>

definition lit :: "string \<Rightarrow> memory" where
  "lit s a = (if unat a < length s then of_char (s ! unat a) else 0)"

primrec cstr :: "memory \<Rightarrow> u64 \<Rightarrow> u8 list \<Rightarrow> bool" where
  "cstr m a [] \<longleftrightarrow> m a = 0"
| "cstr m a (b # bs) \<longleftrightarrow> m a = b \<and> b \<noteq> 0 \<and> cstr m (a + 1) bs"

lemma strlen_loop_cstr:
  "cstr m (s + len) bs \<Longrightarrow> strlen_loop m s len = Some (len + of_nat (length bs))"
proof (induction bs arbitrary: len)
  case Nil
  then show ?case by (simp add: strlen_loop.simps)
next
  case (Cons b bs)
  then have "cstr m (s + (len + 1)) bs" by (simp add: algebra_simps)
  then have "strlen_loop m s (len + 1) = Some (len + 1 + of_nat (length bs))"
    by (rule Cons.IH)
  with Cons.prems show ?case
    by (subst strlen_loop.simps) (simp add: algebra_simps)
qed

lemma strlen_cstr:
  "s \<noteq> 0 \<Longrightarrow> cstr m s bs \<Longrightarrow> strlen m s = Some (of_nat (length bs))"
  using strlen_loop_cstr [of m s 0 bs] by (simp add: strlen_def)

text \<open>The order \<open>strcmp\<close> decides: the difference at the first place the strings differ.\<close>

fun cmp_bytes :: "u8 list \<Rightarrow> u8 list \<Rightarrow> int" where
  "cmp_bytes (x # xs) (y # ys) = (if x = y then cmp_bytes xs ys else uint x - uint y)"
| "cmp_bytes [] (y # ys) = - uint y"
| "cmp_bytes (x # xs) [] = uint x"
| "cmp_bytes [] [] = 0"

lemma strcmp_cstr:
  "cstr m1 a xs \<Longrightarrow> cstr m2 b ys \<Longrightarrow> strcmp m1 a m2 b = Some (cmp_bytes xs ys)"
proof (induction xs ys arbitrary: a b rule: cmp_bytes.induct)
  case (1 x xs y ys)
  then show ?case by (subst strcmp.simps) auto
qed (subst strcmp.simps; auto)+

lemma cmp_bytes_zero:
  "0 \<notin> set xs \<Longrightarrow> 0 \<notin> set ys \<Longrightarrow> cmp_bytes xs ys = 0 \<longleftrightarrow> xs = ys"
  by (induction xs ys rule: cmp_bytes.induct) (auto simp: uint_0_iff unsigned_word_eqI)

lemma cmp_bytes_less:
  "0 \<notin> set xs \<Longrightarrow> 0 \<notin> set ys \<Longrightarrow>
   cmp_bytes xs ys < 0 \<longleftrightarrow> (xs, ys) \<in> lexord {(x, y). x < y}"
proof (induction xs ys rule: cmp_bytes.induct)
  case (2 y ys)
  then have "0 < uint y" by (metis list.set_intros(1) uint_0_iff uint_lt_0 linorder_less_linear)
  then show ?case by simp
qed (auto simp: word_less_def)

lemma cstr_no_zero: "cstr m a bs \<Longrightarrow> 0 \<notin> set bs"
  by (induction bs arbitrary: a) auto

lemma store_bytes_apply:
  "length bs \<le> 18446744073709551616 \<Longrightarrow>
   store_bytes a bs m x = (if unat (x - a) < length bs then bs ! unat (x - a) else m x)"
proof (induction bs arbitrary: a m)
  case Nil
  then show ?case by simp
next
  case (Cons b bs)
  show ?case
  proof (cases "x = a")
    case True
    have "unat (x - (a + 1)) = 18446744073709551615"
      using True unsigned_minus_1_eq_mask [where 'a = nat and 'b = 64] by (simp add: mask_eq_exp_minus_1)
    then have "\<not> unat (x - (a + 1)) < length bs" using Cons.prems by simp
    then show ?thesis using Cons True by simp
  next
    case False
    then have nz: "x - a \<noteq> 0" by simp
    have "x - (a + 1) = (x - a) - 1" by simp
    then have "unat (x - (a + 1)) = unat (x - a) - 1" using unat_dec_small [OF nz] by (simp only:)
    moreover have "0 < unat (x - a)" using nz by (simp add: unat_gt_0)
    ultimately show ?thesis using Cons False by (auto simp: nth_Cons')
  qed
qed

lemma cstr_store_bytes:
  assumes "length bs < 18446744073709551616" and "0 \<notin> set bs"
  shows "cstr (store_bytes a (bs @ [0]) m) a bs"
proof -
  have gen: "cstr m' (a + of_nat k) (drop k bs)"
    if "m' = store_bytes a (bs @ [0]) m" "k \<le> length bs" for k m'
    using that(2)
  proof (induction "length bs - k" arbitrary: k)
    case 0
    have "m' (a + of_nat (length bs)) = 0"
      using assms(1) by (simp add: that(1) store_bytes_apply unat_of_nat_small nth_append)
    then show ?case using 0 by simp
  next
    case (Suc d)
    then have k: "k < length bs" by simp
    then have "m' (a + of_nat k) = bs ! k"
      using assms(1) by (simp add: that(1) store_bytes_apply unat_of_nat_small nth_append)
    moreover have "bs ! k \<noteq> 0" using assms(2) k by (metis nth_mem)
    moreover have "cstr m' (a + of_nat (Suc k)) (drop (Suc k) bs)"
      by (rule Suc.hyps) (use Suc in auto)
    ultimately show ?case
      using k by (simp add: Cons_nth_drop_Suc [symmetric] algebra_simps)
  qed
  show ?thesis using gen [OF refl, of 0] by simp
qed

section \<open>Decimal and hexadecimal output\<close>

definition dec_value :: "u8 list \<Rightarrow> nat" where
  "dec_value bs = foldl (\<lambda>acc b. 10 * acc + (unat b - 48)) 0 bs"

definition is_digit :: "u8 \<Rightarrow> bool" where
  "is_digit b \<longleftrightarrow> 48 \<le> unat b \<and> unat b \<le> 57"

primrec le_dec :: "u8 list \<Rightarrow> nat" where
  "le_dec [] = 0"
| "le_dec (b # bs) = (unat b - 48) + 10 * le_dec bs"

lemma dec_value_rev: "dec_value (rev bs) = le_dec bs"
proof -
  have "dec_value (rev bs) = foldr (\<lambda>b acc. 10 * acc + (unat b - 48)) bs 0"
    by (simp add: dec_value_def foldl_conv_foldr)
  also have "\<dots> = le_dec bs" by (induction bs) auto
  finally show ?thesis .
qed

lemma digit_byte: "unat (ucast (48 + v mod 10 :: u64) :: u8) = 48 + unat v mod 10"
proof -
  have m: "unat (v mod 10) = unat v mod 10" by (simp add: unat_mod_u64)
  have "unat (48 + v mod 10) = 48 + unat v mod 10"
    using m unat_add_small [of 48 "v mod 10"] by simp
  then show ?thesis by (simp add: unsigned_ucast_eq take_bit_nat_eq_self)
qed

lemma u64_to_dec_temp_spec:
  assumes "unat v < 10 ^ (21 - length temp)"
  shows "\<exists>ds. u64_to_dec_temp v temp = temp @ ds \<and> le_dec ds = unat v
     \<and> (\<forall>b\<in>set ds. is_digit b) \<and> (v \<noteq> 0 \<longrightarrow> ds \<noteq> [] \<and> last ds \<noteq> 48)
     \<and> (\<forall>k. unat v < 10 ^ k \<longrightarrow> length ds \<le> k)"
  using assms
proof (induction v temp rule: u64_to_dec_temp.induct)
  case (1 v temp)
  let ?d = "ucast (48 + v mod 10) :: u8"
  show ?case
  proof (cases "v = 0")
    case True
    then show ?thesis by (subst u64_to_dec_temp.simps) auto
  next
    case False
    then have pos: "0 < unat v" by (simp add: unat_gt_0)
    obtain j where j: "21 - length temp = Suc j"
      using "1.prems" pos by (cases "21 - length temp") auto
    then have len: "length temp < 21" by simp
    have "unat v < 10 * 10 ^ j" using "1.prems" unfolding j by simp
    then have small: "unat (v div 10) < 10 ^ (21 - length (temp @ [?d]))"
    proof -
      have "21 - length (temp @ [?d]) = j" using j by simp
      moreover have "unat v div 10 < 10 ^ j"
        using \<open>unat v < 10 * 10 ^ j\<close> by (simp add: less_mult_imp_div_less mult.commute)
      ultimately show ?thesis by (simp only: unat_div_u64) simp
    qed
    have guard: "v > 0 \<and> length temp < 21" using False len by (simp add: word_gt_0)
    from "1.IH" [OF guard small] obtain ds where
      ds: "u64_to_dec_temp (v div 10) (temp @ [?d]) = temp @ [?d] @ ds"
        "le_dec ds = unat (v div 10)" "\<forall>b\<in>set ds. is_digit b"
        "v div 10 \<noteq> 0 \<longrightarrow> ds \<noteq> [] \<and> last ds \<noteq> 48"
        "\<forall>k. unat (v div 10) < 10 ^ k \<longrightarrow> length ds \<le> k"
      by auto
    have unfold: "u64_to_dec_temp v temp = temp @ (?d # ds)"
      using guard ds(1) by (subst u64_to_dec_temp.simps) simp
    have d: "unat ?d = 48 + unat v mod 10" by (rule digit_byte)
    have val: "le_dec (?d # ds) = unat v"
      using ds(2) d by (simp add: unat_div_u64)
    have dig: "\<forall>b\<in>set (?d # ds). is_digit b"
      using ds(3) d by (auto simp: is_digit_def)
    have lst: "last (?d # ds) \<noteq> 48"
    proof (cases "v div 10 = 0")
      case True
      then have "unat v div 10 = 0" using unat_div_u64 [of v 10] by simp
      then have "unat v mod 10 \<noteq> 0" using pos by (simp add: div_eq_0_iff)
      moreover have "ds = []"
        using ds(5) True by (auto dest!: spec [of _ 0])
      moreover have "unat ?d \<noteq> unat (48 :: u8)" using d calculation by simp
      ultimately show ?thesis by auto
    next
      case nz: False
      then show ?thesis using ds(4) by simp
    qed
    have bnd: "length (?d # ds) \<le> k" if "unat v < 10 ^ k" for k
    proof (cases k)
      case 0
      then show ?thesis using that pos by simp
    next
      case (Suc j)
      then have "unat (v div 10) < 10 ^ j" using that by (simp add: unat_div_u64)
      then show ?thesis using ds(5) Suc by simp
    qed
    show ?thesis
    proof (rule exI [of _ "?d # ds"], intro conjI impI allI)
      show "u64_to_dec_temp v temp = temp @ (?d # ds)" by (rule unfold)
      show "le_dec (?d # ds) = unat v" by (rule val)
      show "\<forall>b\<in>set (?d # ds). is_digit b" by (rule dig)
      show "?d # ds \<noteq> []" by simp
      show "last (?d # ds) \<noteq> 48" by (rule lst)
      show "length (?d # ds) \<le> k" if "unat v < 10 ^ k" for k using that by (rule bnd)
    qed
  qed
qed

lemma u64_to_dec_bytes_spec:
  "dec_value (u64_to_dec_bytes v) = unat v \<and> (\<forall>b\<in>set (u64_to_dec_bytes v). is_digit b)
   \<and> (v \<noteq> 0 \<longrightarrow> hd (u64_to_dec_bytes v) \<noteq> 48)
   \<and> 1 \<le> length (u64_to_dec_bytes v) \<and> length (u64_to_dec_bytes v) \<le> 20"
proof (cases "v = 0")
  case True
  then show ?thesis by (simp add: u64_to_dec_bytes_def dec_value_def is_digit_def)
next
  case False
  have big: "unat v < 10 ^ 20" using unat_u64_less [of v] by simp
  then have "unat v < 10 ^ (21 - length ([] :: u8 list))" by simp
  from u64_to_dec_temp_spec [OF this] obtain ds where
    ds: "u64_to_dec_temp v [] = ds" "le_dec ds = unat v" "\<forall>b\<in>set ds. is_digit b"
      "ds \<noteq> []" "last ds \<noteq> 48" "\<forall>k. unat v < 10 ^ k \<longrightarrow> length ds \<le> k"
    using False by auto
  have eq: "u64_to_dec_bytes v = rev ds" using False ds(1) by (simp add: u64_to_dec_bytes_def)
  have "length ds \<le> 20" using ds(6) big by blast
  then show ?thesis
    unfolding eq dec_value_rev using ds(2-5) by (simp add: hd_rev Suc_le_eq)
qed

lemma is_digit_nonzero: "is_digit b \<Longrightarrow> b \<noteq> 0"
  by (auto simp: is_digit_def)

theorem u64_to_dec_correct:
  "\<exists>ds. cstr (u64_to_dec v buffer m) buffer ds \<and> dec_value ds = unat v
     \<and> (\<forall>b\<in>set ds. is_digit b) \<and> (hd ds = 48 \<longrightarrow> v = 0) \<and> length ds \<le> 20
     \<and> (\<forall>a. \<not> in_region buffer 21 a \<longrightarrow> u64_to_dec v buffer m a = m a)"
proof (intro exI [of _ "u64_to_dec_bytes v"] conjI)
  note spec = u64_to_dec_bytes_spec [of v]
  have nz: "0 \<notin> set (u64_to_dec_bytes v)" using spec is_digit_nonzero by blast
  show "cstr (u64_to_dec v buffer m) buffer (u64_to_dec_bytes v)"
    unfolding u64_to_dec_def using spec nz by (intro cstr_store_bytes) auto
  show "\<forall>a. \<not> in_region buffer 21 a \<longrightarrow> u64_to_dec v buffer m a = m a"
    using spec by (auto simp: u64_to_dec_def store_bytes_apply word_less_unat)
qed (use u64_to_dec_bytes_spec [of v] in auto)

definition nibble :: "u8 \<Rightarrow> nat" where
  "nibble b = (if unat b \<le> 57 then unat b - 48 else unat b - 55)"

definition hex_value :: "u8 list \<Rightarrow> nat" where
  "hex_value bs = foldl (\<lambda>acc b. 16 * acc + nibble b) 0 bs"

definition u64_to_hex_digits :: "u64 \<Rightarrow> u8 list" where
  "u64_to_hex_digits v = map (\<lambda>i. hex_digit (drop_bit ((15 - i) * 4) v AND 0xF)) [0..<16]"

lemma hex_digit_table:
  assumes "d < 16"
  shows "nibble (hex_digit (of_nat d)) = d \<and> hex_digit (of_nat d) \<noteq> 0"
proof -
  have "list_all (\<lambda>d. nibble (hex_digit (of_nat d)) = d \<and> hex_digit (of_nat d) \<noteq> 0) [0..<16]"
    by (simp add: upt_rec hex_digit_def nibble_def)
  then show ?thesis using assms by (simp add: list_all_iff del: upt_rec_numeral)
qed

lemma nibble_at: "unat (drop_bit k v AND 0xF :: u64) = unat v div 2 ^ k mod 16"
proof -
  have "drop_bit k v AND 0xF = take_bit 4 (drop_bit k v)"
    by (simp add: take_bit_eq_mask mask_numeral)
  then have "unat (drop_bit k v AND 0xF) = take_bit 4 (drop_bit k (unat v))"
    by (simp only: unsigned_take_bit_eq unat_drop_bit_eq)
  also have "\<dots> = unat v div 2 ^ k mod 16"
    by (simp add: drop_bit_eq_div take_bit_eq_mod)
  finally show ?thesis .
qed

lemma hex_value_prefix:
  "k \<le> 16 \<Longrightarrow>
   foldl (\<lambda>acc b. 16 * acc + nibble b) 0
     (map (\<lambda>i. hex_digit (drop_bit ((15 - i) * 4) v AND 0xF)) [0..<k])
   = unat v div 2 ^ ((16 - k) * 4)"
proof (induction k)
  case 0
  then show ?case using unat_u64_less [of v] by simp
next
  case (Suc k)
  let ?q = "unat v div 2 ^ ((15 - k) * 4)"
  have "(16 - k) * 4 = (15 - k) * 4 + 4" using Suc.prems by simp
  then have up: "unat v div 2 ^ ((16 - k) * 4) = ?q div 16"
    by (simp only: power_add div_mult2_eq) simp
  have "drop_bit ((15 - k) * 4) v AND 0xF = of_nat (?q mod 16)"
    by (simp add: word_eq_unat nibble_at unat_of_nat_small)
  then have "nibble (hex_digit (drop_bit ((15 - k) * 4) v AND 0xF)) = ?q mod 16"
    using hex_digit_table [of "?q mod 16"] by simp
  then show ?case using Suc up by simp
qed
lemma u64_to_hex_digits_nonzero: "0 \<notin> set (u64_to_hex_digits v)"
proof -
  have "hex_digit (drop_bit k v AND 0xF) \<noteq> 0" for k
    using hex_digit_table [of "unat v div 2 ^ k mod 16"] nibble_at [of k v]
    by (metis mod_less_divisor of_nat_unat_u64 zero_less_numeral)
  then show ?thesis by (auto simp: u64_to_hex_digits_def simp del: upt_rec_numeral)
qed

lemma u64_to_hex_store:
  "u64_to_hex v buffer m = store_bytes buffer ((bytes ''0x'' @ u64_to_hex_digits v) @ [0]) m"
  by (simp add: u64_to_hex_def u64_to_hex_digits_def Let_def upt_rec add.assoc)

theorem u64_to_hex_correct:
  "cstr (u64_to_hex v buffer m) buffer (bytes ''0x'' @ u64_to_hex_digits v)
   \<and> length (u64_to_hex_digits v) = 16 \<and> hex_value (u64_to_hex_digits v) = unat v
   \<and> (\<forall>a. \<not> in_region buffer 19 a \<longrightarrow> u64_to_hex v buffer m a = m a)"
proof -
  have len: "length (u64_to_hex_digits v) = 16" by (simp add: u64_to_hex_digits_def)
  have "cstr (u64_to_hex v buffer m) buffer (bytes ''0x'' @ u64_to_hex_digits v)"
    unfolding u64_to_hex_store
    using u64_to_hex_digits_nonzero len by (intro cstr_store_bytes) auto
  moreover have "hex_value (u64_to_hex_digits v) = unat v"
    using hex_value_prefix [of 16 v] by (simp add: hex_value_def u64_to_hex_digits_def del: upt_rec_numeral)
  moreover have "u64_to_hex v buffer m a = m a" if "\<not> in_region buffer 19 a" for a
    unfolding u64_to_hex_store
    by (subst store_bytes_apply) (use that len in \<open>auto simp: word_less_unat\<close>)
  ultimately show ?thesis using len by blast
qed

section \<open>Concatenation and bounded comparison\<close>

lemma cstr_upd_outside:
  "(\<And>i. i \<le> length bs \<Longrightarrow> a + of_nat i \<noteq> x) \<Longrightarrow> cstr (m(x := v)) a bs = cstr m a bs"
proof (induction bs arbitrary: a)
  case Nil
  then show ?case using Nil [of 0] by simp
next
  case (Cons b bs)
  have "a + 1 + of_nat i \<noteq> x" if "i \<le> length bs" for i
    using Cons.prems [of "Suc i"] that by (simp add: algebra_simps)
  then have "cstr (m(x := v)) (a + 1) bs = cstr m (a + 1) bs" by (rule Cons.IH)
  then show ?case using Cons.prems [of 0] by (simp add: fun_upd_other del: fun_upd_apply)
qed

lemma strcat_end_cstr: "cstr m d xs \<Longrightarrow> strcat_end m d = Some (d + of_nat (length xs))"
  by (induction xs arbitrary: d) (simp_all add: strcat_end.simps algebra_simps)

lemma strcat_copy_cstr:
  assumes "cstr m src ys"
    and "\<And>i j. i \<le> length ys \<Longrightarrow> j \<le> length ys \<Longrightarrow> src + of_nat i \<noteq> e + (of_nat j :: u64)"
  shows "strcat_copy e src m = Some (store_bytes e (ys @ [0]) m)"
  using assms
proof (induction ys arbitrary: e src m)
  case Nil
  then show ?case by (simp add: strcat_copy.simps del: fun_upd_apply)
next
  case (Cons y ys)
  have apart: "src + 1 + of_nat i \<noteq> e + 1 + (of_nat j :: u64)"
    if "i \<le> length ys" "j \<le> length ys" for i j
    using Cons.prems(2) [of "Suc i" "Suc j"] that by (simp add: algebra_simps)
  have "src + 1 + of_nat i \<noteq> e" if "i \<le> length ys" for i
    using Cons.prems(2) [of "Suc i" 0] that by (simp add: algebra_simps)
  then have "cstr (m(e := y)) (src + 1) ys"
    using Cons.prems(1) by (simp add: cstr_upd_outside)
  from Cons.IH [OF this apart] Cons.prems(1) show ?case
    by (subst strcat_copy.simps) (simp del: fun_upd_apply)
qed

lemma cstr_append:
  "cstr m a (xs @ ys) \<longleftrightarrow>
     (\<forall>i<length xs. m (a + of_nat i) = xs ! i \<and> xs ! i \<noteq> 0) \<and> cstr m (a + of_nat (length xs)) ys"
proof (induction xs arbitrary: a)
  case Nil
  then show ?case by simp
next
  case (Cons x xs)
  show ?case by (simp add: Cons.IH All_less_Suc2 add.assoc)
qed

lemma cstr_nth: "cstr m a xs \<Longrightarrow> i < length xs \<Longrightarrow> m (a + of_nat i) = xs ! i \<and> xs ! i \<noteq> 0"
  using cstr_append [of m a xs "[]"] cstr_append [of m a "[]" xs] cstr_append
  by (metis append_Nil2 append_take_drop_id cstr_append)

theorem strcat_appends:
  assumes "cstr m dest xs" and "cstr m src ys"
    and "length xs + length ys < 18446744073709551616"
    and "\<And>i j. i \<le> length ys \<Longrightarrow> j \<le> length xs + length ys \<Longrightarrow>
           src + of_nat i \<noteq> dest + (of_nat j :: u64)"
  shows "\<exists>m'. strcat dest src m = Some m' \<and> cstr m' dest (xs @ ys)
     \<and> (\<forall>a. \<not> unat (a - (dest + of_nat (length xs))) \<le> length ys \<longrightarrow> m' a = m a)"
proof -
  let ?e = "dest + of_nat (length xs) :: u64"
  let ?m = "store_bytes ?e (ys @ [0]) m"
  have "src + of_nat i \<noteq> ?e + of_nat j" if "i \<le> length ys" "j \<le> length ys" for i j
    using assms(4) [of i "length xs + j"] that by (simp add: add.assoc)
  then have copy: "strcat_copy ?e src m = Some ?m"
    using strcat_copy_cstr [OF assms(2)] by blast
  have "0 \<notin> set ys" using assms(2) by (rule cstr_no_zero)
  then have tail: "cstr ?m ?e ys"
    using assms(3) by (intro cstr_store_bytes) auto
  have keep: "?m a = m a" if "\<not> unat (a - ?e) \<le> length ys" for a
    using that assms(3) by (subst store_bytes_apply) auto
  have "?m (dest + of_nat i) = xs ! i \<and> xs ! i \<noteq> 0" if i: "i < length xs" for i
  proof -
    define d where "d = length xs - i"
    have d: "0 < d" "d + length ys < 18446744073709551616" using i assms(3) by (simp_all add: d_def)
    have eq: "dest + of_nat i - ?e = - of_nat d" using i by (simp add: d_def of_nat_diff)
    have "unat (- (of_nat d) :: u64) = 18446744073709551616 - d"
      using d unat_diff_sum [of 0 "of_nat d"] by (simp add: unat_of_nat_small word_eq_unat)
    then have "\<not> unat (dest + of_nat i - ?e) \<le> length ys" unfolding eq using d by simp
    then show ?thesis using keep cstr_nth [OF assms(1) i] by simp
  qed
  then have "cstr ?m dest (xs @ ys)" using tail by (simp add: cstr_append)
  with copy keep strcat_end_cstr [OF assms(1)] show ?thesis
    by (simp add: strcat_def)
qed

lemma strncmp_cstr:
  "cstr m1 a xs \<Longrightarrow> cstr m2 b ys \<Longrightarrow>
   strncmp m1 a m2 b n = cmp_bytes (take (unat n) xs) (take (unat n) ys)"
proof (induction xs ys arbitrary: a b n rule: cmp_bytes.induct)
  case (1 x xs y ys)
  show ?case
  proof (cases "n = 0")
    case True
    then show ?thesis by (subst strncmp.simps) simp
  next
    case False
    then obtain k where k: "unat n = Suc k" by (metis not0_implies_Suc unat_zero_iff)
    then have "unat (n - 1) = k" using unat_dec_small [OF False] by simp
    then show ?thesis using "1.IH" [of "a + 1" "b + 1" "n - 1"] "1.prems" False k
      by (subst strncmp.simps) auto
  qed
next
  case (2 y ys)
  then show ?case by (subst strncmp.simps) (cases "unat n"; auto simp: unat_zero_iff)
next
  case (3 x xs)
  then show ?case by (subst strncmp.simps) (cases "unat n"; auto simp: unat_zero_iff)
next
  case 4
  then show ?case by (subst strncmp.simps) simp
qed

lemma cstr_lit:
  assumes "length s < 18446744073709551616" and "0 \<notin> set (bytes s)"
  shows "cstr (lit s) 0 (bytes s)"
proof -
  have "cstr (lit s) (of_nat k) (drop k (bytes s))" if "k \<le> length s" for k
    using that
  proof (induction "length s - k" arbitrary: k)
    case 0
    then show ?case using assms(1) by (simp add: lit_def unat_of_nat_small bytes_def)
  next
    case (Suc d)
    then have k: "k < length s" by simp
    then have "lit s (of_nat k) = bytes s ! k"
      using assms(1) by (simp add: lit_def unat_of_nat_small bytes_def)
    moreover have "bytes s ! k \<noteq> 0"
      using assms(2) k nth_mem [of k "bytes s"] by (metis bytes_def length_map)
    moreover have "cstr (lit s) (of_nat (Suc k)) (drop (Suc k) (bytes s))"
      by (rule Suc.hyps) (use Suc in auto)
    ultimately show ?case
      using k by (simp add: Cons_nth_drop_Suc [symmetric] bytes_def add.commute)
  qed
  from this [of 0] show ?thesis by simp
qed

end
