(* ===== verification/Serial.thy ===== *)
theory Serial
  imports Klib_String
begin

text \<open>
  The machine state the kernel components share, and the serial driver
  \<open>kernel/drivers/serial.c\<close>.

  \<open>machine\<close> holds the byte memory and the trace of port writes.  The UART is a device outside
  the sources: the values the driver reads from its line status register are the parameter
  \<open>lsr\<close>, a function of the number of reads made so far.  \<open>serial_putc\<close> polls that register, so
  it is partial; \<open>serial_log\<close> is the effect of a \<open>serial_puts\<close> call that returns, which is how
  the other components mention the call.  \<open>serial_puts_log\<close> connects the two.
\<close>

record machine =
  mem :: memory
  port_out :: "(u16 \<times> u8) list"

abbreviation COM1_PORT :: u16 where
  "COM1_PORT \<equiv> 0x3F8"

definition outb :: "u16 \<Rightarrow> u8 \<Rightarrow> 'a machine_scheme \<Rightarrow> 'a machine_scheme" where
  "outb port val s = s\<lparr>port_out := port_out s @ [(port, val)]\<rparr>"

definition serial_init :: "'a machine_scheme \<Rightarrow> 'a machine_scheme" where
  "serial_init s =
     (let s = outb (COM1_PORT + 1) 0x00 s;
          s = outb (COM1_PORT + 3) 0x80 s;
          s = outb (COM1_PORT + 0) 0x03 s;
          s = outb (COM1_PORT + 1) 0x00 s;
          s = outb (COM1_PORT + 3) 0x03 s;
          s = outb (COM1_PORT + 2) 0xC7 s
      in outb (COM1_PORT + 4) 0x0B s)"

text \<open>The polling loop: it returns the number of status reads made when the UART was ready.\<close>

partial_function (option) serial_wait :: "(nat \<Rightarrow> u8) \<Rightarrow> nat \<Rightarrow> nat option" where
  "serial_wait lsr n = (if lsr n AND 0x20 = 0 then serial_wait lsr (Suc n) else Some (Suc n))"

definition serial_putc ::
  "(nat \<Rightarrow> u8) \<Rightarrow> u8 \<Rightarrow> nat \<times> 'a machine_scheme \<Rightarrow> (nat \<times> 'a machine_scheme) option" where
  "serial_putc lsr c ns =
     (case ns of (n, s) \<Rightarrow>
        Option.bind (serial_wait lsr n) (\<lambda>n'. Some (n', outb COM1_PORT c s)))"

fun serial_puts ::
  "(nat \<Rightarrow> u8) \<Rightarrow> u8 list \<Rightarrow> nat \<times> 'a machine_scheme \<Rightarrow> (nat \<times> 'a machine_scheme) option" where
  "serial_puts lsr [] ns = Some ns"
| "serial_puts lsr (c # cs) ns =
     Option.bind (if c = of_char CHR ''\<newline>'' then serial_putc lsr 13 ns else Some ns)
       (\<lambda>ns. Option.bind (serial_putc lsr c ns) (serial_puts lsr cs))"

section \<open>What the driver sends\<close>

text \<open>Every newline is preceded by a carriage return.\<close>

fun crlf :: "u8 list \<Rightarrow> u8 list" where
  "crlf [] = []"
| "crlf (c # cs) = (if c = 10 then [13, 10] else [c]) @ crlf cs"

definition serial_log :: "u8 list \<Rightarrow> 'a machine_scheme \<Rightarrow> 'a machine_scheme" where
  "serial_log str s = s\<lparr>port_out := port_out s @ map (Pair COM1_PORT) (crlf str)\<rparr>"

lemma serial_log_mem [simp]: "mem (serial_log str s) = mem s"
  by (simp add: serial_log_def)

lemma serial_wait_returns:
  assumes "n \<le> k" and "lsr k AND 0x20 \<noteq> 0"
  shows "\<exists>n'. serial_wait lsr n = Some n'"
  using assms(1)
proof (induction "k - n" arbitrary: n)
  case 0
  then show ?case using assms(2) by (subst serial_wait.simps) auto
next
  case (Suc d)
  then have "\<exists>n'. serial_wait lsr (Suc n) = Some n'" by auto
  then show ?case by (subst serial_wait.simps) auto
qed

lemma serial_putc_returns:
  assumes "\<And>n. \<exists>k\<ge>n. lsr k AND 0x20 \<noteq> 0"
  shows "\<exists>n'. serial_putc lsr c (n, s) = Some (n', outb COM1_PORT c s)"
proof -
  obtain k where "n \<le> k" "lsr k AND 0x20 \<noteq> 0" using assms [of n] by blast
  then show ?thesis using serial_wait_returns [of n k lsr] by (auto simp: serial_putc_def)
qed

lemma serial_puts_log:
  assumes ready: "\<And>n. \<exists>k\<ge>n. lsr k AND 0x20 \<noteq> 0"
  shows "\<exists>n'. serial_puts lsr str (n, s) = Some (n', serial_log str s)"
proof (induction str arbitrary: n s)
  case Nil
  then show ?case by (simp add: serial_log_def)
next
  case (Cons c cs)
  obtain n1 s1 where first: "(if c = of_char CHR ''\<newline>'' then serial_putc lsr 13 (n, s)
      else Some (n, s)) = Some (n1, s1)"
    and s1: "s1 = (if c = 10 then outb COM1_PORT 13 s else s)"
    using serial_putc_returns [OF ready, of 13 n s] by (cases "c = 10") auto
  obtain n2 where second: "serial_putc lsr c (n1, s1) = Some (n2, outb COM1_PORT c s1)"
    using serial_putc_returns [OF ready] by blast
  obtain n3 where rest:
    "serial_puts lsr cs (n2, outb COM1_PORT c s1) = Some (n3, serial_log cs (outb COM1_PORT c s1))"
    using Cons.IH by blast
  have "serial_log cs (outb COM1_PORT c s1) = serial_log (c # cs) s"
    by (simp add: s1 serial_log_def outb_def)
  then show ?case using first second rest by simp
qed

end
