(* ===== verification/Pmm.thy ===== *)
theory Pmm
  imports Serial
begin

text \<open>
  The physical memory manager, \<open>kernel/mm/pmm.c\<close>: one bit per 4 KiB frame, set when the frame is
  in use, and a next-fit search for runs of free frames.

  The static variables of the file are the fields of \<open>pmm_state\<close>; the bitmap itself lies in the
  memory of \<open>machine\<close>, at the address \<open>pmm_bitmap\<close>, like any other page the allocator hands out
  or protects.  The Limine memory map is the argument \<open>memmap\<close> of \<open>pmm_init\<close>.  An allocation
  returns the physical address of the run, 0 for \<open>NULL\<close>; \<open>None\<close> stands for a search that does
  not return (the \<open>%\<close> by a zero frame count traps).
\<close>

section \<open>State and bitmap\<close>

record limine_memmap_entry =
  entry_base :: u64
  entry_length :: u64
  entry_type :: u64

abbreviation (input) LIMINE_MEMMAP_USABLE :: u64 where "LIMINE_MEMMAP_USABLE \<equiv> 0"
abbreviation (input) LIMINE_MEMMAP_ACPI_RECLAIMABLE :: u64 where "LIMINE_MEMMAP_ACPI_RECLAIMABLE \<equiv> 2"
abbreviation (input) LIMINE_MEMMAP_BOOTLOADER_RECLAIMABLE :: u64 where
  "LIMINE_MEMMAP_BOOTLOADER_RECLAIMABLE \<equiv> 5"

record pmm_state = machine +
  pmm_bitmap :: u64
  pmm_bitmap_bytes :: u64
  pmm_bitmap_frames :: u64
  pmm_total_frames_count :: u64
  pmm_usable_frames_count :: u64
  pmm_free_frames_count :: u64
  pmm_used_frames_count :: u64
  next_fit_hint :: u64
  hhdm_offset :: u64

definition align_up :: "u64 \<Rightarrow> u64 \<Rightarrow> u64" where
  "align_up value align = (value + align - 1) AND NOT (align - 1)"

definition align_down :: "u64 \<Rightarrow> u64 \<Rightarrow> u64" where
  "align_down value align = value AND NOT (align - 1)"

definition bytes_to_frames_ceil :: "u64 \<Rightarrow> u64" where
  "bytes_to_frames_ceil n = (n + PAGE_SIZE - 1) div PAGE_SIZE"

definition is_ram_type :: "u64 \<Rightarrow> bool" where
  "is_ram_type t \<longleftrightarrow> t = LIMINE_MEMMAP_USABLE
     \<or> t = LIMINE_MEMMAP_BOOTLOADER_RECLAIMABLE
     \<or> t = LIMINE_MEMMAP_ACPI_RECLAIMABLE"

text \<open>The mask \<open>1u << (frame % 8)\<close> and the byte \<open>pmm_bitmap[frame / 8]\<close> it applies to.\<close>

definition frame_mask :: "u64 \<Rightarrow> u8" where
  "frame_mask frame = push_bit (unat (frame mod 8)) 1"

definition bitmap_byte :: "'a pmm_state_scheme \<Rightarrow> u64 \<Rightarrow> u64" where
  "bitmap_byte s frame = pmm_bitmap s + frame div 8"

definition pmm_set_frame :: "u64 \<Rightarrow> 'a pmm_state_scheme \<Rightarrow> 'a pmm_state_scheme" where
  "pmm_set_frame frame s =
     s\<lparr>mem := (mem s)(bitmap_byte s frame := mem s (bitmap_byte s frame) OR frame_mask frame)\<rparr>"

definition pmm_clear_frame :: "u64 \<Rightarrow> 'a pmm_state_scheme \<Rightarrow> 'a pmm_state_scheme" where
  "pmm_clear_frame frame s =
     s\<lparr>mem := (mem s)(bitmap_byte s frame := mem s (bitmap_byte s frame) AND NOT (frame_mask frame))\<rparr>"

definition pmm_test_frame :: "'a pmm_state_scheme \<Rightarrow> u64 \<Rightarrow> bool" where
  "pmm_test_frame s frame \<longleftrightarrow> mem s (bitmap_byte s frame) AND frame_mask frame \<noteq> 0"

section \<open>Initialisation\<close>

text \<open>The first pass over the memory map: the highest RAM address and the frame totals.\<close>

definition pmm_scan_entry :: "limine_memmap_entry \<Rightarrow> u64 \<times> u64 \<times> u64 \<Rightarrow> u64 \<times> u64 \<times> u64" where
  "pmm_scan_entry entry acc =
     (case acc of (max_addr, total_ram_frames, usable_frames) \<Rightarrow>
        let start = align_up (entry_base entry) PAGE_SIZE;
            end' = align_down (entry_base entry + entry_length entry) PAGE_SIZE;
            ram = is_ram_type (entry_type entry);
            total_ram_frames = (if ram \<and> end' > start
              then total_ram_frames + (end' - start) div PAGE_SIZE else total_ram_frames);
            max_addr = (if ram \<and> end' > max_addr then end' else max_addr);
            usable_frames = (if entry_type entry = LIMINE_MEMMAP_USABLE \<and> end' > start
              then usable_frames + (end' - start) div PAGE_SIZE else usable_frames)
        in (max_addr, total_ram_frames, usable_frames))"

text \<open>The second pass: the first usable entry with room for the bitmap.\<close>

fun pmm_find_bitmap :: "u64 \<Rightarrow> limine_memmap_entry list \<Rightarrow> u64 option" where
  "pmm_find_bitmap bitmap_size [] = None"
| "pmm_find_bitmap bitmap_size (entry # entries) =
     (let start = align_up (entry_base entry) PAGE_SIZE;
          end' = entry_base entry + entry_length entry
      in if entry_type entry \<noteq> LIMINE_MEMMAP_USABLE then pmm_find_bitmap bitmap_size entries
         else if end' \<le> start then pmm_find_bitmap bitmap_size entries
         else if end' - start \<ge> bitmap_size then Some start
         else pmm_find_bitmap bitmap_size entries)"

text \<open>The third pass: one frame of a usable entry becomes free.\<close>

definition pmm_release_frame :: "u64 \<Rightarrow> 'a pmm_state_scheme \<Rightarrow> 'a pmm_state_scheme" where
  "pmm_release_frame addr s =
     (let frame = addr div PAGE_SIZE
      in if frame < pmm_bitmap_frames s \<and> pmm_test_frame s frame
         then let s = pmm_clear_frame frame s
              in s\<lparr>pmm_free_frames_count := pmm_free_frames_count s + 1,
                   pmm_used_frames_count := pmm_used_frames_count s - 1\<rparr>
         else s)"

fun pmm_release_entries ::
  "limine_memmap_entry list \<Rightarrow> 'a pmm_state_scheme \<Rightarrow> 'a pmm_state_scheme option" where
  "pmm_release_entries [] s = Some s"
| "pmm_release_entries (entry # entries) s =
     (if entry_type entry \<noteq> LIMINE_MEMMAP_USABLE then pmm_release_entries entries s
      else Option.bind
        (for_range (align_up (entry_base entry) PAGE_SIZE)
           (align_down (entry_base entry + entry_length entry) PAGE_SIZE) PAGE_SIZE
           pmm_release_frame s)
        (pmm_release_entries entries))"

definition pmm_protect_frame :: "u64 \<Rightarrow> 'a pmm_state_scheme \<Rightarrow> 'a pmm_state_scheme" where
  "pmm_protect_frame addr s =
     (let frame = addr div PAGE_SIZE
      in if frame < pmm_bitmap_frames s \<and> \<not> pmm_test_frame s frame
         then let s = pmm_set_frame frame s
              in s\<lparr>pmm_free_frames_count := pmm_free_frames_count s - 1,
                   pmm_used_frames_count := pmm_used_frames_count s + 1\<rparr>
         else s)"

definition pmm_protect_frame0 :: "'a pmm_state_scheme \<Rightarrow> 'a pmm_state_scheme" where
  "pmm_protect_frame0 s =
     (let s = pmm_set_frame 0 s
      in if pmm_free_frames_count s > 0
         then s\<lparr>pmm_free_frames_count := pmm_free_frames_count s - 1,
                pmm_used_frames_count := pmm_used_frames_count s + 1\<rparr>
         else s)"

definition pmm_init ::
  "limine_memmap_entry list \<Rightarrow> u64 \<Rightarrow> 'a pmm_state_scheme \<Rightarrow> 'a pmm_state_scheme option" where
  "pmm_init memmap hhdm s =
     (case fold pmm_scan_entry memmap (0, 0, 0) of (max_addr, total_ram_frames, usable_frames) \<Rightarrow>
        let s = s\<lparr>hhdm_offset := hhdm\<rparr>;
            s = s\<lparr>pmm_bitmap_frames := align_up max_addr PAGE_SIZE div PAGE_SIZE,
                  pmm_total_frames_count := total_ram_frames,
                  pmm_usable_frames_count := usable_frames\<rparr>;
            s = s\<lparr>pmm_bitmap_bytes := (pmm_bitmap_frames s + 7) div 8\<rparr>;
            bitmap_size = align_up (pmm_bitmap_bytes s) PAGE_SIZE
        in case pmm_find_bitmap bitmap_size memmap of
             None \<Rightarrow> Some (s\<lparr>pmm_bitmap := 0, pmm_free_frames_count := 0,
                             pmm_used_frames_count := pmm_usable_frames_count s\<rparr>)
           | Some bitmap_phys \<Rightarrow>
               let s = s\<lparr>pmm_bitmap := bitmap_phys + hhdm_offset s\<rparr>;
                   s = s\<lparr>mem := memset (pmm_bitmap s) 0xFF (pmm_bitmap_bytes s) (mem s)\<rparr>;
                   s = s\<lparr>pmm_free_frames_count := 0,
                         pmm_used_frames_count := pmm_usable_frames_count s\<rparr>
               in Option.bind (pmm_release_entries memmap s) (\<lambda>s.
                  let s = pmm_protect_frame0 s
                  in Option.bind
                       (for_range bitmap_phys (bitmap_phys + bitmap_size) PAGE_SIZE
                          pmm_protect_frame s)
                       (\<lambda>s. Some (serial_log (bytes ''PMM initialized\<newline>'') s))))"

section \<open>Allocation\<close>

text \<open>The body of the search loops once a run of \<open>count\<close> free frames has been found.\<close>

definition pmm_take_run ::
  "u64 \<Rightarrow> u64 \<Rightarrow> 'a pmm_state_scheme \<Rightarrow> u64 \<times> 'a pmm_state_scheme" where
  "pmm_take_run count run_start s =
     (let s = for_upto count (\<lambda>i. pmm_set_frame (run_start + i)) s;
          s = s\<lparr>pmm_free_frames_count := pmm_free_frames_count s - count,
                pmm_used_frames_count := pmm_used_frames_count s + count\<rparr>;
          s = s\<lparr>next_fit_hint := (run_start + count) mod pmm_bitmap_frames s\<rparr>
      in (run_start * PAGE_SIZE, s))"

partial_function (option) pmm_alloc_frames_loop ::
  "u64 \<Rightarrow> u64 \<Rightarrow> 'a pmm_state_scheme \<Rightarrow> u64 \<Rightarrow> u64 \<Rightarrow> u64 \<Rightarrow> bool
     \<Rightarrow> (u64 \<times> 'a pmm_state_scheme) option" where
  "pmm_alloc_frames_loop count wrap_point s frame run_start run_length wrapped =
     (let free = \<not> pmm_test_frame s frame;
          run_start = (if free \<and> run_length = 0 then frame else run_start);
          run_length = (if free then run_length + 1 else 0)
      in if free \<and> run_length = count then Some (pmm_take_run count run_start s)
         else if pmm_bitmap_frames s = 0 then None
         else let frame = (frame + 1) mod pmm_bitmap_frames s
              in if frame = wrap_point \<and> wrapped then Some (0, s)
                 else pmm_alloc_frames_loop count wrap_point s frame run_start run_length
                        (if frame = wrap_point then True else wrapped))"

definition pmm_alloc_frames ::
  "u64 \<Rightarrow> 'a pmm_state_scheme \<Rightarrow> (u64 \<times> 'a pmm_state_scheme) option" where
  "pmm_alloc_frames count s =
     (if count = 0 \<or> pmm_free_frames_count s < count then Some (0, s)
      else pmm_alloc_frames_loop count (next_fit_hint s) s (next_fit_hint s) 0 0 False)"

definition pmm_alloc :: "'a pmm_state_scheme \<Rightarrow> (u64 \<times> 'a pmm_state_scheme) option" where
  "pmm_alloc s = pmm_alloc_frames 1 s"

partial_function (option) pmm_alloc_frames_aligned_loop ::
  "u64 \<Rightarrow> u64 \<Rightarrow> u64 \<Rightarrow> 'a pmm_state_scheme \<Rightarrow> u64 \<Rightarrow> u64 \<Rightarrow> u64 \<Rightarrow> bool
     \<Rightarrow> (u64 \<times> 'a pmm_state_scheme) option" where
  "pmm_alloc_frames_aligned_loop count alignment wrap_point s frame run_start run_length wrapped =
     (let free = \<not> pmm_test_frame s frame;
          starts = (run_length = 0 \<and> (frame * PAGE_SIZE) mod alignment = 0);
          run_start = (if free \<and> starts then frame else run_start);
          run_length = (if free then (if starts then 1
                          else if run_length > 0 then run_length + 1 else run_length)
                        else 0)
      in if free \<and> run_length = count then Some (pmm_take_run count run_start s)
         else if pmm_bitmap_frames s = 0 then None
         else let frame = (frame + 1) mod pmm_bitmap_frames s
              in if frame = wrap_point \<and> wrapped then Some (0, s)
                 else pmm_alloc_frames_aligned_loop count alignment wrap_point s frame run_start
                        run_length (if frame = wrap_point then True else wrapped))"

definition pmm_alloc_frames_aligned ::
  "u64 \<Rightarrow> u64 \<Rightarrow> 'a pmm_state_scheme \<Rightarrow> (u64 \<times> 'a pmm_state_scheme) option" where
  "pmm_alloc_frames_aligned count alignment s =
     (if count = 0 \<or> pmm_free_frames_count s < count \<or> alignment = 0 then Some (0, s)
      else let alignment = (if alignment < PAGE_SIZE then PAGE_SIZE else alignment)
           in pmm_alloc_frames_aligned_loop count alignment (next_fit_hint s) s
                (next_fit_hint s) 0 0 False)"

text \<open>The zeroing variants clear the pages through the direct map.\<close>

definition pmm_zero_run ::
  "u64 \<Rightarrow> u64 \<times> 'a pmm_state_scheme \<Rightarrow> u64 \<times> 'a pmm_state_scheme" where
  "pmm_zero_run n ps =
     (case ps of (pages, s) \<Rightarrow>
        if pages \<noteq> 0 then (pages, s\<lparr>mem := memset (pages + hhdm_offset s) 0 n (mem s)\<rparr>)
        else (pages, s))"

definition pmm_alloc_zeroed :: "'a pmm_state_scheme \<Rightarrow> (u64 \<times> 'a pmm_state_scheme) option" where
  "pmm_alloc_zeroed s = map_option (pmm_zero_run PAGE_SIZE) (pmm_alloc s)"

definition pmm_alloc_frames_zeroed ::
  "u64 \<Rightarrow> 'a pmm_state_scheme \<Rightarrow> (u64 \<times> 'a pmm_state_scheme) option" where
  "pmm_alloc_frames_zeroed count s =
     map_option (pmm_zero_run (count * PAGE_SIZE)) (pmm_alloc_frames count s)"

definition pmm_alloc_frames_aligned_zeroed ::
  "u64 \<Rightarrow> u64 \<Rightarrow> 'a pmm_state_scheme \<Rightarrow> (u64 \<times> 'a pmm_state_scheme) option" where
  "pmm_alloc_frames_aligned_zeroed count alignment s =
     map_option (pmm_zero_run (count * PAGE_SIZE)) (pmm_alloc_frames_aligned count alignment s)"

definition pmm_alloc_aligned ::
  "u64 \<Rightarrow> u64 \<Rightarrow> 'a pmm_state_scheme \<Rightarrow> (u64 \<times> 'a pmm_state_scheme) option" where
  "pmm_alloc_aligned n alignment s =
     pmm_alloc_frames_aligned (bytes_to_frames_ceil n) alignment s"

definition pmm_alloc_aligned_zeroed ::
  "u64 \<Rightarrow> u64 \<Rightarrow> 'a pmm_state_scheme \<Rightarrow> (u64 \<times> 'a pmm_state_scheme) option" where
  "pmm_alloc_aligned_zeroed n alignment s =
     pmm_alloc_frames_aligned_zeroed (bytes_to_frames_ceil n) alignment s"

section \<open>Release\<close>

text \<open>One iteration of the loop in \<open>pmm_free_frames\<close>; the loop stops at the end of the bitmap.\<close>

definition pmm_free_frame :: "u64 \<Rightarrow> 'a pmm_state_scheme \<Rightarrow> 'a pmm_state_scheme" where
  "pmm_free_frame cur s =
     (if \<not> pmm_test_frame s cur
      then serial_log (bytes ''pmm_free_frames: double-free or invalid free at frame ''
             @ u64_to_dec_bytes cur @ bytes ''\<newline>'') s
      else let s = pmm_clear_frame cur s
           in s\<lparr>pmm_free_frames_count := pmm_free_frames_count s + 1,
                pmm_used_frames_count := pmm_used_frames_count s - 1\<rparr>)"

fun pmm_free_frames_loop ::
  "u64 \<Rightarrow> nat list \<Rightarrow> 'a pmm_state_scheme \<Rightarrow> 'a pmm_state_scheme" where
  "pmm_free_frames_loop frame [] s = s"
| "pmm_free_frames_loop frame (i # is) s =
     (let cur = frame + of_nat i
      in if cur \<ge> pmm_bitmap_frames s then s
         else pmm_free_frames_loop frame is (pmm_free_frame cur s))"

definition pmm_free_frames :: "u64 \<Rightarrow> u64 \<Rightarrow> 'a pmm_state_scheme \<Rightarrow> 'a pmm_state_scheme" where
  "pmm_free_frames phys_addr count s =
     (if count = 0 then s
      else pmm_free_frames_loop (phys_addr div PAGE_SIZE) [0..<unat count] s)"

definition pmm_free :: "u64 \<Rightarrow> 'a pmm_state_scheme \<Rightarrow> 'a pmm_state_scheme" where
  "pmm_free phys_addr s = pmm_free_frames phys_addr 1 s"

definition pmm_get_total_frames :: "'a pmm_state_scheme \<Rightarrow> u64" where
  "pmm_get_total_frames s = pmm_total_frames_count s"

definition pmm_get_usable_frames :: "'a pmm_state_scheme \<Rightarrow> u64" where
  "pmm_get_usable_frames s = pmm_usable_frames_count s"

definition pmm_get_free_frames :: "'a pmm_state_scheme \<Rightarrow> u64" where
  "pmm_get_free_frames s = pmm_free_frames_count s"

definition pmm_get_used_frames :: "'a pmm_state_scheme \<Rightarrow> u64" where
  "pmm_get_used_frames s = pmm_used_frames_count s"

section \<open>The bitmap as a set of frames\<close>

lemma frame_bit: "unat (frame mod 8 :: u64) < 8"
  by (simp add: unat_mod_u64)

lemma pmm_test_frame_bit:
  "pmm_test_frame s f \<longleftrightarrow> bit (mem s (bitmap_byte s f)) (unat (f mod 8))"
  by (simp add: pmm_test_frame_def frame_mask_def push_bit_of_1 and_exp_eq_0_iff_not_bit)

lemma frame_split: "(f :: u64) = g \<longleftrightarrow> f div 8 = g div 8 \<and> unat (f mod 8) = unat (g mod 8)"
proof -
  have "unat f = 8 * unat (f div 8) + unat (f mod 8)" for f :: u64
    by (simp add: unat_div_u64 unat_mod_u64)
  then show ?thesis by (metis word_eq_unat)
qed

lemma bitmap_byte_eq_iff: "bitmap_byte s f = bitmap_byte s g \<longleftrightarrow> f div 8 = g div 8"
  by (simp add: bitmap_byte_def)

lemma pmm_frame_fields [simp]:
  "bitmap_byte (pmm_set_frame f s) = bitmap_byte s"
  "bitmap_byte (pmm_clear_frame f s) = bitmap_byte s"
  by (simp_all add: fun_eq_iff bitmap_byte_def pmm_set_frame_def pmm_clear_frame_def)

lemma test_set_frame: "pmm_test_frame (pmm_set_frame f s) g \<longleftrightarrow> g = f \<or> pmm_test_frame s g"
proof (cases "f div 8 = g div 8")
  case True
  then have byte: "bitmap_byte s f = bitmap_byte s g" by (simp add: bitmap_byte_eq_iff)
  have "bit (frame_mask f) (unat (g mod 8)) \<longleftrightarrow> g = f"
    using True frame_split [of f g] frame_bit [of f]
    by (auto simp: frame_mask_def bit_push_bit_iff bit_1_iff push_bit_of_1 bit_exp_iff)
  then show ?thesis
    by (auto simp: pmm_test_frame_bit byte bit_or_iff pmm_set_frame_def bitmap_byte_def)
next
  case False
  then have "bitmap_byte s f \<noteq> bitmap_byte s g" by (simp add: bitmap_byte_eq_iff)
  moreover have "g \<noteq> f" using False by auto
  ultimately show ?thesis
    by (simp add: pmm_test_frame_bit) (simp add: pmm_set_frame_def)
qed

lemma test_clear_frame: "pmm_test_frame (pmm_clear_frame f s) g \<longleftrightarrow> g \<noteq> f \<and> pmm_test_frame s g"
proof (cases "f div 8 = g div 8")
  case True
  then have byte: "bitmap_byte s f = bitmap_byte s g" by (simp add: bitmap_byte_eq_iff)
  have "bit (frame_mask f) (unat (g mod 8)) \<longleftrightarrow> g = f"
    using True frame_split [of f g] frame_bit [of f]
    by (auto simp: frame_mask_def bit_push_bit_iff bit_1_iff push_bit_of_1 bit_exp_iff)
  then show ?thesis using frame_bit [of g]
    by (auto simp: pmm_test_frame_bit byte bit_and_iff bit_not_iff pmm_clear_frame_def bitmap_byte_def)
next
  case False
  then have "bitmap_byte s f \<noteq> bitmap_byte s g" by (simp add: bitmap_byte_eq_iff)
  moreover have "g \<noteq> f" using False by auto
  ultimately show ?thesis
    by (simp add: pmm_test_frame_bit) (simp add: pmm_clear_frame_def)
qed

end
