(* ===== verification/Pmm_Search.thy ===== *)
theory Pmm_Search
  imports Pmm
begin

text \<open>
  The next-fit search of \<open>kernel/mm/pmm.c\<close>: what the two loops that look for a run of free frames
  find, and what marking the run does to the bitmap.
\<close>

section \<open>The next-fit search\<close>

abbreviation frames :: "'a pmm_state_scheme \<Rightarrow> nat" where
  "frames s \<equiv> unat (pmm_bitmap_frames s)"

text \<open>
  What the search relies on: a non-empty bitmap of page frames, a hint inside it, and frame 0 in
  use.  The last point is what keeps a run from wrapping around the end of the bitmap.
\<close>

definition pmm_wf :: "'a pmm_state_scheme \<Rightarrow> bool" where
  "pmm_wf s \<longleftrightarrow> 0 < frames s \<and> frames s \<le> 2 ^ 52 \<and> next_fit_hint s < pmm_bitmap_frames s
     \<and> pmm_test_frame s 0"

definition free_run :: "'a pmm_state_scheme \<Rightarrow> (u64 \<Rightarrow> bool) \<Rightarrow> nat \<Rightarrow> nat \<Rightarrow> bool" where
  "free_run s start_ok c r \<longleftrightarrow> r + c \<le> frames s \<and> start_ok (of_nat r)
     \<and> (\<forall>k. r \<le> k \<longrightarrow> k < r + c \<longrightarrow> \<not> pmm_test_frame s (of_nat k))"

text \<open>
  The search visits the indices \<open>hint\<close>, \<open>hint + 1\<close>, \dots, \<open>hint + 2 F - 1\<close> modulo the number \<open>F\<close>
  of frames.  \<open>scan_inv\<close> describes the loop variables before index \<open>j\<close>: the current run has
  length \<open>L\<close>, is the longest admissible one that ends at \<open>j\<close>, and no admissible run of the
  wanted length lies entirely before \<open>j\<close>.
\<close>

definition scan_free :: "'a pmm_state_scheme \<Rightarrow> nat \<Rightarrow> bool" where
  "scan_free s k \<longleftrightarrow> \<not> pmm_test_frame s (of_nat (k mod frames s))"

definition scan_inv ::
  "'a pmm_state_scheme \<Rightarrow> (u64 \<Rightarrow> bool) \<Rightarrow> nat \<Rightarrow> nat \<Rightarrow> nat \<Rightarrow> u64 \<Rightarrow> nat \<Rightarrow> bool" where
  "scan_inv s start_ok c h j rs L \<longleftrightarrow>
     L < c \<and> L \<le> j - h
     \<and> (\<forall>k. j - L \<le> k \<longrightarrow> k < j \<longrightarrow> scan_free s k)
     \<and> (0 < L \<longrightarrow> rs = of_nat ((j - L) mod frames s) \<and> start_ok rs)
     \<and> (\<forall>i. h \<le> i \<longrightarrow> i \<le> j \<longrightarrow> start_ok (of_nat (i mod frames s)) \<longrightarrow>
          (\<forall>k. i \<le> k \<longrightarrow> k < j \<longrightarrow> scan_free s k) \<longrightarrow> j - i \<le> L)
     \<and> (\<forall>i. h \<le> i \<longrightarrow> i + c \<le> j \<longrightarrow> start_ok (of_nat (i mod frames s)) \<longrightarrow>
          \<not> (\<forall>k. i \<le> k \<longrightarrow> k < i + c \<longrightarrow> scan_free s k))"

lemma scan_inv_init: "0 < c \<Longrightarrow> scan_inv s start_ok c h h rs 0"
  by (auto simp: scan_inv_def)

lemma scan_inv_step:
  assumes "scan_inv s start_ok c h j rs L" and "h \<le> j"
    and L': "L' = (if scan_free s j
               then (if L = 0 \<and> start_ok (of_nat (j mod frames s)) then 1
                     else if 0 < L then L + 1 else L) else 0)"
    and rs': "rs' = (if scan_free s j \<and> L = 0 \<and> start_ok (of_nat (j mod frames s))
               then of_nat (j mod frames s) else rs)"
    and "\<not> (scan_free s j \<and> L' = c)"
  shows "scan_inv s start_ok c h (Suc j) rs' L'"
proof -
  let ?ok = "\<lambda>i. start_ok (of_nat (i mod frames s))"
  note inv = assms(1) [unfolded scan_inv_def]
  have longest: "j - i \<le> L" if "h \<le> i" "i \<le> j" "?ok i" "\<forall>k. i \<le> k \<longrightarrow> k < j \<longrightarrow> scan_free s k" for i
    using inv that by blast
  have lt: "L' < c"
    using inv assms(5) unfolding L' by (auto split: if_splits)
  have len: "L' \<le> Suc j - h"
    using inv assms(2) unfolding L' by (auto split: if_splits)
  have run: "\<forall>k. Suc j - L' \<le> k \<longrightarrow> k < Suc j \<longrightarrow> scan_free s k"
    using inv unfolding L' by (auto simp: less_Suc_eq split: if_splits)
  have start: "0 < L' \<longrightarrow> rs' = of_nat ((Suc j - L') mod frames s) \<and> start_ok rs'"
    using inv unfolding L' rs' by (auto split: if_splits)
  have longest': "Suc j - i \<le> L'"
    if "h \<le> i" "i \<le> Suc j" "?ok i" "\<forall>k. i \<le> k \<longrightarrow> k < Suc j \<longrightarrow> scan_free s k" for i
  proof (cases "i = Suc j")
    case False
    with that have "i \<le> j" by simp
    with that have free: "scan_free s j" and "j - i \<le> L" using longest [of i] by auto
    show ?thesis
    proof (cases "L = 0")
      case True
      then have "i = j" using \<open>j - i \<le> L\<close> \<open>i \<le> j\<close> by simp
      then show ?thesis using free that(3) True by (simp add: L')
    next
      case nz: False
      then show ?thesis using free \<open>j - i \<le> L\<close> by (simp add: L')
    qed
  qed simp
  have none: "\<not> (\<forall>k. i \<le> k \<longrightarrow> k < i + c \<longrightarrow> scan_free s k)"
    if "h \<le> i" "i + c \<le> Suc j" "?ok i" for i
  proof (cases "i + c = Suc j")
    case True
    show ?thesis
    proof
      assume "\<forall>k. i \<le> k \<longrightarrow> k < i + c \<longrightarrow> scan_free s k"
      then have "Suc j - i \<le> L'" using longest' [of i] that True by auto
      then show False using lt True by simp
    qed
  next
    case False
    then show ?thesis using inv that by (metis le_SucE)
  qed
  show ?thesis
    unfolding scan_inv_def using lt len run start longest' none by blast
qed

lemma wrap_index:
  assumes "h < F" and "h \<le> j" and "j < h + 2 * F"
  shows "Suc j mod F = h \<longleftrightarrow> Suc j = h + F \<or> Suc j = h + 2 * F"
proof -
  have "Suc j mod F = h \<longleftrightarrow> (Suc j - h) mod F = 0"
    using assms by (metis Suc_leD le_SucI mod_eq_dvd_iff_nat mod_if mod_eq_0_iff_dvd)
  also have "\<dots> \<longleftrightarrow> (\<exists>q. Suc j - h = F * q)" by (auto simp: mod_eq_0_iff_dvd)
  also have "\<dots> \<longleftrightarrow> Suc j - h = F \<or> Suc j - h = 2 * F"
  proof
    assume "\<exists>q. Suc j - h = F * q"
    then obtain q where q: "Suc j - h = F * q" by blast
    have "0 < F * q" "F * q \<le> F * 2" unfolding q [symmetric] using assms by simp_all
    then have "0 < q" "q \<le> 2" using assms by auto
    then have "q = 1 \<or> q = 2" by auto
    then show "Suc j - h = F \<or> Suc j - h = 2 * F" using q by auto
  next
    assume "Suc j - h = F \<or> Suc j - h = 2 * F"
    then show "\<exists>q. Suc j - h = F * q" by (metis mult.commute mult.right_neutral)
  qed
  finally show ?thesis using assms by auto
qed

text \<open>A run of free indices never crosses a multiple of the frame count.\<close>

lemma scan_run_no_wrap:
  assumes "pmm_wf s" and "\<forall>k. i \<le> k \<longrightarrow> k < i + c \<longrightarrow> scan_free s k" and "0 < c"
  shows "i mod frames s + c \<le> frames s
     \<and> (\<forall>k. i mod frames s \<le> k \<longrightarrow> k < i mod frames s + c \<longrightarrow> \<not> pmm_test_frame s (of_nat k))"
proof -
  let ?F = "frames s"
  have F: "0 < ?F" and zero: "pmm_test_frame s (of_nat 0)" using assms(1) by (auto simp: pmm_wf_def)
  have fits: "i mod ?F + c \<le> ?F"
  proof (rule ccontr)
    assume "\<not> i mod ?F + c \<le> ?F"
    then have "i + (?F - i mod ?F) < i + c" using mod_less_divisor [OF F, of i] by linarith
    then have "scan_free s (i + (?F - i mod ?F))" using assms(2) by simp
    moreover have "(i + (?F - i mod ?F)) mod ?F = 0"
    proof -
      have "i + (?F - i mod ?F) = ?F * (i div ?F) + ?F"
        using F mod_less_divisor [OF F, of i] mult_div_mod_eq [of ?F i] by linarith
      then show ?thesis by simp
    qed
    ultimately show False using zero by (simp add: scan_free_def)
  qed
  have "\<not> pmm_test_frame s (of_nat k)" if "i mod ?F \<le> k" "k < i mod ?F + c" for k
  proof -
    let ?k = "i + (k - i mod ?F)"
    have "scan_free s ?k" using assms(2) that by simp
    moreover have "?k mod ?F = k"
    proof -
      have "?k = ?F * (i div ?F) + k"
        using that mult_div_mod_eq [of ?F i] by linarith
      moreover have "k < ?F" using that fits by simp
      ultimately show ?thesis by simp
    qed
    ultimately show ?thesis by (simp add: scan_free_def)
  qed
  then show ?thesis using fits by blast
qed

lemma scan_inv_found:
  assumes "scan_inv s start_ok c h j rs L" and "scan_free s j"
    and "(if L = 0 \<and> start_ok (of_nat (j mod frames s)) then 1
          else if 0 < L then L + 1 else L) = c"
    and rs': "rs' = (if L = 0 \<and> start_ok (of_nat (j mod frames s)) then of_nat (j mod frames s) else rs)"
  shows "(\<forall>k. Suc j - c \<le> k \<longrightarrow> k < Suc j - c + c \<longrightarrow> scan_free s k)
    \<and> rs' = of_nat ((Suc j - c) mod frames s) \<and> start_ok rs'"
proof (cases "L = 0")
  case True
  then have "start_ok (of_nat (j mod frames s))" "c = 1"
    using assms(1,3) by (auto simp: scan_inv_def split: if_splits)
  then show ?thesis using True assms(2) rs' by (auto simp: less_Suc_eq)
next
  case False
  then have c: "c = Suc L" using assms(3) by simp
  have inv: "L \<le> j - h" "\<forall>k. j - L \<le> k \<longrightarrow> k < j \<longrightarrow> scan_free s k"
    "rs = of_nat ((j - L) mod frames s)" "start_ok rs"
    using assms(1) False by (auto simp: scan_inv_def)
  have "Suc j - c + c = Suc j" using inv(1) c by simp
  then show ?thesis using inv False assms(2) rs' c by (auto simp: less_Suc_eq)
qed

lemma scan_inv_exhausted:
  assumes "scan_inv s start_ok c h (h + 2 * frames s) rs L" and "h < frames s"
  shows "\<not> free_run s start_ok c r"
proof
  assume run: "free_run s start_ok c r"
  let ?F = "frames s"
  have c: "0 < c" using assms(1) by (simp add: scan_inv_def)
  then have r: "r < ?F" "r + c \<le> ?F" using run by (auto simp: free_run_def)
  have "scan_free s k" if "r + ?F \<le> k" "k < r + ?F + c" for k
  proof -
    define q where "q = k - ?F"
    have q: "k = q + ?F" using that(1) by (simp add: q_def)
    then have "k mod ?F = q" using that r by simp
    moreover have "\<not> pmm_test_frame s (of_nat q)" using run that q by (simp add: free_run_def)
    ultimately show ?thesis by (simp add: scan_free_def)
  qed
  moreover have "start_ok (of_nat ((r + ?F) mod ?F))" using run r by (simp add: free_run_def)
  moreover have "h \<le> r + ?F" "r + ?F + c \<le> h + 2 * ?F" using assms(2) r by simp_all
  ultimately show False using assms(1) unfolding scan_inv_def by blast
qed

lemma next_frame_word:
  assumes "pmm_wf s"
  shows "(of_nat (j mod frames s) + 1) mod pmm_bitmap_frames s = of_nat (Suc j mod frames s)"
proof -
  let ?F = "frames s"
  have F: "0 < ?F" "?F \<le> 2 ^ 52" using assms by (auto simp: pmm_wf_def)
  then have small: "j mod ?F < 2 ^ 52" "Suc j mod ?F < 2 ^ 52"
    using mod_less_divisor [OF F(1)] by (meson less_le_trans)+
  then have "unat (of_nat (j mod ?F) + 1 :: u64) = Suc (j mod ?F)"
    by (simp add: unat_inc_small unat_of_nat_small)
  then show ?thesis
    using small by (simp add: word_eq_unat unat_mod_u64 unat_of_nat_small mod_Suc_eq)
qed

lemma frame_word_eq:
  assumes "pmm_wf s" and "a < frames s" and "b < frames s"
  shows "(of_nat a :: u64) = of_nat b \<longleftrightarrow> a = b"
  using assms by (auto simp: word_eq_unat unat_of_nat_small pmm_wf_def)

text \<open>
  Both search loops of the file have the same shape and differ in the frames a run may start at.
  The locale states that shape as the one law of a loop; what such a loop returns is proved once.
\<close>

locale next_fit_search =
  fixes search :: "u64 \<Rightarrow> u64 \<Rightarrow> u64 \<Rightarrow> 'a pmm_state_scheme \<Rightarrow> u64 \<Rightarrow> u64 \<Rightarrow> u64 \<Rightarrow> bool
      \<Rightarrow> (u64 \<times> 'a pmm_state_scheme) option"
    and may_start :: "u64 \<Rightarrow> u64 \<Rightarrow> bool"
  assumes unfold: "search count al wp s frame rs rl wrapped =
     (let free = \<not> pmm_test_frame s frame;
          starts = (rl = 0 \<and> may_start al frame);
          rs' = (if free \<and> starts then frame else rs);
          rl' = (if free then (if starts then 1 else if rl > 0 then rl + 1 else rl) else 0)
      in if free \<and> rl' = count then Some (pmm_take_run count rs' s)
         else if pmm_bitmap_frames s = 0 then None
         else let frame' = (frame + 1) mod pmm_bitmap_frames s
              in if frame' = wp \<and> wrapped then Some (0, s)
                 else search count al wp s frame' rs' rl' (if frame' = wp then True else wrapped))"
begin

definition search_result :: "'a pmm_state_scheme \<Rightarrow> u64 \<Rightarrow> u64 \<Rightarrow> u64 \<times> 'a pmm_state_scheme \<Rightarrow> bool" where
  "search_result s count al res \<longleftrightarrow>
     res = (0, s) \<and> (\<nexists>r. free_run s (may_start al) (unat count) r)
     \<or> (\<exists>r. free_run s (may_start al) (unat count) r \<and> res = pmm_take_run count (of_nat r) s)"

lemma search_from:
  assumes wf: "pmm_wf s" and h: "h < frames s"
    and "h \<le> j" and "j < h + 2 * frames s"
    and inv: "scan_inv s (may_start al) (unat count) h j rs (unat rl)"
  shows "\<exists>res. search count al (of_nat h) s (of_nat (j mod frames s)) rs rl (h + frames s \<le> j)
            = Some res \<and> search_result s count al res"
  using assms(3-)
proof (induction "h + 2 * frames s - j" arbitrary: j rs rl)
  case 0
  then show ?case by simp
next
  case (Suc n)
  let ?F = "frames s"
  let ?ok = "may_start al"
  define frame where "frame = (of_nat (j mod ?F) :: u64)"
  define rs' where "rs' = (if scan_free s j \<and> rl = 0 \<and> ?ok frame then frame else rs)"
  define rl' where "rl' = (if scan_free s j then (if rl = 0 \<and> ?ok frame then 1
      else if rl > 0 then rl + 1 else rl) else 0)"
  have F: "0 < ?F" "?F \<le> 2 ^ 52" using wf by (auto simp: pmm_wf_def)
  then have Fnz: "pmm_bitmap_frames s \<noteq> 0" by (auto simp: unat_zero_iff)
  have free: "scan_free s j \<longleftrightarrow> \<not> pmm_test_frame s frame"
    by (simp add: scan_free_def frame_def)
  have inv_j: "scan_inv s ?ok (unat count) h j rs (unat rl)" by (rule Suc.prems(3))
  then have "unat rl < unat count" by (simp add: scan_inv_def)
  then have rl1: "unat (rl + 1) = unat rl + 1"
    using unat_u64_less [of count] by (intro unat_inc_small) simp
  have unat_rl': "unat rl' = (if scan_free s j
               then (if unat rl = 0 \<and> ?ok (of_nat (j mod ?F)) then 1
                     else if 0 < unat rl then unat rl + 1 else unat rl) else 0)"
    by (simp add: rl'_def frame_def rl1 unat_zero_iff word_gt_0 unat_gt_0)
  have step: "search count al (of_nat h) s frame rs rl w =
     (if scan_free s j \<and> rl' = count then Some (pmm_take_run count rs' s)
      else let frame' = (frame + 1) mod pmm_bitmap_frames s
           in if frame' = of_nat h \<and> w then Some (0, s)
              else search count al (of_nat h) s frame' rs' rl' (if frame' = of_nat h then True else w))"
    for w
    by (subst unfold) (simp add: free Fnz rs'_def rl'_def Let_def)
  show ?case
  proof (cases "scan_free s j \<and> rl' = count")
    case True
    define i where "i = Suc j - unat count"
    have found: "(if unat rl = 0 \<and> ?ok (of_nat (j mod ?F)) then 1
        else if 0 < unat rl then unat rl + 1 else unat rl) = unat count"
      using True unat_rl' by simp
    have run: "\<forall>k. i \<le> k \<longrightarrow> k < i + unat count \<longrightarrow> scan_free s k"
      and start: "rs' = of_nat (i mod ?F)" "?ok rs'"
      using scan_inv_found [OF inv_j _ found refl] True
      by (auto simp: i_def rs'_def frame_def unat_zero_iff)
    have "0 < unat count" using inv_j by (simp add: scan_inv_def)
    from scan_run_no_wrap [OF wf run this] have "free_run s ?ok (unat count) (i mod ?F)"
      using start by (simp add: free_run_def)
    then have "search_result s count al (pmm_take_run count rs' s)"
      using start(1) by (auto simp: search_result_def)
    moreover have "search count al (of_nat h) s frame rs rl (h + ?F \<le> j) = Some (pmm_take_run count rs' s)"
      by (simp only: step [of "h + ?F \<le> j"] True simp_thms if_True)
    ultimately show ?thesis unfolding frame_def by blast
  next
    case False
    then have more: "\<not> (scan_free s j \<and> unat rl' = unat count)" by (simp add: word_eq_unat)
    have inv': "scan_inv s ?ok (unat count) h (Suc j) rs' (unat rl')"
      by (rule scan_inv_step [OF inv_j Suc.prems(1) unat_rl'])
        (use more in \<open>simp_all add: rs'_def frame_def unat_zero_iff\<close>)
    have next_frame: "(frame + 1) mod pmm_bitmap_frames s = of_nat (Suc j mod ?F)"
      unfolding frame_def by (rule next_frame_word [OF wf])
    have same: "of_nat (Suc j mod ?F) = (of_nat h :: u64) \<longleftrightarrow> Suc j = h + ?F \<or> Suc j = h + 2 * ?F"
      using frame_word_eq [OF wf, of "Suc j mod ?F" h] wrap_index [of h ?F j] F h Suc.prems by simp
    show ?thesis
    proof (cases "Suc j = h + 2 * ?F")
      case True
      have "search_result s count al (0, s)"
        using scan_inv_exhausted [OF inv' [unfolded True] h] by (simp add: search_result_def)
      moreover have "of_nat (Suc j mod ?F) = (of_nat h :: u64) \<and> h + ?F \<le> j"
        using same True F by simp
      then have "search count al (of_nat h) s frame rs rl (h + ?F \<le> j) = Some (0, s)"
        by (subst step) (simp only: False next_frame Let_def simp_thms if_True if_False)
      ultimately show ?thesis unfolding frame_def by blast
    next
      case left: False
      have "search count al (of_nat h) s frame rs rl (h + ?F \<le> j)
         = search count al (of_nat h) s (of_nat (Suc j mod ?F)) rs' rl' (h + ?F \<le> Suc j)"
      proof -
        have "\<not> (of_nat (Suc j mod ?F) = (of_nat h :: u64) \<and> h + ?F \<le> j)"
          and "(if of_nat (Suc j mod ?F) = (of_nat h :: u64) then True else h + ?F \<le> j)
            \<longleftrightarrow> h + ?F \<le> Suc j"
          using same left by (auto simp: le_Suc_eq)
        then show ?thesis
          by (subst step) (simp only: False next_frame Let_def simp_thms if_True if_False)
      qed
      moreover have "\<exists>res. search count al (of_nat h) s (of_nat (Suc j mod ?F)) rs' rl'
          (h + ?F \<le> Suc j) = Some res \<and> search_result s count al res"
        by (rule Suc.hyps(1)) (use Suc.hyps(2) Suc.prems left inv' in auto)
      ultimately show ?thesis unfolding frame_def by simp
    qed
  qed
qed

end

context next_fit_search
begin

lemma search_correct:
  assumes "pmm_wf s" and "count \<noteq> 0"
  shows "\<exists>res. search count al (next_fit_hint s) s (next_fit_hint s) 0 0 False = Some res
           \<and> search_result s count al res"
proof -
  define h where "h = unat (next_fit_hint s)"
  have h: "h < frames s" using assms(1) by (simp add: pmm_wf_def h_def word_less_unat)
  have hint: "next_fit_hint s = of_nat h" by (simp add: h_def)
  have "0 < unat count" using assms(2) by (simp add: unat_gt_0)
  then have "scan_inv s (may_start al) (unat count) h h 0 (unat 0)" by (simp add: scan_inv_init)
  from search_from [OF assms(1) h order_refl _ this] show ?thesis using h unfolding hint by simp
qed

end

interpretation any_run: next_fit_search "\<lambda>count al. pmm_alloc_frames_loop count" "\<lambda>_ _. True"
  by unfold_locales
    (subst pmm_alloc_frames_loop.simps, auto simp: Let_def word_gt_0)

interpretation aligned_run: next_fit_search pmm_alloc_frames_aligned_loop
  "\<lambda>al f. (f * PAGE_SIZE) mod al = 0"
  by unfold_locales (subst pmm_alloc_frames_aligned_loop.simps, simp add: Let_def)

section \<open>Taking a run\<close>

definition in_bitmap :: "'a pmm_state_scheme \<Rightarrow> u64 \<Rightarrow> bool" where
  "in_bitmap s a \<longleftrightarrow> in_region (pmm_bitmap s) ((pmm_bitmap_frames s + 7) div 8) a"

lemma pmm_test_frame_fields [simp]:
  "pmm_test_frame (pmm_free_frames_count_update f s) g = pmm_test_frame s g"
  "pmm_test_frame (pmm_used_frames_count_update f s) g = pmm_test_frame s g"
  "pmm_test_frame (next_fit_hint_update f2 s) g = pmm_test_frame s g"
  "pmm_test_frame (serial_log str s) g = pmm_test_frame s g"
  by (simp_all add: pmm_test_frame_def bitmap_byte_def serial_log_def)

lemma in_bitmap_fields [simp]:
  "in_bitmap (mem_update fm s) = in_bitmap s"
  "in_bitmap (pmm_free_frames_count_update f s) = in_bitmap s"
  "in_bitmap (pmm_used_frames_count_update f s) = in_bitmap s"
  "in_bitmap (next_fit_hint_update f s) = in_bitmap s"
  "in_bitmap (serial_log str s) = in_bitmap s"
  by (simp_all add: in_bitmap_def fun_eq_iff serial_log_def)

definition bitmap_update :: "'a pmm_state_scheme \<Rightarrow> 'a pmm_state_scheme \<Rightarrow> bool" where
  "bitmap_update s t \<longleftrightarrow> (\<exists>m. t = s\<lparr>mem := m\<rparr> \<and> (\<forall>a. \<not> in_bitmap s a \<longrightarrow> m a = mem s a))"

lemma in_bitmap_byte:
  assumes "unat f < frames s" and "frames s \<le> 2 ^ 52"
  shows "in_bitmap s (bitmap_byte s f)"
proof -
  have "unat (pmm_bitmap_frames s + 7) = frames s + 7"
    using assms(2) by (subst unat_add_small) simp_all
  then show ?thesis
    using assms(1) by (simp add: in_bitmap_def bitmap_byte_def word_less_unat unat_div_u64)
qed

lemma bitmap_update_refl: "bitmap_update s s"
  unfolding bitmap_update_def by (rule exI [of _ "mem s"]) simp

lemma bitmap_update_fields:
  assumes "bitmap_update s t"
  shows "bitmap_byte t = bitmap_byte s" "in_bitmap t = in_bitmap s"
    "pmm_bitmap_frames t = pmm_bitmap_frames s"
  using assms by (auto simp: bitmap_update_def fun_eq_iff bitmap_byte_def in_bitmap_def)

lemma bitmap_update_trans:
  assumes "bitmap_update s t" and "bitmap_update t u"
  shows "bitmap_update s u"
  using assms bitmap_update_fields(2) [OF assms(1)] by (auto simp: bitmap_update_def)

lemma bitmap_update_set_clear:
  assumes "unat f < frames s" and "frames s \<le> 2 ^ 52"
  shows "bitmap_update s (pmm_set_frame f s)" "bitmap_update s (pmm_clear_frame f s)"
  using in_bitmap_byte [OF assms]
  by (auto simp: bitmap_update_def pmm_set_frame_def pmm_clear_frame_def)

text \<open>The loop that marks a run sets exactly the bits of the run.\<close>

lemma set_run:
  assumes "r + unat count \<le> frames s" and "frames s \<le> 2 ^ 52"
  defines "t \<equiv> for_upto count (\<lambda>i. pmm_set_frame (of_nat r + i)) s"
  shows "bitmap_update s t"
    and "pmm_test_frame t g \<longleftrightarrow> pmm_test_frame s g \<or> r \<le> unat g \<and> unat g < r + unat count"
proof -
  let ?P = "\<lambda>i t. bitmap_update s t \<and>
    (\<forall>g. pmm_test_frame t g \<longleftrightarrow> pmm_test_frame s g \<or> r \<le> unat g \<and> unat g < r + i)"
  have "?P (unat count) t"
    unfolding t_def
  proof (rule for_upto_invariant)
    show "?P 0 s" by (auto simp: bitmap_update_refl)
  next
    fix i t assume i: "i < unat count" and P: "?P i t"
    have f: "unat (of_nat r + of_nat i :: u64) = r + i"
      using i assms(1,2) by (simp add: unat_of_nat_small flip: of_nat_add)
    have up: "bitmap_update s t" using P by simp
    have F: "pmm_bitmap_frames t = pmm_bitmap_frames s" by (rule bitmap_update_fields(3) [OF up])
    have "bitmap_update t (pmm_set_frame (of_nat r + of_nat i) t)"
      by (rule bitmap_update_set_clear) (use f F i assms(1,2) in simp_all)
    moreover have "g = of_nat r + of_nat i \<longleftrightarrow> unat g = r + i" for g :: u64
      by (simp add: word_eq_unat f)
    ultimately show "?P (Suc i) (pmm_set_frame (of_nat r + of_nat i) t)"
      using P bitmap_update_trans [OF up] by (auto simp: test_set_frame)
  qed
  then show "bitmap_update s t"
    and "pmm_test_frame t g \<longleftrightarrow> pmm_test_frame s g \<or> r \<le> unat g \<and> unat g < r + unat count"
    by simp_all
qed

definition run_taken ::
  "'a pmm_state_scheme \<Rightarrow> nat \<Rightarrow> nat \<Rightarrow> 'a pmm_state_scheme \<Rightarrow> bool" where
  "run_taken s c r s' \<longleftrightarrow>
     (\<exists>m. s' = s\<lparr>mem := m,
                 pmm_free_frames_count := pmm_free_frames_count s - of_nat c,
                 pmm_used_frames_count := pmm_used_frames_count s + of_nat c,
                 next_fit_hint := of_nat ((r + c) mod frames s)\<rparr>
        \<and> (\<forall>a. \<not> in_bitmap s a \<longrightarrow> m a = mem s a))
     \<and> (\<forall>g. pmm_test_frame s' g \<longleftrightarrow> pmm_test_frame s g \<or> r \<le> unat g \<and> unat g < r + c)"

lemma take_run_taken:
  assumes "pmm_wf s" and "r + unat count \<le> frames s"
  shows "\<exists>s'. pmm_take_run count (of_nat r) s = (of_nat (r * 4096), s') \<and> run_taken s (unat count) r s'"
proof -
  have F: "frames s \<le> 2 ^ 52" using assms(1) by (simp add: pmm_wf_def)
  define t where "t = for_upto count (\<lambda>i. pmm_set_frame (of_nat r + i)) s"
  note run = set_run [OF assms(2) F, folded t_def]
  obtain m where m: "t = s\<lparr>mem := m\<rparr>" "\<forall>a. \<not> in_bitmap s a \<longrightarrow> m a = mem s a"
    using run(1) by (auto simp: bitmap_update_def)
  have hint: "(of_nat r + count) mod pmm_bitmap_frames s = of_nat ((r + unat count) mod frames s)"
  proof -
    have "unat (of_nat r + count) = r + unat count"
      using assms(2) F by (subst unat_add_small) (simp_all add: unat_of_nat_small)
    moreover have "(r + unat count) mod frames s < 18446744073709551616"
      by (rule le_less_trans [OF mod_less_eq_dividend]) (use assms(2) F in simp)
    ultimately show ?thesis by (simp add: word_eq_unat unat_mod_u64 unat_of_nat_small)
  qed
  show ?thesis
    using m run(2) hint
    by (auto simp: pmm_take_run_def run_taken_def Let_def t_def [symmetric])
qed

end
