(* ===== verification/Pmm_Alloc.thy ===== *)
theory Pmm_Alloc
  imports Pmm_Search
begin

text \<open>
  What the allocation and release routines of \<open>kernel/mm/pmm.c\<close> promise: the outcome of every
  call, the allocator's invariant, and that freeing a run undoes its allocation.
\<close>

section \<open>What an allocation returns\<close>

text \<open>
  \<open>alloc_outcome\<close> is the contract of the two search routines: a refusal leaves the state alone and
  happens only when the counter is too low or no admissible run exists; a success takes an
  admissible run and returns its address.
\<close>

definition alloc_outcome ::
  "'a pmm_state_scheme \<Rightarrow> (u64 \<Rightarrow> bool) \<Rightarrow> u64 \<Rightarrow> u64 \<Rightarrow> 'a pmm_state_scheme \<Rightarrow> bool" where
  "alloc_outcome s start_ok count p s' \<longleftrightarrow>
     (if count \<noteq> 0 \<and> count \<le> pmm_free_frames_count s \<and> (\<exists>r. free_run s start_ok (unat count) r)
      then \<exists>r>0. free_run s start_ok (unat count) r \<and> p = of_nat (r * 4096)
             \<and> run_taken s (unat count) r s'
      else p = 0 \<and> s' = s)"

lemma free_run_pos:
  assumes "pmm_wf s" and "free_run s start_ok c r" and "0 < c"
  shows "0 < r"
proof (rule ccontr)
  assume "\<not> 0 < r"
  then have "\<not> pmm_test_frame s (of_nat 0)" using assms(2,3) by (auto simp: free_run_def)
  then show False using assms(1) by (simp add: pmm_wf_def)
qed

context next_fit_search
begin

lemma search_outcome:
  assumes wf: "pmm_wf s" and "count \<noteq> 0" and "count \<le> pmm_free_frames_count s"
  shows "\<exists>p s'. search count al (next_fit_hint s) s (next_fit_hint s) 0 0 False = Some (p, s')
           \<and> alloc_outcome s (may_start al) count p s'"
proof -
  obtain res where res: "search count al (next_fit_hint s) s (next_fit_hint s) 0 0 False = Some res"
    and "search_result s count al res"
    using search_correct [OF wf assms(2)] by blast
  then consider "res = (0, s)" "\<nexists>r. free_run s (may_start al) (unat count) r"
    | r where "free_run s (may_start al) (unat count) r" "res = pmm_take_run count (of_nat r) s"
    unfolding search_result_def by blast
  then show ?thesis
  proof cases
    case 1
    then show ?thesis using res by (auto simp: alloc_outcome_def)
  next
    case 2
    then have "r + unat count \<le> frames s" by (simp add: free_run_def)
    from take_run_taken [OF wf this] show ?thesis
      using res 2 assms(2,3) free_run_pos [OF wf 2(1)]
      by (auto simp: alloc_outcome_def unat_gt_0)
  qed
qed

end

lemma alloc_outcome_refused:
  "count = 0 \<or> pmm_free_frames_count s < count \<Longrightarrow> alloc_outcome s start_ok count 0 s"
  by (auto simp: alloc_outcome_def)

lemma pmm_alloc_frames_outcome:
  assumes "pmm_wf s"
  shows "\<exists>p s'. pmm_alloc_frames count s = Some (p, s') \<and> alloc_outcome s (\<lambda>_. True) count p s'"
proof (cases "count = 0 \<or> pmm_free_frames_count s < count")
  case True
  then show ?thesis by (auto simp: pmm_alloc_frames_def alloc_outcome_refused)
next
  case False
  then show ?thesis
    using any_run.search_outcome [OF assms, of count] by (auto simp: pmm_alloc_frames_def)
qed

lemma pmm_alloc_frames_aligned_outcome:
  assumes "pmm_wf s" and "alignment \<noteq> 0"
  shows "\<exists>p s'. pmm_alloc_frames_aligned count alignment s = Some (p, s')
           \<and> alloc_outcome s (\<lambda>f. (f * PAGE_SIZE) mod max alignment PAGE_SIZE = 0) count p s'"
proof (cases "count = 0 \<or> pmm_free_frames_count s < count")
  case True
  then show ?thesis by (auto simp: pmm_alloc_frames_aligned_def alloc_outcome_refused)
next
  case False
  have "max alignment PAGE_SIZE = (if alignment < PAGE_SIZE then PAGE_SIZE else alignment)"
    by (auto simp: max_def)
  then show ?thesis
    using aligned_run.search_outcome [OF assms(1), of count "max alignment PAGE_SIZE"] False assms(2)
    by (auto simp: pmm_alloc_frames_aligned_def Let_def)
qed

section \<open>The set of free frames and the counters\<close>

definition free_frames :: "'a pmm_state_scheme \<Rightarrow> nat set" where
  "free_frames s = {n. n < frames s \<and> \<not> pmm_test_frame s (of_nat n)}"

text \<open>
  The allocator's invariant.  \<open>d\<close> is the number of free frames the counter misses: 0 when the
  memory map lists frame 0 as usable, 1 when it does not, since \<open>pmm_init\<close> takes one off for
  frame 0 in both cases.
\<close>

definition pmm_inv :: "nat \<Rightarrow> 'a pmm_state_scheme \<Rightarrow> bool" where
  "pmm_inv d s \<longleftrightarrow> pmm_wf s \<and> unat (pmm_free_frames_count s) + d = card (free_frames s)"

lemma finite_free_frames [simp]: "finite (free_frames s)"
  by (simp add: free_frames_def)

lemma run_taken_fields:
  assumes "run_taken s c r s'"
  shows "pmm_bitmap_frames s' = pmm_bitmap_frames s" "pmm_bitmap s' = pmm_bitmap s"
    "hhdm_offset s' = hhdm_offset s" "in_bitmap s' = in_bitmap s"
    "pmm_free_frames_count s' = pmm_free_frames_count s - of_nat c"
    "pmm_used_frames_count s' = pmm_used_frames_count s + of_nat c"
    "pmm_usable_frames_count s' = pmm_usable_frames_count s"
    "next_fit_hint s' = of_nat ((r + c) mod frames s)"
    "pmm_test_frame s' g \<longleftrightarrow> pmm_test_frame s g \<or> r \<le> unat g \<and> unat g < r + c"
    "\<not> in_bitmap s a \<Longrightarrow> mem s' a = mem s a"
  using assms by (auto simp: run_taken_def)

lemma free_run_subset:
  assumes "free_run s start_ok c r"
  shows "{r..<r + c} \<subseteq> free_frames s"
  using assms by (auto simp: free_run_def free_frames_def)

lemma run_taken_free_frames:
  assumes "pmm_wf s" and "run_taken s c r s'"
  shows "free_frames s' = free_frames s - {r..<r + c}"
  using assms(1) by (auto simp: free_frames_def run_taken_fields [OF assms(2)] unat_of_nat_small pmm_wf_def)

lemma run_taken_wf:
  assumes "pmm_wf s" and "run_taken s c r s'"
  shows "pmm_wf s'"
proof -
  have F: "0 < frames s" "frames s \<le> 4503599627370496" and "pmm_test_frame s 0"
    using assms(1) by (auto simp: pmm_wf_def)
  then have lt: "(r + c) mod frames s < frames s" by simp
  then have "unat (of_nat ((r + c) mod frames s) :: u64) = (r + c) mod frames s"
    using F(2) by (intro unat_of_nat_small) linarith
  with lt show ?thesis
    using F \<open>pmm_test_frame s 0\<close> by (simp add: pmm_wf_def run_taken_fields [OF assms(2)] word_less_unat)
qed

lemma run_taken_inv:
  assumes "pmm_inv d s" and "free_run s start_ok (unat count) r" and "run_taken s (unat count) r s'"
    and "count \<le> pmm_free_frames_count s"
  shows "pmm_inv d s'"
proof -
  have wf: "pmm_wf s" using assms(1) by (simp add: pmm_inv_def)
  have "card (free_frames s') = card (free_frames s) - unat count"
    unfolding run_taken_free_frames [OF wf assms(3)]
    using free_run_subset [OF assms(2)] by (simp add: card_Diff_subset)
  moreover have "unat (pmm_free_frames_count s') = unat (pmm_free_frames_count s) - unat count"
    using assms(4) by (simp add: run_taken_fields [OF assms(3)] unat_diff_small)
  ultimately show ?thesis
    using assms(1,4) run_taken_wf [OF wf assms(3)] by (simp add: pmm_inv_def word_le_unat)
qed

lemma alloc_outcome_inv:
  assumes "pmm_inv d s" and "alloc_outcome s start_ok count p s'"
  shows "pmm_inv d s'"
  using assms run_taken_inv [OF assms(1)] by (auto simp: alloc_outcome_def split: if_splits)

section \<open>Releasing a run\<close>

definition used_in :: "'a pmm_state_scheme \<Rightarrow> nat set \<Rightarrow> nat set" where
  "used_in s X = {n \<in> X. pmm_test_frame s (of_nat n)}"

text \<open>
  The effect of releasing a set of frames: their bits are cleared and the counters move by the
  number of bits that were set.
\<close>

definition frames_freed ::
  "'a pmm_state_scheme \<Rightarrow> nat set \<Rightarrow> 'a pmm_state_scheme \<Rightarrow> bool" where
  "frames_freed s X s' \<longleftrightarrow>
     (\<exists>m out. s' = s\<lparr>mem := m, port_out := out,
           pmm_free_frames_count := pmm_free_frames_count s + of_nat (card (used_in s X)),
           pmm_used_frames_count := pmm_used_frames_count s - of_nat (card (used_in s X))\<rparr>
        \<and> (\<forall>a. \<not> in_bitmap s a \<longrightarrow> m a = mem s a))
     \<and> (\<forall>g. pmm_test_frame s' g \<longleftrightarrow> pmm_test_frame s g \<and> unat g \<notin> X)"

lemma port_out_fields [simp]:
  "pmm_test_frame (port_out_update f s) g = pmm_test_frame s g"
  "in_bitmap (port_out_update f s) = in_bitmap s"
  by (simp_all add: pmm_test_frame_def bitmap_byte_def in_bitmap_def fun_eq_iff)

lemma frames_freed_fields:
  assumes "frames_freed s X s'"
  shows "pmm_bitmap_frames s' = pmm_bitmap_frames s" "pmm_bitmap s' = pmm_bitmap s"
    "hhdm_offset s' = hhdm_offset s" "in_bitmap s' = in_bitmap s"
    "pmm_free_frames_count s' = pmm_free_frames_count s + of_nat (card (used_in s X))"
    "pmm_used_frames_count s' = pmm_used_frames_count s - of_nat (card (used_in s X))"
    "pmm_usable_frames_count s' = pmm_usable_frames_count s"
    "next_fit_hint s' = next_fit_hint s"
    "pmm_test_frame s' g \<longleftrightarrow> pmm_test_frame s g \<and> unat g \<notin> X"
    "\<not> in_bitmap s a \<Longrightarrow> mem s' a = mem s a"
  using assms by (auto simp: frames_freed_def)

lemma frames_freedI:
  assumes "k = card (used_in s X)"
    and "s' = s\<lparr>mem := m, port_out := out,
           pmm_free_frames_count := pmm_free_frames_count s + of_nat k,
           pmm_used_frames_count := pmm_used_frames_count s - of_nat k\<rparr>"
    and "\<And>a. \<not> in_bitmap s a \<Longrightarrow> m a = mem s a"
    and "\<And>g. pmm_test_frame s' g \<longleftrightarrow> pmm_test_frame s g \<and> unat g \<notin> X"
  shows "frames_freed s X s'"
  using assms unfolding frames_freed_def by blast

lemma frames_freed_empty: "frames_freed s {} s"
  by (rule frames_freedI [where k = 0 and m = "mem s" and out = "port_out s"])
    (auto simp: used_in_def)

lemma frames_freed_trans:
  assumes "frames_freed s X t" and "frames_freed t Y u" and "X \<union> Y \<subseteq> {..<2 ^ 52}"
  shows "frames_freed s (X \<union> Y) u"
proof -
  obtain m out where t: "t = s\<lparr>mem := m, port_out := out,
      pmm_free_frames_count := pmm_free_frames_count s + of_nat (card (used_in s X)),
      pmm_used_frames_count := pmm_used_frames_count s - of_nat (card (used_in s X))\<rparr>"
    using assms(1) unfolding frames_freed_def by blast
  obtain m' out' where u: "u = t\<lparr>mem := m', port_out := out',
      pmm_free_frames_count := pmm_free_frames_count t + of_nat (card (used_in t Y)),
      pmm_used_frames_count := pmm_used_frames_count t - of_nat (card (used_in t Y))\<rparr>"
    and m': "\<forall>a. \<not> in_bitmap t a \<longrightarrow> m' a = mem t a"
    using assms(2) unfolding frames_freed_def by blast
  have fin: "finite X" "finite Y" using assms(3) finite_subset by blast+
  have "used_in s (X \<union> Y) = used_in s X \<union> used_in t Y"
    and "used_in s X \<inter> used_in t Y = {}"
    using assms(3) by (auto simp: used_in_def frames_freed_fields [OF assms(1)] unat_of_nat_small subset_iff)
  then have card: "card (used_in s (X \<union> Y)) = card (used_in s X) + card (used_in t Y)"
    using fin by (simp add: card_Un_disjoint used_in_def)
  show ?thesis
  proof (rule frames_freedI [OF card [symmetric], where m = m' and out = out'])
    show "m' a = mem s a" if "\<not> in_bitmap s a" for a
      using that m' frames_freed_fields(4,10) [OF assms(1)] by simp
    show "pmm_test_frame u g \<longleftrightarrow> pmm_test_frame s g \<and> unat g \<notin> X \<union> Y" for g
      using frames_freed_fields(9) [OF assms(1)] frames_freed_fields(9) [OF assms(2)] by auto
  qed (simp add: u t algebra_simps)
qed

text \<open>Clearing the bit of one frame, with the counters moved along, or leaving a clear bit alone.\<close>

lemma frames_freed_one:
  assumes "n < frames s" and "frames s \<le> 2 ^ 52"
    and "pmm_test_frame s (of_nat n) \<Longrightarrow>
       s' = (pmm_clear_frame (of_nat n) s)
              \<lparr>pmm_free_frames_count := pmm_free_frames_count s + 1,
               pmm_used_frames_count := pmm_used_frames_count s - 1\<rparr>"
    and "\<not> pmm_test_frame s (of_nat n) \<Longrightarrow> s' = s\<lparr>port_out := out\<rparr>"
  shows "frames_freed s {n} s'"
proof -
  have n: "unat (of_nat n :: u64) = n" using assms by (simp add: unat_of_nat_small)
  have eq: "g = of_nat n \<longleftrightarrow> unat g = n" for g :: u64
    by (auto simp: word_eq_unat n)
  show ?thesis
  proof (cases "pmm_test_frame s (of_nat n)")
    case True
    then have one: "used_in s {n} = {n}" by (auto simp: used_in_def)
    obtain m where m: "pmm_clear_frame (of_nat n) s = s\<lparr>mem := m\<rparr>"
      "\<forall>a. \<not> in_bitmap s a \<longrightarrow> m a = mem s a"
      using bitmap_update_set_clear(2) [of "of_nat n" s] assms n by (auto simp: bitmap_update_def)
    have test: "pmm_test_frame (s\<lparr>mem := m\<rparr>) g \<longleftrightarrow> pmm_test_frame s g \<and> g \<noteq> of_nat n" for g
      using test_clear_frame [of "of_nat n" s g] by (simp add: m(1) conj_commute)
    show ?thesis
      by (rule frames_freedI [where k = 1 and m = m and out = "port_out s"])
        (simp_all add: one m assms(3) [OF True] test eq)
  next
    case False
    then show ?thesis
      by (intro frames_freedI [where k = 0 and m = "mem s" and out = out])
        (auto simp: used_in_def assms(4))
  qed
qed

lemma pmm_free_frame_freed:
  assumes "n < frames s" and "frames s \<le> 2 ^ 52"
  shows "frames_freed s {n} (pmm_free_frame (of_nat n) s)"
proof (rule frames_freed_one [OF assms])
  show "\<not> pmm_test_frame s (of_nat n) \<Longrightarrow>
      pmm_free_frame (of_nat n) s = s\<lparr>port_out := port_out (pmm_free_frame (of_nat n) s)\<rparr>"
    by (simp add: pmm_free_frame_def serial_log_def)
qed (simp add: pmm_free_frame_def Let_def pmm_clear_frame_def)

lemma pmm_free_frames_loop_freed:
  assumes "frames s \<le> 2 ^ 52" and "unat frame + i \<le> 2 ^ 52" and "i \<le> n"
  shows "frames_freed s {unat frame + i..<min (unat frame + n) (frames s)}
           (pmm_free_frames_loop frame [i..<n] s)"
  using assms
proof (induction "n - i" arbitrary: i s)
  case 0
  then show ?case by (simp add: frames_freed_empty)
next
  case (Suc k)
  then have i: "i < n" and list: "[i..<n] = i # [Suc i..<n]" by (simp_all add: upt_conv_Cons)
  let ?f = "unat frame"
  have fr: "frame + of_nat i = of_nat (?f + i)" by simp
  have u: "unat (of_nat (?f + i) :: u64) = ?f + i"
    by (rule unat_of_nat_small) (use Suc.prems(2) in simp)
  show ?case
  proof (cases "frames s \<le> ?f + i")
    case True
    then show ?thesis by (simp add: list fr word_le_unat u frames_freed_empty del: of_nat_add)
  next
    case False
    define t where "t = pmm_free_frame (of_nat (?f + i)) s"
    have step: "frames_freed s {?f + i} t"
      unfolding t_def by (rule pmm_free_frame_freed) (use False Suc.prems(1) in simp_all)
    note F = frames_freed_fields(1) [OF step]
    have rest: "frames_freed t {?f + Suc i..<min (?f + n) (frames t)}
        (pmm_free_frames_loop frame [Suc i..<n] t)"
      by (rule Suc.hyps(1)) (use Suc.hyps(2) Suc.prems i False F in simp_all)
    have "frames_freed s ({?f + i} \<union> {?f + Suc i..<min (?f + n) (frames s)})
        (pmm_free_frames_loop frame [Suc i..<n] t)"
      by (rule frames_freed_trans [OF step rest [unfolded F]]) (use Suc.prems(1) False in auto)
    moreover have "{?f + i} \<union> {?f + Suc i..<min (?f + n) (frames s)} = {?f + i..<min (?f + n) (frames s)}"
      using False i by auto
    ultimately show ?thesis
      using False by (simp add: list fr Let_def t_def [symmetric] word_le_unat u del: of_nat_add)
  qed
qed

lemma pmm_free_frames_freed:
  fixes phys_addr :: u64
  assumes "frames s \<le> 2 ^ 52"
  defines "lo \<equiv> unat phys_addr div 4096"
  shows "frames_freed s {lo..<min (lo + unat count) (frames s)} (pmm_free_frames phys_addr count s)"
proof (cases "count = 0")
  case True
  then show ?thesis by (simp add: pmm_free_frames_def frames_freed_empty)
next
  case False
  have "unat (phys_addr div PAGE_SIZE) = lo" by (simp add: unat_div_u64 lo_def)
  moreover have "lo \<le> 2 ^ 52" using unat_u64_less [of phys_addr] by (simp add: lo_def)
  ultimately show ?thesis
    using pmm_free_frames_loop_freed [OF assms(1), of "phys_addr div PAGE_SIZE" 0 "unat count"] False
    by (simp add: pmm_free_frames_def)
qed

text \<open>Only the release of a frame that is not in use is logged.\<close>

lemma pmm_free_frames_quiet:
  assumes "distinct is" and "\<forall>i\<in>set is. i < 18446744073709551616 \<and> pmm_test_frame s (frame + of_nat i)"
  shows "port_out (pmm_free_frames_loop frame is s) = port_out s"
  using assms
proof (induction "is" arbitrary: s)
  case (Cons i "is")
  let ?t = "pmm_free_frame (frame + of_nat i) s"
  have "pmm_test_frame s (frame + of_nat i)" using Cons.prems by simp
  then have out: "port_out ?t = port_out s"
    and test: "\<And>g. pmm_test_frame ?t g \<longleftrightarrow> g \<noteq> frame + of_nat i \<and> pmm_test_frame s g"
    by (simp_all add: pmm_free_frame_def Let_def test_clear_frame) (simp add: pmm_clear_frame_def)
  have "port_out (pmm_free_frames_loop frame is ?t) = port_out ?t"
  proof (rule Cons.IH)
    show "\<forall>j\<in>set is. j < 18446744073709551616 \<and> pmm_test_frame ?t (frame + of_nat j)"
    proof
      fix j assume j: "j \<in> set is"
      then have "unat (of_nat j :: u64) \<noteq> unat (of_nat i :: u64)"
        using Cons.prems by (auto simp: unat_of_nat_small)
      then have "frame + of_nat j \<noteq> frame + of_nat i" by auto
      then show "j < 18446744073709551616 \<and> pmm_test_frame ?t (frame + of_nat j)"
        using Cons.prems j by (simp add: test)
    qed
  qed (use Cons.prems in simp)
  then show ?case using out by (simp add: Let_def)
qed simp

lemma frames_freed_free_frames:
  assumes "frames s \<le> 2 ^ 52" and "frames_freed s X s'" and "X \<subseteq> {..<frames s}"
  shows "free_frames s' = free_frames s \<union> used_in s X"
  using assms(1,3)
  by (auto simp: free_frames_def used_in_def frames_freed_fields [OF assms(2)] unat_of_nat_small)

lemma frames_freed_inv:
  assumes inv: "pmm_inv d s" and freed: "frames_freed s X s'" and "X \<subseteq> {..<frames s}" and "0 \<notin> X"
  shows "pmm_inv d s'"
proof -
  have F: "frames s \<le> 4503599627370496" using inv by (simp add: pmm_inv_def pmm_wf_def)
  let ?U = "used_in s X"
  have free: "free_frames s' = free_frames s \<union> ?U"
    using frames_freed_free_frames [OF _ freed assms(3)] F by simp
  have "finite X" using assms(3) finite_subset by blast
  moreover have "free_frames s \<inter> ?U = {}" by (auto simp: free_frames_def used_in_def)
  ultimately have card: "card (free_frames s') = card (free_frames s) + card ?U"
    unfolding free by (simp add: card_Un_disjoint used_in_def)
  have "free_frames s' \<subseteq> {..<frames s}"
    by (auto simp: free_frames_def frames_freed_fields [OF freed])
  from card_mono [OF _ this] have le: "card (free_frames s') \<le> frames s" by simp
  have "unat (pmm_free_frames_count s) + card ?U < 18446744073709551616"
    using inv card le F by (simp add: pmm_inv_def)
  then have "unat (pmm_free_frames_count s') = unat (pmm_free_frames_count s) + card ?U"
    by (simp add: frames_freed_fields [OF freed]) (subst unat_add_small; simp add: unat_of_nat_small)
  then show ?thesis
    using inv card assms(4) by (simp add: pmm_inv_def pmm_wf_def frames_freed_fields [OF freed])
qed

section \<open>The bitmap determines its bytes\<close>

lemma bitmap_bytes_eq:
  assumes "\<And>g. pmm_test_frame (s\<lparr>mem := m\<rparr>) g = pmm_test_frame s g"
    and "\<And>a. \<not> in_bitmap s a \<Longrightarrow> m a = mem s a"
  shows "m = mem s"
proof
  fix a
  show "m a = mem s a"
  proof (cases "in_bitmap s a")
    case True
    define off where "off = a - pmm_bitmap s"
    have "unat off < unat ((pmm_bitmap_frames s + 7) div 8)"
      using True by (simp add: in_bitmap_def off_def word_less_unat)
    then have off: "unat off * 8 + 8 \<le> 18446744073709551616"
      using unat_u64_less [of "pmm_bitmap_frames s + 7"] by (simp add: unat_div_u64)
    have "bit (m a) b = bit (mem s a) b" if "b < 8" for b
    proof -
      define g where "g = (of_nat (unat off * 8 + b) :: u64)"
      have g: "unat g = unat off * 8 + b" using off that unfolding g_def by (intro unat_of_nat_small) simp
      then have "g div 8 = off" "unat (g mod 8) = b"
        using that by (simp_all add: word_eq_unat unat_div_u64 unat_mod_u64)
      then have "bitmap_byte s g = a" "bitmap_byte (s\<lparr>mem := m\<rparr>) g = a"
        by (simp_all add: bitmap_byte_def off_def)
      then show ?thesis using assms(1) [of g] \<open>unat (g mod 8) = b\<close> by (simp add: pmm_test_frame_bit)
    qed
    then show ?thesis by (intro bit_word_eqI) simp
  next
    case False
    then show ?thesis using assms(2) by simp
  qed
qed

text \<open>Freeing what was just taken restores everything but the search hint.\<close>

lemma take_free_restores:
  assumes wf: "pmm_wf s" and run: "free_run s start_ok (unat count) r"
    and taken: "run_taken s (unat count) r s'" and pos: "count \<noteq> 0"
  shows "pmm_free_frames (of_nat (r * 4096)) count s'
       = s\<lparr>next_fit_hint := of_nat ((r + unat count) mod frames s)\<rparr>"
proof -
  have F: "frames s \<le> 4503599627370496" using wf by (simp add: pmm_wf_def)
  have r: "r + unat count \<le> frames s" using run by (simp add: free_run_def)
  let ?hi = "r + unat count"
  define u where "u = pmm_free_frames (of_nat (r * 4096)) count s'"
  have addr: "unat (of_nat (r * 4096) :: u64) = r * 4096"
    by (rule unat_of_nat_small) (use F r pos in \<open>simp flip: unat_gt_0\<close>)
  then have freed: "frames_freed s' {r..<?hi} u"
    using pmm_free_frames_freed [of s' "of_nat (r * 4096)" count] F r
    by (simp add: run_taken_fields [OF taken] u_def min_def)
  have used: "used_in s' {r..<?hi} = {r..<?hi}"
    using F r by (auto simp: used_in_def run_taken_fields [OF taken] unat_of_nat_small)
  then have card: "card (used_in s' {r..<?hi}) = unat count" by simp
  obtain m where s': "s' = s\<lparr>mem := m,
      pmm_free_frames_count := pmm_free_frames_count s - count,
      pmm_used_frames_count := pmm_used_frames_count s + count,
      next_fit_hint := of_nat (?hi mod frames s)\<rparr>"
    using taken by (auto simp: run_taken_def)
  have first: "(of_nat (r * 4096) :: u64) div PAGE_SIZE = of_nat r"
    using F r unfolding word_eq_unat unat_div_u64 addr by (simp add: unat_of_nat_small)
  have out: "port_out u = port_out s'"
    unfolding u_def pmm_free_frames_def first
    using F r unat_u64_less [of count]
    by (auto simp: run_taken_fields [OF taken] unat_of_nat_small simp flip: of_nat_add
        intro!: pmm_free_frames_quiet)
  obtain m' where u: "u = s'\<lparr>mem := m', port_out := port_out u,
      pmm_free_frames_count := pmm_free_frames_count s' + count,
      pmm_used_frames_count := pmm_used_frames_count s' - count\<rparr>"
    using freed unfolding frames_freed_def card by auto
  then have u': "u = s\<lparr>mem := m', next_fit_hint := of_nat (?hi mod frames s)\<rparr>"
    unfolding out by (simp add: s')
  have "m' = mem s"
  proof (rule bitmap_bytes_eq)
    show "pmm_test_frame (s\<lparr>mem := m'\<rparr>) g = pmm_test_frame s g" for g
    proof -
      have "pmm_test_frame (s\<lparr>mem := m'\<rparr>) g = pmm_test_frame u g" by (simp add: u')
      moreover have "\<not> pmm_test_frame s g" if "r \<le> unat g" "unat g < ?hi"
        using run that by (metis free_run_def of_nat_unat_u64)
      ultimately show ?thesis
        by (auto simp: frames_freed_fields [OF freed] run_taken_fields [OF taken])
    qed
    show "m' a = mem s a" if "\<not> in_bitmap s a" for a
      using that frames_freed_fields(10) [OF freed, of a] run_taken_fields(4,10) [OF taken]
      by (simp add: u')
  qed
  then show ?thesis using u' unfolding u_def by simp
qed

end
