(* ===== verification/Pmm_Live.thy ===== *)
theory Pmm_Live
  imports Pmm_Alloc
begin

text \<open>
  The pages behind the frames of \<open>kernel/mm/pmm.c\<close>: where a frame lies in the direct map, what the
  zeroing allocations leave in memory, and the blocks that are live after any sequence of calls.
\<close>

section \<open>Frames in the direct map\<close>

definition frame_of :: "'a pmm_state_scheme \<Rightarrow> u64 \<Rightarrow> nat" where
  "frame_of s a = unat (a - hhdm_offset s) div 4096"

definition bitmap_phys :: "'a pmm_state_scheme \<Rightarrow> nat" where
  "bitmap_phys s = unat (pmm_bitmap s - hhdm_offset s)"

text \<open>The frames the bitmap itself occupies, and that the allocator keeps them marked.\<close>

definition bitmap_frame_list :: "'a pmm_state_scheme \<Rightarrow> nat list" where
  "bitmap_frame_list s =
     [bitmap_phys s div 4096..<(bitmap_phys s + (frames s + 7) div 8 + 4095) div 4096]"

definition pmm_layout :: "'a pmm_state_scheme \<Rightarrow> bool" where
  "pmm_layout s \<longleftrightarrow> bitmap_phys s + (frames s + 7) div 8 \<le> frames s * 4096
     \<and> list_all (\<lambda>n. pmm_test_frame s (of_nat n)) (bitmap_frame_list s)"

lemma frame_of_run:
  assumes "r + c \<le> frames s" and "frames s \<le> 2 ^ 52" and "c < frames s"
  shows "in_region (of_nat (r * 4096) + hhdm_offset s) (of_nat (c * 4096)) a
     \<longleftrightarrow> r \<le> frame_of s a \<and> frame_of s a < r + c"
proof -
  define x where "x = a - hhdm_offset s"
  have F: "frames s \<le> 4503599627370496" using assms(2) by simp
  have c: "unat (of_nat (c * 4096) :: u64) = c * 4096"
    by (rule unat_of_nat_small) (use assms(1,3) F in simp)
  have "in_region (of_nat (r * 4096) + hhdm_offset s) (of_nat (c * 4096)) a
     \<longleftrightarrow> unat (x - of_nat (r * 4096)) < c * 4096"
    unfolding word_less_unat c x_def by (simp add: algebra_simps)
  also have "\<dots> \<longleftrightarrow> r * 4096 \<le> unat x \<and> unat x < (r + c) * 4096"
  proof (cases "r = 4503599627370496")
    case True
    then have "c = 0" using assms(1) F by simp
    then show ?thesis by simp
  next
    case False
    then have r: "unat (of_nat (r * 4096) :: u64) = r * 4096"
      by (intro unat_of_nat_small) (use assms(1) F in simp)
    show ?thesis
    proof (cases "r * 4096 \<le> unat x")
      case True
      then have "unat (x - of_nat (r * 4096)) = unat x - r * 4096"
        using unat_diff_small [of "of_nat (r * 4096)" x] r by (simp only: word_le_unat)
      then show ?thesis using True by auto
    next
      case False
      then have ne: "x \<noteq> of_nat (r * 4096)" using r by auto
      have "unat (of_nat (r * 4096) - x) = r * 4096 - unat x"
        using unat_diff_small [of x "of_nat (r * 4096)"] r False by (simp only: word_le_unat)
      then have "unat (x - of_nat (r * 4096)) = 18446744073709551616 - (r * 4096 - unat x)"
        using unat_diff_sum [OF ne] by linarith
      moreover have "18446744073709551616 \<ge> r * 4096 + c * 4096" using assms(1) F by simp
      ultimately show ?thesis using False by linarith
    qed
  qed
  also have "\<dots> \<longleftrightarrow> r \<le> frame_of s a \<and> frame_of s a < r + c"
    unfolding frame_of_def x_def [symmetric]
    by (simp add: div_less_iff_less_mult less_eq_div_iff_mult_less_eq)
  finally show ?thesis .
qed

lemma in_bitmap_frame:
  assumes "pmm_wf s" and "pmm_layout s" and "in_bitmap s a"
  shows "frame_of s a \<in> set (bitmap_frame_list s)" "frame_of s a < frames s"
proof -
  have F: "frames s \<le> 4503599627370496" using assms(1) by (simp add: pmm_wf_def)
  have fit: "bitmap_phys s + (frames s + 7) div 8 \<le> frames s * 4096"
    using assms(2) by (simp add: pmm_layout_def)
  define off where "off = a - pmm_bitmap s"
  have "unat (pmm_bitmap_frames s + 7) = frames s + 7"
    using F by (subst unat_add_small) simp_all
  then have off: "unat off < (frames s + 7) div 8"
    using assms(3) by (simp add: in_bitmap_def off_def word_less_unat unat_div_u64)
  have "a - hhdm_offset s = (pmm_bitmap s - hhdm_offset s) + off" by (simp add: off_def)
  also have "unat \<dots> = bitmap_phys s + unat off"
    using off fit F unfolding bitmap_phys_def by (subst unat_add_small) simp_all
  finally have pos: "unat (a - hhdm_offset s) = bitmap_phys s + unat off" .
  show "frame_of s a \<in> set (bitmap_frame_list s)"
    unfolding frame_of_def pos bitmap_frame_list_def using off by auto
  show "frame_of s a < frames s"
    unfolding frame_of_def pos using off fit by (simp add: div_less_iff_less_mult)
qed

lemma bitmap_frame_used:
  assumes "pmm_wf s" and "pmm_layout s" and "in_bitmap s a"
  shows "frame_of s a < frames s \<and> pmm_test_frame s (of_nat (frame_of s a))"
  using in_bitmap_frame [OF assms] assms(2) by (auto simp: pmm_layout_def list_all_iff)

section \<open>Zeroed allocations\<close>

text \<open>A write that stays out of the bitmap does not change which frames are free.\<close>

lemma outside_bitmap_test:
  assumes "frames s \<le> 2 ^ 52" and "\<And>a. in_bitmap s a \<Longrightarrow> m a = mem s a" and "unat g < frames s"
  shows "pmm_test_frame (s\<lparr>mem := m\<rparr>) g = pmm_test_frame s g"
  using assms(2) [OF in_bitmap_byte [OF assms(3,1)]]
  by (simp add: pmm_test_frame_def bitmap_byte_def)

definition zero_frames :: "nat \<Rightarrow> nat \<Rightarrow> 'a pmm_state_scheme \<Rightarrow> 'a pmm_state_scheme" where
  "zero_frames r c s =
     s\<lparr>mem := (\<lambda>a. if r \<le> frame_of s a \<and> frame_of s a < r + c then 0 else mem s a)\<rparr>"

lemma free_run_bound:
  assumes "pmm_wf s" and "free_run s start_ok c r" and "0 < c"
  shows "c < frames s" "r + c \<le> frames s" "r < frames s" "r * 4096 < 18446744073709551616"
    "r * 4096 \<noteq> 0"
  using assms free_run_pos [OF assms] by (auto simp: free_run_def pmm_wf_def)

lemma run_address:
  assumes "pmm_wf s" and "free_run s start_ok c r" and "0 < c"
  shows "(of_nat (r * 4096) :: u64) \<noteq> 0" "unat (of_nat (r * 4096) :: u64) = r * 4096"
    "unat (of_nat (r * 4096) :: u64) div 4096 = r"
proof -
  note b = free_run_bound [OF assms]
  show u: "unat (of_nat (r * 4096) :: u64) = r * 4096" by (rule unat_of_nat_small [OF b(4)])
  then show "unat (of_nat (r * 4096) :: u64) div 4096 = r" by simp
  show "(of_nat (r * 4096) :: u64) \<noteq> 0" using u b(5) by (metis unat_0)
qed

lemma pmm_zero_run_frames:
  assumes "pmm_wf s" and "free_run s start_ok (unat count) r" and "count \<noteq> 0"
    and "run_taken s (unat count) r s'"
  shows "pmm_zero_run (count * PAGE_SIZE) (of_nat (r * 4096), s')
       = (of_nat (r * 4096), zero_frames r (unat count) s')"
proof -
  have pos: "0 < unat count" using assms(3) by (simp add: unat_gt_0)
  note b = free_run_bound [OF assms(1,2) pos] and ad = run_address [OF assms(1,2) pos]
  have F: "frames s' = frames s" by (simp add: run_taken_fields [OF assms(4)])
  have n: "count * PAGE_SIZE = of_nat (unat count * 4096)" by simp
  have "memset (of_nat (r * 4096) + hhdm_offset s') 0 (of_nat (unat count * 4096)) (mem s') =
      (\<lambda>a. if r \<le> frame_of s' a \<and> frame_of s' a < r + unat count then 0 else mem s' a)"
    using frame_of_run [of r "unat count" s'] b assms(1) F
    by (simp add: fun_eq_iff memset_apply pmm_wf_def del: of_nat_mult)
  then show ?thesis
    using ad(1) unfolding pmm_zero_run_def zero_frames_def n by (simp del: of_nat_mult)
qed

lemma zero_frames_test:
  assumes wf: "pmm_wf s" and lay: "pmm_layout s"
    and run: "free_run s start_ok c r" "run_taken s c r s'" and "unat g < frames s"
  shows "pmm_test_frame (zero_frames r c s') g = pmm_test_frame s' g"
  unfolding zero_frames_def
proof (rule outside_bitmap_test)
  show "frames s' \<le> 2 ^ 52" "unat g < frames s'"
    using wf assms(5) by (simp_all add: pmm_wf_def run_taken_fields [OF run(2)])
  fix a assume "in_bitmap s' a"
  then have "in_bitmap s a" by (simp add: run_taken_fields [OF run(2)])
  from bitmap_frame_used [OF wf lay this]
  have "\<not> (r \<le> frame_of s a \<and> frame_of s a < r + c)"
    using run(1) by (auto simp: free_run_def)
  moreover have "frame_of s' a = frame_of s a"
    by (simp add: frame_of_def run_taken_fields [OF run(2)])
  ultimately show "(if r \<le> frame_of s' a \<and> frame_of s' a < r + c then 0 else mem s' a) = mem s' a"
    by auto
qed

lemma pmm_inv_cong:
  assumes "\<And>g. unat g < frames s \<Longrightarrow> pmm_test_frame s' g = pmm_test_frame s g"
    and "pmm_bitmap_frames s' = pmm_bitmap_frames s" and "next_fit_hint s' = next_fit_hint s"
    and "pmm_free_frames_count s' = pmm_free_frames_count s" and "frames s \<le> 2 ^ 52"
  shows "pmm_inv d s' = pmm_inv d s" "free_frames s' = free_frames s" "pmm_wf s' = pmm_wf s"
proof -
  show ff: "free_frames s' = free_frames s"
    using assms by (auto simp: free_frames_def unat_of_nat_small)
  show wf: "pmm_wf s' = pmm_wf s"
    using assms by (auto simp: pmm_wf_def)
  show "pmm_inv d s' = pmm_inv d s" by (simp add: pmm_inv_def ff wf assms)
qed

lemma pmm_layout_mono:
  assumes "pmm_layout s" and "\<And>n. n \<in> set (bitmap_frame_list s) \<Longrightarrow>
      pmm_test_frame s (of_nat n) \<Longrightarrow> pmm_test_frame s' (of_nat n)"
    and "pmm_bitmap_frames s' = pmm_bitmap_frames s" and "pmm_bitmap s' = pmm_bitmap s"
    and "hhdm_offset s' = hhdm_offset s"
  shows "pmm_layout s'"
proof -
  have "bitmap_phys s' = bitmap_phys s" using assms(4,5) by (simp add: bitmap_phys_def)
  moreover from this have "bitmap_frame_list s' = bitmap_frame_list s"
    using assms(3) by (simp add: bitmap_frame_list_def)
  ultimately show ?thesis using assms(1,2,3) by (auto simp: pmm_layout_def list_all_iff)
qed

lemma bitmap_frame_list_less:
  assumes "pmm_layout s" and "n \<in> set (bitmap_frame_list s)"
  shows "n < frames s"
  using assms by (auto simp: pmm_layout_def bitmap_frame_list_def)

lemma pmm_layout_cong:
  assumes lay: "pmm_layout s" and "\<And>g. unat g < frames s \<Longrightarrow> pmm_test_frame s' g = pmm_test_frame s g"
    and "pmm_bitmap_frames s' = pmm_bitmap_frames s" and "pmm_bitmap s' = pmm_bitmap s"
    and "hhdm_offset s' = hhdm_offset s" and "frames s \<le> 2 ^ 52"
  shows "pmm_layout s'"
proof (rule pmm_layout_mono [OF lay _ assms(3-5)])
  fix n assume "n \<in> set (bitmap_frame_list s)" "pmm_test_frame s (of_nat n)"
  moreover from this have "unat (of_nat n :: u64) < frames s"
    using bitmap_frame_list_less [OF lay, of n] assms(6) by (simp add: unat_of_nat_small)
  ultimately show "pmm_test_frame s' (of_nat n)" using assms(2) by simp
qed

lemma run_taken_layout:
  assumes "pmm_layout s" and "run_taken s c r s'"
  shows "pmm_layout s'"
  by (rule pmm_layout_mono [OF assms(1)]) (simp_all add: run_taken_fields [OF assms(2)])

definition zeroed_outcome ::
  "'a pmm_state_scheme \<Rightarrow> (u64 \<Rightarrow> bool) \<Rightarrow> u64 \<Rightarrow> u64 \<Rightarrow> 'a pmm_state_scheme \<Rightarrow> bool" where
  "zeroed_outcome s start_ok count p s' \<longleftrightarrow>
     (if count \<noteq> 0 \<and> count \<le> pmm_free_frames_count s \<and> (\<exists>r. free_run s start_ok (unat count) r)
      then \<exists>r>0. \<exists>t. free_run s start_ok (unat count) r \<and> p = of_nat (r * 4096)
             \<and> run_taken s (unat count) r t \<and> s' = zero_frames r (unat count) t
      else p = 0 \<and> s' = s)"

lemma zero_outcome:
  assumes "pmm_wf s" and "alloc_outcome s start_ok count p s'"
  shows "\<exists>t. pmm_zero_run (count * PAGE_SIZE) (p, s') = (p, t) \<and> zeroed_outcome s start_ok count p t"
proof (cases "count \<noteq> 0 \<and> count \<le> pmm_free_frames_count s
    \<and> (\<exists>r. free_run s start_ok (unat count) r)")
  case True
  then obtain r where r: "0 < r" "free_run s start_ok (unat count) r" "p = of_nat (r * 4096)"
    "run_taken s (unat count) r s'"
    using assms(2) by (auto simp: alloc_outcome_def)
  show ?thesis
    using pmm_zero_run_frames [OF assms(1) r(2) _ r(4)] r True
    unfolding zeroed_outcome_def by auto
next
  case False
  then have "p = 0" "s' = s" using assms(2) by (auto simp: alloc_outcome_def split: if_splits)
  then show ?thesis using False by (auto simp: zeroed_outcome_def pmm_zero_run_def)
qed

lemma pmm_alloc_frames_zeroed_outcome:
  assumes "pmm_wf s"
  shows "\<exists>p s'. pmm_alloc_frames_zeroed count s = Some (p, s')
           \<and> zeroed_outcome s (\<lambda>_. True) count p s'"
  using pmm_alloc_frames_outcome [OF assms, of count] zero_outcome [OF assms]
  by (fastforce simp: pmm_alloc_frames_zeroed_def)

lemma pmm_alloc_frames_aligned_zeroed_outcome:
  assumes "pmm_wf s" and "alignment \<noteq> 0"
  shows "\<exists>p s'. pmm_alloc_frames_aligned_zeroed count alignment s = Some (p, s')
           \<and> zeroed_outcome s (\<lambda>f. (f * PAGE_SIZE) mod max alignment PAGE_SIZE = 0) count p s'"
  using pmm_alloc_frames_aligned_outcome [OF assms, of count] zero_outcome [OF assms(1)]
  by (fastforce simp: pmm_alloc_frames_aligned_zeroed_def)

lemma pmm_alloc_zeroed_frames: "pmm_alloc_zeroed s = pmm_alloc_frames_zeroed 1 s"
  by (simp add: pmm_alloc_zeroed_def pmm_alloc_frames_zeroed_def pmm_alloc_def)

text \<open>What a caller of \<open>pmm_alloc_zeroed\<close> may rely on.\<close>

definition pmm_ok :: "nat \<Rightarrow> 'a pmm_state_scheme \<Rightarrow> bool" where
  "pmm_ok d s \<longleftrightarrow> pmm_inv d s \<and> pmm_layout s"

definition page_fresh :: "nat \<Rightarrow> 'a pmm_state_scheme \<Rightarrow> nat \<Rightarrow> 'a pmm_state_scheme \<Rightarrow> bool" where
  "page_fresh d s n s' \<longleftrightarrow>
     0 < n \<and> n \<in> free_frames s \<and> pmm_ok d s' \<and> free_frames s' = free_frames s - {n}
     \<and> (\<exists>m fc uc h. s' = s\<lparr>mem := m, pmm_free_frames_count := fc, pmm_used_frames_count := uc,
                          next_fit_hint := h\<rparr>)
     \<and> (\<forall>a. \<not> in_bitmap s a \<longrightarrow> mem s' a = (if frame_of s a = n then 0 else mem s a))"

lemma zero_frames_ok:
  assumes ok: "pmm_ok d s" and run: "free_run s start_ok (unat count) r" "run_taken s (unat count) r t"
    and cnt: "count \<le> pmm_free_frames_count s"
  shows "pmm_ok d (zero_frames r (unat count) t)"
    "free_frames (zero_frames r (unat count) t) = free_frames s - {r..<r + unat count}"
proof -
  let ?u = "zero_frames r (unat count) t"
  have inv: "pmm_inv d s" and wf: "pmm_wf s" and lay: "pmm_layout s"
    using ok by (simp_all add: pmm_ok_def pmm_inv_def)
  note fields = run_taken_fields [OF run(2)]
  have F: "frames t \<le> 2 ^ 52" using wf by (simp add: fields pmm_wf_def)
  have test: "pmm_test_frame ?u g = pmm_test_frame t g" if "unat g < frames t" for g
    using zero_frames_test [OF wf lay run] that by (simp add: fields)
  have inv_t: "pmm_inv d t" by (rule run_taken_inv [OF inv run cnt])
  have u: "pmm_inv d ?u" "free_frames ?u = free_frames t"
    using pmm_inv_cong [OF test _ _ _ F] inv_t by (simp_all add: zero_frames_def)
  moreover have "pmm_layout ?u"
    by (rule pmm_layout_cong [OF run_taken_layout [OF lay run(2)] test])
      (use F in \<open>simp_all add: zero_frames_def\<close>)
  ultimately show "pmm_ok d ?u" "free_frames ?u = free_frames s - {r..<r + unat count}"
    using run_taken_free_frames [OF wf run(2)] by (simp_all add: pmm_ok_def)
qed

lemma zero_frames_mem:
  assumes "run_taken s c r t" and "\<not> in_bitmap s a"
  shows "mem (zero_frames r c t) a = (if r \<le> frame_of s a \<and> frame_of s a < r + c then 0 else mem s a)"
  using run_taken_fields(10) [OF assms] by (auto simp: zero_frames_def frame_of_def run_taken_fields [OF assms(1)])

lemma zeroed_outcome_cases:
  assumes ok: "pmm_ok d s" and out: "zeroed_outcome s start_ok count p s'"
  shows "pmm_ok d s' \<and> (p = 0 \<and> s' = s
        \<or> (\<exists>r. p = of_nat (r * 4096) \<and> p \<noteq> 0 \<and> {r..<r + unat count} \<subseteq> free_frames s
             \<and> free_frames s' = free_frames s - {r..<r + unat count}
             \<and> (\<forall>a. \<not> in_bitmap s a \<longrightarrow> mem s' a =
                   (if r \<le> frame_of s a \<and> frame_of s a < r + unat count then 0 else mem s a))))"
proof (cases "count \<noteq> 0 \<and> count \<le> pmm_free_frames_count s
    \<and> (\<exists>r. free_run s start_ok (unat count) r)")
  case True
  note out [unfolded zeroed_outcome_def if_P [OF True]]
  then obtain r t where r: "free_run s start_ok (unat count) r" "p = of_nat (r * 4096)"
    "run_taken s (unat count) r t" "s' = zero_frames r (unat count) t"
    by blast
  have wf: "pmm_wf s" using ok by (simp add: pmm_ok_def pmm_inv_def)
  have "p \<noteq> 0"
    unfolding r(2) by (rule run_address(1) [OF wf r(1)]) (use True in \<open>simp add: unat_gt_0\<close>)
  moreover note zero_frames_ok [OF ok r(1,3)] zero_frames_mem [OF r(3)]
  ultimately show ?thesis
    using True r free_run_subset [OF r(1)] by blast
next
  case False
  then have "p = 0 \<and> s' = s" using out unfolding zeroed_outcome_def if_not_P [OF False] by blast
  then show ?thesis using ok by blast
qed

lemma zeroed_page_fresh:
  assumes ok: "pmm_ok d s" and run: "free_run s start_ok 1 r" "run_taken s 1 r t"
    and cnt: "1 \<le> pmm_free_frames_count s" and "0 < r"
  shows "page_fresh d s r (zero_frames r 1 t)"
proof -
  let ?u = "zero_frames r 1 t"
  have "pmm_ok d ?u" "free_frames ?u = free_frames s - {r}"
    using zero_frames_ok [of d s start_ok 1 r t, OF ok] run cnt by simp_all
  moreover have "r \<in> free_frames s" using free_run_subset [OF run(1)] by auto
  moreover have "\<exists>m fc uc h. ?u = s\<lparr>mem := m, pmm_free_frames_count := fc,
      pmm_used_frames_count := uc, next_fit_hint := h\<rparr>"
  proof -
    obtain m where "t = s\<lparr>mem := m, pmm_free_frames_count := pmm_free_frames_count s - of_nat 1,
        pmm_used_frames_count := pmm_used_frames_count s + of_nat 1,
        next_fit_hint := of_nat ((r + 1) mod frames s)\<rparr>"
      using run(2) unfolding run_taken_def by blast
    then have "?u = s\<lparr>mem := mem ?u, pmm_free_frames_count := pmm_free_frames_count t,
        pmm_used_frames_count := pmm_used_frames_count t, next_fit_hint := next_fit_hint t\<rparr>"
      by (simp add: zero_frames_def)
    then show ?thesis by blast
  qed
  moreover have "mem ?u a = (if frame_of s a = r then 0 else mem s a)" if "\<not> in_bitmap s a" for a
    using zero_frames_mem [OF run(2) that] by auto
  ultimately show ?thesis using assms(5) by (simp add: page_fresh_def)
qed

lemma pmm_alloc_zeroed_page:
  assumes "pmm_ok d s"
  shows "\<exists>p s'. pmm_alloc_zeroed s = Some (p, s')
     \<and> (p = 0 \<and> s' = s \<and> (pmm_free_frames_count s = 0 \<or> free_frames s = {})
        \<or> (\<exists>n. p = of_nat (n * 4096) \<and> page_fresh d s n s'))"
proof -
  have wf: "pmm_wf s" using assms by (simp add: pmm_ok_def pmm_inv_def)
  obtain p s' where call: "pmm_alloc_frames_zeroed 1 s = Some (p, s')"
    and out: "zeroed_outcome s (\<lambda>_. True) 1 p s'"
    using pmm_alloc_frames_zeroed_outcome [OF wf] by blast
  have one: "(1 :: u64) \<le> x \<longleftrightarrow> x \<noteq> 0" for x
    by (auto simp: word_le_unat Suc_le_eq unat_gt_0)
  have run: "free_run s (\<lambda>_. True) 1 r \<longleftrightarrow> r \<in> free_frames s" for r
  proof -
    have "(\<forall>k. r \<le> k \<longrightarrow> k < r + 1 \<longrightarrow> P k) \<longleftrightarrow> P r" for P
      by (metis Suc_eq_plus1 le_antisym less_Suc_eq_le order_refl)
    then show ?thesis by (simp add: free_run_def free_frames_def Suc_le_eq)
  qed
  have cond: "(1 :: u64) \<noteq> 0 \<and> 1 \<le> pmm_free_frames_count s
      \<and> (\<exists>r. free_run s (\<lambda>_. True) (unat (1 :: u64)) r)
      \<longleftrightarrow> pmm_free_frames_count s \<noteq> 0 \<and> free_frames s \<noteq> {}"
    by (simp only: one unat_1 run) auto
  show ?thesis
  proof (cases "pmm_free_frames_count s \<noteq> 0 \<and> free_frames s \<noteq> {}")
    case True
    note out [unfolded zeroed_outcome_def cond if_P [OF True], unfolded unat_1]
    then obtain r t where "0 < r" "free_run s (\<lambda>_. True) 1 r" "p = of_nat (r * 4096)"
      "run_taken s 1 r t" "s' = zero_frames r 1 t"
      by blast
    then show ?thesis
      using zeroed_page_fresh [OF assms] call True one
      by (auto simp: pmm_alloc_zeroed_frames simp del: of_nat_mult)
  next
    case False
    have "p = 0 \<and> s' = s"
      using out unfolding zeroed_outcome_def cond if_not_P [OF False] by blast
    then show ?thesis using call False by (auto simp: pmm_alloc_zeroed_frames)
  qed
qed

section \<open>Live blocks\<close>

text \<open>
  The allocator as its clients drive it.  \<open>pmm_run s\<^sub>0 s bs\<close>: from \<open>s\<^sub>0\<close> some sequence of calls leads to
  \<open>s\<close> with the blocks \<open>bs\<close> (first frame, number of frames) handed out and not yet freed.  Between
  calls a client may write what it likes into its own blocks; a zeroing call is an allocation
  followed by such a write.
\<close>

definition block_frames :: "nat \<times> nat \<Rightarrow> nat set" where
  "block_frames b = {fst b..<fst b + snd b}"

definition live_frames :: "(nat \<times> nat) set \<Rightarrow> nat set" where
  "live_frames bs = (\<Union>b\<in>bs. block_frames b)"

definition add_block :: "u64 \<Rightarrow> u64 \<Rightarrow> (nat \<times> nat) set \<Rightarrow> (nat \<times> nat) set" where
  "add_block p count bs = (if p = 0 then bs else insert (unat p div 4096, unat count) bs)"

inductive pmm_run ::
  "'a pmm_state_scheme \<Rightarrow> 'a pmm_state_scheme \<Rightarrow> (nat \<times> nat) set \<Rightarrow> bool" for s0 where
  start: "pmm_run s0 s0 {}"
| alloc: "pmm_run s0 s bs \<Longrightarrow> pmm_alloc_frames count s = Some (p, s')
    \<Longrightarrow> pmm_run s0 s' (add_block p count bs)"
| alloc_aligned: "pmm_run s0 s bs \<Longrightarrow> alignment \<noteq> 0
    \<Longrightarrow> pmm_alloc_frames_aligned count alignment s = Some (p, s')
    \<Longrightarrow> pmm_run s0 s' (add_block p count bs)"
| client: "pmm_run s0 s bs \<Longrightarrow> (\<And>a. frame_of s a \<notin> live_frames bs \<Longrightarrow> m a = mem s a)
    \<Longrightarrow> pmm_run s0 (s\<lparr>mem := m\<rparr>) bs"
| free: "pmm_run s0 s bs \<Longrightarrow> (r, c) \<in> bs
    \<Longrightarrow> pmm_run s0 (pmm_free_frames (of_nat (r * 4096)) (of_nat c) s) (bs - {(r, c)})"

definition live_inv ::
  "nat \<Rightarrow> 'a pmm_state_scheme \<Rightarrow> 'a pmm_state_scheme \<Rightarrow> (nat \<times> nat) set \<Rightarrow> bool" where
  "live_inv d s0 s bs \<longleftrightarrow>
     pmm_ok d s \<and> pmm_bitmap_frames s = pmm_bitmap_frames s0 \<and> pmm_bitmap s = pmm_bitmap s0
     \<and> hhdm_offset s = hhdm_offset s0
     \<and> (\<forall>b\<in>bs. 0 < snd b) \<and> pairwise (\<lambda>b b'. disjnt (block_frames b) (block_frames b')) bs
     \<and> live_frames bs \<subseteq> free_frames s0 \<and> free_frames s = free_frames s0 - live_frames bs"

lemma live_frames_simps [simp]:
  "live_frames {} = {}" "live_frames (insert b bs) = block_frames b \<union> live_frames bs"
  by (simp_all add: live_frames_def)

lemma pmm_ok_frames: "pmm_ok d s \<Longrightarrow> frames s \<le> 4503599627370496"
  by (simp add: pmm_ok_def pmm_inv_def pmm_wf_def)

lemma run_taken_ok:
  assumes "pmm_ok d s" and "free_run s start_ok (unat count) r" and "run_taken s (unat count) r s'"
    and "count \<le> pmm_free_frames_count s"
  shows "pmm_ok d s'"
  using assms run_taken_inv run_taken_layout unfolding pmm_ok_def by blast

lemma live_inv_alloc:
  assumes inv: "live_inv d s0 s bs" and out: "alloc_outcome s start_ok count p s'"
  shows "live_inv d s0 s' (add_block p count bs)"
proof (cases "count \<noteq> 0 \<and> count \<le> pmm_free_frames_count s
    \<and> (\<exists>r. free_run s start_ok (unat count) r)")
  case False
  then show ?thesis
    using out inv by (auto simp: alloc_outcome_def add_block_def split: if_splits)
next
  case True
  then obtain r where r: "0 < r" "free_run s start_ok (unat count) r" "p = of_nat (r * 4096)"
    "run_taken s (unat count) r s'"
    using out by (auto simp: alloc_outcome_def)
  have ok: "pmm_ok d s" and wf: "pmm_wf s" and free: "free_frames s = free_frames s0 - live_frames bs"
    using inv by (auto simp: live_inv_def pmm_ok_def pmm_inv_def)
  have pos: "0 < unat count" using True by (simp add: unat_gt_0)
  note ad = run_address [OF wf r(2) pos]
  let ?b = "(r, unat count)"
  have add: "add_block p count bs = insert ?b bs"
    using ad unfolding r(3) by (simp add: add_block_def del: of_nat_mult)
  have sub: "block_frames ?b \<subseteq> free_frames s0 - live_frames bs"
    using free_run_subset [OF r(2)] free by (simp add: block_frames_def)
  then have apart: "disjnt (block_frames ?b) (block_frames b)" if "b \<in> bs" for b
    using that by (auto simp: disjnt_def live_frames_def)
  have "free_frames s' = free_frames s0 - live_frames (insert ?b bs)"
    using run_taken_free_frames [OF wf r(4)] free by (auto simp: block_frames_def)
  moreover have "pmm_ok d s'" by (rule run_taken_ok [OF ok r(2) r(4)]) (use True in simp)
  moreover have "pairwise (\<lambda>b b'. disjnt (block_frames b) (block_frames b')) (insert ?b bs)"
    using inv apart by (auto simp: live_inv_def pairwise_insert disjnt_sym)
  ultimately show ?thesis
    using inv sub pos by (auto simp: live_inv_def add run_taken_fields [OF r(4)])
qed

lemma live_inv_client:
  assumes lay0: "pmm_ok d0 s0" and inv: "live_inv d s0 s bs"
    and m: "\<And>a. frame_of s a \<notin> live_frames bs \<Longrightarrow> m a = mem s a"
  shows "live_inv d s0 (s\<lparr>mem := m\<rparr>) bs"
proof -
  let ?t = "s\<lparr>mem := m\<rparr>"
  have wf0: "pmm_wf s0" and layout0: "pmm_layout s0" using lay0 by (simp_all add: pmm_ok_def pmm_inv_def)
  have wf: "pmm_wf s" and lay: "pmm_layout s" and ok: "pmm_inv d s"
    using inv by (simp_all add: live_inv_def pmm_ok_def pmm_inv_def)
  have F: "frames s \<le> 2 ^ 52" using wf by (simp add: pmm_wf_def)
  have same: "m a = mem s a" if "in_bitmap s a" for a
  proof (rule m)
    have "in_bitmap s0 a" using that inv by (simp add: live_inv_def in_bitmap_def)
    from bitmap_frame_used [OF wf0 layout0 this] have "frame_of s0 a \<notin> free_frames s0"
      by (simp add: free_frames_def)
    moreover have "frame_of s a = frame_of s0 a" using inv by (simp add: live_inv_def frame_of_def)
    ultimately show "frame_of s a \<notin> live_frames bs" using inv by (auto simp: live_inv_def)
  qed
  have test: "pmm_test_frame ?t g = pmm_test_frame s g" if "unat g < frames s" for g
    by (rule outside_bitmap_test [OF F same that])
  have "pmm_inv d ?t" "free_frames ?t = free_frames s"
    using pmm_inv_cong [of s ?t, OF test] F ok by simp_all
  moreover have "pmm_layout ?t"
    by (rule pmm_layout_cong [OF lay test]) (use F in simp_all)
  ultimately show ?thesis using inv by (simp add: live_inv_def pmm_ok_def)
qed

text \<open>A live block in the bitmap: in use now, free at the start, away from frame 0.\<close>

lemma live_block:
  assumes ok0: "pmm_ok d0 s0" and inv: "live_inv d s0 s bs" and b: "(r, c) \<in> bs"
  shows "{r..<r + c} \<subseteq> free_frames s0" "{r..<r + c} \<inter> free_frames s = {}"
    "0 < c" "0 < r" "r + c \<le> frames s"
proof -
  have free: "free_frames s = free_frames s0 - live_frames bs"
    and F_eq: "pmm_bitmap_frames s = pmm_bitmap_frames s0"
    using inv by (simp_all add: live_inv_def)
  have "{r..<r + c} \<subseteq> live_frames bs"
    using b by (force simp: live_frames_def block_frames_def)
  then show block: "{r..<r + c} \<subseteq> free_frames s0" "{r..<r + c} \<inter> free_frames s = {}"
    using inv free by (auto simp: live_inv_def)
  show c: "0 < c" using inv b by (auto simp: live_inv_def)
  have "pmm_test_frame s0 0" using ok0 by (simp add: pmm_ok_def pmm_inv_def pmm_wf_def)
  then show "0 < r" using subsetD [OF block(1), of 0] c by (cases r) (auto simp: free_frames_def)
  have "r + c - 1 \<in> free_frames s0" by (rule subsetD [OF block(1)]) (use c in simp)
  then have "r + c - 1 < frames s" by (simp add: free_frames_def F_eq)
  then show "r + c \<le> frames s" by linarith
qed

lemma live_block_freed:
  assumes "pmm_ok d0 s0" and inv: "live_inv d s0 s bs" and "(r, c) \<in> bs"
  shows "frames_freed s {r..<r + c} (pmm_free_frames (of_nat (r * 4096)) (of_nat c) s)"
proof -
  note block = live_block [OF assms]
  have F: "frames s \<le> 4503599627370496"
    by (rule pmm_ok_frames [of d]) (use inv in \<open>simp add: live_inv_def\<close>)
  have "unat (of_nat (r * 4096) :: u64) = r * 4096" "unat (of_nat c :: u64) = c"
    by (rule unat_of_nat_small, use block F in simp)+
  then show ?thesis
    using pmm_free_frames_freed [of s "of_nat (r * 4096)" "of_nat c"] F block(5)
    by (simp add: min_def)
qed

lemma live_frames_remove:
  assumes inv: "live_inv d s0 s bs" and b: "(r, c) \<in> bs"
  shows "live_frames (bs - {(r, c)}) = live_frames bs - {r..<r + c}"
proof -
  have pw: "pairwise (\<lambda>b b'. disjnt (block_frames b) (block_frames b')) bs"
    using inv by (simp add: live_inv_def)
  have "block_frames (r, c) \<inter> block_frames b' = {}" if "b' \<in> bs - {(r, c)}" for b'
    using pairwiseD [OF pw b, of b'] that by (auto simp: disjnt_def)
  then have "block_frames (r, c) \<inter> live_frames (bs - {(r, c)}) = {}"
    unfolding live_frames_def by blast
  moreover have "live_frames bs = block_frames (r, c) \<union> live_frames (bs - {(r, c)})"
    using b by (auto simp: live_frames_def)
  ultimately show ?thesis by (auto simp: block_frames_def)
qed

lemma live_free_layout:
  assumes ok0: "pmm_ok d0 s0" and inv: "live_inv d s0 s bs"
    and freed: "frames_freed s X t" and X: "X \<subseteq> free_frames s0"
  shows "pmm_layout t"
proof (rule pmm_layout_mono)
  show lay: "pmm_layout s" using inv by (simp add: live_inv_def pmm_ok_def)
  have F: "frames s \<le> 4503599627370496"
    by (rule pmm_ok_frames [of d]) (use inv in \<open>simp add: live_inv_def\<close>)
  fix n assume n: "n \<in> set (bitmap_frame_list s)" and "pmm_test_frame s (of_nat n)"
  have "bitmap_frame_list s = bitmap_frame_list s0"
    using inv by (simp add: live_inv_def bitmap_frame_list_def bitmap_phys_def)
  then have "pmm_test_frame s0 (of_nat n)"
    using ok0 n by (simp add: pmm_ok_def pmm_layout_def list_all_iff)
  then have "n \<notin> X" using X by (auto simp: free_frames_def)
  moreover have "unat (of_nat n :: u64) = n"
    using bitmap_frame_list_less [OF lay n] F by (simp add: unat_of_nat_small)
  ultimately show "pmm_test_frame t (of_nat n)"
    using \<open>pmm_test_frame s (of_nat n)\<close> by (auto simp: frames_freed_fields [OF freed])
qed (simp_all add: frames_freed_fields [OF freed])

lemma live_inv_free:
  assumes ok0: "pmm_ok d0 s0" and inv: "live_inv d s0 s bs" and b: "(r, c) \<in> bs"
  shows "live_inv d s0 (pmm_free_frames (of_nat (r * 4096)) (of_nat c) s) (bs - {(r, c)})"
proof -
  define t where "t = pmm_free_frames (of_nat (r * 4096)) (of_nat c) s"
  have inv_s: "pmm_inv d s" and free: "free_frames s = free_frames s0 - live_frames bs"
    using inv by (simp_all add: live_inv_def pmm_ok_def)
  have F: "frames s \<le> 2 ^ 52" using inv_s by (simp add: pmm_inv_def pmm_wf_def)
  note block = live_block [OF assms]
  have freed: "frames_freed s {r..<r + c} t" unfolding t_def by (rule live_block_freed [OF assms])
  have in_bitmap: "{r..<r + c} \<subseteq> {..<frames s}" using block(5) by auto
  have "used_in s {r..<r + c} = {r..<r + c}"
    using block(2) in_bitmap by (auto simp: used_in_def free_frames_def)
  then have free_t: "free_frames t = free_frames s0 - live_frames (bs - {(r, c)})"
    using frames_freed_free_frames [OF F freed in_bitmap] free block(1) live_frames_remove [OF inv b]
    by auto
  have "pmm_inv d t" by (rule frames_freed_inv [OF inv_s freed in_bitmap]) (use block(4) in simp)
  moreover have "pmm_layout t" by (rule live_free_layout [OF ok0 inv freed block(1)])
  moreover have "pairwise (\<lambda>b b'. disjnt (block_frames b) (block_frames b')) (bs - {(r, c)})"
    using inv by (auto simp: live_inv_def intro: pairwise_subset)
  moreover have "live_frames (bs - {(r, c)}) \<subseteq> free_frames s0"
    using inv by (auto simp: live_inv_def live_frames_def)
  ultimately have "live_inv d s0 t (bs - {(r, c)})"
    using inv free_t by (simp add: live_inv_def pmm_ok_def frames_freed_fields [OF freed])
  then show ?thesis by (simp only: t_def)
qed

lemma pmm_run_live:
  assumes "pmm_run s0 s bs" and ok: "pmm_ok d s0"
  shows "live_inv d s0 s bs"
  using assms(1)
proof induction
  case start
  then show ?case using ok by (simp add: live_inv_def)
next
  case (alloc s bs count p s')
  then have "pmm_wf s" by (simp add: live_inv_def pmm_ok_def pmm_inv_def)
  from pmm_alloc_frames_outcome [OF this, of count] alloc show ?case
    by (auto intro: live_inv_alloc)
next
  case (alloc_aligned s bs alignment count p s')
  then have "pmm_wf s" by (simp add: live_inv_def pmm_ok_def pmm_inv_def)
  from pmm_alloc_frames_aligned_outcome [OF this alloc_aligned.hyps(2), of count] alloc_aligned
  show ?case by (auto intro: live_inv_alloc)
next
  case (client s bs m)
  then show ?case using live_inv_client [OF ok] by blast
next
  case (free s bs r c)
  then show ?case using live_inv_free [OF ok] by blast
qed

end
