(* ===== verification/Vmm.thy ===== *)
theory Vmm
  imports Pmm_Live "HOL-Library.Monad_Syntax"
begin

text \<open>
  The virtual memory manager, \<open>kernel/arch/x86_64/mm/vmm.c\<close>: four-level page tables in the byte
  memory, reached through the direct map.

  A pointer to an entry is its virtual address, 0 for \<open>NULL\<close>.  The operations return \<open>None\<close> when
  the code would dereference \<open>NULL\<close> or the allocator below does not return.  \<open>invlpg\<close> is recorded
  in the trace \<open>invlpgs\<close>.
\<close>

section \<open>Entries and indices\<close>

record vmm_state = pmm_state +
  kernel_pml4_phys :: u64
  invlpgs :: "u64 list"

abbreviation (input) HUGE_2MB :: u64 where "HUGE_2MB \<equiv> 0x200000"
abbreviation (input) PTE_PRESENT :: u64 where "PTE_PRESENT \<equiv> 1"
abbreviation (input) PTE_WRITE :: u64 where "PTE_WRITE \<equiv> 2"
abbreviation (input) PTE_USER :: u64 where "PTE_USER \<equiv> 4"
abbreviation (input) PTE_HUGE :: u64 where "PTE_HUGE \<equiv> 0x80"
abbreviation (input) PTE_NX :: u64 where "PTE_NX \<equiv> 0x8000000000000000"

definition PML4_INDEX :: "u64 \<Rightarrow> u64" where
  "PML4_INDEX v = drop_bit 39 v AND 0x1FF"

definition PDP_INDEX :: "u64 \<Rightarrow> u64" where
  "PDP_INDEX v = drop_bit 30 v AND 0x1FF"

definition PD_INDEX :: "u64 \<Rightarrow> u64" where
  "PD_INDEX v = drop_bit 21 v AND 0x1FF"

definition PT_INDEX :: "u64 \<Rightarrow> u64" where
  "PT_INDEX v = drop_bit 12 v AND 0x1FF"

definition phys_to_virt :: "'a pmm_state_scheme \<Rightarrow> u64 \<Rightarrow> u64" where
  "phys_to_virt s phys = phys + hhdm_offset s"

definition virt_to_phys :: "'a pmm_state_scheme \<Rightarrow> u64 \<Rightarrow> u64" where
  "virt_to_phys s virt = virt - hhdm_offset s"

definition invlpg :: "u64 \<Rightarrow> 'a vmm_state_scheme \<Rightarrow> 'a vmm_state_scheme" where
  "invlpg addr s = s\<lparr>invlpgs := invlpgs s @ [addr]\<rparr>"

text \<open>\<open>*entry\<close> and \<open>*entry = v\<close>.\<close>

definition load_entry :: "'a machine_scheme \<Rightarrow> u64 \<Rightarrow> u64" where
  "load_entry s entry = read64 (mem s) entry"

definition store_entry :: "u64 \<Rightarrow> u64 \<Rightarrow> 'a machine_scheme \<Rightarrow> 'a machine_scheme" where
  "store_entry entry v s = s\<lparr>mem := write64 entry v (mem s)\<rparr>"

section \<open>The page walk\<close>

definition get_pml4e :: "u64 \<Rightarrow> u64 \<Rightarrow> u64" where
  "get_pml4e pml4 virt = pml4 + 8 * PML4_INDEX virt"

definition get_pdpe :: "'a vmm_state_scheme \<Rightarrow> u64 \<Rightarrow> u64 \<Rightarrow> u64" where
  "get_pdpe s pml4 virt =
     (let pml4e = load_entry s (get_pml4e pml4 virt)
      in if pml4e AND PTE_PRESENT = 0 then 0
         else let pdpt_phys = pml4e AND NOT 0xFFF;
                  pdpt = phys_to_virt s pdpt_phys
              in pdpt + 8 * PDP_INDEX virt)"

definition get_pde :: "'a vmm_state_scheme \<Rightarrow> u64 \<Rightarrow> u64 \<Rightarrow> u64" where
  "get_pde s pml4 virt =
     (let pdpe = get_pdpe s pml4 virt
      in if pdpe = 0 \<or> load_entry s pdpe AND PTE_PRESENT = 0 then 0
         else let pd_phys = load_entry s pdpe AND NOT 0xFFF;
                  pd = phys_to_virt s pd_phys
              in pd + 8 * PD_INDEX virt)"

definition get_pte :: "'a vmm_state_scheme \<Rightarrow> u64 \<Rightarrow> u64 \<Rightarrow> u64" where
  "get_pte s pml4 virt =
     (let pde = get_pde s pml4 virt
      in if pde = 0 \<or> load_entry s pde AND PTE_PRESENT = 0 then 0
         else if load_entry s pde AND PTE_HUGE \<noteq> 0 then pde
         else let pt_phys = load_entry s pde AND NOT 0xFFF;
                  pt = phys_to_virt s pt_phys
              in pt + 8 * PT_INDEX virt)"

section \<open>Mapping\<close>

definition create_table ::
  "u64 \<Rightarrow> u64 \<Rightarrow> 'a vmm_state_scheme \<Rightarrow> (bool \<times> 'a vmm_state_scheme) option" where
  "create_table entry flags s =
     (if entry = 0 then None
      else if load_entry s entry AND PTE_PRESENT \<noteq> 0 then Some (True, s)
      else do {
        (new_table, s) \<leftarrow> pmm_alloc_zeroed s;
        if new_table = 0
        then Some (False, serial_log (bytes ''create_table: failed to alloc page table'') s)
        else Some (True, store_entry entry (new_table OR flags OR PTE_PRESENT OR PTE_WRITE) s)
      })"

definition vmm_map ::
  "u64 \<Rightarrow> u64 \<Rightarrow> u64 \<Rightarrow> 'a vmm_state_scheme \<Rightarrow> (bool \<times> 'a vmm_state_scheme) option" where
  "vmm_map virt phys flags s =
     (if virt AND 0xFFF \<noteq> 0 \<or> phys AND 0xFFF \<noteq> 0 then Some (False, s)
      else let pml4 = phys_to_virt s (kernel_pml4_phys s) in do {
        (ok, s) \<leftarrow> create_table (get_pml4e pml4 virt) PTE_WRITE s;
        if \<not> ok then Some (False, s) else do {
        (ok, s) \<leftarrow> create_table (get_pdpe s pml4 virt) PTE_WRITE s;
        if \<not> ok then Some (False, s) else do {
        (ok, s) \<leftarrow> create_table (get_pde s pml4 virt) PTE_WRITE s;
        if \<not> ok then Some (False, s) else
        let pte = get_pte s pml4 virt in
        if pte = 0 then Some (False, s)
        else if load_entry s pte AND PTE_PRESENT \<noteq> 0
        then Some (False, serial_log (bytes ''vmm_map: already mapped\<newline>'') s)
        else Some (True, invlpg virt
               (store_entry pte (phys OR (flags AND NOT PTE_PRESENT) OR PTE_PRESENT) s))
      }}})"

definition vmm_map_huge_2mb ::
  "u64 \<Rightarrow> u64 \<Rightarrow> u64 \<Rightarrow> 'a vmm_state_scheme \<Rightarrow> (bool \<times> 'a vmm_state_scheme) option" where
  "vmm_map_huge_2mb virt phys flags s =
     (if virt AND (HUGE_2MB - 1) \<noteq> 0 \<or> phys AND (HUGE_2MB - 1) \<noteq> 0 then Some (False, s)
      else let pml4 = phys_to_virt s (kernel_pml4_phys s) in do {
        (ok, s) \<leftarrow> create_table (get_pml4e pml4 virt) PTE_WRITE s;
        if \<not> ok then Some (False, s) else do {
        (ok, s) \<leftarrow> create_table (get_pdpe s pml4 virt) PTE_WRITE s;
        if \<not> ok then Some (False, s) else
        let pde = get_pde s pml4 virt in
        if pde = 0 then Some (False, s)
        else if load_entry s pde AND PTE_PRESENT \<noteq> 0
        then Some (False, serial_log (bytes ''vmm_map_huge_2mb: already mapped\<newline>'') s)
        else Some (True, invlpg virt
               (store_entry pde (phys OR (flags AND NOT (PTE_PRESENT OR PTE_HUGE))
                  OR PTE_PRESENT OR PTE_HUGE) s))
      }})"

fun vmm_map_range_loop ::
  "u64 \<Rightarrow> u64 \<Rightarrow> u64 \<Rightarrow> nat list \<Rightarrow> 'a vmm_state_scheme \<Rightarrow> (bool \<times> 'a vmm_state_scheme) option" where
  "vmm_map_range_loop virt phys flags [] s = Some (True, s)"
| "vmm_map_range_loop virt phys flags (i # is) s = do {
     (ok, s) \<leftarrow> vmm_map (virt + of_nat i * PAGE_SIZE) (phys + of_nat i * PAGE_SIZE) flags s;
     if \<not> ok then Some (False, s) else vmm_map_range_loop virt phys flags is s
   }"

definition vmm_map_range ::
  "u64 \<Rightarrow> u64 \<Rightarrow> u64 \<Rightarrow> u64 \<Rightarrow> 'a vmm_state_scheme \<Rightarrow> (bool \<times> 'a vmm_state_scheme) option" where
  "vmm_map_range virt phys count flags s = vmm_map_range_loop virt phys flags [0..<unat count] s"

section \<open>Unmapping and queries\<close>

definition vmm_unmap :: "u64 \<Rightarrow> 'a vmm_state_scheme \<Rightarrow> bool \<times> 'a vmm_state_scheme" where
  "vmm_unmap virt s =
     (if virt AND 0xFFF \<noteq> 0 then (False, s)
      else let pml4 = phys_to_virt s (kernel_pml4_phys s);
               pte = get_pte s pml4 virt
           in if pte = 0 \<or> load_entry s pte AND PTE_PRESENT = 0 then (False, s)
              else (True, invlpg virt (store_entry pte 0 s)))"

definition vmm_unmap_huge_2mb :: "u64 \<Rightarrow> 'a vmm_state_scheme \<Rightarrow> bool \<times> 'a vmm_state_scheme" where
  "vmm_unmap_huge_2mb virt s =
     (if virt AND (HUGE_2MB - 1) \<noteq> 0 then (False, s)
      else let pml4 = phys_to_virt s (kernel_pml4_phys s);
               pde = get_pde s pml4 virt
           in if pde = 0 \<or> load_entry s pde AND PTE_PRESENT = 0 then (False, s)
              else (True, invlpg virt (store_entry pde 0 s)))"

definition vmm_unmap_range :: "u64 \<Rightarrow> u64 \<Rightarrow> 'a vmm_state_scheme \<Rightarrow> bool \<times> 'a vmm_state_scheme" where
  "vmm_unmap_range virt count s =
     (True, for_upto count (\<lambda>i s. snd (vmm_unmap (virt + i * PAGE_SIZE) s)) s)"

definition vmm_get_physical :: "'a vmm_state_scheme \<Rightarrow> u64 \<Rightarrow> u64" where
  "vmm_get_physical s virt =
     (let pml4 = phys_to_virt s (kernel_pml4_phys s);
          pte = get_pte s pml4 virt
      in if pte = 0 \<or> load_entry s pte AND PTE_PRESENT = 0 then 0
         else if load_entry s pte AND PTE_HUGE \<noteq> 0
         then (load_entry s pte AND NOT (HUGE_2MB - 1)) + (virt AND (HUGE_2MB - 1))
         else (load_entry s pte AND NOT 0xFFF) + (virt AND 0xFFF))"

definition vmm_get_flags :: "'a vmm_state_scheme \<Rightarrow> u64 \<Rightarrow> u64" where
  "vmm_get_flags s virt =
     (let pml4 = phys_to_virt s (kernel_pml4_phys s);
          pte = get_pte s pml4 virt
      in if pte = 0 then 0 else load_entry s pte AND 0xFFF)"

definition vmm_dump_pte :: "u64 \<Rightarrow> 'a vmm_state_scheme \<Rightarrow> 'a vmm_state_scheme" where
  "vmm_dump_pte virt s =
     (let phys = vmm_get_physical s virt;
          flags = vmm_get_flags s virt;
          line = (\<lambda>name v. serial_log (bytes name @ bytes ''0x'' @ u64_to_hex_digits v @ bytes ''\<newline>''))
      in line ''flags: '' flags (line ''phys: '' phys (line ''virt: '' virt s)))"

definition vmm_init :: "u64 \<Rightarrow> 'a vmm_state_scheme \<Rightarrow> 'a vmm_state_scheme" where
  "vmm_init cr3 s = serial_log (bytes ''VMM initialized\<newline>'') (s\<lparr>kernel_pml4_phys := cr3 AND NOT 0xFFF\<rparr>)"

section \<open>Mapping in another address space\<close>

text \<open>
  The step \<open>vmm_map_for_pml4\<close> repeats at each level: allocate the next table when the entry at
  \<open>entry\<close> is not present.
\<close>

definition ensure_user_table ::
  "u64 \<Rightarrow> 'a vmm_state_scheme \<Rightarrow> (bool \<times> 'a vmm_state_scheme) option" where
  "ensure_user_table entry s =
     (if load_entry s entry AND PTE_PRESENT = 0 then do {
        (table, s) \<leftarrow> pmm_alloc_zeroed s;
        if table = 0 then Some (False, s)
        else Some (True, store_entry entry (table OR PTE_PRESENT OR PTE_WRITE OR PTE_USER) s)
      } else Some (True, s))"

definition vmm_map_for_pml4 ::
  "u64 \<Rightarrow> u64 \<Rightarrow> u64 \<Rightarrow> u64 \<Rightarrow> 'a vmm_state_scheme \<Rightarrow> (bool \<times> 'a vmm_state_scheme) option" where
  "vmm_map_for_pml4 pml4 virt phys flags s =
     (if virt AND 0xFFF \<noteq> 0 \<or> phys AND 0xFFF \<noteq> 0 then Some (False, s)
      else let pml4e = pml4 + 8 * PML4_INDEX virt in do {
        (ok, s) \<leftarrow> ensure_user_table pml4e s;
        if \<not> ok then Some (False, s) else
        let pdpt = phys_to_virt s (load_entry s pml4e AND NOT 0xFFF);
            pdpe = pdpt + 8 * PDP_INDEX virt in do {
        (ok, s) \<leftarrow> ensure_user_table pdpe s;
        if \<not> ok then Some (False, s) else
        let pd = phys_to_virt s (load_entry s pdpe AND NOT 0xFFF);
            pde = pd + 8 * PD_INDEX virt in do {
        (ok, s) \<leftarrow> ensure_user_table pde s;
        if \<not> ok then Some (False, s) else
        let pt = phys_to_virt s (load_entry s pde AND NOT 0xFFF);
            pte = pt + 8 * PT_INDEX virt in
        if load_entry s pte AND PTE_PRESENT \<noteq> 0 then Some (False, s)
        else let s = store_entry pte (phys OR (flags AND NOT PTE_PRESENT) OR PTE_PRESENT) s;
                 s = store_entry pte (load_entry s pte AND NOT (push_bit 63 1)) s
             in Some (True, invlpg virt s)
      }}})"

fun vmm_map_range_for_pml4_loop ::
  "u64 \<Rightarrow> u64 \<Rightarrow> u64 \<Rightarrow> u64 \<Rightarrow> nat list \<Rightarrow> 'a vmm_state_scheme
     \<Rightarrow> (bool \<times> 'a vmm_state_scheme) option" where
  "vmm_map_range_for_pml4_loop pml4 virt phys flags [] s = Some (True, s)"
| "vmm_map_range_for_pml4_loop pml4 virt phys flags (i # is) s = do {
     (ok, s) \<leftarrow> vmm_map_for_pml4 pml4 (virt + of_nat i * PAGE_SIZE) (phys + of_nat i * PAGE_SIZE)
                 flags s;
     if \<not> ok then Some (False, s) else vmm_map_range_for_pml4_loop pml4 virt phys flags is s
   }"

definition vmm_map_range_for_pml4 ::
  "u64 \<Rightarrow> u64 \<Rightarrow> u64 \<Rightarrow> u64 \<Rightarrow> u64 \<Rightarrow> 'a vmm_state_scheme
     \<Rightarrow> (bool \<times> 'a vmm_state_scheme) option" where
  "vmm_map_range_for_pml4 pml4 virt phys count flags s =
     vmm_map_range_for_pml4_loop pml4 virt phys flags [0..<unat count] s"

end
