(* ===== verification/Page_Tables.thy ===== *)
theory Page_Tables
  imports Estella_Prelude
begin

text \<open>
  Four-level page tables as trees of frames, independent of how the code stores them: which tables
  a path of indices reaches, what the processor finds for a page, and how linking a table or
  storing a leaf changes that.  The locale \<open>page_source\<close> is the interface to the allocator that
  provides the pages.
\<close>

section \<open>Page tables as a tree\<close>

text \<open>
  \<open>T n i\<close> is entry \<open>i\<close> of the table in frame \<open>n\<close>.  A path is a list of indices from the root; it
  leads to a table as long as the entries on the way are present and not large pages.
\<close>

type_synonym tables = "nat \<Rightarrow> nat \<Rightarrow> u64"

definition present :: "u64 \<Rightarrow> bool" where
  "present e \<longleftrightarrow> bit e 0"

definition huge :: "u64 \<Rightarrow> bool" where
  "huge e \<longleftrightarrow> bit e 7"

definition child :: "tables \<Rightarrow> nat \<Rightarrow> nat \<Rightarrow> nat option" where
  "child T n i = (if present (T n i) \<and> \<not> huge (T n i) then Some (unat (T n i) div 4096) else None)"

definition table_at :: "tables \<Rightarrow> nat \<Rightarrow> nat list \<Rightarrow> nat option" where
  "table_at T root p = foldl (\<lambda>acc i. Option.bind acc (\<lambda>n. child T n i)) (Some root) p"

lemma table_at_Nil [simp]: "table_at T root [] = Some root"
  by (simp add: table_at_def)

lemma table_at_snoc: "table_at T root (p @ [i]) = Option.bind (table_at T root p) (\<lambda>n. child T n i)"
  by (simp add: table_at_def)

definition path :: "nat list \<Rightarrow> bool" where
  "path p \<longleftrightarrow> length p \<le> 3 \<and> (\<forall>i\<in>set p. i < 512)"

lemma path_snoc: "path (p @ [i]) \<longleftrightarrow> length p \<le> 2 \<and> path p \<and> i < 512"
  by (auto simp: path_def)

text \<open>
  A well-formed tree: its tables are frames the tree owns, no table is reached along two paths,
  and the two upper levels have no large pages.
\<close>

definition pt_wf :: "tables \<Rightarrow> nat \<Rightarrow> (nat \<Rightarrow> bool) \<Rightarrow> bool" where
  "pt_wf T root owned \<longleftrightarrow>
     (\<forall>p n. path p \<longrightarrow> table_at T root p = Some n \<longrightarrow> owned n)
     \<and> (\<forall>p q n. path p \<longrightarrow> path q \<longrightarrow> table_at T root p = Some n \<longrightarrow> table_at T root q = Some n \<longrightarrow> p = q)
     \<and> (\<forall>p n i. path p \<longrightarrow> length p \<le> 1 \<longrightarrow> i < 512 \<longrightarrow> table_at T root p = Some n
          \<longrightarrow> present (T n i) \<longrightarrow> \<not> huge (T n i))"

datatype leaf = Small u64 | Huge u64

type_synonym vpage = "nat \<times> nat \<times> nat \<times> nat"

text \<open>What the processor finds for a page, given by its four indices.\<close>

definition translate :: "tables \<Rightarrow> nat \<Rightarrow> vpage \<Rightarrow> leaf option" where
  "translate T root v =
     (case v of (i4, i3, i2, i1) \<Rightarrow>
        case table_at T root [i4, i3] of None \<Rightarrow> None
        | Some pd \<Rightarrow>
            if \<not> present (T pd i2) then None
            else if huge (T pd i2) then Some (Huge (T pd i2))
            else let e = T (unat (T pd i2) div 4096) i1
                 in if present e then Some (Small e) else None)"

definition vpage_ok :: "vpage \<Rightarrow> bool" where
  "vpage_ok v = (case v of (i4, i3, i2, i1) \<Rightarrow> i4 < 512 \<and> i3 < 512 \<and> i2 < 512 \<and> i1 < 512)"

lemma pt_wfD:
  assumes "pt_wf T root owned" and "path p" and "table_at T root p = Some n"
  shows "owned n"
    "path q \<Longrightarrow> table_at T root q = Some n \<Longrightarrow> p = q"
    "length p \<le> 1 \<Longrightarrow> i < 512 \<Longrightarrow> present (T n i) \<Longrightarrow> \<not> huge (T n i)"
  using assms unfolding pt_wf_def by blast+

lemma table_at_prefix:
  assumes "table_at T root (p @ [i]) = Some m"
  obtains n where "table_at T root p = Some n" "child T n i = Some m"
  using assms by (auto simp: table_at_snoc bind_eq_Some_conv)

lemma translate_table:
  "translate T root (i4, i3, i2, i1) =
     (case table_at T root [i4, i3] of None \<Rightarrow> None
      | Some pd \<Rightarrow> if present (T pd i2) \<and> huge (T pd i2) then Some (Huge (T pd i2))
          else case table_at T root [i4, i3, i2] of None \<Rightarrow> None
               | Some pt \<Rightarrow> if present (T pt i1) then Some (Small (T pt i1)) else None)"
  using table_at_snoc [of T root "[i4, i3]" i2]
  by (auto simp: translate_def child_def Let_def split: option.splits)

section \<open>Changing one entry\<close>

text \<open>
  Linking a fresh empty table \<open>f\<close> below a table at depth at most 2 adds one path and changes no
  translation.
\<close>

definition links :: "tables \<Rightarrow> tables \<Rightarrow> nat \<Rightarrow> nat list \<Rightarrow> nat \<Rightarrow> nat \<Rightarrow> nat \<Rightarrow> (nat \<Rightarrow> bool) \<Rightarrow> bool" where
  "links T T' root p n i f owned \<longleftrightarrow>
     path p \<and> length p \<le> 2 \<and> table_at T root p = Some n \<and> i < 512 \<and> \<not> present (T n i) \<and> \<not> owned f
     \<and> present (T' n i) \<and> \<not> huge (T' n i) \<and> unat (T' n i) div 4096 = f
     \<and> (\<forall>j<512. T' f j = 0)
     \<and> (\<forall>m j. owned m \<longrightarrow> j < 512 \<longrightarrow> (m, j) \<noteq> (n, i) \<longrightarrow> T' m j = T m j)"

lemma links_tables:
  assumes wf: "pt_wf T root owned" and l: "links T T' root p n i f owned"
  shows "path q \<Longrightarrow> table_at T' root q = (if q = p @ [i] then Some f else table_at T root q)"
proof (induction q rule: rev_induct)
  case Nil
  then show ?case by simp
next
  case (snoc j q)
  then have q: "path q" "j < 512"
    and IH: "table_at T' root q = (if q = p @ [i] then Some f else table_at T root q)"
    by (simp_all add: path_snoc)
  have p: "path p" "table_at T root p = Some n" and link: "child T' n i = Some f" "child T n i = None"
    using l by (auto simp: links_def child_def)
  have step: "table_at T' root (q @ [j]) = Option.bind (table_at T' root q) (\<lambda>m. child T' m j)"
    "table_at T root (q @ [j]) = Option.bind (table_at T root q) (\<lambda>m. child T m j)"
    by (rule table_at_snoc)+
  consider "q = p @ [i]" | m where "q \<noteq> p @ [i]" "table_at T root q = Some m"
    | "q \<noteq> p @ [i]" "table_at T root q = None" by blast
  then show ?case
  proof cases
    case 1
    then have "table_at T root q = None" using link p by (simp add: table_at_snoc)
    moreover have "child T' f j = None" using l q by (simp add: links_def child_def present_def)
    ultimately show ?thesis unfolding step IH using 1 by simp
  next
    case 2
    have "child T' m j = (if q = p \<and> j = i then Some f else child T m j)"
    proof (cases "q = p \<and> j = i")
      case True
      then show ?thesis using 2 p link by simp
    next
      case False
      then have "(m, j) \<noteq> (n, i)" using pt_wfD(2) [OF wf q(1) 2(2) p(1)] p(2) by auto
      then have "T' m j = T m j" using l pt_wfD(1) [OF wf q(1) 2(2)] q(2) by (auto simp: links_def)
      then have "child T' m j = child T m j" by (simp add: child_def)
      then show ?thesis unfolding if_not_P [OF False] .
    qed
    then show ?thesis unfolding step IH using 2 by auto
  next
    case 3
    then have "q \<noteq> p" using p by auto
    then show ?thesis unfolding step IH using 3 by auto
  qed
qed

lemma links_wf:
  assumes wf: "pt_wf T root owned" and l: "links T T' root p n i f owned"
  shows "pt_wf T' root (owned(f := True))"
  unfolding pt_wf_def
proof (intro conjI allI impI)
  note after = links_tables [OF assms]
  have not_f: "table_at T root q \<noteq> Some f" if "path q" for q
    using pt_wfD(1) [OF wf that] l by (auto simp: links_def)
  {
    fix q m assume q: "path q" "table_at T' root q = Some m"
    then show "(owned(f := True)) m"
      using pt_wfD(1) [OF wf q(1)] after [OF q(1)] by (auto split: if_splits)
  next
    fix q q' m
    assume q: "path q" "path q'" "table_at T' root q = Some m" "table_at T' root q' = Some m"
    have old: "q'' = p @ [i] \<and> m = f \<or> q'' \<noteq> p @ [i] \<and> table_at T root q'' = Some m"
      if "path q''" "table_at T' root q'' = Some m" for q''
      using after [OF that(1)] that(2) by (metis option.inject)
    from old [OF q(1,3)] old [OF q(2,4)] show "q = q'"
      using pt_wfD(2) [OF wf q(1) _ q(2)] not_f [OF q(1)] not_f [OF q(2)] by metis
  next
    fix q m j
    assume q: "path q" "length q \<le> 1" "j < 512" "table_at T' root q = Some m" "present (T' m j)"
    show "\<not> huge (T' m j)"
    proof (cases "q = p @ [i]")
      case True
      then have "m = f" using q after by simp
      then show ?thesis using q(3) l by (simp add: links_def huge_def)
    next
      case False
      then have m: "table_at T root q = Some m" using q after by simp
      show ?thesis
      proof (cases "(m, j) = (n, i)")
        case True
        then show ?thesis using l by (simp add: links_def)
      next
        case other: False
        then have "T' m j = T m j"
          using l pt_wfD(1) [OF wf q(1) m] q(3) unfolding links_def by blast
        then show ?thesis using pt_wfD(3) [OF wf q(1) m q(2,3)] q(5) by simp
      qed
    qed
  }
qed

lemma links_translate:
  assumes wf: "pt_wf T root owned" and l: "links T T' root p n i f owned" and v: "vpage_ok v"
  shows "translate T' root v = translate T root v"
proof -
  obtain i4 i3 i2 i1 where veq: "v = (i4, i3, i2, i1)" by (cases v)
  have ix: "path [i4, i3]" "path [i4, i3, i2]" "i2 < 512" "i1 < 512"
    using v by (auto simp: veq vpage_ok_def path_def)
  note after = links_tables [OF wf l ix(1)] links_tables [OF wf l ix(2)]
  have p: "path p" "table_at T root p = Some n" "length p \<le> 2"
    and new: "present (T' n i)" "\<not> huge (T' n i)" "\<not> present (T n i)"
    and empty: "\<And>j. j < 512 \<Longrightarrow> \<not> present (T' f j)"
    and same: "\<And>m j. owned m \<Longrightarrow> j < 512 \<Longrightarrow> (m, j) \<noteq> (n, i) \<Longrightarrow> T' m j = T m j"
    using l by (auto simp: links_def present_def)
  have old: "table_at T root (p @ [i]) = None" using p new by (simp add: table_at_snoc child_def)
  show ?thesis
  proof (cases "p @ [i] = [i4, i3]")
    case True
    then have "table_at T root [i4, i3] = None" "table_at T' root [i4, i3] = Some f"
      using old after(1) by simp_all
    then show ?thesis using empty [OF ix(3)] by (simp add: veq translate_def)
  next
    case False
    then have pd': "table_at T' root [i4, i3] = table_at T root [i4, i3]" using after(1) by auto
    show ?thesis
    proof (cases "table_at T root [i4, i3]")
      case None
      then show ?thesis using pd' by (simp add: veq translate_def)
    next
      case (Some pd)
      show ?thesis
      proof (cases "(pd, i2) = (n, i)")
        case True
        moreover have "unat (T' n i) div 4096 = f" using l by (simp add: links_def)
        ultimately show ?thesis
          using Some pd' new empty [OF ix(4)] by (simp add: veq translate_def Let_def)
      next
        case other: False
        then have e: "T' pd i2 = T pd i2" using same pt_wfD(1) [OF wf ix(1) Some] ix(3) by blast
        have "T' pt i1 = T pt i1" if "present (T pd i2)" "\<not> huge (T pd i2)" "pt = unat (T pd i2) div 4096"
          for pt
        proof -
          have pt: "table_at T root [i4, i3, i2] = Some pt"
            using table_at_snoc [of T root "[i4, i3]" i2] Some that by (simp add: child_def)
          have "pt \<noteq> n" using pt_wfD(2) [OF wf ix(2) pt p(1)] p by auto
          then show ?thesis using same pt_wfD(1) [OF wf ix(2) pt] ix(4) by blast
        qed
        then show ?thesis using Some pd' e by (simp add: veq translate_def Let_def)
      qed
    qed
  qed
qed

text \<open>Storing a leaf in a page directory or a page table: tables only disappear.\<close>

definition stores_leaf :: "tables \<Rightarrow> tables \<Rightarrow> nat \<Rightarrow> nat list \<Rightarrow> nat \<Rightarrow> nat \<Rightarrow> u64 \<Rightarrow> (nat \<Rightarrow> bool) \<Rightarrow> bool" where
  "stores_leaf T T' root p n i e owned \<longleftrightarrow>
     path p \<and> 2 \<le> length p \<and> table_at T root p = Some n \<and> i < 512
     \<and> (length p = 2 \<longrightarrow> \<not> present e \<or> huge e)
     \<and> (\<forall>m j. owned m \<longrightarrow> j < 512 \<longrightarrow> T' m j = (if m = n \<and> j = i then e else T m j))"

lemma stores_leaf_tables:
  assumes wf: "pt_wf T root owned" and l: "stores_leaf T T' root p n i e owned"
  shows "path q \<Longrightarrow> table_at T' root q = (if q = p @ [i] then None else table_at T root q)"
proof (induction q rule: rev_induct)
  case Nil
  then show ?case by simp
next
  case (snoc j q)
  then have q: "path q" "length q \<le> 2" "j < 512"
    and IH: "table_at T' root q = (if q = p @ [i] then None else table_at T root q)"
    by (simp_all add: path_snoc)
  have p: "path p" "2 \<le> length p" "table_at T root p = Some n" "i < 512"
    and leaf: "length p = 2 \<Longrightarrow> \<not> present e \<or> huge e"
    and same: "\<And>m j. owned m \<Longrightarrow> j < 512 \<Longrightarrow> T' m j = (if m = n \<and> j = i then e else T m j)"
    using l by (auto simp: stores_leaf_def)
  have ne: "q \<noteq> p @ [i]" using q(2) p(2) by auto
  show ?case
  proof (cases "table_at T root q")
    case None
    then have "q \<noteq> p" using p by auto
    then show ?thesis using IH ne None by (simp add: table_at_snoc)
  next
    case (Some m)
    have at: "T' m j = (if m = n \<and> j = i then e else T m j)"
      using same pt_wfD(1) [OF wf q(1) Some] q(3) by blast
    have "m = n \<longleftrightarrow> q = p" using pt_wfD(2) [OF wf q(1) Some p(1)] p(3) Some by auto
    moreover have "length p = 2" if "q = p" using that q(2) p(2) by simp
    ultimately have "child T' m j = (if q = p \<and> j = i then None else child T m j)"
      using leaf at by (auto simp: child_def)
    then show ?thesis using IH ne Some by (auto simp: table_at_snoc)
  qed
qed

lemma stores_leaf_wf:
  assumes wf: "pt_wf T root owned" and l: "stores_leaf T T' root p n i e owned"
  shows "pt_wf T' root owned"
  unfolding pt_wf_def
proof (intro conjI allI impI)
  note after = stores_leaf_tables [OF assms]
  have old: "table_at T root q = Some m" if "path q" "table_at T' root q = Some m" for q m
    using after [OF that(1)] that(2) by (metis option.distinct(1))
  {
    fix q m assume q: "path q" "table_at T' root q = Some m"
    show "owned m" by (rule pt_wfD(1) [OF wf q(1) old [OF q]])
  next
    fix q q' m
    assume q: "path q" "path q'" "table_at T' root q = Some m" "table_at T' root q' = Some m"
    show "q = q'" by (rule pt_wfD(2) [OF wf q(1) old [OF q(1,3)] q(2) old [OF q(2,4)]])
  next
    fix q m j
    assume q: "path q" "length q \<le> 1" "j < 512" "table_at T' root q = Some m" "present (T' m j)"
    note m = old [OF q(1,4)]
    have "m \<noteq> n"
      using pt_wfD(2) [OF wf q(1) m, of p] l q(2) by (auto simp: stores_leaf_def)
    then have "T' m j = T m j" using l pt_wfD(1) [OF wf q(1) m] q(3) by (simp add: stores_leaf_def)
    then show "\<not> huge (T' m j)" using pt_wfD(3) [OF wf q(1) m q(2,3)] q(5) by simp
  }
qed

lemma vpage_paths:
  assumes "vpage_ok (i4, i3, i2, i1)"
  shows "path [i4, i3]" "path [i4, i3, i2]" "i2 < 512" "i1 < 512"
  using assms by (auto simp: vpage_ok_def path_def)

lemma table_at_pt:
  assumes "table_at T root [i4, i3] = Some pd"
  shows "table_at T root [i4, i3, i2] = child T pd i2"
  using table_at_snoc [of T root "[i4, i3]" i2] assms by simp

lemma translate_stores_pte:
  assumes wf: "pt_wf T root owned" and l: "stores_leaf T T' root [i4, i3, i2] n i e owned"
    and v: "vpage_ok v"
  shows "translate T' root v =
     (if v = (i4, i3, i2, i) then (if present e then Some (Small e) else None) else translate T root v)"
proof -
  obtain j4 j3 j2 j1 where veq: "v = (j4, j3, j2, j1)" by (cases v)
  note ix = vpage_paths [OF v [unfolded veq]]
  have p: "path [i4, i3, i2]" "table_at T root [i4, i3, i2] = Some n"
    and same: "\<And>m j. owned m \<Longrightarrow> j < 512 \<Longrightarrow> T' m j = (if m = n \<and> j = i then e else T m j)"
    using l by (auto simp: stores_leaf_def)
  have tab: "table_at T' root [j4, j3] = table_at T root [j4, j3]"
    using stores_leaf_tables [OF wf l ix(1)] by simp
  show ?thesis
  proof (cases "table_at T root [j4, j3]")
    case None
    moreover have "(j4, j3) \<noteq> (i4, i3)"
      using None p(2) table_at_prefix [of T root "[i4, i3]" i2 n] by fastforce
    ultimately show ?thesis using tab by (auto simp: veq translate_def)
  next
    case (Some pd)
    have "pd \<noteq> n" using pt_wfD(2) [OF wf ix(1) Some p(1)] p(2) by auto
    then have e: "T' pd j2 = T pd j2" using same [OF pt_wfD(1) [OF wf ix(1) Some] ix(3)] by simp
    show ?thesis
    proof (cases "child T pd j2")
      case None
      moreover have "[j4, j3, j2] \<noteq> [i4, i3, i2]" using None Some p(2) table_at_pt [OF Some, of j2] by auto
      ultimately show ?thesis
        using Some tab e by (auto simp: veq translate_def child_def split: if_splits)
    next
      case pt: (Some pt)
      then have at: "table_at T root [j4, j3, j2] = Some pt" using table_at_pt [OF Some] by simp
      have eq: "T' pt j1 = (if pt = n \<and> j1 = i then e else T pt j1)"
        by (rule same [OF pt_wfD(1) [OF wf ix(2) at] ix(4)])
      have "pt = n \<longleftrightarrow> (j4, j3, j2) = (i4, i3, i2)"
        using pt_wfD(2) [OF wf ix(2) at p(1)] p(2) at by auto
      then show ?thesis
        using Some tab e pt eq by (auto simp: veq translate_def child_def Let_def split: if_splits)
    qed
  qed
qed

lemma translate_stores_pde:
  assumes wf: "pt_wf T root owned" and l: "stores_leaf T T' root [i4, i3] n i e owned"
    and v: "vpage_ok (j4, j3, j2, j1)"
  shows "translate T' root (j4, j3, j2, j1) =
     (if (j4, j3, j2) = (i4, i3, i) then (if present e then Some (Huge e) else None)
      else translate T root (j4, j3, j2, j1))"
proof -
  note ix = vpage_paths [OF v]
  have p: "path [i4, i3]" "table_at T root [i4, i3] = Some n" and leaf: "\<not> present e \<or> huge e"
    and same: "\<And>m j. owned m \<Longrightarrow> j < 512 \<Longrightarrow> T' m j = (if m = n \<and> j = i then e else T m j)"
    using l by (auto simp: stores_leaf_def)
  have tab: "table_at T' root [j4, j3] = table_at T root [j4, j3]"
    using stores_leaf_tables [OF wf l ix(1)] by simp
  show ?thesis
  proof (cases "table_at T root [j4, j3]")
    case None
    then show ?thesis using tab p(2) by (auto simp: translate_def)
  next
    case (Some pd)
    have pd: "pd = n \<longleftrightarrow> (j4, j3) = (i4, i3)"
      using pt_wfD(2) [OF wf ix(1) Some p(1)] p(2) Some by auto
    have e: "T' pd j2 = (if pd = n \<and> j2 = i then e else T pd j2)"
      by (rule same [OF pt_wfD(1) [OF wf ix(1) Some] ix(3)])
    have pt: "T' pt j1 = T pt j1" if "child T pd j2 = Some pt" for pt
    proof -
      have at: "table_at T root [j4, j3, j2] = Some pt" using table_at_pt [OF Some] that by simp
      have "pt \<noteq> n" using pt_wfD(2) [OF wf ix(2) at p(1)] p(2) by auto
      then show ?thesis using same [OF pt_wfD(1) [OF wf ix(2) at] ix(4)] by simp
    qed
    show ?thesis
    proof (cases "pd = n \<and> j2 = i")
      case True
      then show ?thesis using Some tab pd e leaf by (auto simp: translate_def)
    next
      case False
      then have "T' pd j2 = T pd j2" using e by auto
      moreover have "present (T pd j2) \<Longrightarrow> \<not> huge (T pd j2) \<Longrightarrow>
          T' (unat (T pd j2) div 4096) j1 = T (unat (T pd j2) div 4096) j1"
        using pt by (simp add: child_def)
      ultimately show ?thesis using False Some tab pd by (auto simp: translate_def)
    qed
  qed
qed

section \<open>Growing a tree from a page allocator\<close>

text \<open>
  What page tables need from the code below them: zeroed pages that nobody owns yet, and stores
  into owned pages that change one entry.  \<open>kept\<close> observes the rest of the state.
\<close>

locale page_source =
  fixes alloc :: "'s \<Rightarrow> (u64 \<times> 's) option"
    and put :: "nat \<Rightarrow> nat \<Rightarrow> u64 \<Rightarrow> 's \<Rightarrow> 's"
    and ok :: "'s \<Rightarrow> bool"
    and owned :: "'s \<Rightarrow> nat \<Rightarrow> bool"
    and tabs :: "'s \<Rightarrow> tables"
    and kept :: "'s \<Rightarrow> 'k"
    and avail :: "'s \<Rightarrow> nat"
  assumes alloc: "ok s \<Longrightarrow> \<exists>q s'. alloc s = Some (q, s') \<and>
      (q = 0 \<and> s' = s \<and> avail s = 0
       \<or> (\<exists>f. q = of_nat (f * 4096) \<and> 0 < f \<and> f < 4503599627370496 \<and> \<not> owned s f \<and> ok s'
            \<and> avail s = Suc (avail s') \<and> owned s' = (owned s)(f := True) \<and> kept s' = kept s
            \<and> (\<forall>j<512. tabs s' f j = 0)
            \<and> (\<forall>m j. owned s m \<longrightarrow> j < 512 \<longrightarrow> tabs s' m j = tabs s m j)))"
    and put: "ok s \<Longrightarrow> owned s n \<Longrightarrow> i < 512 \<Longrightarrow> ok (put n i e s) \<and> owned (put n i e s) = owned s
      \<and> kept (put n i e s) = kept s \<and> avail (put n i e s) = avail s
      \<and> (\<forall>m j. owned s m \<longrightarrow> j < 512 \<longrightarrow>
           tabs (put n i e s) m j = (if m = n \<and> j = i then e else tabs s m j))"
begin

definition tree :: "nat \<Rightarrow> 's \<Rightarrow> bool" where
  "tree root s \<longleftrightarrow> ok s \<and> pt_wf (tabs s) root (owned s)"

definition same_pages :: "nat \<Rightarrow> 's \<Rightarrow> 's \<Rightarrow> bool" where
  "same_pages root s s' \<longleftrightarrow>
     (\<forall>v. vpage_ok v \<longrightarrow> translate (tabs s') root v = translate (tabs s) root v)"

definition ensure :: "nat \<Rightarrow> nat \<Rightarrow> u64 \<Rightarrow> 's \<Rightarrow> (bool \<times> 's) option" where
  "ensure n i fl s =
     (if present (tabs s n i) then Some (True, s)
      else Option.bind (alloc s) (\<lambda>(q, s').
        if q = 0 then Some (False, s') else Some (True, put n i (q OR fl) s')))"

lemma table_entry:
  assumes "f < 4503599627370496" and "bit fl 0" and "\<not> bit fl 7" and "fl < 4096"
  defines "e \<equiv> (of_nat (f * 4096) :: u64) OR fl"
  shows "present e" "\<not> huge e" "unat e div 4096 = f"
proof -
  have shifted: "(of_nat (f * 4096) :: u64) = push_bit 12 (of_nat f)"
    by (simp add: push_bit_eq_mult mult.commute)
  then have low: "\<not> bit (of_nat (f * 4096) :: u64) k" if "k < 12" for k
    using that by (simp add: bit_push_bit_iff del: of_nat_mult)
  show "present e" using assms(2) by (simp add: e_def present_def bit_or_iff)
  show "\<not> huge e" using assms(3) low [of 7] by (simp add: e_def huge_def bit_or_iff del: of_nat_mult)
  have "drop_bit 12 fl = 0" using assms(4)
    by (simp add: drop_bit_eq_div word_eq_unat unat_div_u64 word_less_unat)
  then have "drop_bit 12 e = drop_bit 12 (of_nat (f * 4096))"
    unfolding e_def by (simp add: drop_bit_or del: of_nat_mult)
  then have "unat (drop_bit 12 e) = unat (drop_bit 12 (of_nat (f * 4096) :: u64))" by simp
  moreover have "unat (drop_bit 12 x) = unat x div 4096" for x :: u64
    by (simp add: drop_bit_eq_div unat_div_u64)
  moreover have "unat (of_nat (f * 4096) :: u64) = f * 4096"
    by (rule unat_of_nat_small) (use assms(1) in simp)
  ultimately show "unat e div 4096 = f" by simp
qed

lemma ensure_links:
  assumes tree: "tree root s" and p: "path p" "length p \<le> 2" "table_at (tabs s) root p = Some n" "i < 512"
    and fl: "bit fl 0" "\<not> bit fl 7" "fl < 4096" and absent: "\<not> present (tabs s n i)"
  shows "ensure n i fl s = Some (False, s) \<and> avail s = 0
     \<or> (\<exists>f u. ensure n i fl s = Some (True, u) \<and> links (tabs s) (tabs u) root p n i f (owned s)
          \<and> child (tabs u) n i = Some f \<and> ok u \<and> owned u = (owned s)(f := True) \<and> kept u = kept s
          \<and> avail s = Suc (avail u))"
proof -
  have ok: "ok s" and wf: "pt_wf (tabs s) root (owned s)" using tree by (simp_all add: tree_def)
  obtain q t where q: "alloc s = Some (q, t)" and cases: "q = 0 \<and> t = s \<and> avail s = 0
       \<or> (\<exists>f. q = of_nat (f * 4096) \<and> 0 < f \<and> f < 4503599627370496 \<and> \<not> owned s f \<and> ok t
            \<and> avail s = Suc (avail t) \<and> owned t = (owned s)(f := True) \<and> kept t = kept s
            \<and> (\<forall>j<512. tabs t f j = 0)
            \<and> (\<forall>m j. owned s m \<longrightarrow> j < 512 \<longrightarrow> tabs t m j = tabs s m j))"
    using alloc [OF ok] by blast
  show ?thesis
  proof (cases "q = 0 \<and> t = s \<and> avail s = 0")
    case True
    then show ?thesis using q absent by (simp add: ensure_def)
  next
    case fresh: False
    then obtain f where f: "q = of_nat (f * 4096)" "0 < f" "f < 4503599627370496" "\<not> owned s f" "ok t"
      "owned t = (owned s)(f := True)" "kept t = kept s" "\<And>j. j < 512 \<Longrightarrow> tabs t f j = 0"
      "\<And>m j. owned s m \<Longrightarrow> j < 512 \<Longrightarrow> tabs t m j = tabs s m j" "avail s = Suc (avail t)"
      using cases by blast
    have "unat q = f * 4096" unfolding f(1) by (rule unat_of_nat_small) (use f(3) in simp)
    then have "q \<noteq> 0" using f(2) by auto
    let ?u = "put n i (q OR fl) t"
    note e = table_entry [OF f(3) fl, folded f(1)]
    have n: "owned s n" by (rule pt_wfD(1) [OF wf p(1,3)])
    then have "owned t n" by (simp add: f(6))
    note put_u = put [OF f(5) this p(4), of "q OR fl"]
    have "f \<noteq> n" using n f(4) by auto
    have "links (tabs s) (tabs ?u) root p n i f (owned s)"
      unfolding links_def using p absent f(4) e put_u n \<open>f \<noteq> n\<close> f(6,8,9) by auto
    moreover have "child (tabs ?u) n i = Some f" using put_u n f(6) p(4) e by (simp add: child_def)
    moreover have "ensure n i fl s = Some (True, ?u)" using absent q \<open>q \<noteq> 0\<close> by (simp add: ensure_def)
    ultimately show ?thesis using put_u f(6,7,10) by fastforce
  qed
qed

lemma ensure_correct:
  assumes tree: "tree root s" and p: "path p" "length p \<le> 2" "table_at (tabs s) root p = Some n" "i < 512"
    and small: "present (tabs s n i) \<Longrightarrow> \<not> huge (tabs s n i)"
    and fl: "bit fl 0" "\<not> bit fl 7" "fl < 4096"
  shows "\<exists>b s'. ensure n i fl s = Some (b, s') \<and> tree root s' \<and> same_pages root s s' \<and> kept s' = kept s
     \<and> (if b then table_at (tabs s') root p = Some n
              \<and> table_at (tabs s') root (p @ [i]) = child (tabs s') n i \<and> child (tabs s') n i \<noteq> None
              \<and> avail s \<le> Suc (avail s')
        else s' = s \<and> avail s = 0)"
proof (cases "present (tabs s n i)")
  case True
  then have "child (tabs s) n i \<noteq> None" using small by (simp add: child_def)
  then show ?thesis
    using True tree p
    by (intro exI [of _ True] exI [of _ s]) (simp add: ensure_def same_pages_def table_at_snoc)
next
  case False
  have wf: "pt_wf (tabs s) root (owned s)" using tree by (simp add: tree_def)
  from ensure_links [OF tree p fl False] show ?thesis
  proof (elim disjE exE conjE)
    assume "ensure n i fl s = Some (False, s)" "avail s = 0"
    then show ?thesis using tree by (intro exI [of _ False] exI [of _ s]) (simp add: same_pages_def)
  next
    fix f u
    assume u: "ensure n i fl s = Some (True, u)" "child (tabs u) n i = Some f" "ok u" "owned u = (owned s)(f := True)"
        "kept u = kept s" "avail s = Suc (avail u)"
      and l: "links (tabs s) (tabs u) root p n i f (owned s)"
    have "table_at (tabs u) root p = Some n" using links_tables [OF wf l p(1)] p(3) by simp
    then show ?thesis
      using u links_wf [OF wf l] links_translate [OF wf l]
      by (intro exI [of _ True] exI [of _ u]) (simp add: tree_def same_pages_def table_at_snoc)
  qed
qed

text \<open>Storing a leaf below a table of the tree.\<close>

lemma put_leaf:
  assumes "tree root s" and "path p" and "2 \<le> length p" and "table_at (tabs s) root p = Some n"
    and "i < 512" and "length p = 2 \<Longrightarrow> \<not> present e \<or> huge e"
  shows "tree root (put n i e s)" "kept (put n i e s) = kept s"
    "stores_leaf (tabs s) (tabs (put n i e s)) root p n i e (owned s)"
proof -
  have ok: "ok s" and wf: "pt_wf (tabs s) root (owned s)" using assms(1) by (simp_all add: tree_def)
  note put = put [OF ok pt_wfD(1) [OF wf assms(2,4)] assms(5), of e]
  show l: "stores_leaf (tabs s) (tabs (put n i e s)) root p n i e (owned s)"
    using assms put by (auto simp: stores_leaf_def)
  show "tree root (put n i e s)" "kept (put n i e s) = kept s"
    using stores_leaf_wf [OF wf l] put by (simp_all add: tree_def)
qed

end

end
