(* ===== verification/Vmm_Tables.thy ===== *)
theory Vmm_Tables
  imports Vmm Page_Tables
begin

text \<open>
  The page tables of \<open>kernel/arch/x86_64/mm/vmm.c\<close> as a tree: the physical memory manager provides
  the pages (the interpretation \<open>vmm_pages\<close>), and the pointers the code computes are the addresses
  of the entries on a path.
\<close>

section \<open>The frames of the allocator as tables\<close>

definition eaddr :: "'a pmm_state_scheme \<Rightarrow> nat \<Rightarrow> nat \<Rightarrow> u64" where
  "eaddr s n i = of_nat (n * 4096) + hhdm_offset s + 8 * of_nat i"

definition ptabs :: "'a pmm_state_scheme \<Rightarrow> tables" where
  "ptabs s n i = load_entry s (eaddr s n i)"

definition pmm_owned :: "'a pmm_state_scheme \<Rightarrow> nat \<Rightarrow> bool" where
  "pmm_owned s n \<longleftrightarrow> n < frames s \<and> n \<notin> free_frames s \<and> n \<notin> set (bitmap_frame_list s)"

definition put_entry :: "nat \<Rightarrow> nat \<Rightarrow> u64 \<Rightarrow> 'a pmm_state_scheme \<Rightarrow> 'a pmm_state_scheme" where
  "put_entry n i e s = store_entry (eaddr s n i) e s"

lemma eaddr_offset:
  assumes "n < 4503599627370496" and "i < 512" and "k < (8 :: u64)"
  shows "unat (eaddr s n i + k - hhdm_offset s) = n * 4096 + 8 * i + unat k"
proof -
  have k: "unat k < 8" using assms(3) by (simp add: word_less_unat)
  have "eaddr s n i + k - hhdm_offset s = of_nat (n * 4096 + 8 * i + unat k)"
    by (simp add: eaddr_def)
  then show ?thesis
    using assms(1,2) k by (simp only:) (rule unat_of_nat_small, simp)
qed

lemma eaddr_frame:
  assumes "n < 4503599627370496" and "i < 512" and "k < (8 :: u64)"
  shows "frame_of s (eaddr s n i + k) = n"
proof -
  have "unat k < 8" using assms(3) by (simp add: word_less_unat)
  then show ?thesis using assms(2) by (simp add: frame_of_def eaddr_offset [OF assms])
qed

lemma eaddr_apart:
  assumes "n < 4503599627370496" and "i < 512" and "m < 4503599627370496" and "j < 512"
    and "(m, j) \<noteq> (n, i)"
  shows "8 \<le> eaddr s m j - eaddr s n i"
proof -
  define x where "x = n * 512 + i"
  define y where "y = m * 512 + j"
  have less: "x < 2305843009213693952" "y < 2305843009213693952" using assms(1-4) by (simp_all add: x_def y_def)
  have "x \<noteq> y"
  proof
    assume "x = y"
    then have "x div 512 = y div 512" "x mod 512 = y mod 512" by simp_all
    then show False using assms(2,4,5) by (simp add: x_def y_def)
  qed
  have eq: "eaddr s m j - eaddr s n i = of_nat (8 * y) - of_nat (8 * x)"
    by (simp add: eaddr_def x_def y_def algebra_simps)
  show ?thesis
  proof (cases "x < y")
    case True
    then have "(of_nat (8 * y) - of_nat (8 * x) :: u64) = of_nat (8 * (y - x))"
      by (simp add: of_nat_diff)
    moreover have "unat (of_nat (8 * (y - x)) :: u64) = 8 * (y - x)"
      by (rule unat_of_nat_small) (use less in simp)
    ultimately show ?thesis unfolding eq word_le_unat using True by (simp del: of_nat_mult)
  next
    case False
    then have "x - y > 0" using \<open>x \<noteq> y\<close> by simp
    have "(of_nat (8 * x) - of_nat (8 * y) :: u64) = of_nat (8 * (x - y))"
      using False by (simp add: of_nat_diff)
    moreover have "unat (of_nat (8 * (x - y)) :: u64) = 8 * (x - y)"
      by (rule unat_of_nat_small) (use less in simp)
    ultimately have d: "unat (of_nat (8 * x) - of_nat (8 * y) :: u64) = 8 * (x - y)" by simp
    then have ne: "(of_nat (8 * x) :: u64) \<noteq> of_nat (8 * y)" using \<open>x - y > 0\<close> by auto
    show ?thesis
      unfolding eq word_le_unat using unat_diff_sum [OF ne] d less by simp
  qed
qed

lemma owned_not_bitmap:
  assumes "pmm_ok d s" and "frame_of s a = n" and "n \<notin> set (bitmap_frame_list s)"
  shows "\<not> in_bitmap s a"
  using in_bitmap_frame(1) [of s a] assms by (auto simp: pmm_ok_def pmm_inv_def)

lemma frames_bound: "pmm_ok d s \<Longrightarrow> n < frames s \<Longrightarrow> n < 4503599627370496"
  using pmm_ok_frames [of d s] by simp

lemma ptabs_cong:
  assumes "n < 4503599627370496" and "i < 512" and "hhdm_offset s' = hhdm_offset s"
    and "\<And>a. frame_of s a = n \<Longrightarrow> mem s' a = mem s a"
  shows "ptabs s' n i = ptabs s n i"
proof -
  have "eaddr s' n i = eaddr s n i" by (simp add: eaddr_def assms(3))
  moreover have "read64 (mem s') (eaddr s n i) = read64 (mem s) (eaddr s n i)"
    by (rule read64_cong) (rule assms(4) [OF eaddr_frame [OF assms(1,2)]])
  ultimately show ?thesis by (simp add: ptabs_def load_entry_def)
qed

lemma ptabs_zero:
  assumes "n < 4503599627370496" and "i < 512" and "\<And>a. frame_of s a = n \<Longrightarrow> mem s a = 0"
  shows "ptabs s n i = 0"
proof (rule bit_word_eqI)
  fix k assume "k < LENGTH(64)"
  then have "(of_nat (k div 8) :: u64) < 8" by (simp add: word_less_unat unat_of_nat_small)
  then have "mem s (eaddr s n i + of_nat (k div 8)) = 0" by (intro assms(3) eaddr_frame assms(1,2))
  then show "bit (ptabs s n i) k = bit (0 :: u64) k"
    by (simp add: ptabs_def load_entry_def bit_read64)
qed

lemma put_entry_ok:
  assumes ok: "pmm_ok d s" and own: "pmm_owned s n" and i: "i < 512"
  shows "pmm_ok d (put_entry n i e s)" "free_frames (put_entry n i e s) = free_frames s"
proof -
  have n: "n < 4503599627370496" using own frames_bound [OF ok] by (simp add: pmm_owned_def)
  have F: "frames s \<le> 2 ^ 52" and inv: "pmm_inv d s" and lay: "pmm_layout s"
    using ok by (simp_all add: pmm_ok_def pmm_inv_def pmm_wf_def)
  let ?m = "write64 (eaddr s n i) e (mem s)"
  have same: "?m a = mem s a" if "in_bitmap s a" for a
  proof (cases "a - eaddr s n i < 8")
    case True
    then have "frame_of s (eaddr s n i + (a - eaddr s n i)) = n" by (rule eaddr_frame [OF n i])
    then have "frame_of s a = n" by simp
    then show ?thesis using owned_not_bitmap [OF ok] own that by (auto simp: pmm_owned_def)
  next
    case False
    then show ?thesis by (intro write64_outside) simp
  qed
  have test: "pmm_test_frame (s\<lparr>mem := ?m\<rparr>) g = pmm_test_frame s g" if "unat g < frames s" for g
    by (rule outside_bitmap_test [OF F same that])
  have eq: "put_entry n i e s = s\<lparr>mem := ?m\<rparr>" by (simp add: put_entry_def store_entry_def)
  show "free_frames (put_entry n i e s) = free_frames s"
    unfolding eq using pmm_inv_cong(2) [of s "s\<lparr>mem := ?m\<rparr>", OF test] F by simp
  have "pmm_inv d (s\<lparr>mem := ?m\<rparr>)" using pmm_inv_cong(1) [of s "s\<lparr>mem := ?m\<rparr>", OF test] F inv by simp
  moreover have "pmm_layout (s\<lparr>mem := ?m\<rparr>)"
    by (rule pmm_layout_cong [OF lay test]) (use F in simp_all)
  ultimately show "pmm_ok d (put_entry n i e s)" by (simp add: eq pmm_ok_def)
qed

lemma put_entry_tabs:
  assumes "n < 4503599627370496" and "i < 512" and "m < 4503599627370496" and "j < 512"
  shows "ptabs (put_entry n i e s) m j = (if m = n \<and> j = i then e else ptabs s m j)"
proof -
  have eq: "ptabs (put_entry n i e s) m j = read64 (write64 (eaddr s n i) e (mem s)) (eaddr s m j)"
    by (simp add: ptabs_def put_entry_def store_entry_def load_entry_def eaddr_def)
  show ?thesis
  proof (cases "(m, j) = (n, i)")
    case True
    then show ?thesis using eq by (simp add: read64_write64_same)
  next
    case False
    then have "8 \<le> eaddr s m j - eaddr s n i" "8 \<le> eaddr s n i - eaddr s m j"
      using eaddr_apart [OF assms] eaddr_apart [OF assms(3,4,1,2)] by auto
    then have "read64 (write64 (eaddr s n i) e (mem s)) (eaddr s m j) = ptabs s m j"
      by (simp add: read64_write64_other ptabs_def load_entry_def)
    then show ?thesis using False eq by auto
  qed
qed

text \<open>The part of the state that neither an allocation nor a store into a table touches.\<close>

definition vmm_kept :: "'a vmm_state_scheme \<Rightarrow> u64 \<times> u64 \<times> u64 \<times> u64 \<times> u64 list" where
  "vmm_kept s = (hhdm_offset s, pmm_bitmap_frames s, pmm_bitmap s, kernel_pml4_phys s, invlpgs s)"

lemma page_fresh_fields:
  assumes "page_fresh d s n s'"
  shows "pmm_bitmap_frames s' = pmm_bitmap_frames s" "pmm_bitmap s' = pmm_bitmap s"
    "hhdm_offset s' = hhdm_offset s" "bitmap_frame_list s' = bitmap_frame_list s"
  using assms by (auto simp: page_fresh_def bitmap_frame_list_def bitmap_phys_def)

lemma page_fresh_owned:
  assumes "page_fresh d s n s'" and ok: "pmm_ok d s"
  shows "pmm_owned s' = (pmm_owned s)(n := True)" "\<not> pmm_owned s n" "n < 4503599627370496"
proof -
  have n: "n \<in> free_frames s" "free_frames s' = free_frames s - {n}"
    using assms by (simp_all add: page_fresh_def)
  then have lt: "n < frames s" by (simp add: free_frames_def)
  then show "n < 4503599627370496" by (rule frames_bound [OF ok])
  show "\<not> pmm_owned s n" using n by (simp add: pmm_owned_def)
  have "n \<notin> set (bitmap_frame_list s)"
    using n(1) ok by (auto simp: free_frames_def pmm_ok_def pmm_layout_def list_all_iff)
  then show "pmm_owned s' = (pmm_owned s)(n := True)"
    using n lt page_fresh_fields [OF assms(1)] by (auto simp: pmm_owned_def fun_eq_iff)
qed

lemma page_fresh_tabs:
  assumes fresh: "page_fresh d s n s'" and ok: "pmm_ok d s" and j: "j < 512"
  shows "ptabs s' n j = 0" "pmm_owned s m \<Longrightarrow> ptabs s' m j = ptabs s m j"
proof -
  note fields = page_fresh_fields [OF fresh] and own = page_fresh_owned [OF fresh ok]
  have fo: "frame_of s' = frame_of s" by (simp add: frame_of_def fields fun_eq_iff)
  have mem: "mem s' a = (if frame_of s a = n then 0 else mem s a)" if "\<not> in_bitmap s a" for a
    using fresh that by (simp add: page_fresh_def)
  have "n \<notin> set (bitmap_frame_list s)"
    using own(1) fields by (auto simp: pmm_owned_def fun_eq_iff split: if_splits)
  then show "ptabs s' n j = 0"
    using own(3) j by (intro ptabs_zero) (simp_all add: fo mem owned_not_bitmap [OF ok])
  assume m: "pmm_owned s m"
  then have "m \<noteq> n" using own(2) by auto
  show "ptabs s' m j = ptabs s m j"
  proof (rule ptabs_cong)
    show "m < 4503599627370496" using m frames_bound [OF ok] by (simp add: pmm_owned_def)
    fix a assume a: "frame_of s a = m"
    then have "\<not> in_bitmap s a" using owned_not_bitmap [OF ok a] m by (simp add: pmm_owned_def)
    then show "mem s' a = mem s a" using mem a \<open>m \<noteq> n\<close> by simp
  qed (use j fields in simp_all)
qed

text \<open>How many pages the allocator will still hand out.\<close>

definition frames_left :: "'a pmm_state_scheme \<Rightarrow> nat" where
  "frames_left s = unat (pmm_free_frames_count s)"

lemma none_left:
  assumes "pmm_ok d s" and "pmm_free_frames_count s = 0 \<or> free_frames s = {}"
  shows "frames_left s = 0"
  using assms by (auto simp: frames_left_def pmm_ok_def pmm_inv_def)

lemma page_fresh_left:
  assumes fresh: "page_fresh d s n s'" and ok: "pmm_ok d s"
  shows "frames_left s = Suc (frames_left s')"
proof -
  have n: "n \<in> free_frames s" "free_frames s' = free_frames s - {n}" "pmm_inv d s'"
    using fresh by (simp_all add: page_fresh_def pmm_ok_def)
  then have "card (free_frames s) = Suc (card (free_frames s'))"
    by (metis card_Suc_Diff1 finite_free_frames)
  moreover have "pmm_inv d s" using ok by (simp add: pmm_ok_def)
  ultimately show ?thesis using n(3) by (simp add: frames_left_def pmm_inv_def)
qed

interpretation vmm_pages: page_source "pmm_alloc_zeroed :: 'a vmm_state_scheme \<Rightarrow> _" put_entry "pmm_ok d"
  pmm_owned ptabs vmm_kept frames_left
  for d
proof
  fix s :: "'a vmm_state_scheme"
  assume ok: "pmm_ok d s"
  obtain q s' where q: "pmm_alloc_zeroed s = Some (q, s')"
    and cases: "q = 0 \<and> s' = s \<and> (pmm_free_frames_count s = 0 \<or> free_frames s = {})
        \<or> (\<exists>n. q = of_nat (n * 4096) \<and> page_fresh d s n s')"
    using pmm_alloc_zeroed_page [OF ok] by blast
  from cases show "\<exists>q s'. pmm_alloc_zeroed s = Some (q, s') \<and>
      (q = 0 \<and> s' = s \<and> frames_left s = 0
       \<or> (\<exists>f. q = of_nat (f * 4096) \<and> 0 < f \<and> f < 4503599627370496 \<and> \<not> pmm_owned s f \<and> pmm_ok d s'
            \<and> frames_left s = Suc (frames_left s') \<and> pmm_owned s' = (pmm_owned s)(f := True) \<and> vmm_kept s' = vmm_kept s
            \<and> (\<forall>j<512. ptabs s' f j = 0)
            \<and> (\<forall>m j. pmm_owned s m \<longrightarrow> j < 512 \<longrightarrow> ptabs s' m j = ptabs s m j)))"
  proof
    assume "q = 0 \<and> s' = s \<and> (pmm_free_frames_count s = 0 \<or> free_frames s = {})"
    then show ?thesis using q none_left [OF ok] by blast
  next
    assume "\<exists>n. q = of_nat (n * 4096) \<and> page_fresh d s n s'"
    then obtain n where n: "q = of_nat (n * 4096)" and fresh: "page_fresh d s n s'" by blast
    have "vmm_kept s' = vmm_kept s" using fresh by (auto simp: page_fresh_def vmm_kept_def)
    moreover have "0 < n" "pmm_ok d s'" using fresh by (simp_all add: page_fresh_def)
    ultimately show ?thesis
      using q n page_fresh_left [OF fresh ok] page_fresh_owned [OF fresh ok] page_fresh_tabs [OF fresh ok] by blast
  qed
next
  fix s :: "'a vmm_state_scheme" and n i :: nat and e :: u64
  assume ok: "pmm_ok d s" and own: "pmm_owned s n" and i: "i < 512"
  have n: "n < 4503599627370496" using own frames_bound [OF ok] by (simp add: pmm_owned_def)
  have "ptabs (put_entry n i e s) m j = (if m = n \<and> j = i then e else ptabs s m j)"
    if "pmm_owned s m" "j < 512" for m j
    by (rule put_entry_tabs [OF n i _ that(2)])
      (use that(1) frames_bound [OF ok] in \<open>simp add: pmm_owned_def\<close>)
  moreover have "pmm_owned (put_entry n i e s) = pmm_owned s"
    using put_entry_ok(2) [OF ok own i, of e]
    by (simp add: pmm_owned_def fun_eq_iff bitmap_frame_list_def bitmap_phys_def)
      (simp add: put_entry_def store_entry_def)
  moreover have "vmm_kept (put_entry n i e s) = vmm_kept s"
    by (simp add: vmm_kept_def put_entry_def store_entry_def)
  moreover have "frames_left (put_entry n i e s) = frames_left s"
    by (simp add: frames_left_def put_entry_def store_entry_def)
  ultimately show "pmm_ok d (put_entry n i e s) \<and> pmm_owned (put_entry n i e s) = pmm_owned s
      \<and> vmm_kept (put_entry n i e s) = vmm_kept s \<and> frames_left (put_entry n i e s) = frames_left s
      \<and> (\<forall>m j. pmm_owned s m \<longrightarrow> j < 512 \<longrightarrow>
           ptabs (put_entry n i e s) m j = (if m = n \<and> j = i then e else ptabs s m j))"
    using put_entry_ok(1) [OF ok own i] by blast
qed

end
