(* ===== verification/Vmm_Walk.thy ===== *)
theory Vmm_Walk
  imports Vmm_Tables
begin

text \<open>
  The page walk of \<open>vmm.c\<close> over the tree of tables: the pointers that \<open>get_pml4e\<close>, \<open>get_pdpe\<close>, \<open>get_pde\<close>
  and \<open>get_pte\<close> compute are the addresses of the entries on the path of the virtual address, and
  the entry the walk ends at is the one the processor's translation is taken from.
\<close>

section \<open>The pointers of the walk\<close>

text \<open>
  The direct map does not wrap around the address space, so the pointer to an entry of a table is
  never \<open>NULL\<close>.
\<close>

definition hhdm_ok :: "'a pmm_state_scheme \<Rightarrow> bool" where
  "hhdm_ok s \<longleftrightarrow> 0 < unat (hhdm_offset s)
     \<and> unat (hhdm_offset s) + frames s * 4096 \<le> 18446744073709551616"

definition vpage_of :: "u64 \<Rightarrow> vpage" where
  "vpage_of virt = (unat (PML4_INDEX virt), unat (PDP_INDEX virt), unat (PD_INDEX virt), unat (PT_INDEX virt))"

lemma index_less: "unat (x AND 0x1FF :: u64) < 512"
proof -
  have "(0x1FF :: u64) = mask 9" by (simp add: mask_eq_exp_minus_1)
  then have "unat (x AND 0x1FF) = unat (take_bit 9 x)" by (simp add: take_bit_eq_mask)
  also have "\<dots> = take_bit 9 (unat x)" by (rule unsigned_take_bit_eq)
  also have "\<dots> < 512" using take_bit_nat_less_exp [of 9 "unat x"] by simp
  finally show ?thesis .
qed

lemma indices_less [simp]:
  "unat (PML4_INDEX v) < 512" "unat (PDP_INDEX v) < 512" "unat (PD_INDEX v) < 512" "unat (PT_INDEX v) < 512"
  by (simp_all add: PML4_INDEX_def PDP_INDEX_def PD_INDEX_def PT_INDEX_def index_less)

lemma vpage_of_ok [simp]: "vpage_ok (vpage_of v)"
  by (simp add: vpage_of_def vpage_ok_def)

lemma present_and: "e AND PTE_PRESENT = 0 \<longleftrightarrow> \<not> present e"
  using and_exp_eq_0_iff_not_bit [of e 0] by (simp add: present_def)

lemma huge_and: "e AND PTE_HUGE = 0 \<longleftrightarrow> \<not> huge e"
  using and_exp_eq_0_iff_not_bit [of e 7] by (simp add: huge_def)

lemma next_table_addr:
  "phys_to_virt s (e AND NOT 0xFFF) + 8 * ix = eaddr s (unat e div 4096) (unat ix)"
proof -
  have "unat (e div 4096) = unat e div 4096" by (simp add: unat_div_u64)
  then have "e div 4096 = of_nat (unat e div 4096)" by (metis of_nat_unat_u64)
  then have "(e AND NOT 0xFFF) = of_nat (unat e div 4096 * 4096)" unfolding and_not_4095 by simp
  then show ?thesis by (simp only: phys_to_virt_def eaddr_def of_nat_unat_u64)
qed

lemma next_table_simp [simp]:
  "phys_to_virt s (e AND - 4096) + 8 * ix = eaddr s (unat e div 4096) (unat ix)"
  using next_table_addr [of s e ix] by simp

lemma eaddr_nonzero:
  assumes "hhdm_ok s" and "n < frames s" and "i < 512"
  shows "eaddr s n i \<noteq> 0"
proof -
  have le: "unat (hhdm_offset s) + (n * 4096 + 8 * i) < 18446744073709551616"
    using assms unfolding hhdm_ok_def by linarith
  then have "unat (of_nat (n * 4096 + 8 * i) :: u64) = n * 4096 + 8 * i"
    by (intro unat_of_nat_small) linarith
  moreover have "eaddr s n i = hhdm_offset s + of_nat (n * 4096 + 8 * i)" by (simp add: eaddr_def)
  ultimately have "unat (eaddr s n i) = unat (hhdm_offset s) + (n * 4096 + 8 * i)"
    using le by (simp add: unat_add_small)
  then show ?thesis using assms(1) unfolding hhdm_ok_def by auto
qed

definition vmm_tree :: "nat \<Rightarrow> nat \<Rightarrow> 'a vmm_state_scheme \<Rightarrow> bool" where
  "vmm_tree d root s \<longleftrightarrow> pmm_ok d s \<and> pt_wf (ptabs s) root (pmm_owned s) \<and> hhdm_ok s"

lemma vmm_tree_pages: "vmm_tree d root s \<longleftrightarrow> vmm_pages.tree d root s \<and> hhdm_ok s"
  by (auto simp: vmm_tree_def vmm_pages.tree_def)

lemma vmm_treeD:
  assumes "vmm_tree d root s"
  shows "pmm_ok d s" "pt_wf (ptabs s) root (pmm_owned s)" "hhdm_ok s" "vmm_pages.tree d root s"
  using assms by (simp_all add: vmm_tree_def vmm_pages.tree_def)

lemma vmm_tree_table:
  assumes "vmm_tree d root s" and "path p" and "table_at (ptabs s) root p = Some n"
  shows "pmm_owned s n" "n < frames s" "i < 512 \<Longrightarrow> eaddr s n i \<noteq> 0"
proof -
  show own: "pmm_owned s n" using assms pt_wfD(1) by (auto simp: vmm_tree_def)
  then show n: "n < frames s" by (simp add: pmm_owned_def)
  show "i < 512 \<Longrightarrow> eaddr s n i \<noteq> 0"
    using eaddr_nonzero [OF _ n] assms(1) by (simp add: vmm_tree_def)
qed

lemma load_eaddr: "load_entry s (eaddr s n i) = ptabs s n i"
  by (simp add: ptabs_def)

text \<open>The pointer \<open>uint64_t *pml4\<close> of the tree at \<open>root\<close>.\<close>

definition pml4_ptr :: "'a pmm_state_scheme \<Rightarrow> nat \<Rightarrow> u64" where
  "pml4_ptr s root = of_nat (root * 4096) + hhdm_offset s"

lemma get_pml4e_eaddr: "get_pml4e (pml4_ptr s root) virt = eaddr s root (unat (PML4_INDEX virt))"
  by (simp add: get_pml4e_def pml4_ptr_def eaddr_def)

lemma table_at_step:
  assumes tree: "vmm_tree d root s" and "path p" "length p \<le> 1" "i < 512"
    and "table_at (ptabs s) root p = Some n"
  shows "table_at (ptabs s) root (p @ [i]) =
     (if present (ptabs s n i) then Some (unat (ptabs s n i) div 4096) else None)"
proof -
  have wf: "pt_wf (ptabs s) root (pmm_owned s)" using tree by (simp add: vmm_tree_def)
  have "present (ptabs s n i) \<Longrightarrow> \<not> huge (ptabs s n i)"
    by (rule pt_wfD(3) [OF wf assms(2,5,3,4)])
  then show ?thesis using assms(5) by (simp add: table_at_snoc child_def)
qed

lemma get_pdpe_eaddr:
  fixes virt :: u64
  assumes "vmm_tree d root s"
  defines "i4 \<equiv> unat (PML4_INDEX virt)" and "i3 \<equiv> unat (PDP_INDEX virt)"
  shows "get_pdpe s (pml4_ptr s root) virt =
     (case table_at (ptabs s) root [i4] of None \<Rightarrow> 0 | Some n \<Rightarrow> eaddr s n i3)"
  using table_at_step [OF assms(1), of "[]" i4]
  by (simp add: get_pdpe_def Let_def get_pml4e_eaddr load_eaddr present_and path_def
      i4_def i3_def)

lemma get_pde_eaddr:
  fixes virt :: u64
  assumes tree: "vmm_tree d root s"
  defines "i4 \<equiv> unat (PML4_INDEX virt)" and "i3 \<equiv> unat (PDP_INDEX virt)" and "i2 \<equiv> unat (PD_INDEX virt)"
  shows "get_pde s (pml4_ptr s root) virt =
     (case table_at (ptabs s) root [i4, i3] of None \<Rightarrow> 0 | Some n \<Rightarrow> eaddr s n i2)"
proof (cases "table_at (ptabs s) root [i4]")
  case None
  then have "table_at (ptabs s) root [i4, i3] = None"
    using table_at_snoc [of "ptabs s" root "[i4]" i3] by simp
  then show ?thesis
    using None get_pdpe_eaddr [OF tree, of virt] by (simp add: get_pde_def i4_def i3_def)
next
  case (Some n)
  have p: "path [i4]" by (simp add: path_def i4_def)
  have "i3 < 512" by (simp add: i3_def)
  then have "eaddr s n i3 \<noteq> 0" by (rule vmm_tree_table(3) [OF tree p Some])
  moreover have "get_pdpe s (pml4_ptr s root) virt = eaddr s n i3"
    using Some get_pdpe_eaddr [OF tree, of virt] by (simp add: i4_def i3_def)
  ultimately show ?thesis
    using table_at_step [OF tree p _ \<open>i3 < 512\<close> Some]
    by (simp add: get_pde_def Let_def load_eaddr present_and i2_def)
qed

lemma get_pte_eaddr:
  fixes virt :: u64
  assumes tree: "vmm_tree d root s"
  defines "i4 \<equiv> unat (PML4_INDEX virt)" and "i3 \<equiv> unat (PDP_INDEX virt)"
    and "i2 \<equiv> unat (PD_INDEX virt)" and "i1 \<equiv> unat (PT_INDEX virt)"
  shows "get_pte s (pml4_ptr s root) virt =
     (case table_at (ptabs s) root [i4, i3] of None \<Rightarrow> 0
      | Some n \<Rightarrow> if \<not> present (ptabs s n i2) then 0
                  else if huge (ptabs s n i2) then eaddr s n i2
                  else eaddr s (unat (ptabs s n i2) div 4096) i1)"
proof (cases "table_at (ptabs s) root [i4, i3]")
  case None
  then show ?thesis
    using get_pde_eaddr [OF tree, of virt] by (simp add: get_pte_def i4_def i3_def)
next
  case (Some n)
  have p: "path [i4, i3]" by (simp add: path_def i4_def i3_def)
  have "eaddr s n i2 \<noteq> 0" by (rule vmm_tree_table(3) [OF tree p Some]) (simp add: i2_def)
  moreover have "get_pde s (pml4_ptr s root) virt = eaddr s n i2"
    using Some get_pde_eaddr [OF tree, of virt] by (simp add: i4_def i3_def i2_def)
  ultimately show ?thesis
    using Some by (simp add: get_pte_def Let_def load_eaddr present_and huge_and i1_def)
qed

lemma get_pte_small:
  fixes virt :: u64
  assumes tree: "vmm_tree d root s"
  defines "i4 \<equiv> unat (PML4_INDEX virt)" and "i3 \<equiv> unat (PDP_INDEX virt)"
    and "i2 \<equiv> unat (PD_INDEX virt)" and "i1 \<equiv> unat (PT_INDEX virt)"
  assumes pt: "table_at (ptabs s) root [i4, i3, i2] = Some n"
  shows "get_pte s (pml4_ptr s root) virt = eaddr s n i1"
    "translate (ptabs s) root (vpage_of virt) =
       (if present (ptabs s n i1) then Some (Small (ptabs s n i1)) else None)"
proof -
  obtain pd where pd: "table_at (ptabs s) root [i4, i3] = Some pd" and c: "child (ptabs s) pd i2 = Some n"
    using table_at_prefix [of "ptabs s" root "[i4, i3]" i2 n] pt by auto
  then show "get_pte s (pml4_ptr s root) virt = eaddr s n i1"
    using get_pte_eaddr [OF tree, of virt] by (auto simp: i4_def i3_def i2_def i1_def child_def split: if_splits)
  show "translate (ptabs s) root (vpage_of virt) =
       (if present (ptabs s n i1) then Some (Small (ptabs s n i1)) else None)"
    using pd pt c by (auto simp: vpage_of_def translate_table i4_def i3_def i2_def i1_def child_def split: if_splits)
qed

text \<open>The entry the walk ends at is the one the translation is taken from.\<close>

lemma get_pte_translate:
  fixes virt :: u64
  assumes tree: "vmm_tree d root s"
  defines "pte \<equiv> get_pte s (pml4_ptr s root) virt"
  shows "(pte = 0 \<or> \<not> present (load_entry s pte)) \<longleftrightarrow> translate (ptabs s) root (vpage_of virt) = None"
    and "translate (ptabs s) root (vpage_of virt) = Some (Huge e) \<Longrightarrow> load_entry s pte = e \<and> huge e"
    and "translate (ptabs s) root (vpage_of virt) = Some (Small e) \<Longrightarrow> load_entry s pte = e"
proof -
  define i4 i3 i2 i1 where ix: "i4 = unat (PML4_INDEX virt)" "i3 = unat (PDP_INDEX virt)"
    "i2 = unat (PD_INDEX virt)" "i1 = unat (PT_INDEX virt)"
  note walk = get_pte_eaddr [OF tree, of virt, folded ix pte_def]
  have v: "vpage_of virt = (i4, i3, i2, i1)" by (simp add: vpage_of_def ix)
  have p: "path [i4, i3]" "path [i4, i3, i2]" and lt: "i2 < 512" "i1 < 512" by (simp_all add: path_def ix)
  have nz: "eaddr s n i2 \<noteq> 0" if "table_at (ptabs s) root [i4, i3] = Some n" for n
    by (rule vmm_tree_table(3) [OF tree p(1) that lt(1)])
  have nz': "eaddr s (unat (ptabs s n i2) div 4096) i1 \<noteq> 0"
    if "table_at (ptabs s) root [i4, i3] = Some n" "present (ptabs s n i2)" "\<not> huge (ptabs s n i2)" for n
    by (rule vmm_tree_table(3) [OF tree p(2) _ lt(2)])
      (use that in \<open>simp add: table_at_pt child_def\<close>)
  show "(pte = 0 \<or> \<not> present (load_entry s pte)) \<longleftrightarrow> translate (ptabs s) root (vpage_of virt) = None"
    using walk nz nz' unfolding v translate_def
    by (auto simp: Let_def load_eaddr split: option.splits if_splits)
  show "translate (ptabs s) root (vpage_of virt) = Some (Huge e) \<Longrightarrow> load_entry s pte = e \<and> huge e"
    using walk unfolding v translate_def
    by (auto simp: Let_def load_eaddr split: option.splits if_splits)
  show "translate (ptabs s) root (vpage_of virt) = Some (Small e) \<Longrightarrow> load_entry s pte = e"
    using walk unfolding v translate_def
    by (auto simp: Let_def load_eaddr split: option.splits if_splits)
qed

end
