(* ===== verification/Vmm_Map.thy ===== *)
theory Vmm_Map
  imports Vmm_Walk
begin

text \<open>
  \<open>vmm_map\<close>, \<open>vmm_map_huge_2mb\<close>, \<open>vmm_unmap\<close>, \<open>vmm_unmap_huge_2mb\<close> and the queries of \<open>vmm.c\<close>
  over the translation of the kernel's page tables.  \<open>map_outcome\<close> and \<open>unmap_outcome\<close> say what
  the calls promise.
\<close>

section \<open>What the operations do to the tree\<close>

text \<open>Logging and \<open>invlpg\<close> leave the allocator and the tables alone.\<close>

lemma observers_log [simp]:
  "ptabs (serial_log str s) = ptabs s" "free_frames (serial_log str s) = free_frames s"
  "bitmap_frame_list (serial_log str s) = bitmap_frame_list s"
  "pmm_owned (serial_log str s) = pmm_owned s" "hhdm_ok (serial_log str s) = hhdm_ok s"
  "pmm_free_frames_count (serial_log str s) = pmm_free_frames_count s"
  "pmm_layout (serial_log str s) = pmm_layout s" "pmm_inv d (serial_log str s) = pmm_inv d s"
proof -
  show "ptabs (serial_log str s) = ptabs s"
    by (simp add: ptabs_def load_entry_def eaddr_def fun_eq_iff) (simp add: serial_log_def)
  show free: "free_frames (serial_log str s) = free_frames s"
    by (simp add: free_frames_def) (simp add: serial_log_def)
  show bl: "bitmap_frame_list (serial_log str s) = bitmap_frame_list s"
    by (simp add: bitmap_frame_list_def bitmap_phys_def serial_log_def)
  show "pmm_owned (serial_log str s) = pmm_owned s"
    by (simp add: pmm_owned_def fun_eq_iff free bl) (simp add: serial_log_def)
  show "hhdm_ok (serial_log str s) = hhdm_ok s" by (simp add: hhdm_ok_def serial_log_def)
  show "pmm_free_frames_count (serial_log str s) = pmm_free_frames_count s" by (simp add: serial_log_def)
  show "pmm_layout (serial_log str s) = pmm_layout s"
    by (simp add: pmm_layout_def bl) (simp add: bitmap_phys_def serial_log_def)
  show "pmm_inv d (serial_log str s) = pmm_inv d s"
    by (simp add: pmm_inv_def pmm_wf_def free) (simp add: serial_log_def)
qed

lemma fields_log [simp]:
  "hhdm_offset (serial_log str s) = hhdm_offset s" "kernel_pml4_phys (serial_log str v) = kernel_pml4_phys v"
  "invlpgs (serial_log str v) = invlpgs v"
  by (simp_all add: serial_log_def)

lemma vmm_kept_log [simp]: "vmm_kept (serial_log str s) = vmm_kept s"
  by (simp add: vmm_kept_def serial_log_def)

lemma observers_invlpg [simp]:
  "ptabs (invlpg a s) = ptabs s" "free_frames (invlpg a s) = free_frames s"
  "bitmap_frame_list (invlpg a s) = bitmap_frame_list s"
  "pmm_owned (invlpg a s) = pmm_owned s" "hhdm_ok (invlpg a s) = hhdm_ok s"
  "pmm_layout (invlpg a s) = pmm_layout s" "pmm_inv d (invlpg a s) = pmm_inv d s"
proof -
  have test [simp]: "pmm_test_frame (invlpg a s) g = pmm_test_frame s g" for g
    by (simp add: invlpg_def pmm_test_frame_def bitmap_byte_def)
  show "ptabs (invlpg a s) = ptabs s"
    by (simp add: ptabs_def load_entry_def eaddr_def fun_eq_iff) (simp add: invlpg_def)
  show free: "free_frames (invlpg a s) = free_frames s"
    by (simp add: free_frames_def) (simp add: invlpg_def)
  show bl: "bitmap_frame_list (invlpg a s) = bitmap_frame_list s"
    by (simp add: bitmap_frame_list_def bitmap_phys_def invlpg_def)
  show "pmm_owned (invlpg a s) = pmm_owned s"
    by (simp add: pmm_owned_def fun_eq_iff free bl) (simp add: invlpg_def)
  show "hhdm_ok (invlpg a s) = hhdm_ok s" by (simp add: hhdm_ok_def invlpg_def)
  show "pmm_layout (invlpg a s) = pmm_layout s"
    by (simp add: pmm_layout_def bl) (simp add: bitmap_phys_def invlpg_def)
  show "pmm_inv d (invlpg a s) = pmm_inv d s"
    by (simp add: pmm_inv_def pmm_wf_def free) (simp add: invlpg_def)
qed

lemma invlpg_fields [simp]:
  "hhdm_offset (invlpg a s) = hhdm_offset s" "kernel_pml4_phys (invlpg a s) = kernel_pml4_phys s"
  "invlpgs (invlpg a s) = invlpgs s @ [a]"
  by (simp_all add: invlpg_def)

lemma vmm_tree_log [simp]: "vmm_tree d root (serial_log str s) = vmm_tree d root s"
  and vmm_tree_invlpg [simp]: "vmm_tree d root (invlpg a s) = vmm_tree d root s"
  by (simp_all add: vmm_tree_def pmm_ok_def)

definition pages_kept :: "nat \<Rightarrow> 'a pmm_state_scheme \<Rightarrow> 'a pmm_state_scheme \<Rightarrow> bool" where
  "pages_kept root s s' \<longleftrightarrow>
     (\<forall>v. vpage_ok v \<longrightarrow> translate (ptabs s') root v = translate (ptabs s) root v)"

lemma pages_kept_refl [simp]: "pages_kept root s s"
  by (simp add: pages_kept_def)

lemma pages_kept_trans: "pages_kept root s t \<Longrightarrow> pages_kept root t u \<Longrightarrow> pages_kept root s u"
  by (simp add: pages_kept_def)

lemma pages_kept_log [simp]: "pages_kept root s (serial_log str t) = pages_kept root s t"
  by (simp add: pages_kept_def)

text \<open>
  What an operation may use up: at most \<open>k\<close> frames when it succeeds; it fails only when fewer than
  \<open>k\<close> are left or its target is \<open>busy\<close>.
\<close>

definition cost :: "nat \<Rightarrow> 'a pmm_state_scheme \<Rightarrow> bool \<Rightarrow> 'a pmm_state_scheme \<Rightarrow> bool \<Rightarrow> bool" where
  "cost k s b s' busy \<longleftrightarrow> (if b then frames_left s \<le> k + frames_left s' else frames_left s < k \<or> busy)"

lemma frames_left_log [simp]: "frames_left (serial_log str s) = frames_left s"
  and frames_left_invlpg [simp]: "frames_left (invlpg a v) = frames_left v"
  and frames_left_put [simp]: "frames_left (put_entry n i e s) = frames_left s"
  by (simp_all add: frames_left_def put_entry_def store_entry_def invlpg_def)

lemma cost_trans: "cost j s True t False \<Longrightarrow> cost k t b u busy \<Longrightarrow> cost (j + k) s b u busy"
  by (auto simp: cost_def split: if_splits)

lemma cost_early: "cost j s False t False \<Longrightarrow> j \<le> k \<Longrightarrow> cost k s False t busy"
  by (auto simp: cost_def)

definition table_flags :: "u64 \<Rightarrow> bool" where
  "table_flags fl \<longleftrightarrow> bit fl 0 \<and> \<not> bit fl 7 \<and> fl < 4096"

lemma vmm_kept_simps:
  assumes "vmm_kept s' = vmm_kept s"
  shows "hhdm_offset s' = hhdm_offset s" "kernel_pml4_phys s' = kernel_pml4_phys s"
    "invlpgs s' = invlpgs s" "pmm_bitmap_frames s' = pmm_bitmap_frames s" "hhdm_ok s' = hhdm_ok s"
    "eaddr s' = eaddr s" "pml4_ptr s' = pml4_ptr s"
  using assms by (auto simp: vmm_kept_def hhdm_ok_def eaddr_def pml4_ptr_def fun_eq_iff)

text \<open>
  The outcome of making sure that entry \<open>i\<close> of the table at path \<open>p\<close> leads to a table: the tree
  keeps its translations, and on success the path goes on.
\<close>

definition step_outcome ::
  "nat \<Rightarrow> nat \<Rightarrow> nat \<Rightarrow> nat list \<Rightarrow> nat \<Rightarrow> 'a vmm_state_scheme \<Rightarrow> bool \<Rightarrow> 'a vmm_state_scheme \<Rightarrow> bool" where
  "step_outcome k d root p i s b s' \<longleftrightarrow>
     vmm_tree d root s' \<and> pages_kept root s s' \<and> vmm_kept s' = vmm_kept s
     \<and> cost k s b s' False \<and> (b \<longrightarrow> (\<exists>m. table_at (ptabs s') root (p @ [i]) = Some m))"

lemma ensure_outcome:
  assumes tree: "vmm_tree d root s" and p: "path p" "length p \<le> 2" "table_at (ptabs s) root p = Some n" "i < 512"
    and "present (ptabs s n i) \<Longrightarrow> \<not> huge (ptabs s n i)" and "table_flags fl"
  shows "\<exists>b s'. vmm_pages.ensure n i fl s = Some (b, s') \<and> step_outcome 1 d root p i s b s'
     \<and> (b \<longrightarrow> table_at (ptabs s') root (p @ [i]) = child (ptabs s') n i)"
proof -
  have t: "vmm_pages.tree d root s" "hhdm_ok s" using tree by (simp_all add: vmm_tree_pages)
  have ok: "pmm_ok d s" using tree by (simp add: vmm_tree_def)
  from vmm_pages.ensure_correct [OF t(1) p assms(6)] assms(7)
  obtain b s' where call: "vmm_pages.ensure n i fl s = Some (b, s')" and tree': "vmm_pages.tree d root s'"
    and same: "vmm_pages.same_pages root s s'" and kept: "vmm_kept s' = vmm_kept s"
    and cases: "if b then table_at (ptabs s') root p = Some n
              \<and> table_at (ptabs s') root (p @ [i]) = child (ptabs s') n i \<and> child (ptabs s') n i \<noteq> None
              \<and> frames_left s \<le> Suc (frames_left s')
        else s' = s \<and> frames_left s = 0"
    unfolding table_flags_def by blast
  have "vmm_tree d root s'" unfolding vmm_tree_pages vmm_kept_simps(5) [OF kept] using tree' t(2) ..
  moreover have "pages_kept root s s'" using same by (simp add: pages_kept_def vmm_pages.same_pages_def)
  moreover have "cost 1 s b s' False" "b \<longrightarrow> (\<exists>m. table_at (ptabs s') root (p @ [i]) = Some m)"
    using cases by (auto simp: cost_def split: if_splits)
  moreover have "b \<longrightarrow> table_at (ptabs s') root (p @ [i]) = child (ptabs s') n i" using cases by simp
  ultimately show ?thesis using call kept unfolding step_outcome_def by blast
qed

lemma alloc_eaddr:
  fixes s :: "'a vmm_state_scheme"
  assumes ok: "pmm_ok d s"
  shows "\<exists>q t. pmm_alloc_zeroed s = Some (q, t) \<and> eaddr t = eaddr s"
proof -
  obtain q t where q: "pmm_alloc_zeroed s = Some (q, t)"
    and cases: "q = 0 \<and> t = s \<and> (pmm_free_frames_count s = 0 \<or> free_frames s = {})
        \<or> (\<exists>n. q = of_nat (n * 4096) \<and> page_fresh d s n t)"
    using pmm_alloc_zeroed_page [OF ok] by blast
  from cases have "hhdm_offset t = hhdm_offset s" using page_fresh_fields(3) by auto
  then show ?thesis using q by (simp add: eaddr_def fun_eq_iff)
qed

lemma create_table_ensure:
  assumes tree: "vmm_tree d root s" and p: "path p" "table_at (ptabs s) root p = Some n" "i < 512"
  shows "create_table (eaddr s n i) flags s =
     map_option (\<lambda>(b, t). (b, if b then t
         else serial_log (bytes ''create_table: failed to alloc page table'') t))
       (vmm_pages.ensure n i (flags OR PTE_PRESENT OR PTE_WRITE) s)"
proof -
  have ok: "pmm_ok d s" using tree by (simp add: vmm_tree_def)
  have nz: "eaddr s n i \<noteq> 0" by (rule vmm_tree_table(3) [OF tree p])
  obtain q t where q: "pmm_alloc_zeroed s = Some (q, t)" and e: "eaddr t = eaddr s"
    using alloc_eaddr [OF ok] by blast
  show ?thesis
  proof (cases "present (ptabs s n i)")
    case True
    then show ?thesis using nz by (simp add: create_table_def load_eaddr present_and vmm_pages.ensure_def)
  next
    case False
    then show ?thesis
      using nz q e
      by (simp add: create_table_def load_eaddr present_and vmm_pages.ensure_def put_entry_def or.assoc)
  qed
qed

lemma create_table_outcome:
  assumes tree: "vmm_tree d root s" and p: "path p" "length p \<le> 2" "table_at (ptabs s) root p = Some n" "i < 512"
    and "present (ptabs s n i) \<Longrightarrow> \<not> huge (ptabs s n i)"
  shows "\<exists>b s'. create_table (eaddr s n i) PTE_WRITE s = Some (b, s') \<and> step_outcome 1 d root p i s b s'"
proof -
  have "table_flags (PTE_WRITE OR PTE_PRESENT OR PTE_WRITE)"
    by (simp add: table_flags_def bit_or_iff bit_numeral_rec)
  from ensure_outcome [OF tree p assms(6) this]
  obtain b t where call: "vmm_pages.ensure n i (PTE_WRITE OR PTE_PRESENT OR PTE_WRITE) s = Some (b, t)"
    and out: "step_outcome 1 d root p i s b t" by blast
  show ?thesis
    unfolding create_table_ensure [OF tree p(1,3,4)] call
    by (intro exI [of _ b] exI [of _ "if b then t
         else serial_log (bytes ''create_table: failed to alloc page table'') t"])
      (use out in \<open>cases b; simp add: step_outcome_def cost_def\<close>)
qed

text \<open>The first two \<open>create_table\<close> calls, common to \<open>vmm_map\<close> and \<open>vmm_map_huge_2mb\<close>.\<close>

definition directory_made :: "u64 \<Rightarrow> u64 \<Rightarrow> 'a vmm_state_scheme \<Rightarrow> (bool \<times> 'a vmm_state_scheme) option" where
  "directory_made pml4 virt s = do {
     (ok, s) \<leftarrow> create_table (get_pml4e pml4 virt) PTE_WRITE s;
     if \<not> ok then Some (False, s) else create_table (get_pdpe s pml4 virt) PTE_WRITE s }"

lemma vmm_tree_small:
  assumes tree: "vmm_tree d root s" and "path p" "length p \<le> 1" "table_at (ptabs s) root p = Some n" "i < 512"
  shows "present (ptabs s n i) \<Longrightarrow> \<not> huge (ptabs s n i)"
  using pt_wfD(3) [OF _ assms(2,4,3,5)] tree by (auto simp: vmm_tree_def)

lemma pml4_ptr_kept: "vmm_kept s' = vmm_kept s \<Longrightarrow> pml4_ptr s' root = pml4_ptr s root"
  by (rule fun_cong [OF vmm_kept_simps(7)])

lemma directory_made_outcome:
  fixes virt :: u64
  assumes tree: "vmm_tree d root s"
  defines "i4 \<equiv> unat (PML4_INDEX virt)" and "i3 \<equiv> unat (PDP_INDEX virt)"
  shows "\<exists>b s'. directory_made (pml4_ptr s root) virt s = Some (b, s') \<and> step_outcome 2 d root [i4] i3 s b s'"
proof -
  have ix: "i4 < 512" "i3 < 512" and p: "path []" "path [i4]" by (simp_all add: i4_def i3_def path_def)
  obtain b t where c1: "create_table (eaddr s root i4) PTE_WRITE s = Some (b, t)"
    and o1: "step_outcome 1 d root [] i4 s b t"
    using create_table_outcome [OF tree p(1) _ table_at_Nil ix(1) vmm_tree_small [OF tree p(1) _ table_at_Nil ix(1)]]
    by auto
  show ?thesis
  proof (cases b)
    case False
    then show ?thesis
      using c1 o1 by (intro exI [of _ False] exI [of _ t])
        (simp add: directory_made_def get_pml4e_eaddr i4_def step_outcome_def cost_def)
  next
    case True
    then obtain n where tree1: "vmm_tree d root t" and n: "table_at (ptabs t) root [i4] = Some n"
      and kept: "vmm_kept t = vmm_kept s" "pages_kept root s t" using o1 by (auto simp: step_outcome_def)
    obtain b' u where c2: "create_table (eaddr t n i3) PTE_WRITE t = Some (b', u)"
      and o2: "step_outcome 1 d root [i4] i3 t b' u"
      using create_table_outcome [OF tree1 p(2) _ n ix(2) vmm_tree_small [OF tree1 p(2) _ n ix(2)]] by auto
    have "get_pdpe t (pml4_ptr s root) virt = eaddr t n i3"
      using get_pdpe_eaddr [OF tree1, of virt] n pml4_ptr_kept [OF kept(1)] by (simp add: i4_def i3_def)
    then have "directory_made (pml4_ptr s root) virt s = Some (b', u)"
      using True c1 c2 by (simp add: directory_made_def get_pml4e_eaddr i4_def)
    moreover have "step_outcome 2 d root [i4] i3 s b' u"
      using o1 o2 True kept pages_kept_trans cost_trans [of 1 s t 1] by (auto simp: step_outcome_def numeral_2_eq_2)
    ultimately show ?thesis by blast
  qed
qed

text \<open>Storing a leaf entry.\<close>

lemma store_pte:
  fixes e :: u64 and n i1 :: nat
  assumes tree: "vmm_tree d root s" and v: "vpage_ok (i4, i3, i2, i1)"
    and pt: "table_at (ptabs s) root [i4, i3, i2] = Some n"
  defines "s' \<equiv> put_entry n i1 e s"
  shows "vmm_tree d root s'" "vmm_kept s' = vmm_kept s"
    "vpage_ok w \<Longrightarrow> translate (ptabs s') root w =
       (if w = (i4, i3, i2, i1) then (if present e then Some (Small e) else None)
        else translate (ptabs s) root w)"
proof -
  note l = vmm_pages.put_leaf [OF vmm_treeD(4) [OF tree] vpage_paths(2) [OF v] _ pt vpage_paths(4) [OF v], of e]
  show k: "vmm_kept s' = vmm_kept s" unfolding s'_def by (rule l(2)) simp_all
  show "vmm_tree d root s'"
    unfolding vmm_tree_pages using l(1) vmm_treeD(3) [OF tree] vmm_kept_simps(5) [OF k] by (simp add: s'_def)
  show "translate (ptabs s') root w =
       (if w = (i4, i3, i2, i1) then (if present e then Some (Small e) else None)
        else translate (ptabs s) root w)" if "vpage_ok w"
    unfolding s'_def by (rule translate_stores_pte [OF vmm_treeD(2) [OF tree] l(3) that]) simp_all
qed

lemma store_pde:
  fixes e :: u64 and n i2 :: nat
  assumes tree: "vmm_tree d root s" and v: "vpage_ok (i4, i3, i2, i1)"
    and pd: "table_at (ptabs s) root [i4, i3] = Some n" and e: "\<not> present e \<or> huge e"
  defines "s' \<equiv> put_entry n i2 e s"
  shows "vmm_tree d root s'" "vmm_kept s' = vmm_kept s"
    "vpage_ok (j4, j3, j2, j1) \<Longrightarrow> translate (ptabs s') root (j4, j3, j2, j1) =
       (if (j4, j3, j2) = (i4, i3, i2) then (if present e then Some (Huge e) else None)
        else translate (ptabs s) root (j4, j3, j2, j1))"
proof -
  note l = vmm_pages.put_leaf [OF vmm_treeD(4) [OF tree] vpage_paths(1) [OF v] _ pd vpage_paths(3) [OF v], of e]
  show k: "vmm_kept s' = vmm_kept s" unfolding s'_def by (rule l(2)) (use e in simp_all)
  show "vmm_tree d root s'"
    unfolding vmm_tree_pages using l(1) e vmm_treeD(3) [OF tree] vmm_kept_simps(5) [OF k] by (simp add: s'_def)
  show "translate (ptabs s') root (j4, j3, j2, j1) =
       (if (j4, j3, j2) = (i4, i3, i2) then (if present e then Some (Huge e) else None)
        else translate (ptabs s) root (j4, j3, j2, j1))" if "vpage_ok (j4, j3, j2, j1)"
    unfolding s'_def by (rule translate_stores_pde [OF vmm_treeD(2) [OF tree] l(3) that]) (use e in simp_all)
qed

definition leaf_entry :: "u64 \<Rightarrow> u64 \<Rightarrow> u64" where
  "leaf_entry phys flags = phys OR (flags AND NOT PTE_PRESENT) OR PTE_PRESENT"

lemma leaf_entry_present [simp]: "present (leaf_entry phys flags)"
  by (simp add: leaf_entry_def present_def bit_or_iff)

definition page_aligned :: "u64 \<Rightarrow> bool" where
  "page_aligned a \<longleftrightarrow> a AND 0xFFF = 0"

text \<open>
  What mapping promises: either the new entry serves exactly \<open>pages\<close>, which were not mapped
  before, or every page is translated as before.
\<close>

definition map_outcome ::
  "nat \<Rightarrow> nat \<Rightarrow> u64 \<Rightarrow> vpage set \<Rightarrow> leaf \<Rightarrow> 'a vmm_state_scheme \<Rightarrow> bool \<Rightarrow> 'a vmm_state_scheme \<Rightarrow> bool" where
  "map_outcome d root virt pages lf s b s' \<longleftrightarrow>
     vmm_tree d root s' \<and> hhdm_offset s' = hhdm_offset s \<and> kernel_pml4_phys s' = kernel_pml4_phys s
     \<and> (if b then invlpgs s' = invlpgs s @ [virt] \<and> (\<forall>v\<in>pages. translate (ptabs s) root v = None)
            \<and> (\<forall>v. vpage_ok v \<longrightarrow>
                 translate (ptabs s') root v = (if v \<in> pages then Some lf else translate (ptabs s) root v))
        else invlpgs s' = invlpgs s \<and> pages_kept root s s')"

abbreviation mapped :: "'a pmm_state_scheme \<Rightarrow> nat \<Rightarrow> u64 \<Rightarrow> bool" where
  "mapped s root virt \<equiv> translate (ptabs s) root (vpage_of virt) \<noteq> None"

definition page_entered :: "u64 \<Rightarrow> u64 \<Rightarrow> u64 \<Rightarrow> 'a vmm_state_scheme \<Rightarrow> (bool \<times> 'a vmm_state_scheme) option" where
  "page_entered pml4 virt e s = do {
     (ok, s) \<leftarrow> create_table (get_pde s pml4 virt) PTE_WRITE s;
     if \<not> ok then Some (False, s) else
     let pte = get_pte s pml4 virt in
     if pte = 0 then Some (False, s)
     else if load_entry s pte AND PTE_PRESENT \<noteq> 0
     then Some (False, serial_log (bytes ''vmm_map: already mapped\<newline>'') s)
     else Some (True, invlpg virt (store_entry pte e s)) }"

lemma vmm_map_directory:
  "vmm_map virt phys flags s =
     (if \<not> (page_aligned virt \<and> page_aligned phys) then Some (False, s)
      else let pml4 = phys_to_virt s (kernel_pml4_phys s) in do {
        (ok, s) \<leftarrow> directory_made pml4 virt s;
        if \<not> ok then Some (False, s) else page_entered pml4 virt (leaf_entry phys flags) s })"
  unfolding vmm_map_def directory_made_def page_entered_def page_aligned_def leaf_entry_def Let_def
  by (cases "create_table (get_pml4e (phys_to_virt s (kernel_pml4_phys s)) virt) 2 s") auto

lemma map_outcome_after:
  assumes "map_outcome d root virt pages lf s b s'" and "pages_kept root r s" and "vmm_kept s = vmm_kept r"
    and "\<And>v. v \<in> pages \<Longrightarrow> vpage_ok v"
  shows "map_outcome d root virt pages lf r b s'"
  using assms by (cases b) (auto simp: map_outcome_def pages_kept_def vmm_kept_def)

lemma map_outcome_step_failed:
  assumes "step_outcome k d root p i s False s'"
  shows "map_outcome d root virt pages lf s False s'" "cost k s False s' False"
  using assms by (simp_all add: map_outcome_def step_outcome_def vmm_kept_def)

lemma map_outcome_refused:
  assumes "vmm_tree d root s"
  shows "map_outcome d root virt pages lf s False s" "map_outcome d root virt pages lf s False (serial_log str s)"
  using assms by (auto simp: map_outcome_def)

lemma cost_busy: "busy \<Longrightarrow> cost k s False t busy"
  by (simp add: cost_def)

lemma page_entered_outcome:
  assumes tree: "vmm_tree d root s" and e: "present e"
    and pd: "table_at (ptabs s) root [unat (PML4_INDEX virt), unat (PDP_INDEX virt)] = Some pd"
  shows "\<exists>b s'. page_entered (pml4_ptr s root) virt e s = Some (b, s') \<and>
     map_outcome d root virt {vpage_of virt} (Small e) s b s' \<and> cost 1 s b s' (mapped s' root virt)"
proof -
  define i4 i3 i2 i1 where ix: "i4 = unat (PML4_INDEX virt)" "i3 = unat (PDP_INDEX virt)"
    "i2 = unat (PD_INDEX virt)" "i1 = unat (PT_INDEX virt)"
  note pd = pd [folded ix]
  have v: "vpage_of virt = (i4, i3, i2, i1)" by (simp add: vpage_of_def ix)
  have vok: "vpage_ok (i4, i3, i2, i1)" using vpage_of_ok [of virt] by (simp add: v)
  note p = vpage_paths [OF vok]
  have pde: "get_pde s (pml4_ptr s root) virt = eaddr s pd i2"
    using get_pde_eaddr [OF tree, of virt] pd by (simp add: ix)
  show ?thesis
  proof (cases "present (ptabs s pd i2) \<and> huge (ptabs s pd i2)")
    case True
    have "eaddr s pd i2 \<noteq> 0" by (rule vmm_tree_table(3) [OF tree p(1) pd p(3)])
    then have "page_entered (pml4_ptr s root) virt e s
        = Some (False, serial_log (bytes ''vmm_map: already mapped\<newline>'') s)"
      using True get_pte_eaddr [OF tree, of virt] pd
      by (simp add: page_entered_def pde create_table_def load_eaddr present_and ix)
    moreover have "mapped s root virt"
      using True pd by (simp add: v translate_table)
    ultimately show ?thesis using map_outcome_refused(2) [OF tree]
      by (intro exI [of _ False] exI [of _ "serial_log (bytes ''vmm_map: already mapped\<newline>'') s"])
        (simp add: cost_busy)
  next
    case False
    then obtain b1 t where c1: "create_table (eaddr s pd i2) PTE_WRITE s = Some (b1, t)"
      and o1: "step_outcome 1 d root [i4, i3] i2 s b1 t"
      using create_table_outcome [OF tree p(1) _ pd p(3)] by auto
    show ?thesis
    proof (cases b1)
      case False
      then show ?thesis using c1 map_outcome_step_failed [of 1 d root "[i4, i3]" i2 s t] o1
        by (intro exI [of _ False] exI [of _ t]) (simp add: page_entered_def pde cost_early)
    next
      case True
      then obtain pt where tree1: "vmm_tree d root t" and pt: "table_at (ptabs t) root [i4, i3, i2] = Some pt"
        and kept: "vmm_kept t = vmm_kept s" "pages_kept root s t" using o1 by (auto simp: step_outcome_def)
      note walk = get_pte_small [OF tree1, of virt, folded ix, OF pt]
      have pte: "get_pte t (pml4_ptr s root) virt = eaddr t pt i1" using walk(1) pml4_ptr_kept [OF kept(1)] by simp
      have nz: "eaddr t pt i1 \<noteq> 0" by (rule vmm_tree_table(3) [OF tree1 p(2) pt p(4)])
      have "\<exists>b s'. page_entered (pml4_ptr s root) virt e s = Some (b, s')
          \<and> map_outcome d root virt {vpage_of virt} (Small e) t b s' \<and> cost 0 t b s' (mapped s' root virt)"
      proof (cases "present (ptabs t pt i1)")
        case True
        then have "page_entered (pml4_ptr s root) virt e s
            = Some (False, serial_log (bytes ''vmm_map: already mapped\<newline>'') t)"
          using c1 \<open>b1\<close> pte nz by (simp add: page_entered_def pde load_eaddr present_and)
        moreover have "mapped t root virt" using True walk(2) by simp
        ultimately show ?thesis using map_outcome_refused(2) [OF tree1]
          by (intro exI [of _ False] exI [of _ "serial_log (bytes ''vmm_map: already mapped\<newline>'') t"])
            (simp add: cost_busy)
      next
        case False
        note st = store_pte [OF tree1 vok pt, where e = e]
        have "page_entered (pml4_ptr s root) virt e s = Some (True, invlpg virt (put_entry pt i1 e t))"
          using c1 \<open>b1\<close> pte nz False by (simp add: page_entered_def pde load_eaddr present_and put_entry_def)
        moreover have "map_outcome d root virt {vpage_of virt} (Small e) t True
            (invlpg virt (put_entry pt i1 e t))"
          using st vmm_kept_simps(1-3) [OF st(2)] False walk(2) e
          by (auto simp: map_outcome_def v invlpg_fields)
        ultimately show ?thesis
          by (intro exI [of _ True] exI [of _ "invlpg virt (put_entry pt i1 e t)"]) (simp add: cost_def)
      qed
      then obtain b s' where "page_entered (pml4_ptr s root) virt e s = Some (b, s')"
        "map_outcome d root virt {vpage_of virt} (Small e) t b s'" "cost 0 t b s' (mapped s' root virt)" by blast
      moreover have "cost 1 s True t False" using o1 \<open>b1\<close> by (simp add: step_outcome_def)
      ultimately show ?thesis
        using map_outcome_after [OF _ kept(2,1), of d virt "{vpage_of virt}"] cost_trans [of 1 s t 0 b s']
        by (intro exI [of _ b] exI [of _ s']) simp
    qed
  qed
qed

lemma kernel_ptr: "kernel_pml4_phys s = of_nat (root * 4096) \<Longrightarrow> phys_to_virt s (kernel_pml4_phys s) = pml4_ptr s root"
  by (simp add: phys_to_virt_def pml4_ptr_def)

lemma vmm_map_outcome:
  assumes tree: "vmm_tree d root s" and root: "kernel_pml4_phys s = of_nat (root * 4096)"
    and aligned: "page_aligned virt" "page_aligned phys"
  shows "\<exists>b s'. vmm_map virt phys flags s = Some (b, s')
     \<and> map_outcome d root virt {vpage_of virt} (Small (leaf_entry phys flags)) s b s'
     \<and> cost 3 s b s' (mapped s' root virt)"
proof -
  obtain b1 t where c1: "directory_made (pml4_ptr s root) virt s = Some (b1, t)"
    and o1: "step_outcome 2 d root [unat (PML4_INDEX virt)] (unat (PDP_INDEX virt)) s b1 t"
    using directory_made_outcome [OF tree, of virt] by blast
  show ?thesis
  proof (cases b1)
    case False
    then show ?thesis
      using aligned c1 map_outcome_step_failed [of 2 d root "[unat (PML4_INDEX virt)]" _ s t] o1
      by (intro exI [of _ False] exI [of _ t]) (auto simp: vmm_map_directory kernel_ptr [OF root] intro: cost_early [of 2])
  next
    case True
    then obtain pd where tree1: "vmm_tree d root t"
      and pd: "table_at (ptabs t) root [unat (PML4_INDEX virt), unat (PDP_INDEX virt)] = Some pd"
      and kept: "vmm_kept t = vmm_kept s" "pages_kept root s t" using o1 by (auto simp: step_outcome_def)
    obtain b s' where "page_entered (pml4_ptr t root) virt (leaf_entry phys flags) t = Some (b, s')"
      "map_outcome d root virt {vpage_of virt} (Small (leaf_entry phys flags)) t b s'"
      "cost 1 t b s' (mapped s' root virt)"
      using page_entered_outcome [OF tree1 leaf_entry_present pd] by blast
    moreover have "cost 2 s True t False" using o1 True by (simp add: step_outcome_def)
    ultimately show ?thesis
      using aligned c1 True map_outcome_after [OF _ kept(2,1), of d virt "{vpage_of virt}"]
        cost_trans [of 2 s t 1 b s']
      by (intro exI [of _ b] exI [of _ s'])
        (simp add: vmm_map_directory kernel_ptr [OF root] pml4_ptr_kept [OF kept(1)])
  qed
qed

definition huge_entry :: "u64 \<Rightarrow> u64 \<Rightarrow> u64" where
  "huge_entry phys flags = phys OR (flags AND NOT (PTE_PRESENT OR PTE_HUGE)) OR PTE_PRESENT OR PTE_HUGE"

lemma huge_entry_bits [simp]: "present (huge_entry phys flags)" "huge (huge_entry phys flags)"
  by (simp_all add: huge_entry_def present_def huge_def bit_or_iff bit_numeral_rec)

text \<open>The pages of the 2 MiB region around \<open>virt\<close>.\<close>

definition huge_pages :: "u64 \<Rightarrow> vpage set" where
  "huge_pages virt =
     {(unat (PML4_INDEX virt), unat (PDP_INDEX virt), unat (PD_INDEX virt), i) | i. i < 512}"

lemma huge_pages_ok: "v \<in> huge_pages virt \<Longrightarrow> vpage_ok v"
  using vpage_of_ok [of virt] by (auto simp: huge_pages_def vpage_of_def vpage_ok_def)

lemma vpage_in_huge_pages [simp]: "vpage_of virt \<in> huge_pages virt"
  by (simp add: huge_pages_def vpage_of_def)

definition huge_aligned :: "u64 \<Rightarrow> bool" where
  "huge_aligned a \<longleftrightarrow> a AND (HUGE_2MB - 1) = 0"

text \<open>The entry of the page directory is taken, by a 2 MiB page or by a page table.\<close>

definition region_taken :: "'a pmm_state_scheme \<Rightarrow> nat \<Rightarrow> u64 \<Rightarrow> bool" where
  "region_taken s root virt \<longleftrightarrow>
     (case table_at (ptabs s) root [unat (PML4_INDEX virt), unat (PDP_INDEX virt)] of
        None \<Rightarrow> False | Some pd \<Rightarrow> present (ptabs s pd (unat (PD_INDEX virt))))"

lemma region_taken_log [simp]: "region_taken (serial_log str s) root virt = region_taken s root virt"
  by (auto simp: region_taken_def split: option.splits)

lemma region_free_unmapped:
  assumes "\<not> region_taken s root virt" and "v \<in> huge_pages virt"
  shows "translate (ptabs s) root v = None"
  using assms by (auto simp: region_taken_def huge_pages_def translate_def split: option.splits)

lemma store_huge:
  assumes tree: "vmm_tree d root s"
    and pd: "table_at (ptabs s) root [unat (PML4_INDEX virt), unat (PDP_INDEX virt)] = Some n"
    and e: "\<not> present e \<or> huge e"
  defines "s' \<equiv> put_entry n (unat (PD_INDEX virt)) e s"
  shows "vmm_tree d root s'" "vmm_kept s' = vmm_kept s"
    "vpage_ok v \<Longrightarrow> translate (ptabs s') root v =
       (if v \<in> huge_pages virt then (if present e then Some (Huge e) else None) else translate (ptabs s) root v)"
proof -
  have vok: "vpage_ok (unat (PML4_INDEX virt), unat (PDP_INDEX virt), unat (PD_INDEX virt), unat (PT_INDEX virt))"
    using vpage_of_ok [of virt] by (simp add: vpage_of_def)
  note st = store_pde [OF tree vok pd e, folded s'_def]
  show "vmm_tree d root s'" "vmm_kept s' = vmm_kept s" by (rule st)+
  assume v: "vpage_ok v"
  obtain j4 j3 j2 j1 where veq: "v = (j4, j3, j2, j1)" by (cases v)
  have "j1 < 512" using v by (simp add: veq vpage_ok_def)
  then show "translate (ptabs s') root v =
       (if v \<in> huge_pages virt then (if present e then Some (Huge e) else None) else translate (ptabs s) root v)"
    using st(3) [of j4 j3 j2 j1] v by (auto simp: veq huge_pages_def)
qed

lemma vmm_map_huge_directory:
  "vmm_map_huge_2mb virt phys flags s =
     (if \<not> (huge_aligned virt \<and> huge_aligned phys) then Some (False, s)
      else let pml4 = phys_to_virt s (kernel_pml4_phys s) in do {
        (ok, s) \<leftarrow> directory_made pml4 virt s;
        if \<not> ok then Some (False, s) else
        let pde = get_pde s pml4 virt in
        if pde = 0 then Some (False, s)
        else if load_entry s pde AND PTE_PRESENT \<noteq> 0
        then Some (False, serial_log (bytes ''vmm_map_huge_2mb: already mapped\<newline>'') s)
        else Some (True, invlpg virt (store_entry pde (huge_entry phys flags) s)) })"
  unfolding vmm_map_huge_2mb_def directory_made_def huge_aligned_def huge_entry_def Let_def
  by (cases "create_table (get_pml4e (phys_to_virt s (kernel_pml4_phys s)) virt) 2 s") auto

lemma vmm_map_huge_outcome:
  assumes tree: "vmm_tree d root s" and root: "kernel_pml4_phys s = of_nat (root * 4096)"
    and aligned: "huge_aligned virt" "huge_aligned phys"
  shows "\<exists>b s'. vmm_map_huge_2mb virt phys flags s = Some (b, s')
     \<and> map_outcome d root virt (huge_pages virt) (Huge (huge_entry phys flags)) s b s'
     \<and> cost 2 s b s' (region_taken s' root virt)"
proof -
  let ?pd = "[unat (PML4_INDEX virt), unat (PDP_INDEX virt)]" and ?i2 = "unat (PD_INDEX virt)"
  obtain b1 t where c1: "directory_made (pml4_ptr s root) virt s = Some (b1, t)"
    and o1: "step_outcome 2 d root [unat (PML4_INDEX virt)] (unat (PDP_INDEX virt)) s b1 t"
    using directory_made_outcome [OF tree, of virt] by blast
  show ?thesis
  proof (cases b1)
    case False
    then show ?thesis
      using aligned c1 map_outcome_step_failed [of 2 d root "[unat (PML4_INDEX virt)]" _ s t] o1
      by (intro exI [of _ False] exI [of _ t]) (auto simp: vmm_map_huge_directory kernel_ptr [OF root] intro: cost_early [of 2])
  next
    case True
    then obtain pd where tree1: "vmm_tree d root t" and pd: "table_at (ptabs t) root ?pd = Some pd"
      and kept: "vmm_kept t = vmm_kept s" "pages_kept root s t" using o1 by (auto simp: step_outcome_def)
    have pde: "get_pde t (pml4_ptr s root) virt = eaddr t pd ?i2"
      using get_pde_eaddr [OF tree1, of virt] pd pml4_ptr_kept [OF kept(1)] by simp
    have nz: "eaddr t pd ?i2 \<noteq> 0" by (rule vmm_tree_table(3) [OF tree1 _ pd]) (simp_all add: path_def)
    have "\<exists>b s'. vmm_map_huge_2mb virt phys flags s = Some (b, s')
      \<and> map_outcome d root virt (huge_pages virt) (Huge (huge_entry phys flags)) t b s'
      \<and> cost 0 t b s' (region_taken s' root virt)"
    proof (cases "present (ptabs t pd ?i2)")
      case True
      then have taken: "region_taken t root virt" using pd by (simp add: region_taken_def)
      show ?thesis
        using aligned c1 \<open>b1\<close> pde nz True taken map_outcome_refused(2) [OF tree1]
        by (intro exI [of _ False] exI [of _ "serial_log (bytes ''vmm_map_huge_2mb: already mapped\<newline>'') t"])
          (simp add: vmm_map_huge_directory kernel_ptr [OF root] load_eaddr present_and cost_busy)
    next
      case False
      then have free: "\<not> region_taken t root virt" using pd by (simp add: region_taken_def)
      note st = store_huge [OF tree1 pd, of "huge_entry phys flags"]
      let ?u = "invlpg virt (put_entry pd ?i2 (huge_entry phys flags) t)"
      have "map_outcome d root virt (huge_pages virt) (Huge (huge_entry phys flags)) t True ?u"
        using st vmm_kept_simps(1-3) [OF st(2)] region_free_unmapped [OF free]
        by (simp add: map_outcome_def)
      then show ?thesis
        using aligned c1 \<open>b1\<close> pde nz False
        by (intro exI [of _ True] exI [of _ ?u])
          (simp add: vmm_map_huge_directory kernel_ptr [OF root] load_eaddr present_and cost_def flip: put_entry_def)
    qed
    then obtain b s' where "vmm_map_huge_2mb virt phys flags s = Some (b, s')"
      "map_outcome d root virt (huge_pages virt) (Huge (huge_entry phys flags)) t b s'"
      "cost 0 t b s' (region_taken s' root virt)" by blast
    moreover have "cost 2 s True t False" using o1 True by (simp add: step_outcome_def)
    ultimately show ?thesis
      using map_outcome_after [OF _ kept(2,1) huge_pages_ok] cost_trans [of 2 s t 0 b s']
      by (intro exI [of _ b] exI [of _ s']) simp
  qed
qed

section \<open>Unmapping and queries\<close>

definition unmap_outcome ::
  "nat \<Rightarrow> nat \<Rightarrow> u64 \<Rightarrow> vpage set \<Rightarrow> 'a vmm_state_scheme \<Rightarrow> bool \<Rightarrow> 'a vmm_state_scheme \<Rightarrow> bool" where
  "unmap_outcome d root virt pages s b s' \<longleftrightarrow>
     vmm_tree d root s' \<and> hhdm_offset s' = hhdm_offset s \<and> kernel_pml4_phys s' = kernel_pml4_phys s
     \<and> (if b then invlpgs s' = invlpgs s @ [virt]
            \<and> (\<forall>v. vpage_ok v \<longrightarrow>
                 translate (ptabs s') root v = (if v \<in> pages then None else translate (ptabs s) root v))
        else s' = s)"

text \<open>The pages that share the entry of \<open>virt\<close>.\<close>

definition entry_pages :: "'a pmm_state_scheme \<Rightarrow> nat \<Rightarrow> u64 \<Rightarrow> vpage set" where
  "entry_pages s root virt =
     (case translate (ptabs s) root (vpage_of virt) of
        Some (Huge e) \<Rightarrow> huge_pages virt | _ \<Rightarrow> {vpage_of virt})"

lemma not_present_zero [simp]: "\<not> present 0"
  by (simp add: present_def)

lemma vmm_unmap_outcome:
  fixes virt :: u64
  assumes tree: "vmm_tree d root s" and root: "kernel_pml4_phys s = of_nat (root * 4096)"
  defines "b \<equiv> page_aligned virt \<and> mapped s root virt"
  shows "\<exists>s'. vmm_unmap virt s = (b, s') \<and> unmap_outcome d root virt (entry_pages s root virt) s b s'"
proof (cases b)
  case False
  then have "vmm_unmap virt s = (b, s)"
    using get_pte_translate(1) [OF tree, of virt]
    by (auto simp: vmm_unmap_def b_def page_aligned_def present_and kernel_ptr [OF root] Let_def)
  then show ?thesis using False tree by (simp add: unmap_outcome_def)
next
  case True
  define i4 i3 i2 i1 where ix: "i4 = unat (PML4_INDEX virt)" "i3 = unat (PDP_INDEX virt)"
    "i2 = unat (PD_INDEX virt)" "i1 = unat (PT_INDEX virt)"
  have v: "vpage_of virt = (i4, i3, i2, i1)" by (simp add: vpage_of_def ix)
  have vok: "vpage_ok (i4, i3, i2, i1)" using vpage_of_ok [of virt] by (simp add: v)
  have call: "vmm_unmap virt s = (True, invlpg virt (store_entry (get_pte s (pml4_ptr s root) virt) 0 s))"
    using True get_pte_translate(1) [OF tree, of virt]
    by (auto simp: vmm_unmap_def b_def page_aligned_def present_and kernel_ptr [OF root] Let_def)
  from True obtain pd where pd: "table_at (ptabs s) root [i4, i3] = Some pd"
    by (auto simp: b_def v translate_table split: option.splits)
  show ?thesis
  proof (cases "present (ptabs s pd i2) \<and> huge (ptabs s pd i2)")
    case True
    then have "entry_pages s root virt = huge_pages virt"
      using pd by (simp add: entry_pages_def v translate_table)
    moreover have "get_pte s (pml4_ptr s root) virt = eaddr s pd i2"
      using True pd get_pte_eaddr [OF tree, of virt, folded ix] by simp
    moreover note st = store_huge [OF tree, of virt pd 0, folded ix, OF pd]
    ultimately show ?thesis
      using \<open>b\<close> call vmm_kept_simps(1-3) [OF st(2)]
      by (simp add: unmap_outcome_def put_entry_def)
  next
    case False
    then obtain pt where pt: "table_at (ptabs s) root [i4, i3, i2] = Some pt"
      using \<open>b\<close> pd by (auto simp: b_def v translate_table split: option.splits if_splits)
    then have "entry_pages s root virt = {vpage_of virt}"
      using False pd \<open>b\<close> by (auto simp: b_def entry_pages_def v translate_table split: option.splits if_splits)
    moreover have "get_pte s (pml4_ptr s root) virt = eaddr s pt i1"
      by (rule get_pte_small(1) [OF tree, of virt, folded ix, OF pt])
    moreover note st = store_pte [OF tree vok pt, where e = 0]
    ultimately show ?thesis
      using \<open>b\<close> call vmm_kept_simps(1-3) [OF st(2)]
      by (simp add: unmap_outcome_def put_entry_def v)
  qed
qed

lemma vmm_unmap_huge_outcome:
  fixes virt :: u64
  assumes tree: "vmm_tree d root s" and root: "kernel_pml4_phys s = of_nat (root * 4096)"
  defines "b \<equiv> huge_aligned virt \<and> region_taken s root virt"
  shows "\<exists>s'. vmm_unmap_huge_2mb virt s = (b, s') \<and> unmap_outcome d root virt (huge_pages virt) s b s'"
proof -
  note walk = get_pde_eaddr [OF tree, of virt]
  show ?thesis
  proof (cases b)
    case False
    then have "vmm_unmap_huge_2mb virt s = (b, s)"
      using walk by (auto simp: vmm_unmap_huge_2mb_def b_def huge_aligned_def region_taken_def present_and
          kernel_ptr [OF root] Let_def load_eaddr split: option.splits)
    then show ?thesis using False tree by (simp add: unmap_outcome_def)
  next
    case True
    then obtain pd where pd: "table_at (ptabs s) root [unat (PML4_INDEX virt), unat (PDP_INDEX virt)] = Some pd"
      and pres: "present (ptabs s pd (unat (PD_INDEX virt)))"
      by (auto simp: b_def region_taken_def split: option.splits)
    have nz: "eaddr s pd (unat (PD_INDEX virt)) \<noteq> 0"
      by (rule vmm_tree_table(3) [OF tree _ pd]) (simp_all add: path_def)
    note st = store_huge [OF tree pd, of 0]
    show ?thesis
      using True walk pd pres nz st vmm_kept_simps(1-3) [OF st(2)]
      by (simp add: vmm_unmap_huge_2mb_def b_def huge_aligned_def present_and kernel_ptr [OF root]
          load_eaddr unmap_outcome_def put_entry_def)
  qed
qed

text \<open>
  What the queries compute from an entry.  They look at bit 7, which in a page table entry is not
  the size bit, and keep the bits above the address.
\<close>

definition entry_physical :: "u64 \<Rightarrow> u64 \<Rightarrow> u64" where
  "entry_physical e virt =
     (if huge e then (e AND NOT 0x1FFFFF) + (virt AND 0x1FFFFF) else (e AND NOT 0xFFF) + (virt AND 0xFFF))"

primrec leaf_bits :: "leaf \<Rightarrow> u64" where
  "leaf_bits (Small e) = e"
| "leaf_bits (Huge e) = e"

lemma vmm_get_physical_translate:
  assumes tree: "vmm_tree d root s" and root: "kernel_pml4_phys s = of_nat (root * 4096)"
  shows "vmm_get_physical s virt =
     (case translate (ptabs s) root (vpage_of virt) of None \<Rightarrow> 0
      | Some l \<Rightarrow> entry_physical (leaf_bits l) virt)"
proof (cases "translate (ptabs s) root (vpage_of virt)")
  case None
  then show ?thesis
    using get_pte_translate(1) [OF tree, of virt]
    by (auto simp: vmm_get_physical_def kernel_ptr [OF root] present_and Let_def)
next
  case (Some l)
  then have "load_entry s (get_pte s (pml4_ptr s root) virt) = leaf_bits l"
    using get_pte_translate(2,3) [OF tree, of virt] by (cases l) auto
  moreover have "get_pte s (pml4_ptr s root) virt \<noteq> 0" "present (leaf_bits l)"
    using get_pte_translate(1) [OF tree, of virt] Some calculation by auto
  ultimately show ?thesis
    using Some by (simp add: vmm_get_physical_def kernel_ptr [OF root] present_and huge_and Let_def entry_physical_def)
qed

lemma vmm_get_flags_translate:
  assumes tree: "vmm_tree d root s" and root: "kernel_pml4_phys s = of_nat (root * 4096)"
    and "translate (ptabs s) root (vpage_of virt) = Some l"
  shows "vmm_get_flags s virt = leaf_bits l AND 0xFFF"
proof -
  have "load_entry s (get_pte s (pml4_ptr s root) virt) = leaf_bits l"
    using assms(3) get_pte_translate(2,3) [OF tree, of virt] by (cases l) auto
  moreover have "get_pte s (pml4_ptr s root) virt \<noteq> 0"
    using get_pte_translate(1) [OF tree, of virt] assms(3) by auto
  ultimately show ?thesis by (simp add: vmm_get_flags_def kernel_ptr [OF root] Let_def)
qed

end
