(* ===== verification/Vmm_Space.thy ===== *)
theory Vmm_Space
  imports Vmm_Map
begin

text \<open>
  \<open>vmm_map_for_pml4\<close> of \<open>vmm.c\<close>, which maps a page in the address space of a task: the walk
  allocates the tables that are missing, level by level.
\<close>

section \<open>Mapping in another address space\<close>

definition user_entry :: "u64 \<Rightarrow> u64 \<Rightarrow> u64" where
  "user_entry phys flags = leaf_entry phys flags AND NOT (push_bit 63 1)"

lemma user_entry_bits [simp]: "present (user_entry phys flags)" "\<not> bit (user_entry phys flags) 63"
proof -
  have "bit (user_entry phys flags) 0 = bit (leaf_entry phys flags) 0"
    unfolding user_entry_def bit_and_iff bit_not_iff bit_push_bit_iff by simp
  then show "present (user_entry phys flags)"
    using leaf_entry_present [of phys flags] by (simp add: present_def)
  show "\<not> bit (user_entry phys flags) 63"
    unfolding user_entry_def bit_and_iff bit_not_iff bit_push_bit_iff by simp
qed

lemma ensure_user_table_ensure:
  assumes tree: "vmm_tree d root s"
  shows "ensure_user_table (eaddr s n i) s = vmm_pages.ensure n i (PTE_PRESENT OR PTE_WRITE OR PTE_USER) s"
proof -
  obtain q t where q: "pmm_alloc_zeroed s = Some (q, t)" and e: "eaddr t = eaddr s"
    using alloc_eaddr [OF vmm_treeD(1) [OF tree]] by blast
  show ?thesis
  proof (cases "present (ptabs s n i)")
    case True
    then show ?thesis by (simp add: ensure_user_table_def load_eaddr present_and vmm_pages.ensure_def)
  next
    case False
    then show ?thesis
      using q e
      by (simp add: ensure_user_table_def load_eaddr present_and vmm_pages.ensure_def put_entry_def or.assoc)
  qed
qed

text \<open>
  One level of the walk of \<open>vmm_map_for_pml4\<close>: make sure that \<open>entry\<close> leads to a table, and take
  the address of entry \<open>ix\<close> of that table.
\<close>

definition user_level ::
  "u64 \<Rightarrow> u64 \<Rightarrow> 'a vmm_state_scheme \<Rightarrow> (u64 option \<times> 'a vmm_state_scheme) option" where
  "user_level entry ix s = do {
     (ok, s) \<leftarrow> ensure_user_table entry s;
     Some (if \<not> ok then None else Some (phys_to_virt s (load_entry s entry AND NOT 0xFFF) + 8 * ix), s) }"

definition level_outcome ::
  "nat \<Rightarrow> nat \<Rightarrow> nat \<Rightarrow> nat list \<Rightarrow> nat \<Rightarrow> 'a vmm_state_scheme \<Rightarrow> u64 option \<Rightarrow> 'a vmm_state_scheme \<Rightarrow> bool" where
  "level_outcome c d root p j s r s' \<longleftrightarrow>
     vmm_tree d root s' \<and> pages_kept root s s' \<and> vmm_kept s' = vmm_kept s
     \<and> cost c s (r \<noteq> None) s' False
     \<and> (case r of None \<Rightarrow> True
        | Some a \<Rightarrow> \<exists>m. table_at (ptabs s') root p = Some m \<and> a = eaddr s' m j)"

lemma level_outcome_trans:
  assumes "level_outcome c d root p j s (Some a) t" and "level_outcome c' d root q k t r u"
  shows "level_outcome (c + c') d root q k s r u"
  using assms pages_kept_trans cost_trans by (auto simp: level_outcome_def)

lemma user_level_outcome:
  assumes tree: "vmm_tree d root s" and p: "path p" "length p \<le> 2" "table_at (ptabs s) root p = Some n"
    and i: "i < 512" and small: "present (ptabs s n i) \<Longrightarrow> \<not> huge (ptabs s n i)"
  shows "\<exists>r s'. user_level (eaddr s n i) ix s = Some (r, s') \<and> level_outcome 1 d root (p @ [i]) (unat ix) s r s'"
proof -
  have "table_flags (PTE_PRESENT OR PTE_WRITE OR PTE_USER)"
    by (simp add: table_flags_def bit_or_iff bit_numeral_rec)
  from ensure_outcome [OF tree p i small this]
  obtain b t where call: "vmm_pages.ensure n i (PTE_PRESENT OR PTE_WRITE OR PTE_USER) s = Some (b, t)"
    and out: "step_outcome 1 d root p i s b t"
    and at: "b \<longrightarrow> table_at (ptabs t) root (p @ [i]) = child (ptabs t) n i" by blast
  show ?thesis
  proof (cases b)
    case False
    then show ?thesis
      using call out ensure_user_table_ensure [OF tree]
      by (intro exI [of _ None] exI [of _ t]) (simp add: user_level_def level_outcome_def step_outcome_def)
  next
    case True
    then obtain m where m: "table_at (ptabs t) root (p @ [i]) = Some m" using out by (auto simp: step_outcome_def)
    then have "m = unat (ptabs t n i) div 4096" using at True by (auto simp: child_def split: if_splits)
    moreover have "eaddr t = eaddr s" using out vmm_kept_simps(6) by (auto simp: step_outcome_def)
    ultimately have "phys_to_virt t (load_entry t (eaddr s n i) AND NOT 0xFFF) + 8 * ix = eaddr t m (unat ix)"
      using next_table_addr load_eaddr [of t] by metis
    then show ?thesis
      using True call out m ensure_user_table_ensure [OF tree]
      by (intro exI [of _ "Some (eaddr t m (unat ix))"] exI [of _ t])
        (simp add: user_level_def level_outcome_def step_outcome_def)
  qed
qed

lemma user_level_upper:
  assumes "vmm_tree d root s" and "path p" "length p \<le> 1" "table_at (ptabs s) root p = Some n" "i < 512"
  shows "\<exists>r s'. user_level (eaddr s n i) ix s = Some (r, s') \<and> level_outcome 1 d root (p @ [i]) (unat ix) s r s'"
  by (rule user_level_outcome [OF assms(1,2) _ assms(4,5) vmm_tree_small [OF assms]]) (use assms(3) in simp)

definition next_level :: "(u64 option \<times> 'a vmm_state_scheme) option \<Rightarrow> u64 \<Rightarrow> (u64 option \<times> 'a vmm_state_scheme) option" where
  "next_level w ix = do { (r, s) \<leftarrow> w; case r of None \<Rightarrow> Some (None, s) | Some entry \<Rightarrow> user_level entry ix s }"

definition user_tables :: "u64 \<Rightarrow> u64 \<Rightarrow> 'a vmm_state_scheme \<Rightarrow> (u64 option \<times> 'a vmm_state_scheme) option" where
  "user_tables pml4 virt s =
     next_level (next_level (user_level (pml4 + 8 * PML4_INDEX virt) (PDP_INDEX virt) s) (PD_INDEX virt)) (PT_INDEX virt)"

lemma vmm_map_for_pml4_tables:
  "vmm_map_for_pml4 pml4 virt phys flags s =
     (if \<not> (page_aligned virt \<and> page_aligned phys) then Some (False, s)
      else do {
        (r, s) \<leftarrow> user_tables pml4 virt s;
        case r of None \<Rightarrow> Some (False, s) | Some pte \<Rightarrow>
          if load_entry s pte AND PTE_PRESENT \<noteq> 0 then Some (False, s)
          else let s = store_entry pte (leaf_entry phys flags) s;
                   s = store_entry pte (load_entry s pte AND NOT (push_bit 63 1)) s
               in Some (True, invlpg virt s) })"
proof (cases "page_aligned virt \<and> page_aligned phys")
  case False
  then show ?thesis by (auto simp: vmm_map_for_pml4_def page_aligned_def)
next
  case True
  then show ?thesis
    unfolding vmm_map_for_pml4_def user_tables_def next_level_def user_level_def page_aligned_def leaf_entry_def Let_def
    by (auto intro!: bind_option_cong split: prod.splits)
qed

lemma next_level_outcome:
  assumes "w = Some (r, t)" and w: "level_outcome c d root p i s r t"
    and p: "path p" "length p \<le> 2" "i < 512"
    and small: "\<And>n. table_at (ptabs t) root p = Some n \<Longrightarrow> present (ptabs t n i) \<Longrightarrow> \<not> huge (ptabs t n i)"
  shows "\<exists>r' u. next_level w ix = Some (r', u) \<and> level_outcome (c + 1) d root (p @ [i]) (unat ix) s r' u"
proof (cases r)
  case None
  then show ?thesis using assms(1) w cost_early [of c s t "c + 1"] by (auto simp: next_level_def level_outcome_def)
next
  case (Some a)
  then obtain n where n: "table_at (ptabs t) root p = Some n" "a = eaddr t n i" and t: "vmm_tree d root t"
    using w by (auto simp: level_outcome_def)
  obtain r' u where "user_level a ix t = Some (r', u)" "level_outcome 1 d root (p @ [i]) (unat ix) t r' u"
    using user_level_outcome [OF t p(1,2) n(1) p(3) small [OF n(1)]] n(2) by blast
  then show ?thesis using Some assms(1) level_outcome_trans [of c d root p i s a t 1] w by (auto simp: next_level_def)
qed

lemma user_tables_outcome:
  assumes tree: "vmm_tree d root s" and small: "\<And>e. translate (ptabs s) root (vpage_of virt) \<noteq> Some (Huge e)"
  shows "\<exists>r s'. user_tables (pml4_ptr s root) virt s = Some (r, s')
     \<and> level_outcome 3 d root [unat (PML4_INDEX virt), unat (PDP_INDEX virt), unat (PD_INDEX virt)] (unat (PT_INDEX virt)) s r s'"
proof -
  define i4 i3 i2 i1 where ix: "i4 = unat (PML4_INDEX virt)" "i3 = unat (PDP_INDEX virt)"
    "i2 = unat (PD_INDEX virt)" "i1 = unat (PT_INDEX virt)"
  have v: "vpage_of virt = (i4, i3, i2, i1)" by (simp add: vpage_of_def ix)
  have p: "path []" "path [i4]" "path [i4, i3]" by (simp_all add: path_def ix)
  note lt = indices_less [of virt, folded ix]
  have e4: "pml4_ptr s root + 8 * PML4_INDEX virt = eaddr s root i4"
    using get_pml4e_eaddr [of s root virt] by (simp add: get_pml4e_def ix)
  obtain r1 s1 where w1: "user_level (eaddr s root i4) (PDP_INDEX virt) s = Some (r1, s1)"
    and o1: "level_outcome 1 d root [i4] i3 s r1 s1"
    using user_level_upper [OF tree p(1) _ table_at_Nil lt(1), of "PDP_INDEX virt"] by (auto simp: ix)
  have t1: "vmm_tree d root s1" using o1 by (simp add: level_outcome_def)
  obtain r2 s2 where w2: "next_level (user_level (eaddr s root i4) (PDP_INDEX virt) s) (PD_INDEX virt) = Some (r2, s2)"
    and o2: "level_outcome 2 d root [i4, i3] i2 s r2 s2"
    using next_level_outcome [OF w1 o1 p(2) _ lt(2) vmm_tree_small [OF t1 p(2) _ _ lt(2)], of "PD_INDEX virt"]
    by (auto simp: ix numeral_2_eq_2)
  have no_huge: "translate (ptabs s2) root (i4, i3, i2, i1) \<noteq> Some (Huge e)" for e
    using o2 small vpage_of_ok [of virt] by (simp add: level_outcome_def pages_kept_def v)
  have "\<not> huge (ptabs s2 n i2)" if "table_at (ptabs s2) root [i4, i3] = Some n" "present (ptabs s2 n i2)" for n
    using that no_huge [of "ptabs s2 n i2"] by (auto simp: translate_table)
  from next_level_outcome [OF w2 o2 p(3) _ lt(3) this, of "PT_INDEX virt"]
  show ?thesis unfolding user_tables_def e4 by (auto simp: ix numeral_3_eq_3)
qed

lemma store_entry_twice:
  "store_entry a (load_entry (store_entry a x s) a AND y) (store_entry a x s) = store_entry a (x AND y) s"
proof -
  have "write64 a (x AND y) (write64 a x m) = write64 a (x AND y) m" for m by (auto simp: write64_def fun_eq_iff)
  then show ?thesis by (simp add: store_entry_def load_entry_def read64_write64_same)
qed

lemma vmm_map_for_pml4_outcome:
  assumes tree: "vmm_tree d root s" and small: "\<And>e. translate (ptabs s) root (vpage_of virt) \<noteq> Some (Huge e)"
    and aligned: "page_aligned virt" "page_aligned phys"
  shows "\<exists>b s'. vmm_map_for_pml4 (pml4_ptr s root) virt phys flags s = Some (b, s')
     \<and> map_outcome d root virt {vpage_of virt} (Small (user_entry phys flags)) s b s'
     \<and> cost 3 s b s' (mapped s' root virt)"
proof -
  define i4 i3 i2 i1 where ix: "i4 = unat (PML4_INDEX virt)" "i3 = unat (PDP_INDEX virt)"
    "i2 = unat (PD_INDEX virt)" "i1 = unat (PT_INDEX virt)"
  have v: "vpage_of virt = (i4, i3, i2, i1)" by (simp add: vpage_of_def ix)
  have vok: "vpage_ok (i4, i3, i2, i1)" using vpage_of_ok [of virt] by (simp add: v)
  obtain r t where c: "user_tables (pml4_ptr s root) virt s = Some (r, t)"
    and o: "level_outcome 3 d root [i4, i3, i2] i1 s r t"
    using user_tables_outcome [OF tree small, folded ix] by blast
  then have t: "vmm_tree d root t" and kept: "pages_kept root s t" "vmm_kept t = vmm_kept s"
    by (simp_all add: level_outcome_def)
  have "\<exists>b s'. vmm_map_for_pml4 (pml4_ptr s root) virt phys flags s = Some (b, s')
     \<and> map_outcome d root virt {vpage_of virt} (Small (user_entry phys flags)) t b s'
     \<and> cost 3 s b s' (mapped s' root virt)"
  proof (cases r)
    case None
    then show ?thesis
      using c o aligned map_outcome_refused(1) [OF t]
      by (intro exI [of _ False] exI [of _ t]) (simp add: vmm_map_for_pml4_tables level_outcome_def cost_early [of 3])
  next
    case (Some a)
    then obtain pt where pt: "table_at (ptabs t) root [i4, i3, i2] = Some pt" and a: "a = eaddr t pt i1"
      using o by (auto simp: level_outcome_def)
    note walk = get_pte_small(2) [OF t, of virt, folded ix, OF pt]
    show ?thesis
    proof (cases "present (ptabs t pt i1)")
      case True
      then show ?thesis
        using Some c a aligned walk map_outcome_refused(1) [OF t]
        by (intro exI [of _ False] exI [of _ t]) (simp add: vmm_map_for_pml4_tables load_eaddr present_and cost_busy)
    next
      case False
      note st = store_pte [OF t vok pt, where e = "user_entry phys flags"]
      let ?u = "invlpg virt (put_entry pt i1 (user_entry phys flags) t)"
      have "vmm_map_for_pml4 (pml4_ptr s root) virt phys flags s = Some (True, ?u)"
        using Some c aligned False
        by (simp add: vmm_map_for_pml4_tables a load_eaddr present_and store_entry_twice user_entry_def put_entry_def)
      moreover have "map_outcome d root virt {vpage_of virt} (Small (user_entry phys flags)) t True ?u"
        using st vmm_kept_simps(1-3) [OF st(2)] False walk by (auto simp: map_outcome_def v)
      moreover have "cost 3 s True ?u busy" for busy using o Some by (simp add: level_outcome_def cost_def)
      ultimately show ?thesis by blast
    qed
  qed
  then show ?thesis using map_outcome_after [OF _ kept, of d virt "{vpage_of virt}"] by fastforce
qed

end
