(* ===== verification/Vmm_View.thy ===== *)
theory Vmm_View
  imports Vmm_Space
begin

text \<open>
  An address space as a map from pages to leaf entries, and the operations of \<open>vmm.c\<close> as updates
  of that map.  The locale \<open>page_mapper\<close> is the contract of an operation that maps one page; the
  range operations are proved once in it, for the kernel's tables (\<open>kernel_mapper\<close>) and for those
  of a task (\<open>task_mapper\<close>).
\<close>

section \<open>Mapping a range of pages\<close>

type_synonym page_map = "vpage \<Rightarrow> leaf option"

definition page_at :: "u64 \<Rightarrow> nat \<Rightarrow> vpage" where
  "page_at virt i = vpage_of (virt + of_nat i * PAGE_SIZE)"

lemma page_aligned_multiple: "page_aligned a \<longleftrightarrow> (\<exists>k. a = k * PAGE_SIZE)"
proof
  have m: "(0xFFF :: u64) = mask 12" by (simp add: mask_eq_exp_minus_1)
  have "a AND NOT 0xFFF = a" if "a AND 0xFFF = 0"
    using that unfolding m by (auto simp: bit_eq_iff bit_simps)
  then show "page_aligned a \<Longrightarrow> \<exists>k. a = k * PAGE_SIZE"
    unfolding page_aligned_def using and_not_4095 [of a] by metis
  have "push_bit 12 k AND 0xFFF = 0" for k :: u64
    unfolding m by (auto simp: bit_eq_iff bit_simps)
  then show "\<exists>k. a = k * PAGE_SIZE \<Longrightarrow> page_aligned a"
    by (auto simp: page_aligned_def push_bit_eq_mult)
qed

lemma page_aligned_add: "page_aligned a \<Longrightarrow> page_aligned (a + k * PAGE_SIZE)"
  unfolding page_aligned_multiple by (metis distrib_right)

definition range_added :: "u64 \<Rightarrow> u64 \<Rightarrow> (u64 \<Rightarrow> u64) \<Rightarrow> nat \<Rightarrow> nat \<Rightarrow> page_map \<Rightarrow> page_map \<Rightarrow> bool" where
  "range_added virt phys entry k j m m' \<longleftrightarrow>
     (\<forall>i. k \<le> i \<and> i < j \<longrightarrow> m (page_at virt i) = None
        \<and> m' (page_at virt i) = Some (Small (entry (phys + of_nat i * PAGE_SIZE))))
     \<and> (\<forall>v. v \<notin> page_at virt ` {k..<j} \<longrightarrow> m' v = m v)"

lemma range_added_refl [simp]: "range_added virt phys entry k k m m"
  by (auto simp: range_added_def)

lemma range_added_Suc:
  assumes "m (page_at virt k) = None" and "k < j"
    and "range_added virt phys entry (Suc k) j
      (m(page_at virt k := Some (Small (entry (phys + of_nat k * PAGE_SIZE))))) m'"
  shows "range_added virt phys entry k j m m'"
proof -
  let ?m = "m(page_at virt k := Some (Small (entry (phys + of_nat k * PAGE_SIZE))))"
  have later: "?m (page_at virt i) = None" "m' (page_at virt i) = Some (Small (entry (phys + of_nat i * PAGE_SIZE)))"
    if "Suc k \<le> i" "i < j" for i using assms(3) that unfolding range_added_def by blast+
  have same: "m' v = ?m v" if "v \<notin> page_at virt ` {Suc k..<j}" for v
    using assms(3) that unfolding range_added_def by blast
  have apart: "page_at virt i \<noteq> page_at virt k" if "Suc k \<le> i" "i < j" for i
    using later(1) [OF that] by (auto split: if_splits)
  have "m (page_at virt i) = None \<and> m' (page_at virt i) = Some (Small (entry (phys + of_nat i * PAGE_SIZE)))"
    if "k \<le> i" "i < j" for i
  proof (cases "i = k")
    case True
    have "page_at virt k \<notin> page_at virt ` {Suc k..<j}" using apart by force
    then show ?thesis using same True assms(1) by simp
  next
    case False
    then show ?thesis using later [of i] apart [of i] that by auto
  qed
  moreover have "m' v = m v" if "v \<notin> page_at virt ` {k..<j}" for v
  proof -
    have "v \<notin> page_at virt ` {Suc k..<j}" "v \<noteq> page_at virt k" using that assms(2) by auto
    then show ?thesis using same [of v] by simp
  qed
  ultimately show ?thesis unfolding range_added_def by blast
qed

locale page_mapper =
  fixes map1 :: "u64 \<Rightarrow> u64 \<Rightarrow> u64 \<Rightarrow> 's \<Rightarrow> (bool \<times> 's) option"
    and inv :: "'s \<Rightarrow> bool"
    and view :: "'s \<Rightarrow> page_map"
    and entry :: "u64 \<Rightarrow> u64 \<Rightarrow> u64"
    and able :: "leaf option \<Rightarrow> bool"
    and room :: "'s \<Rightarrow> nat"
  assumes able_small: "able (Some (Small e))"
    and map1: "inv s \<Longrightarrow> page_aligned virt \<Longrightarrow> page_aligned phys \<Longrightarrow> able (view s (vpage_of virt)) \<Longrightarrow>
      \<exists>b s'. map1 virt phys flags s = Some (b, s') \<and> inv s'
        \<and> (if b then view s (vpage_of virt) = None \<and> room s \<le> 3 + room s'
               \<and> view s' = (view s)(vpage_of virt := Some (Small (entry phys flags)))
           else view s' = view s \<and> (room s < 3 \<or> view s (vpage_of virt) \<noteq> None))"
begin

fun range_loop :: "u64 \<Rightarrow> u64 \<Rightarrow> u64 \<Rightarrow> nat list \<Rightarrow> 's \<Rightarrow> (bool \<times> 's) option" where
  "range_loop virt phys flags [] s = Some (True, s)"
| "range_loop virt phys flags (i # is) s =
     Option.bind (map1 (virt + of_nat i * PAGE_SIZE) (phys + of_nat i * PAGE_SIZE) flags s)
       (\<lambda>(ok, s). if \<not> ok then Some (False, s) else range_loop virt phys flags is s)"

lemma range_loop_outcome:
  assumes "inv s" and aligned: "page_aligned virt" "page_aligned phys"
    and "\<And>i. k \<le> i \<Longrightarrow> i < n \<Longrightarrow> able (view s (page_at virt i))" and "k \<le> n"
  shows "\<exists>b s' j. range_loop virt phys flags [k..<n] s = Some (b, s') \<and> inv s' \<and> k \<le> j \<and> j \<le> n \<and> (b \<longleftrightarrow> j = n)
     \<and> range_added virt phys (\<lambda>p. entry p flags) k j (view s) (view s')
     \<and> (\<not> b \<longrightarrow> room s < 3 * (Suc j - k) \<or> view s' (page_at virt j) \<noteq> None)"
  using assms(1,4,5)
proof (induction "n - k" arbitrary: k s)
  case 0
  then show ?case by (intro exI [of _ True] exI [of _ s] exI [of _ n]) simp
next
  case (Suc l)
  then have "k < n" by simp
  then have loop: "[k..<n] = k # [Suc k..<n]" by (simp add: upt_conv_Cons)
  have "able (view s (vpage_of (virt + of_nat k * PAGE_SIZE)))"
    using Suc.prems(2) [of k] \<open>k < n\<close> by (simp add: page_at_def)
  from map1 [OF Suc.prems(1) page_aligned_add [OF aligned(1)] page_aligned_add [OF aligned(2)] this]
  obtain b t where call: "map1 (virt + of_nat k * PAGE_SIZE) (phys + of_nat k * PAGE_SIZE) flags s = Some (b, t)"
    and t: "inv t" and cases: "if b then view s (page_at virt k) = None \<and> room s \<le> 3 + room t
               \<and> view t = (view s)(page_at virt k := Some (Small (entry (phys + of_nat k * PAGE_SIZE) flags)))
           else view t = view s \<and> (room s < 3 \<or> view s (page_at virt k) \<noteq> None)"
    unfolding page_at_def by blast
  show ?case
  proof (cases b)
    case False
    then show ?thesis
      using call t cases \<open>k < n\<close>
      by (intro exI [of _ False] exI [of _ t] exI [of _ k]) (auto simp: loop)
  next
    case True
    have l: "l = n - Suc k" and le: "Suc k \<le> n" using Suc.hyps(2) \<open>k < n\<close> by simp_all
    have "able (view t (page_at virt i))" if "Suc k \<le> i" "i < n" for i
      using cases True Suc.prems(2) [of i] that able_small by simp
    from Suc.hyps(1) [OF l t this le]
    obtain b' s' j where rest: "range_loop virt phys flags [Suc k..<n] t = Some (b', s')" "inv s'" "Suc k \<le> j" "j \<le> n"
      "b' \<longleftrightarrow> j = n" "range_added virt phys (\<lambda>p. entry p flags) (Suc k) j (view t) (view s')"
      "\<not> b' \<longrightarrow> room t < 3 * (Suc j - Suc k) \<or> view s' (page_at virt j) \<noteq> None"
      by blast
    have "range_added virt phys (\<lambda>p. entry p flags) k j (view s) (view s')"
      using range_added_Suc [of "view s" virt k j phys "\<lambda>p. entry p flags" "view s'"] rest(3,6) cases True by simp
    then show ?thesis
      using call True rest cases
      by (intro exI [of _ b'] exI [of _ s'] exI [of _ j]) (auto simp: loop Suc_diff_le)
  qed
qed

text \<open>Mapping a range takes at most three tables for each page.\<close>

lemma range_loop_room:
  assumes "inv s" and aligned: "page_aligned virt" "page_aligned phys"
    and "\<forall>i\<in>set is. able (view s (page_at virt i))" and "range_loop virt phys flags is s = Some (True, s')"
  shows "room s \<le> 3 * length is + room s'"
  using assms(1,4,5)
proof (induction "is" arbitrary: s)
  case (Cons i "is")
  have "able (view s (vpage_of (virt + of_nat i * PAGE_SIZE)))" using Cons.prems(2) by (simp add: page_at_def)
  from map1 [OF Cons.prems(1) page_aligned_add [OF aligned(1)] page_aligned_add [OF aligned(2)] this]
  obtain b t where call: "map1 (virt + of_nat i * PAGE_SIZE) (phys + of_nat i * PAGE_SIZE) flags s = Some (b, t)"
    and t: "inv t" and cases: "if b then view s (page_at virt i) = None \<and> room s \<le> 3 + room t
               \<and> view t = (view s)(page_at virt i := Some (Small (entry (phys + of_nat i * PAGE_SIZE) flags)))
           else view t = view s \<and> (room s < 3 \<or> view s (page_at virt i) \<noteq> None)"
    unfolding page_at_def by blast
  have b: b using Cons.prems(3) call by (simp split: if_splits)
  then have "room t \<le> 3 * length is + room s'"
    using Cons.IH [OF t] Cons.prems(2,3) call cases able_small by simp
  then show ?case using b cases by simp
qed simp

end

section \<open>The address space of the code\<close>

definition page_view :: "nat \<Rightarrow> 'a pmm_state_scheme \<Rightarrow> page_map" where
  "page_view root s v = (if vpage_ok v then translate (ptabs s) root v else None)"

lemma page_view_of [simp]: "page_view root s (vpage_of virt) = translate (ptabs s) root (vpage_of virt)"
  by (simp add: page_view_def)

lemma pages_kept_view: "pages_kept root s s' \<longleftrightarrow> page_view root s' = page_view root s"
  by (auto simp: pages_kept_def page_view_def fun_eq_iff)

lemma map_outcome_view:
  assumes "map_outcome d root virt pages lf s b s'" and "\<And>v. v \<in> pages \<Longrightarrow> vpage_ok v"
  shows "vmm_tree d root s'"
    "page_view root s' = (if b then (\<lambda>v. if v \<in> pages then Some lf else page_view root s v) else page_view root s)"
    "b \<Longrightarrow> v \<in> pages \<Longrightarrow> page_view root s v = None"
  using assms by (auto simp: map_outcome_def page_view_def pages_kept_def fun_eq_iff split: if_splits)

definition kernel_tree :: "nat \<Rightarrow> nat \<Rightarrow> 'a vmm_state_scheme \<Rightarrow> bool" where
  "kernel_tree d root s \<longleftrightarrow> vmm_tree d root s \<and> kernel_pml4_phys s = of_nat (root * 4096)"

definition task_tree :: "nat \<Rightarrow> nat \<Rightarrow> u64 \<Rightarrow> 'a vmm_state_scheme \<Rightarrow> bool" where
  "task_tree d root pml4 s \<longleftrightarrow> vmm_tree d root s \<and> pml4 = pml4_ptr s root"

definition not_huge :: "leaf option \<Rightarrow> bool" where
  "not_huge l \<longleftrightarrow> (\<forall>e. l \<noteq> Some (Huge e))"

lemma map_one_view:
  assumes "map_outcome d root virt {vpage_of virt} (Small e) s b s'" and "cost 3 s b s' (mapped s' root virt)"
  shows "if b then page_view root s (vpage_of virt) = None \<and> frames_left s \<le> 3 + frames_left s'
          \<and> page_view root s' = (page_view root s)(vpage_of virt := Some (Small e))
      else page_view root s' = page_view root s \<and> (frames_left s < 3 \<or> page_view root s (vpage_of virt) \<noteq> None)"
proof (cases b)
  case True
  then show ?thesis
    using map_outcome_view [OF assms(1)] assms(2) by (auto simp: cost_def fun_eq_iff)
next
  case False
  then have "page_view root s' = page_view root s" using map_outcome_view [OF assms(1)] by simp
  moreover from this have "mapped s' root virt \<longleftrightarrow> mapped s root virt" by (metis page_view_of)
  ultimately show ?thesis using False assms(2) by (simp add: cost_def)
qed

interpretation kernel_mapper: page_mapper vmm_map "kernel_tree d root" "page_view root" leaf_entry "\<lambda>_. True" frames_left
  for d root
proof
  fix s :: "'a vmm_state_scheme" and virt phys flags :: u64
  assume "kernel_tree d root s" and aligned: "page_aligned virt" "page_aligned phys"
  then have tree: "vmm_tree d root s" and root: "kernel_pml4_phys s = of_nat (root * 4096)"
    by (simp_all add: kernel_tree_def)
  obtain b s' where call: "vmm_map virt phys flags s = Some (b, s')"
    and out: "map_outcome d root virt {vpage_of virt} (Small (leaf_entry phys flags)) s b s'"
    and c: "cost 3 s b s' (mapped s' root virt)"
    using vmm_map_outcome [OF tree root aligned] by blast
  have "kernel_tree d root s'" using out root by (simp add: kernel_tree_def map_outcome_def)
  then show "\<exists>b s'. vmm_map virt phys flags s = Some (b, s') \<and> kernel_tree d root s'
      \<and> (if b then page_view root s (vpage_of virt) = None \<and> frames_left s \<le> 3 + frames_left s'
             \<and> page_view root s' = (page_view root s)(vpage_of virt := Some (Small (leaf_entry phys flags)))
         else page_view root s' = page_view root s \<and> (frames_left s < 3 \<or> page_view root s (vpage_of virt) \<noteq> None))"
    using call map_one_view [OF out c] by blast
qed simp

interpretation task_mapper: page_mapper "vmm_map_for_pml4 pml4" "task_tree d root pml4" "page_view root" user_entry not_huge frames_left
  for d root pml4
proof
  fix s :: "'a vmm_state_scheme" and virt phys flags :: u64
  assume "task_tree d root pml4 s" and aligned: "page_aligned virt" "page_aligned phys"
    and "not_huge (page_view root s (vpage_of virt))"
  then have tree: "vmm_tree d root s" and pml4: "pml4 = pml4_ptr s root"
    and small: "\<And>e. translate (ptabs s) root (vpage_of virt) \<noteq> Some (Huge e)"
    by (auto simp: task_tree_def not_huge_def)
  obtain b s' where call: "vmm_map_for_pml4 pml4 virt phys flags s = Some (b, s')"
    and out: "map_outcome d root virt {vpage_of virt} (Small (user_entry phys flags)) s b s'"
    and c: "cost 3 s b s' (mapped s' root virt)"
    using vmm_map_for_pml4_outcome [OF tree small aligned] pml4 by blast
  have "task_tree d root pml4 s'" using out pml4 by (simp add: task_tree_def map_outcome_def pml4_ptr_def)
  then show "\<exists>b s'. vmm_map_for_pml4 pml4 virt phys flags s = Some (b, s') \<and> task_tree d root pml4 s'
      \<and> (if b then page_view root s (vpage_of virt) = None \<and> frames_left s \<le> 3 + frames_left s'
             \<and> page_view root s' = (page_view root s)(vpage_of virt := Some (Small (user_entry phys flags)))
         else page_view root s' = page_view root s \<and> (frames_left s < 3 \<or> page_view root s (vpage_of virt) \<noteq> None))"
    using call map_one_view [OF out c] by blast
qed (simp add: not_huge_def)

lemma vmm_map_range_kernel_mapper: "vmm_map_range_loop virt phys flags is s = kernel_mapper.range_loop virt phys flags is s"
  by (induction "is" arbitrary: s) (auto intro!: bind_option_cong)

lemma vmm_map_range_task_mapper:
  "vmm_map_range_for_pml4_loop pml4 virt phys flags is s = task_mapper.range_loop pml4 virt phys flags is s"
  by (induction "is" arbitrary: s) (auto intro!: bind_option_cong)

section \<open>Unmapping, and sequences of operations\<close>

definition unmap_entry :: "u64 \<Rightarrow> page_map \<Rightarrow> page_map" where
  "unmap_entry virt m =
     (case m (vpage_of virt) of
        Some (Huge e) \<Rightarrow> (\<lambda>v. if v \<in> huge_pages virt then None else m v)
      | _ \<Rightarrow> m(vpage_of virt := None))"

lemma vmm_unmap_view:
  fixes virt :: u64
  assumes "kernel_tree d root s"
  defines "b \<equiv> page_aligned virt \<and> page_view root s (vpage_of virt) \<noteq> None"
  shows "\<exists>s'. vmm_unmap virt s = (b, s') \<and> kernel_tree d root s'
     \<and> page_view root s' = (if b then unmap_entry virt (page_view root s) else page_view root s)"
proof -
  have tree: "vmm_tree d root s" and root: "kernel_pml4_phys s = of_nat (root * 4096)"
    using assms(1) by (simp_all add: kernel_tree_def)
  obtain s' where call: "vmm_unmap virt s = (b, s')"
    and out: "unmap_outcome d root virt (entry_pages s root virt) s b s'"
    using vmm_unmap_outcome [OF tree root, of virt] by (auto simp: b_def)
  have "page_view root s' = unmap_entry virt (page_view root s)" if b
    using out that
    by (auto simp: unmap_outcome_def entry_pages_def unmap_entry_def page_view_def fun_eq_iff
        split: option.splits leaf.splits if_splits dest: huge_pages_ok)
  moreover have "kernel_tree d root s'" using out root by (simp add: unmap_outcome_def kernel_tree_def)
  ultimately show ?thesis using call out by (auto simp: unmap_outcome_def)
qed

lemma vmm_unmap_range_view:
  assumes "kernel_tree d root s" and "page_aligned virt"
    and "\<And>i. i < unat count \<Longrightarrow> not_huge (page_view root s (page_at virt i))"
  shows "\<exists>s'. vmm_unmap_range virt count s = (True, s') \<and> kernel_tree d root s'
     \<and> page_view root s' = (\<lambda>v. if v \<in> page_at virt ` {..<unat count} then None else page_view root s v)"
proof -
  let ?gone = "\<lambda>n v. if v \<in> page_at virt ` {..<n} then None else page_view root s v"
  let ?step = "\<lambda>i s. snd (vmm_unmap (virt + i * PAGE_SIZE) s)"
  have "kernel_tree d root (for_upto count ?step s) \<and> page_view root (for_upto count ?step s) = ?gone (unat count)"
  proof (rule for_upto_invariant [where P = "\<lambda>n t. kernel_tree d root t \<and> page_view root t = ?gone n"])
    fix n t assume n: "n < unat count" and t: "kernel_tree d root t \<and> page_view root t = ?gone n"
    let ?b = "page_view root t (page_at virt n) \<noteq> None" and ?a = "virt + of_nat n * PAGE_SIZE"
    obtain u where u: "vmm_unmap ?a t = (?b, u)" "kernel_tree d root u"
      "page_view root u = (if ?b then unmap_entry ?a (page_view root t) else page_view root t)"
      using vmm_unmap_view [of d root t ?a] conjunct1 [OF t]
      by (simp only: page_aligned_add [OF assms(2)] page_at_def simp_thms) blast
    have "not_huge (page_view root t (page_at virt n))"
      using assms(3) [OF n] t by (simp add: not_huge_def)
    then have "unmap_entry ?a (page_view root t) = (page_view root t)(page_at virt n := None)"
      by (auto simp: unmap_entry_def page_at_def not_huge_def split: option.splits leaf.splits)
    then have "page_view root u = (page_view root t)(page_at virt n := None)" using u(3) by auto
    then show "kernel_tree d root (?step (of_nat n) t) \<and> page_view root (?step (of_nat n) t) = ?gone (Suc n)"
      using u(1,2) t by (auto simp: fun_eq_iff lessThan_Suc)
  qed (use assms(1) in simp)
  then show ?thesis by (simp add: vmm_unmap_range_def)
qed

text \<open>
  The address space as clients see it: \<open>spec_run m obs m'\<close> says that the operations in \<open>obs\<close>, each
  with the result it reported, lead from \<open>m\<close> to \<open>m'\<close>.  An operation that reports failure changes
  nothing; one that reports success was applicable and did what it says.
\<close>

datatype vmm_op =
    Op_Map u64 u64 u64
  | Op_Map_Huge u64 u64 u64
  | Op_Unmap u64
  | Op_Unmap_Huge u64

fun vmm_apply :: "vmm_op \<Rightarrow> 'a vmm_state_scheme \<Rightarrow> (bool \<times> 'a vmm_state_scheme) option" where
  "vmm_apply (Op_Map virt phys flags) s = vmm_map virt phys flags s"
| "vmm_apply (Op_Map_Huge virt phys flags) s = vmm_map_huge_2mb virt phys flags s"
| "vmm_apply (Op_Unmap virt) s = Some (vmm_unmap virt s)"
| "vmm_apply (Op_Unmap_Huge virt) s = Some (vmm_unmap_huge_2mb virt s)"

fun spec_pre :: "vmm_op \<Rightarrow> page_map \<Rightarrow> bool" where
  "spec_pre (Op_Map virt phys flags) m \<longleftrightarrow> page_aligned virt \<and> page_aligned phys \<and> m (vpage_of virt) = None"
| "spec_pre (Op_Map_Huge virt phys flags) m \<longleftrightarrow>
     huge_aligned virt \<and> huge_aligned phys \<and> (\<forall>v\<in>huge_pages virt. m v = None)"
| "spec_pre (Op_Unmap virt) m \<longleftrightarrow> page_aligned virt \<and> m (vpage_of virt) \<noteq> None"
| "spec_pre (Op_Unmap_Huge virt) m \<longleftrightarrow> huge_aligned virt"

fun spec_apply :: "vmm_op \<Rightarrow> page_map \<Rightarrow> page_map" where
  "spec_apply (Op_Map virt phys flags) m = m(vpage_of virt := Some (Small (leaf_entry phys flags)))"
| "spec_apply (Op_Map_Huge virt phys flags) m =
     (\<lambda>v. if v \<in> huge_pages virt then Some (Huge (huge_entry phys flags)) else m v)"
| "spec_apply (Op_Unmap virt) m = unmap_entry virt m"
| "spec_apply (Op_Unmap_Huge virt) m = (\<lambda>v. if v \<in> huge_pages virt then None else m v)"

inductive spec_run :: "page_map \<Rightarrow> (vmm_op \<times> bool) list \<Rightarrow> page_map \<Rightarrow> bool" where
  spec_done: "spec_run m [] m"
| spec_refused: "spec_run m obs m' \<Longrightarrow> spec_run m ((op, False) # obs) m'"
| spec_effect: "spec_pre op m \<Longrightarrow> spec_run (spec_apply op m) obs m' \<Longrightarrow> spec_run m ((op, True) # obs) m'"

fun vmm_run :: "vmm_op list \<Rightarrow> 'a vmm_state_scheme \<Rightarrow> (bool list \<times> 'a vmm_state_scheme) option" where
  "vmm_run [] s = Some ([], s)"
| "vmm_run (op # ops) s = do {
     (b, s) \<leftarrow> vmm_apply op s;
     (bs, s) \<leftarrow> vmm_run ops s;
     Some (b # bs, s) }"

lemma vmm_map_huge_view:
  assumes "kernel_tree d root s"
  shows "\<exists>b s'. vmm_map_huge_2mb virt phys flags s = Some (b, s') \<and> kernel_tree d root s'
     \<and> page_view root s' = (if b then spec_apply (Op_Map_Huge virt phys flags) (page_view root s) else page_view root s)
     \<and> (b \<longrightarrow> spec_pre (Op_Map_Huge virt phys flags) (page_view root s))"
proof (cases "huge_aligned virt \<and> huge_aligned phys")
  case False
  then show ?thesis using assms
    by (intro exI [of _ False] exI [of _ s]) (auto simp: vmm_map_huge_directory)
next
  case True
  have tree: "vmm_tree d root s" and root: "kernel_pml4_phys s = of_nat (root * 4096)"
    using assms by (simp_all add: kernel_tree_def)
  obtain b s' where call: "vmm_map_huge_2mb virt phys flags s = Some (b, s')"
    and out: "map_outcome d root virt (huge_pages virt) (Huge (huge_entry phys flags)) s b s'"
    using vmm_map_huge_outcome [OF tree root] True by blast
  have "kernel_tree d root s'" using out root by (simp add: kernel_tree_def map_outcome_def)
  then show ?thesis using call True map_outcome_view [OF out huge_pages_ok] by auto
qed

lemma vmm_unmap_huge_view:
  assumes "kernel_tree d root s"
  shows "\<exists>b s'. vmm_unmap_huge_2mb virt s = (b, s') \<and> kernel_tree d root s'
     \<and> page_view root s' = (if b then spec_apply (Op_Unmap_Huge virt) (page_view root s) else page_view root s)
     \<and> (b \<longrightarrow> huge_aligned virt)"
proof -
  have tree: "vmm_tree d root s" and root: "kernel_pml4_phys s = of_nat (root * 4096)"
    using assms by (simp_all add: kernel_tree_def)
  obtain b s' where call: "vmm_unmap_huge_2mb virt s = (b, s')" "b \<longrightarrow> huge_aligned virt"
    and out: "unmap_outcome d root virt (huge_pages virt) s b s'"
    using vmm_unmap_huge_outcome [OF tree root, of virt] by blast
  have "kernel_tree d root s'" using out root by (simp add: kernel_tree_def unmap_outcome_def)
  then show ?thesis using call out
    by (auto simp: unmap_outcome_def page_view_def fun_eq_iff split: if_splits dest: huge_pages_ok)
qed

lemma vmm_apply_spec:
  assumes "kernel_tree d root s"
  shows "\<exists>b s'. vmm_apply op s = Some (b, s') \<and> kernel_tree d root s'
     \<and> page_view root s' = (if b then spec_apply op (page_view root s) else page_view root s)
     \<and> (b \<longrightarrow> spec_pre op (page_view root s))"
proof (cases op)
  case (Op_Map virt phys flags)
  show ?thesis
  proof (cases "page_aligned virt \<and> page_aligned phys")
    case False
    then show ?thesis using Op_Map assms
      by (intro exI [of _ False] exI [of _ s]) (auto simp: vmm_map_directory)
  next
    case True
    then show ?thesis
      using kernel_mapper.map1 [OF assms, of virt phys flags] Op_Map by (fastforce split: if_splits)
  qed
next
  case (Op_Map_Huge virt phys flags)
  show ?thesis unfolding Op_Map_Huge vmm_apply.simps by (rule vmm_map_huge_view [OF assms])
next
  case (Op_Unmap virt)
  then show ?thesis using vmm_unmap_view [OF assms, of virt] by auto
next
  case (Op_Unmap_Huge virt)
  then show ?thesis using vmm_unmap_huge_view [OF assms, of virt] by auto
qed

lemma vmm_run_spec:
  "kernel_tree d root s \<Longrightarrow>
     \<exists>bs s'. vmm_run ops s = Some (bs, s') \<and> length bs = length ops \<and> kernel_tree d root s'
       \<and> spec_run (page_view root s) (zip ops bs) (page_view root s')"
proof (induction ops arbitrary: s)
  case Nil
  then show ?case by (simp add: spec_done)
next
  case (Cons op ops)
  obtain b t where b: "vmm_apply op s = Some (b, t)" "kernel_tree d root t"
    "page_view root t = (if b then spec_apply op (page_view root s) else page_view root s)"
    "b \<longrightarrow> spec_pre op (page_view root s)"
    using vmm_apply_spec [OF Cons.prems] by blast
  obtain bs s' where bs: "vmm_run ops t = Some (bs, s')" "length bs = length ops" "kernel_tree d root s'"
    "spec_run (page_view root t) (zip ops bs) (page_view root s')"
    using Cons.IH [OF b(2)] by blast
  have "spec_run (page_view root s) ((op, b) # zip ops bs) (page_view root s')"
    using b bs by (cases b) (auto intro: spec_refused spec_effect)
  then show ?case using b(1) bs by (intro exI [of _ "b # bs"] exI [of _ s']) simp
qed

section \<open>Queries\<close>

lemma low_bits: "(x :: u64) AND 0xFFF = take_bit 12 x"
  by (simp add: take_bit_eq_mask mask_eq_exp_minus_1)

lemma aligned_low_bit: "page_aligned a \<Longrightarrow> n < 12 \<Longrightarrow> \<not> bit a n"
  unfolding page_aligned_def low_bits by (auto simp: bit_eq_iff bit_simps)

lemma aligned_plus_offset:
  assumes "page_aligned virt" and "off < 4096"
  shows "virt + off = virt OR off" "drop_bit 12 (virt + off) = drop_bit 12 virt" "(virt + off) AND 0xFFF = off"
proof -
  have "off = take_bit 12 off"
  proof -
    have "unat off < 2 ^ 12" using assms(2) by (simp add: word_less_unat)
    then have "take_bit 12 (unat off) = unat off" by (simp add: take_bit_nat_eq_self)
    then show ?thesis by (metis unsigned_take_bit_eq word_unat_eq_iff)
  qed
  then have off: "\<not> bit off n" if "12 \<le> n" for n
    using that by (metis bit_take_bit_iff linorder_not_less)
  have "virt AND off = 0"
    using aligned_low_bit [OF assms(1)] off by (auto simp: bit_eq_iff bit_simps) (metis linorder_not_less)
  then show or: "virt + off = virt OR off" by (simp add: disjunctive_add_eq_or)
  show "drop_bit 12 (virt + off) = drop_bit 12 virt" unfolding or using off by (auto simp: bit_eq_iff bit_simps)
  show "(virt + off) AND 0xFFF = off" unfolding or low_bits
    using off aligned_low_bit [OF assms(1)] by (auto simp: bit_eq_iff bit_simps)
qed

lemma vpage_of_drop: "drop_bit 12 a = drop_bit 12 b \<Longrightarrow> vpage_of a = vpage_of b"
proof -
  assume eq: "drop_bit 12 a = drop_bit 12 b"
  have "drop_bit (12 + k) a = drop_bit (12 + k) b" for k
    using arg_cong [OF eq, of "drop_bit k"] by (simp add: ac_simps)
  from this [of 27] this [of 18] this [of 9] eq show ?thesis
    by (simp add: vpage_of_def PML4_INDEX_def PDP_INDEX_def PD_INDEX_def PT_INDEX_def)
qed

lemma leaf_entry_parts:
  assumes "page_aligned phys"
  shows "leaf_entry phys flags AND NOT 0xFFF = phys OR (flags AND NOT 0xFFF)"
    "leaf_entry phys flags AND 0xFFF = (flags AND 0xFFF) OR 1"
    "huge (leaf_entry phys flags) \<longleftrightarrow> bit flags 7"
proof -
  have m: "(0xFFF :: u64) = mask 12" by (simp add: mask_eq_exp_minus_1)
  show "leaf_entry phys flags AND NOT 0xFFF = phys OR (flags AND NOT 0xFFF)"
    using aligned_low_bit [OF assms] unfolding leaf_entry_def m
    by (intro bit_word_eqI)
      (auto simp: bit_or_iff bit_and_iff bit_not_iff bit_mask_iff bit_1_iff not_less intro: leI)
  show "leaf_entry phys flags AND 0xFFF = (flags AND 0xFFF) OR 1"
    using aligned_low_bit [OF assms] unfolding leaf_entry_def m
    by (intro bit_word_eqI)
      (auto simp: bit_or_iff bit_and_iff bit_not_iff bit_mask_iff bit_1_iff not_less)
  show "huge (leaf_entry phys flags) \<longleftrightarrow> bit flags 7"
    using aligned_low_bit [OF assms, of 7] unfolding leaf_entry_def huge_def
    by (auto simp: bit_or_iff bit_and_iff bit_not_iff bit_1_iff)
qed

lemma vmm_map_query:
  assumes tree: "kernel_tree d root s" and map: "vmm_map virt phys flags s = Some (True, s')"
    and off: "off < 4096" and "\<not> bit flags 7"
  shows "vmm_get_physical s' (virt + off) = (phys OR (flags AND NOT 0xFFF)) + off"
    "vmm_get_flags s' (virt + off) = (flags AND 0xFFF) OR 1"
proof -
  have al: "page_aligned virt" "page_aligned phys"
    using map by (auto simp: vmm_map_directory split: if_splits)
  have view: "page_view root s' (vpage_of virt) = Some (Small (leaf_entry phys flags))" and tree': "kernel_tree d root s'"
    using kernel_mapper.map1 [OF tree al TrueI, of flags] map by (auto simp del: page_view_of)
  have v: "vpage_of (virt + off) = vpage_of virt"
    by (rule vpage_of_drop) (rule aligned_plus_offset(2) [OF al(1) off])
  have tr: "translate (ptabs s') root (vpage_of (virt + off)) = Some (Small (leaf_entry phys flags))"
    using view by (simp add: v)
  have t: "vmm_tree d root s'" "kernel_pml4_phys s' = of_nat (root * 4096)"
    using tree' by (simp_all add: kernel_tree_def)
  have ph: "vmm_get_physical s' (virt + off) = entry_physical (leaf_entry phys flags) (virt + off)"
    using vmm_get_physical_translate [OF t, of "virt + off"] tr by simp
  show "vmm_get_physical s' (virt + off) = (phys OR (flags AND NOT 0xFFF)) + off"
    unfolding ph entry_physical_def leaf_entry_parts [OF al(2)] aligned_plus_offset(3) [OF al(1) off]
    using assms(4) by simp
  have fl: "vmm_get_flags s' (virt + off) = leaf_entry phys flags AND 0xFFF"
    using vmm_get_flags_translate [OF t, of "virt + off"] tr by simp
  show "vmm_get_flags s' (virt + off) = (flags AND 0xFFF) OR 1"
    unfolding fl leaf_entry_parts [OF al(2)] ..
qed

end
