(* ===== verification/Pmm_Init.thy ===== *)
theory Pmm_Init
  imports Pmm_Live
begin

text \<open>
  \<open>pmm_init\<close> of \<open>kernel/mm/pmm.c\<close>: what its three passes over the Limine memory map leave in the
  bitmap and in the counters.
\<close>

section \<open>Alignment\<close>

lemma align_down_div: "align_down x PAGE_SIZE = (x div 4096) * 4096"
proof -
  have "(PAGE_SIZE - 1 :: u64) = 4095" by simp
  then show ?thesis unfolding align_down_def by (simp only: and_not_4095)
qed

lemma unat_align_down: "unat (align_down x PAGE_SIZE) = unat x div 4096 * 4096"
proof -
  have "unat ((x div 4096) * 4096) = unat (x div 4096) * unat (4096 :: u64)"
    by (rule unat_mult_small) (use unat_u64_less [of x] in \<open>simp add: unat_div_u64\<close>)
  then show ?thesis by (simp add: align_down_div unat_div_u64)
qed

lemma unat_align_up:
  assumes "unat x + 4095 < 18446744073709551616"
  shows "unat (align_up x PAGE_SIZE) = (unat x + 4095) div 4096 * 4096"
proof -
  have "x + PAGE_SIZE - 1 = x + 4095" by (simp add: algebra_simps)
  then have "align_up x PAGE_SIZE = align_down (x + 4095) PAGE_SIZE"
    by (simp add: align_up_def align_down_def add.commute)
  moreover have "unat (x + 4095) = unat x + 4095"
    using assms by (subst unat_add_small) simp_all
  ultimately show ?thesis by (simp add: unat_align_down)
qed

section \<open>The memory map\<close>

text \<open>
  The whole frames of an entry.  Physical addresses have at most 52 bits, so an entry ends at or
  below \<open>2 ^ 52\<close>.
\<close>

definition entry_frames :: "limine_memmap_entry \<Rightarrow> nat set" where
  "entry_frames e = {(unat (entry_base e) + 4095) div 4096
     ..<(unat (entry_base e) + unat (entry_length e)) div 4096}"

definition memmap_wf :: "limine_memmap_entry list \<Rightarrow> bool" where
  "memmap_wf memmap \<longleftrightarrow>
     list_all (\<lambda>e. unat (entry_base e) + unat (entry_length e) \<le> 4503599627370496) memmap"

definition usable_entries :: "limine_memmap_entry list \<Rightarrow> limine_memmap_entry list" where
  "usable_entries memmap = filter (\<lambda>e. entry_type e = LIMINE_MEMMAP_USABLE) memmap"

definition usable_frames :: "limine_memmap_entry list \<Rightarrow> nat set" where
  "usable_frames memmap = (\<Union>e\<in>set (usable_entries memmap). entry_frames e)"

definition memmap_top :: "limine_memmap_entry list \<Rightarrow> u64" where
  "memmap_top memmap = fst (fold pmm_scan_entry memmap (0, 0, 0))"

lemma entry_bounds:
  assumes "unat (entry_base e) + unat (entry_length e) \<le> 4503599627370496"
  shows "unat (align_up (entry_base e) PAGE_SIZE) = (unat (entry_base e) + 4095) div 4096 * 4096"
    and "unat (entry_base e + entry_length e) = unat (entry_base e) + unat (entry_length e)"
    and "unat (align_down (entry_base e + entry_length e) PAGE_SIZE)
       = (unat (entry_base e) + unat (entry_length e)) div 4096 * 4096"
proof -
  show "unat (align_up (entry_base e) PAGE_SIZE) = (unat (entry_base e) + 4095) div 4096 * 4096"
    by (rule unat_align_up) (use assms in linarith)
  show sum: "unat (entry_base e + entry_length e) = unat (entry_base e) + unat (entry_length e)"
    by (rule unat_add_small) (use assms in linarith)
  show "unat (align_down (entry_base e + entry_length e) PAGE_SIZE)
       = (unat (entry_base e) + unat (entry_length e)) div 4096 * 4096"
    by (simp add: unat_align_down sum)
qed

text \<open>The first pass finds an upper bound for every RAM entry, itself the end of some entry.\<close>

lemma scan_top:
  fixes acc :: "u64 \<times> u64 \<times> u64"
  assumes "memmap_wf memmap" and "unat (fst acc) \<le> 4503599627370496" and "4096 dvd unat (fst acc)"
  defines "max_addr \<equiv> unat (fst (fold pmm_scan_entry memmap acc))"
  shows "unat (fst acc) \<le> max_addr \<and> max_addr \<le> 4503599627370496 \<and> 4096 dvd max_addr
     \<and> (\<forall>e\<in>set memmap. is_ram_type (entry_type e) \<longrightarrow>
          (unat (entry_base e) + unat (entry_length e)) div 4096 * 4096 \<le> max_addr)"
  using assms(1-3) unfolding max_addr_def
proof (induction memmap arbitrary: acc)
  case Nil
  then show ?case by simp
next
  case (Cons e es)
  obtain m t u where acc: "acc = (m, t, u)" by (cases acc)
  let ?fin = "align_down (entry_base e + entry_length e) PAGE_SIZE"
  let ?m = "if is_ram_type (entry_type e) \<and> ?fin > m then ?fin else m"
  have e: "unat (entry_base e) + unat (entry_length e) \<le> 4503599627370496" and es: "memmap_wf es"
    using Cons.prems(1) by (auto simp: memmap_wf_def)
  have step: "fst (pmm_scan_entry e acc) = ?m"
    by (simp add: acc pmm_scan_entry_def Let_def)
  have m: "unat m \<le> unat ?m" "unat ?m \<le> 4503599627370496" "4096 dvd unat ?m"
    "is_ram_type (entry_type e) \<longrightarrow> unat ?fin \<le> unat ?m"
    using Cons.prems(2,3) e by (auto simp: acc entry_bounds(3) [OF e] word_less_unat)
  show ?case
    using Cons.IH [OF es, of "pmm_scan_entry e acc"] m e unfolding step
    by (auto simp: acc entry_bounds(3) [OF e])
qed

lemma memmap_top:
  assumes "memmap_wf memmap"
  shows "unat (memmap_top memmap) \<le> 4503599627370496" "4096 dvd unat (memmap_top memmap)"
    "usable_frames memmap \<subseteq> {..<unat (memmap_top memmap) div 4096}"
proof -
  note top = scan_top [OF assms, of "(0, 0, 0)", simplified, folded memmap_top_def]
  show "unat (memmap_top memmap) \<le> 4503599627370496" "4096 dvd unat (memmap_top memmap)"
    using top by blast+
  show "usable_frames memmap \<subseteq> {..<unat (memmap_top memmap) div 4096}"
  proof
    fix n assume "n \<in> usable_frames memmap"
    then obtain e where e: "e \<in> set memmap" "entry_type e = LIMINE_MEMMAP_USABLE" "n \<in> entry_frames e"
      by (auto simp: usable_frames_def usable_entries_def)
    then have "(unat (entry_base e) + unat (entry_length e)) div 4096 * 4096 \<le> unat (memmap_top memmap)"
      using top by (auto simp: is_ram_type_def)
    then have "(unat (entry_base e) + unat (entry_length e)) div 4096 \<le> unat (memmap_top memmap) div 4096"
      by (simp add: less_eq_div_iff_mult_less_eq)
    then show "n \<in> {..<unat (memmap_top memmap) div 4096}" using e(3) by (simp add: entry_frames_def)
  qed
qed

section \<open>The release pass\<close>

lemma page_index:
  assumes "n < 4503599627370496"
  shows "(of_nat (n * 4096) :: u64) div PAGE_SIZE = of_nat n"
proof -
  have "unat (of_nat (n * 4096) :: u64) = n * 4096" by (rule unat_of_nat_small) (use assms in simp)
  then show ?thesis using assms unfolding word_eq_unat unat_div_u64 by (simp add: unat_of_nat_small)
qed

lemma pmm_release_frame_freed:
  assumes "n < 4503599627370496" and "frames s \<le> 2 ^ 52"
  shows "frames_freed s ({n} \<inter> {..<frames s}) (pmm_release_frame (of_nat (n * 4096)) s)"
proof (cases "n < frames s")
  case True
  have "frames_freed s {n} (pmm_release_frame (of_nat (n * 4096)) s)"
    by (rule frames_freed_one [OF True assms(2), where out = "port_out s"])
      (use True assms page_index [OF assms(1)] in
        \<open>simp_all add: pmm_release_frame_def word_less_unat unat_of_nat_small Let_def
           pmm_clear_frame_def del: of_nat_mult\<close>)
  then show ?thesis using True by (simp add: Int_absorb2)
next
  case False
  then have "pmm_release_frame (of_nat (n * 4096)) s = s"
    using page_index [OF assms(1)] assms
    by (simp add: pmm_release_frame_def word_less_unat unat_of_nat_small Let_def del: of_nat_mult)
  then show ?thesis using False by (simp add: frames_freed_empty)
qed

lemma release_run:
  assumes "lo + k \<le> 4503599627370496" and "frames s \<le> 2 ^ 52"
  shows "frames_freed s ({lo..<lo + k} \<inter> {..<frames s})
     (fold (\<lambda>i. pmm_release_frame (of_nat ((lo + i) * 4096))) [0..<k] s)"
  using assms(1)
proof (induction k)
  case 0
  then show ?case by (simp add: frames_freed_empty)
next
  case (Suc k)
  let ?t = "fold (\<lambda>i. pmm_release_frame (of_nat ((lo + i) * 4096))) [0..<k] s"
  have IH: "frames_freed s ({lo..<lo + k} \<inter> {..<frames s}) ?t" using Suc by simp
  note F = frames_freed_fields(1) [OF IH]
  have one: "frames_freed ?t ({lo + k} \<inter> {..<frames ?t})
      (pmm_release_frame (of_nat ((lo + k) * 4096)) ?t)"
    by (rule pmm_release_frame_freed) (use Suc.prems assms(2) F in simp_all)
  have "frames_freed s (({lo..<lo + k} \<inter> {..<frames s}) \<union> ({lo + k} \<inter> {..<frames s}))
      (pmm_release_frame (of_nat ((lo + k) * 4096)) ?t)"
    by (rule frames_freed_trans [OF IH one [unfolded F]]) (use assms(2) in auto)
  moreover have "({lo..<lo + k} \<inter> {..<frames s}) \<union> ({lo + k} \<inter> {..<frames s})
      = {lo..<lo + Suc k} \<inter> {..<frames s}" by auto
  ultimately show ?case by simp
qed

lemma unat_numeral_page: "unat PAGE_SIZE = 4096"
  by simp

text \<open>A page loop from one page boundary to another visits every page in between.\<close>

lemma for_range_pages:
  assumes "unat a = lo * 4096" and "unat e = hi * 4096"
  shows "for_range a e PAGE_SIZE body s =
     Some (fold (\<lambda>i. body (of_nat ((lo + i) * 4096))) [0..<hi - lo] s)"
proof (cases "lo \<le> hi")
  case True
  have a: "a = of_nat (lo * 4096)" using assms(1) by (metis of_nat_unat_u64)
  have idx: "a + of_nat i * PAGE_SIZE = of_nat ((lo + i) * 4096)" for i
    by (simp add: a distrib_right)
  have "hi = lo + (hi - lo)" using True by simp
  then have "unat e = unat a + (hi - lo) * unat PAGE_SIZE"
    unfolding assms by (metis add_mult_distrib unat_numeral_page)
  then have "for_range a e PAGE_SIZE body s = Some (fold (\<lambda>i. body (a + of_nat i * PAGE_SIZE)) [0..<hi - lo] s)"
    by (rule for_range_fold) simp
  then show ?thesis by (simp only: idx)
next
  case False
  then have "\<not> a < e" using assms by (simp add: word_less_unat)
  then show ?thesis using False by (simp add: for_range.simps)
qed

lemma release_entry:
  assumes "unat (entry_base e) + unat (entry_length e) \<le> 4503599627370496" and "frames s \<le> 2 ^ 52"
  shows "\<exists>t. for_range (align_up (entry_base e) PAGE_SIZE)
           (align_down (entry_base e + entry_length e) PAGE_SIZE) PAGE_SIZE pmm_release_frame s = Some t
         \<and> frames_freed s (entry_frames e \<inter> {..<frames s}) t"
proof -
  let ?lo = "(unat (entry_base e) + 4095) div 4096"
  let ?hi = "(unat (entry_base e) + unat (entry_length e)) div 4096"
  have "entry_frames e = {?lo..<?lo + (?hi - ?lo)}" by (auto simp: entry_frames_def)
  moreover have "?lo + (?hi - ?lo) \<le> 4503599627370496" using assms(1) by auto
  ultimately show ?thesis
    using for_range_pages [OF entry_bounds(1) [OF assms(1)] entry_bounds(3) [OF assms(1)],
        of pmm_release_frame s] release_run [OF _ assms(2), of ?lo "?hi - ?lo"] by auto
qed

lemma pmm_release_entries_freed:
  assumes "memmap_wf memmap" and "frames s \<le> 2 ^ 52"
  shows "\<exists>t. pmm_release_entries memmap s = Some t
     \<and> frames_freed s (usable_frames memmap \<inter> {..<frames s}) t"
  using assms
proof (induction memmap arbitrary: s)
  case Nil
  then show ?case by (simp add: usable_frames_def usable_entries_def frames_freed_empty)
next
  case (Cons e es)
  then have e: "unat (entry_base e) + unat (entry_length e) \<le> 4503599627370496" and es: "memmap_wf es"
    by (auto simp: memmap_wf_def)
  show ?case
  proof (cases "entry_type e = LIMINE_MEMMAP_USABLE")
    case True
    obtain t where t: "for_range (align_up (entry_base e) PAGE_SIZE)
        (align_down (entry_base e + entry_length e) PAGE_SIZE) PAGE_SIZE pmm_release_frame s = Some t"
      and freed: "frames_freed s (entry_frames e \<inter> {..<frames s}) t"
      using release_entry [OF e Cons.prems(2)] by blast
    note F = frames_freed_fields(1) [OF freed]
    obtain u where u: "pmm_release_entries es t = Some u"
      and rest: "frames_freed t (usable_frames es \<inter> {..<frames t}) u"
      using Cons.IH [OF es, of t] Cons.prems(2) F by auto
    have "frames_freed s ((entry_frames e \<inter> {..<frames s}) \<union> (usable_frames es \<inter> {..<frames s})) u"
      by (rule frames_freed_trans [OF freed rest [unfolded F]]) (use Cons.prems(2) in auto)
    moreover have "(entry_frames e \<inter> {..<frames s}) \<union> (usable_frames es \<inter> {..<frames s})
        = usable_frames (e # es) \<inter> {..<frames s}"
      using True by (auto simp: usable_frames_def usable_entries_def)
    ultimately show ?thesis using True t u by simp
  next
    case False
    then show ?thesis using Cons.IH [OF es Cons.prems(2)]
      by (simp add: usable_frames_def usable_entries_def)
  qed
qed

section \<open>The protection pass\<close>

definition frames_protected ::
  "'a pmm_state_scheme \<Rightarrow> nat set \<Rightarrow> 'a pmm_state_scheme \<Rightarrow> bool" where
  "frames_protected s X s' \<longleftrightarrow>
     (\<exists>m. s' = s\<lparr>mem := m,
           pmm_free_frames_count := pmm_free_frames_count s - of_nat (card (X - used_in s X)),
           pmm_used_frames_count := pmm_used_frames_count s + of_nat (card (X - used_in s X))\<rparr>)
     \<and> (\<forall>g. pmm_test_frame s' g \<longleftrightarrow> pmm_test_frame s g \<or> unat g \<in> X)"

lemma frames_protected_fields:
  assumes "frames_protected s X s'"
  shows "pmm_bitmap_frames s' = pmm_bitmap_frames s" "pmm_bitmap s' = pmm_bitmap s"
    "hhdm_offset s' = hhdm_offset s"
    "pmm_free_frames_count s' = pmm_free_frames_count s - of_nat (card (X - used_in s X))"
    "pmm_used_frames_count s' = pmm_used_frames_count s + of_nat (card (X - used_in s X))"
    "pmm_usable_frames_count s' = pmm_usable_frames_count s"
    "next_fit_hint s' = next_fit_hint s"
    "pmm_test_frame s' g \<longleftrightarrow> pmm_test_frame s g \<or> unat g \<in> X"
  using assms by (auto simp: frames_protected_def)

lemma frames_protectedI:
  assumes "k = card (X - used_in s X)"
    and "s' = s\<lparr>mem := m, pmm_free_frames_count := pmm_free_frames_count s - of_nat k,
           pmm_used_frames_count := pmm_used_frames_count s + of_nat k\<rparr>"
    and "\<And>g. pmm_test_frame s' g \<longleftrightarrow> pmm_test_frame s g \<or> unat g \<in> X"
  shows "frames_protected s X s'"
  using assms unfolding frames_protected_def by blast

lemma pmm_protect_frame_step:
  assumes "n < 4503599627370496" and "n < frames s"
  shows "frames_protected s {n} (pmm_protect_frame (of_nat (n * 4096)) s)"
proof -
  have n: "unat (of_nat n :: u64) = n" using assms by (simp add: unat_of_nat_small)
  have eq: "g = of_nat n \<longleftrightarrow> unat g = n" for g :: u64 by (auto simp: word_eq_unat n)
  show ?thesis
  proof (cases "pmm_test_frame s (of_nat n)")
    case True
    then have "pmm_protect_frame (of_nat (n * 4096)) s = s"
      by (simp add: pmm_protect_frame_def page_index [OF assms(1)] Let_def del: of_nat_mult)
    moreover have "frames_protected s {n} s"
      by (rule frames_protectedI [where k = 0 and m = "mem s"])
        (use True in \<open>auto simp: used_in_def eq [symmetric]\<close>)
    ultimately show ?thesis by simp
  next
    case False
    obtain m where m: "pmm_set_frame (of_nat n) s = s\<lparr>mem := m\<rparr>" by (simp add: pmm_set_frame_def)
    have "pmm_protect_frame (of_nat (n * 4096)) s = s\<lparr>mem := m,
        pmm_free_frames_count := pmm_free_frames_count s - 1,
        pmm_used_frames_count := pmm_used_frames_count s + 1\<rparr>"
      using False assms(2)
      by (simp add: pmm_protect_frame_def page_index [OF assms(1)] Let_def m word_less_unat n
          del: of_nat_mult)
    moreover have "{n} - used_in s {n} = {n}" using False by (auto simp: used_in_def)
    moreover have "pmm_test_frame (s\<lparr>mem := m\<rparr>) g \<longleftrightarrow> pmm_test_frame s g \<or> unat g \<in> {n}" for g
      using test_set_frame [of "of_nat n" s g] eq [of g] by (auto simp: m)
    ultimately show ?thesis by (intro frames_protectedI [where k = 1 and m = m]) simp_all
  qed
qed

lemma frames_protected_empty: "frames_protected s {} s"
  by (rule frames_protectedI [where k = 0 and m = "mem s"]) simp_all

lemma frames_protected_trans:
  assumes "frames_protected s X t" and "frames_protected t Y u" and "X \<union> Y \<subseteq> {..<2 ^ 52}"
  shows "frames_protected s (X \<union> Y) u"
proof -
  have fin: "finite X" "finite Y" using assms(3) finite_subset by blast+
  have "(X \<union> Y) - used_in s (X \<union> Y) = (X - used_in s X) \<union> (Y - used_in t Y)"
    and "(X - used_in s X) \<inter> (Y - used_in t Y) = {}"
    using assms(3)
    by (auto simp: used_in_def frames_protected_fields [OF assms(1)] unat_of_nat_small subset_iff)
  then have card: "card ((X \<union> Y) - used_in s (X \<union> Y)) = card (X - used_in s X) + card (Y - used_in t Y)"
    using fin by (simp add: card_Un_disjoint)
  obtain m where t: "t = s\<lparr>mem := m,
      pmm_free_frames_count := pmm_free_frames_count s - of_nat (card (X - used_in s X)),
      pmm_used_frames_count := pmm_used_frames_count s + of_nat (card (X - used_in s X))\<rparr>"
    using assms(1) unfolding frames_protected_def by blast
  obtain m' where u: "u = t\<lparr>mem := m',
      pmm_free_frames_count := pmm_free_frames_count t - of_nat (card (Y - used_in t Y)),
      pmm_used_frames_count := pmm_used_frames_count t + of_nat (card (Y - used_in t Y))\<rparr>"
    using assms(2) unfolding frames_protected_def by blast
  have "u = s\<lparr>mem := m',
      pmm_free_frames_count := pmm_free_frames_count s - of_nat (card ((X \<union> Y) - used_in s (X \<union> Y))),
      pmm_used_frames_count := pmm_used_frames_count s + of_nat (card ((X \<union> Y) - used_in s (X \<union> Y)))\<rparr>"
    unfolding card by (simp add: u t algebra_simps)
  moreover have "pmm_test_frame u g \<longleftrightarrow> pmm_test_frame s g \<or> unat g \<in> X \<union> Y" for g
    using frames_protected_fields(8) [OF assms(1)] frames_protected_fields(8) [OF assms(2)] by auto
  ultimately show ?thesis unfolding frames_protected_def by blast
qed

lemma protect_run:
  assumes "lo + k \<le> frames s" and "frames s \<le> 4503599627370496"
  shows "frames_protected s {lo..<lo + k}
     (fold (\<lambda>i. pmm_protect_frame (of_nat ((lo + i) * 4096))) [0..<k] s)"
  using assms(1)
proof (induction k)
  case 0
  then show ?case by (simp add: frames_protected_empty)
next
  case (Suc k)
  let ?t = "fold (\<lambda>i. pmm_protect_frame (of_nat ((lo + i) * 4096))) [0..<k] s"
  have IH: "frames_protected s {lo..<lo + k} ?t" using Suc by simp
  have one: "frames_protected ?t {lo + k} (pmm_protect_frame (of_nat ((lo + k) * 4096)) ?t)"
    by (rule pmm_protect_frame_step)
      (use Suc.prems assms(2) frames_protected_fields(1) [OF IH] in simp_all)
  have "frames_protected s ({lo..<lo + k} \<union> {lo + k}) (pmm_protect_frame (of_nat ((lo + k) * 4096)) ?t)"
    by (rule frames_protected_trans [OF IH one]) (use Suc.prems assms(2) in auto)
  moreover have "{lo..<lo + k} \<union> {lo + k} = {lo..<lo + Suc k}" by auto
  ultimately show ?case by simp
qed

section \<open>The state after initialisation\<close>

lemma pmm_find_bitmap_usable:
  assumes "memmap_wf memmap" and "pmm_find_bitmap sz memmap = Some bp" and "4096 dvd unat sz"
  shows "\<exists>b. unat bp = b * 4096 \<and> {b..<b + unat sz div 4096} \<subseteq> usable_frames memmap
     \<and> unat bp + unat sz \<le> 4503599627370496"
  using assms(1,2)
proof (induction memmap)
  case Nil
  then show ?case by simp
next
  case (Cons e es)
  then have e: "unat (entry_base e) + unat (entry_length e) \<le> 4503599627370496" and es: "memmap_wf es"
    by (auto simp: memmap_wf_def)
  let ?start = "align_up (entry_base e) PAGE_SIZE" and ?fin = "entry_base e + entry_length e"
  show ?case
  proof (cases "entry_type e = LIMINE_MEMMAP_USABLE \<and> ?start < ?fin \<and> sz \<le> ?fin - ?start")
    case True
    let ?b = "(unat (entry_base e) + 4095) div 4096"
    obtain k where k: "unat sz = 4096 * k" using assms(3) by (auto simp: dvd_def)
    have bp: "bp = ?start" using Cons.prems(2) True by (auto simp: Let_def split: if_splits)
    then have b: "unat bp = ?b * 4096" by (simp add: entry_bounds(1) [OF e])
    have "unat (?fin - ?start) = unat ?fin - unat ?start" by (rule unat_diff_small) (use True in \<open>simp add: less_imp_le\<close>)
    then have fit: "unat bp + unat sz \<le> unat (entry_base e) + unat (entry_length e)"
      using True unfolding word_le_unat word_less_unat bp entry_bounds(2) [OF e] by linarith
    then have "(?b + k) * 4096 \<le> unat (entry_base e) + unat (entry_length e)"
      unfolding b k by (simp add: algebra_simps)
    then have "?b + k \<le> (unat (entry_base e) + unat (entry_length e)) div 4096"
      by (simp add: less_eq_div_iff_mult_less_eq)
    then have "{?b..<?b + k} \<subseteq> entry_frames e" by (auto simp: entry_frames_def)
    then have "{?b..<?b + unat sz div 4096} \<subseteq> usable_frames (e # es)"
      using True k by (auto simp: usable_frames_def usable_entries_def)
    then show ?thesis using b fit e by (intro exI [of _ ?b]) simp
  next
    case False
    then have "pmm_find_bitmap sz es = Some bp"
      using Cons.prems(2) by (auto simp: Let_def not_le not_less split: if_splits)
    moreover have "usable_frames es \<subseteq> usable_frames (e # es)"
      by (auto simp: usable_frames_def usable_entries_def)
    ultimately show ?thesis using Cons.IH [OF es] by blast
  qed
qed

definition memmap_bitmap :: "limine_memmap_entry list \<Rightarrow> u64 option" where
  "memmap_bitmap memmap = pmm_find_bitmap
     (align_up ((align_up (memmap_top memmap) PAGE_SIZE div PAGE_SIZE + 7) div 8) PAGE_SIZE) memmap"

lemma memset_all_used:
  assumes "unat g < frames s" and "frames s \<le> 2 ^ 52"
    and "mem s = memset (pmm_bitmap s) 0xFF ((pmm_bitmap_frames s + 7) div 8) m"
  shows "pmm_test_frame s g"
proof -
  have region: "in_region (pmm_bitmap s) ((pmm_bitmap_frames s + 7) div 8) (bitmap_byte s g)"
    using in_bitmap_byte [OF assms(1,2)] by (simp add: in_bitmap_def)
  have "(ucast (0xFF :: u32) :: u8) = mask 8" by (simp add: mask_eq_exp_minus_1)
  then have "bit (ucast (0xFF :: u32) :: u8) (unat (g mod 8))"
    using frame_bit [of g] by (simp only: bit_mask_iff) simp
  then show ?thesis using region by (simp add: pmm_test_frame_bit assms(3) memset_apply)
qed

lemma page_multiple_align_up:
  assumes "4096 dvd unat x" and "unat x \<le> 4503599627370496"
  shows "align_up x PAGE_SIZE = x"
proof -
  obtain k where k: "unat x = 4096 * k" using assms(1) by (auto simp: dvd_def)
  have "unat (align_up x PAGE_SIZE) = (unat x + 4095) div 4096 * 4096"
    by (rule unat_align_up) (use assms(2) in simp)
  then show ?thesis by (simp add: word_eq_unat k)
qed

text \<open>The sizes that \<open>pmm_init\<close> computes from the top of memory.\<close>

lemma init_sizes:
  fixes memmap
  assumes "memmap_wf memmap"
  defines "F \<equiv> unat (memmap_top memmap) div 4096"
  shows "F \<le> 1099511627776"
    and "unat (align_up (memmap_top memmap) PAGE_SIZE div PAGE_SIZE) = F"
    and "unat ((align_up (memmap_top memmap) PAGE_SIZE div PAGE_SIZE + 7) div 8) = (F + 7) div 8"
    and "unat (align_up ((align_up (memmap_top memmap) PAGE_SIZE div PAGE_SIZE + 7) div 8) PAGE_SIZE)
       = ((F + 7) div 8 + 4095) div 4096 * 4096"
proof -
  note top = memmap_top [OF assms(1)]
  show F: "F \<le> 1099511627776" using top(1) by (simp add: F_def)
  show f: "unat (align_up (memmap_top memmap) PAGE_SIZE div PAGE_SIZE) = F"
    by (simp add: page_multiple_align_up [OF top(2,1)] unat_div_u64 F_def)
  have "unat (align_up (memmap_top memmap) PAGE_SIZE div PAGE_SIZE + 7) = F + 7"
    using F f by (subst unat_add_small) simp_all
  then show b: "unat ((align_up (memmap_top memmap) PAGE_SIZE div PAGE_SIZE + 7) div 8) = (F + 7) div 8"
    by (simp add: unat_div_u64)
  show "unat (align_up ((align_up (memmap_top memmap) PAGE_SIZE div PAGE_SIZE + 7) div 8) PAGE_SIZE)
       = ((F + 7) div 8 + 4095) div 4096 * 4096"
    unfolding b [symmetric] by (rule unat_align_up) (use F in \<open>simp add: b\<close>)
qed

text \<open>
  The three passes that follow the choice of the bitmap, from the state in which the frame totals
  and the address of the bitmap are set.
\<close>

lemma init_passes:
  assumes wf: "memmap_wf memmap" and F: "frames s \<le> 1099511627776"
    and U: "usable_frames memmap \<subseteq> {..<frames s}" "0 < nb"
    and B: "{b..<b + nb} \<subseteq> usable_frames memmap"
    and used: "\<And>g. unat g < frames s \<Longrightarrow> pmm_test_frame s g"
    and cnt: "pmm_free_frames_count s = 0"
    and a: "unat a = b * 4096" "unat e = (b + nb) * 4096"
  shows "\<exists>t u. pmm_release_entries memmap s = Some t
     \<and> for_range a e PAGE_SIZE pmm_protect_frame (pmm_protect_frame0 t) = Some u
     \<and> pmm_bitmap_frames u = pmm_bitmap_frames s \<and> pmm_bitmap u = pmm_bitmap s
     \<and> hhdm_offset u = hhdm_offset s \<and> next_fit_hint u = next_fit_hint s
     \<and> pmm_usable_frames_count u = pmm_usable_frames_count s
     \<and> pmm_free_frames_count u + pmm_used_frames_count u = pmm_used_frames_count s
     \<and> pmm_free_frames_count u
         = of_nat (card (usable_frames memmap)) - 1 - of_nat (card ({b..<b + nb} - {0}))
     \<and> (\<forall>g. unat g < frames s \<longrightarrow>
          (pmm_test_frame u g \<longleftrightarrow> unat g \<notin> usable_frames memmap - {0} - {b..<b + nb}))"
proof -
  let ?U = "usable_frames memmap" and ?B = "{b..<b + nb}"
  have F': "frames s \<le> 2 ^ 52" using F by simp
  have inter: "?U \<inter> {..<frames s} = ?U" using U(1) by blast
  obtain t where t: "pmm_release_entries memmap s = Some t" and freed: "frames_freed s ?U t"
    using pmm_release_entries_freed [OF wf F'] unfolding inter by blast
  note ft = frames_freed_fields [OF freed]
  have "used_in s ?U = ?U"
    using U(1) used F by (auto simp: used_in_def unat_of_nat_small subset_iff)
  then have free_t: "pmm_free_frames_count t = of_nat (card ?U)"
    and used_t: "pmm_used_frames_count t = pmm_used_frames_count s - of_nat (card ?U)"
    by (simp_all add: ft cnt)
  have test_t: "pmm_test_frame t g \<longleftrightarrow> unat g \<notin> ?U" if "unat g < frames s" for g
    using used [OF that] by (simp add: ft)
  have "finite ?U" using U(1) finite_subset by blast
  moreover have "b \<in> ?U" using B U(2) by auto
  ultimately have card_pos: "0 < card ?U" by (auto simp: card_gt_0_iff)
  have card_le: "card ?U \<le> frames s" using card_mono [OF _ U(1)] by simp
  define v where "v = pmm_protect_frame0 t"
  have "pmm_free_frames_count t > 0"
    using card_pos card_le F by (simp add: free_t word_less_unat unat_of_nat_small)
  then have v: "v = (pmm_set_frame 0 t)\<lparr>pmm_free_frames_count := of_nat (card ?U) - 1,
      pmm_used_frames_count := pmm_used_frames_count s - of_nat (card ?U) + 1\<rparr>"
    by (simp add: v_def pmm_protect_frame0_def Let_def pmm_set_frame_def free_t used_t)
  have test_v: "pmm_test_frame v g \<longleftrightarrow> g = 0 \<or> pmm_test_frame t g" for g
    by (simp add: v test_set_frame)
  have F_v: "pmm_bitmap_frames v = pmm_bitmap_frames s" by (simp add: v pmm_set_frame_def ft)
  define u where "u = fold (\<lambda>i. pmm_protect_frame (of_nat ((b + i) * 4096))) [0..<nb] v"
  have "b + nb - 1 \<in> {..<frames s}" by (rule subsetD [OF subset_trans [OF B U(1)]]) (use U(2) in simp)
  then have "b + nb \<le> frames s" by simp
  then have prot: "frames_protected v ?B u"
    unfolding u_def by (intro protect_run) (use F F_v in simp_all)
  note fu = frames_protected_fields [OF prot]
  have loop: "for_range a e PAGE_SIZE pmm_protect_frame v = Some u"
    unfolding u_def using for_range_pages [OF a, of pmm_protect_frame v] by simp
  have "?B - used_in v ?B = ?B - {0}"
  proof -
    have "pmm_test_frame v (of_nat n) \<longleftrightarrow> n = 0" if "n \<in> ?B" for n
    proof -
      have "n \<in> ?U" "n < frames s" using that B U(1) by auto
      then show ?thesis
        using test_t [of "of_nat n"] F by (simp add: test_v unat_of_nat_small flip: unat_zero_iff)
    qed
    then have "used_in v ?B = {n \<in> ?B. n = 0}" unfolding used_in_def by blast
    moreover have "?B - {n \<in> ?B. n = 0} = ?B - {0}" by blast
    ultimately show ?thesis by (simp only:)
  qed
  then have cnt_u: "pmm_free_frames_count u = of_nat (card ?U) - 1 - of_nat (card (?B - {0}))"
    and "pmm_used_frames_count u
      = pmm_used_frames_count s - of_nat (card ?U) + 1 + of_nat (card (?B - {0}))"
    by (simp_all add: fu v)
  then have sum: "pmm_free_frames_count u + pmm_used_frames_count u = pmm_used_frames_count s" by simp
  have test_u: "pmm_test_frame u g \<longleftrightarrow> unat g \<notin> ?U - {0} - ?B" if "unat g < frames s" for g
    using test_t [OF that] by (auto simp: fu test_v unat_zero_iff)
  have "pmm_bitmap_frames u = pmm_bitmap_frames s" "pmm_bitmap u = pmm_bitmap s"
    "hhdm_offset u = hhdm_offset s" "next_fit_hint u = next_fit_hint s"
    "pmm_usable_frames_count u = pmm_usable_frames_count s"
    by (simp_all add: fu ft v pmm_set_frame_def)
  with t loop [unfolded v_def] sum cnt_u test_u show ?thesis by blast
qed

text \<open>The number of the frame counters that the first pass adds up for usable entries.\<close>

definition memmap_usable_count :: "limine_memmap_entry list \<Rightarrow> u64" where
  "memmap_usable_count memmap = snd (snd (fold pmm_scan_entry memmap (0, 0, 0)))"

lemma scan_usable_count:
  fixes acc :: "u64 \<times> u64 \<times> u64"
  assumes "memmap_wf memmap"
  shows "snd (snd (fold pmm_scan_entry memmap acc)) =
     snd (snd acc) + of_nat (\<Sum>e\<leftarrow>usable_entries memmap. card (entry_frames e))"
  using assms
proof (induction memmap arbitrary: acc)
  case Nil
  then show ?case by (simp add: usable_entries_def)
next
  case (Cons e es)
  then have e: "unat (entry_base e) + unat (entry_length e) \<le> 4503599627370496" and es: "memmap_wf es"
    by (auto simp: memmap_wf_def)
  let ?s = "align_up (entry_base e) PAGE_SIZE"
  let ?e = "align_down (entry_base e + entry_length e) PAGE_SIZE"
  have pages: "(?e - ?s) div PAGE_SIZE = of_nat (card (entry_frames e))" if "?s < ?e"
  proof -
    have "unat (?e - ?s) = unat ?e - unat ?s" by (rule unat_diff_small) (use that in simp)
    then have "unat ((?e - ?s) div PAGE_SIZE) = card (entry_frames e)"
      by (simp add: unat_div_u64 entry_bounds(1,3) [OF e] entry_frames_def flip: diff_mult_distrib)
    then show ?thesis by (metis of_nat_unat_u64)
  qed
  have none: "card (entry_frames e) = 0" if "\<not> ?s < ?e"
    using that by (simp add: word_less_unat entry_bounds(1,3) [OF e] entry_frames_def)
  show ?case
    using Cons.IH [OF es] pages none
    by (cases acc) (auto simp: pmm_scan_entry_def Let_def usable_entries_def)
qed

text \<open>\<open>pmm_init\<close> up to its passes: what the scan and the choice of the bitmap set up.\<close>

definition init_prepared ::
  "limine_memmap_entry list \<Rightarrow> u64 \<Rightarrow> u64 \<Rightarrow> 'a pmm_state_scheme \<Rightarrow> 'a pmm_state_scheme" where
  "init_prepared memmap hhdm bp s =
     (let F = align_up (memmap_top memmap) PAGE_SIZE div PAGE_SIZE;
          total = fst (snd (fold pmm_scan_entry memmap (0, 0, 0)))
      in s\<lparr>hhdm_offset := hhdm, pmm_bitmap_frames := F, pmm_total_frames_count := total,
           pmm_usable_frames_count := memmap_usable_count memmap,
           pmm_bitmap_bytes := (F + 7) div 8, pmm_bitmap := bp + hhdm,
           mem := memset (bp + hhdm) 0xFF ((F + 7) div 8) (mem s),
           pmm_free_frames_count := 0, pmm_used_frames_count := memmap_usable_count memmap\<rparr>)"

lemma pmm_init_unfold:
  assumes "memmap_bitmap memmap = Some bp"
  shows "pmm_init memmap hhdm s =
     Option.bind (pmm_release_entries memmap (init_prepared memmap hhdm bp s)) (\<lambda>t.
       Option.bind (for_range bp
         (bp + align_up ((align_up (memmap_top memmap) PAGE_SIZE div PAGE_SIZE + 7) div 8) PAGE_SIZE)
         PAGE_SIZE pmm_protect_frame (pmm_protect_frame0 t))
       (\<lambda>u. Some (serial_log (bytes ''PMM initialized\<newline>'') u)))"
proof -
  obtain m t u where scan: "fold pmm_scan_entry memmap (0, 0, 0) = (m, t, u)"
    by (metis prod_cases3)
  then have "memmap_top memmap = m" "memmap_usable_count memmap = u"
    by (simp_all add: memmap_top_def memmap_usable_count_def)
  then show ?thesis
    using assms scan by (simp add: pmm_init_def init_prepared_def memmap_bitmap_def Let_def)
qed

lemma pmm_init_state:
  assumes wf: "memmap_wf memmap" and top: "memmap_top memmap \<noteq> 0"
    and bm: "memmap_bitmap memmap = Some bp"
  defines "U \<equiv> usable_frames memmap" and "F \<equiv> unat (memmap_top memmap) div 4096"
  defines "B \<equiv> {unat bp div 4096..<unat bp div 4096 + ((F + 7) div 8 + 4095) div 4096}"
  shows "\<exists>u. pmm_init memmap hhdm s = Some u
     \<and> B \<subseteq> U \<and> U \<subseteq> {..<F} \<and> 4096 dvd unat bp \<and> unat bp + (F + 7) div 8 \<le> F * 4096 \<and> 0 < F
     \<and> F \<le> 1099511627776
     \<and> frames u = F \<and> pmm_bitmap u = bp + hhdm
     \<and> hhdm_offset u = hhdm \<and> next_fit_hint u = next_fit_hint s
     \<and> pmm_usable_frames_count u = memmap_usable_count memmap
     \<and> pmm_free_frames_count u + pmm_used_frames_count u = memmap_usable_count memmap
     \<and> pmm_free_frames_count u = of_nat (card U) - 1 - of_nat (card (B - {0}))
     \<and> (\<forall>g. unat g < F \<longrightarrow> (pmm_test_frame u g \<longleftrightarrow> unat g \<notin> U - {0} - B))"
proof -
  let ?s = "init_prepared memmap hhdm bp s"
  let ?sz = "align_up ((align_up (memmap_top memmap) PAGE_SIZE div PAGE_SIZE + 7) div 8) PAGE_SIZE"
  let ?nb = "((F + 7) div 8 + 4095) div 4096"
  note sz = init_sizes [OF wf, folded F_def]
  note mt = memmap_top [OF wf]
  have "unat (memmap_top memmap) \<noteq> 0" using top by (simp add: unat_zero_iff)
  then have F0: "0 < F" using mt(2) by (auto simp: F_def dvd_def)
  have dvd: "4096 dvd unat ?sz" by (simp add: sz(4))
  obtain b where b: "unat bp = b * 4096" and B: "{b..<b + ?nb} \<subseteq> U"
    and lim: "unat bp + unat ?sz \<le> 4503599627370496"
    using pmm_find_bitmap_usable [OF wf bm [unfolded memmap_bitmap_def] dvd]
    by (auto simp: sz(4) U_def)
  have UF: "U \<subseteq> {..<F}" using mt(3) by (simp add: U_def F_def)
  have nb: "0 < ?nb" using F0 by simp
  have "b + ?nb - 1 \<in> {..<F}" by (rule subsetD [OF subset_trans [OF B UF]]) (use nb in simp)
  then have "b + ?nb \<le> F" by simp
  then have "(b + ?nb) * 4096 \<le> F * 4096" by (rule mult_le_mono1)
  then have fit: "unat bp + (F + 7) div 8 \<le> F * 4096"
    unfolding b add_mult_distrib by linarith
  have fs: "frames ?s = F" by (simp add: init_prepared_def Let_def sz(2))
  have used: "pmm_test_frame ?s g" if "unat g < frames ?s" for g
    by (rule memset_all_used [OF that, of "mem s"])
      (use sz(1,2) in \<open>simp_all add: init_prepared_def Let_def\<close>)
  have e: "unat (bp + ?sz) = (b + ?nb) * 4096"
    using lim by (subst unat_add_small) (simp_all add: b sz(4) add_mult_distrib)
  obtain t u where "pmm_release_entries memmap ?s = Some t"
    "for_range bp (bp + ?sz) PAGE_SIZE pmm_protect_frame (pmm_protect_frame0 t) = Some u"
    and u: "pmm_bitmap_frames u = pmm_bitmap_frames ?s" "pmm_bitmap u = pmm_bitmap ?s"
      "hhdm_offset u = hhdm_offset ?s" "next_fit_hint u = next_fit_hint ?s"
      "pmm_usable_frames_count u = pmm_usable_frames_count ?s"
      "pmm_free_frames_count u + pmm_used_frames_count u = pmm_used_frames_count ?s"
      "pmm_free_frames_count u = of_nat (card U) - 1 - of_nat (card ({b..<b + ?nb} - {0}))"
      "\<And>g. unat g < F \<Longrightarrow> pmm_test_frame u g \<longleftrightarrow> unat g \<notin> U - {0} - {b..<b + ?nb}"
    using init_passes [OF wf _ _ nb _ used _ b e] sz(1) UF B
    unfolding U_def fs by (fastforce simp: init_prepared_def Let_def)
  then have init: "pmm_init memmap hhdm s = Some (serial_log (bytes ''PMM initialized\<newline>'') u)"
    by (simp add: pmm_init_unfold [OF bm])
  have Beq: "B = {b..<b + ?nb}" by (simp add: B_def b)
  show ?thesis
    unfolding init Beq
    using B UF F0 fit sz(1,2) u
    by (simp add: b) (simp add: serial_log_def init_prepared_def Let_def)
qed

lemma pmm_init_spec:
  assumes wf: "memmap_wf memmap" and top: "memmap_top memmap \<noteq> 0"
    and bm: "memmap_bitmap memmap = Some bp" and hint: "next_fit_hint s = 0"
  shows "\<exists>s'. pmm_init memmap hhdm s = Some s' \<and> pmm_wf s' \<and> pmm_layout s'
     \<and> frames s' = unat (memmap_top memmap) div 4096
     \<and> set (bitmap_frame_list s') \<subseteq> usable_frames memmap
     \<and> free_frames s' = usable_frames memmap - {0} - set (bitmap_frame_list s')
     \<and> pmm_usable_frames_count s'
         = of_nat (\<Sum>e\<leftarrow>usable_entries memmap. card (entry_frames e))
     \<and> pmm_free_frames_count s' + pmm_used_frames_count s' = pmm_usable_frames_count s'
     \<and> pmm_free_frames_count s' = of_nat (card (usable_frames memmap)) - 1
           - of_nat (card (set (bitmap_frame_list s') - {0}))"
proof -
  define F where "F = unat (memmap_top memmap) div 4096"
  define B where "B = {unat bp div 4096..<unat bp div 4096 + ((F + 7) div 8 + 4095) div 4096}"
  obtain u where init: "pmm_init memmap hhdm s = Some u"
    and B: "B \<subseteq> usable_frames memmap" and U: "usable_frames memmap \<subseteq> {..<F}"
    and bp: "4096 dvd unat bp" "unat bp + (F + 7) div 8 \<le> F * 4096" and F: "0 < F" "F \<le> 1099511627776"
    and u: "frames u = F" "pmm_bitmap u = bp + hhdm" "hhdm_offset u = hhdm" "next_fit_hint u = next_fit_hint s"
      "pmm_usable_frames_count u = memmap_usable_count memmap"
      "pmm_free_frames_count u + pmm_used_frames_count u = memmap_usable_count memmap"
      "pmm_free_frames_count u = of_nat (card (usable_frames memmap)) - 1 - of_nat (card (B - {0}))"
      and test: "\<And>g. unat g < F \<Longrightarrow> pmm_test_frame u g \<longleftrightarrow> unat g \<notin> usable_frames memmap - {0} - B"
    using pmm_init_state [OF wf top bm, of hhdm s] unfolding F_def [symmetric] B_def [symmetric] by blast
  have list: "set (bitmap_frame_list u) = B"
  proof -
    obtain k where k: "unat bp = 4096 * k" using bp(1) by (auto simp: dvd_def)
    have "(4096 * k + (F + 7) div 8 + 4095) div 4096 = k + ((F + 7) div 8 + 4095) div 4096" by simp
    then show ?thesis by (simp add: bitmap_frame_list_def bitmap_phys_def u B_def k)
  qed
  have test_n: "pmm_test_frame u (of_nat n) \<longleftrightarrow> n \<notin> usable_frames memmap - {0} - B" if "n < F" for n
    using test [of "of_nat n"] that F(2) by (simp add: unat_of_nat_small)
  have "pmm_test_frame u 0" using test_n [of 0] F(1) by simp
  then have "pmm_wf u" using F hint by (simp add: pmm_wf_def u word_less_unat)
  moreover have "pmm_layout u"
    using bp(2) B U test_n by (auto simp: pmm_layout_def list_all_iff list bitmap_phys_def u)
  moreover have "free_frames u = usable_frames memmap - {0} - B"
    using U test_n by (auto simp: free_frames_def u)
  moreover have "memmap_usable_count memmap = of_nat (\<Sum>e\<leftarrow>usable_entries memmap. card (entry_frames e))"
    using scan_usable_count [OF wf, of "(0, 0, 0)"] by (simp add: memmap_usable_count_def)
  ultimately show ?thesis using init u B unfolding F_def by (simp add: list)
qed

lemma init_counter_value:
  fixes U B :: "nat set"
  assumes "finite U" and "B \<subseteq> U"
  shows "of_nat (card U) - 1 - of_nat (card (B - {0}))
     = (of_nat (card (U - {0} - B)) - (if 0 \<in> U then 0 else 1) :: u64)"
proof -
  have fin: "finite B" using assms finite_subset by blast
  have "card (U - {0} - B) + card (B - {0}) = card (U - {0})"
  proof -
    have "card ((U - {0} - B) \<union> (B - {0})) = card (U - {0} - B) + card (B - {0})"
      using assms(1) fin by (intro card_Un_disjoint) auto
    moreover have "(U - {0} - B) \<union> (B - {0}) = U - {0}" using assms(2) by auto
    ultimately show ?thesis by simp
  qed
  then have eq: "(of_nat (card (U - {0})) :: u64) = of_nat (card (U - {0} - B)) + of_nat (card (B - {0}))"
    by (metis of_nat_add)
  show ?thesis
  proof (cases "0 \<in> U")
    case True
    then have "(of_nat (card U) :: u64) = of_nat (card (U - {0})) + 1"
      using card_Suc_Diff1 [OF assms(1) True] by (metis of_nat_Suc add.commute)
    then show ?thesis using True eq by simp
  next
    case False
    then have "U - {0} = U" by simp
    then show ?thesis using False eq by simp
  qed
qed

end
