(* ===== verification/Pmm_Properties.thy ===== *)
theory Pmm_Properties
  imports Pmm_Init
begin

text \<open>
  The properties of the physical memory manager: what the calls of \<open>kernel/mm/pmm.c\<close> return and
  keep, and a concrete state at which they are evaluated.
\<close>

section \<open>A concrete allocator state\<close>

text \<open>
  Sixteen frames, the bitmap in frame 1, frames 0 and 1 in use: the state the witnesses below
  evaluate.
\<close>

definition example_pmm :: pmm_state where
  "example_pmm = \<lparr>mem = (\<lambda>_. 0)(0xFFFF800000001000 := 0x03), port_out = [],
     pmm_bitmap = 0xFFFF800000001000, pmm_bitmap_bytes = 2, pmm_bitmap_frames = 16,
     pmm_total_frames_count = 16, pmm_usable_frames_count = 16, pmm_free_frames_count = 14,
     pmm_used_frames_count = 2, next_fit_hint = 0, hhdm_offset = 0xFFFF800000000000\<rparr>"

lemma example_test: "pmm_test_frame example_pmm f \<longleftrightarrow> f = 0 \<or> f = 1"
proof -
  have "bit (3::u8) n \<longleftrightarrow> n = 0 \<or> n = 1" for n
    by (simp add: bit_numeral_rec bit_1_iff split: nat.splits) auto
  moreover have "f div 8 = 0 \<longleftrightarrow> unat f < 8"
    unfolding word_eq_unat unat_div_u64 by (auto simp: div_eq_0_iff)
  moreover have "f = 0 \<longleftrightarrow> unat f = 0" "f = 1 \<longleftrightarrow> unat f = 1"
    unfolding word_eq_unat by simp_all
  ultimately show ?thesis
    by (auto simp: pmm_test_frame_bit bitmap_byte_def example_pmm_def unat_mod_u64)
qed

lemma example_fields:
  "pmm_bitmap_frames example_pmm = 16" "next_fit_hint example_pmm = 0"
  "pmm_free_frames_count example_pmm = 14" "hhdm_offset example_pmm = 0xFFFF800000000000"
  by (simp_all add: example_pmm_def)

lemma example_wf: "pmm_wf example_pmm"
  by (simp add: pmm_wf_def example_test example_fields)

lemma example_free: "free_frames example_pmm = {2..<16}"
  by (auto simp: free_frames_def example_test example_fields word_eq_unat unat_of_nat_small)

lemma example_ok: "pmm_ok 0 example_pmm"
proof -
  have "pmm_layout example_pmm"
    by (simp add: pmm_layout_def example_test bitmap_frame_list_def bitmap_phys_def)
      (simp add: example_pmm_def upt_rec)
  then show ?thesis by (simp add: pmm_ok_def pmm_inv_def example_wf example_free example_fields)
qed

lemma example_alloc: "map_option fst (pmm_alloc_frames 3 example_pmm) = Some 0x2000"
  by (simp add: pmm_alloc_frames_def pmm_alloc_frames_loop.simps example_test example_fields
      pmm_take_run_def Let_def)

section \<open>Allocation\<close>

text \<open>
  C1.  \<open>pmm_alloc_frames\<close> always returns.  It takes a run of \<open>count\<close> consecutive free frames, not
  containing frame 0, and returns its physical address whenever the free counter allows it and
  such a run exists; otherwise it returns \<open>NULL\<close> and changes nothing.  Taking the run sets exactly
  its bits, moves the counters by \<open>count\<close>, and writes no byte outside the bitmap, and the
  allocator's invariant is kept.
\<close>

theorem pmm_alloc_frames_correct:
  assumes "pmm_wf s"
  shows "\<exists>p s'. pmm_alloc_frames count s = Some (p, s')
     \<and> alloc_outcome s (\<lambda>_. True) count p s' \<and> (pmm_inv d s \<longrightarrow> pmm_inv d s')"
  using pmm_alloc_frames_outcome [OF assms, of count] alloc_outcome_inv by blast

theorem pmm_alloc_frames_correct_witness:
  "\<exists>p s'. pmm_alloc_frames 3 example_pmm = Some (p, s')
     \<and> alloc_outcome example_pmm (\<lambda>_. True) 3 p s' \<and> pmm_inv 0 s'"
  using pmm_alloc_frames_correct [OF example_wf, of 3 0] example_ok by (auto simp: pmm_ok_def)

text \<open>
  C2.  \<open>pmm_alloc_frames_aligned\<close> with a non-zero alignment has the same outcome for runs that
  start at a multiple of the alignment, raised to the page size; the address it returns is a
  multiple of that.
\<close>

theorem pmm_alloc_frames_aligned_correct:
  assumes "pmm_wf s" and "alignment \<noteq> 0"
  shows "\<exists>p s'. pmm_alloc_frames_aligned count alignment s = Some (p, s')
     \<and> alloc_outcome s (\<lambda>f. (f * PAGE_SIZE) mod max alignment PAGE_SIZE = 0) count p s'
     \<and> unat p mod unat (max alignment PAGE_SIZE) = 0 \<and> (pmm_inv d s \<longrightarrow> pmm_inv d s')"
proof -
  obtain p s' where "pmm_alloc_frames_aligned count alignment s = Some (p, s')"
    and out: "alloc_outcome s (\<lambda>f. (f * PAGE_SIZE) mod max alignment PAGE_SIZE = 0) count p s'"
    using pmm_alloc_frames_aligned_outcome [OF assms, of count] by blast
  moreover from out have "p mod max alignment PAGE_SIZE = 0"
    unfolding alloc_outcome_def free_run_def of_nat_mult of_nat_numeral by (metis mod_0)
  then have "unat p mod unat (max alignment PAGE_SIZE) = 0"
    by (metis unat_mod_u64 unat_0)
  ultimately show ?thesis
    using alloc_outcome_inv [OF _ out, of d]
    by (intro exI [where x = p] exI [where x = s'] conjI impI)
qed

theorem pmm_alloc_frames_aligned_correct_witness:
  "\<exists>p s'. pmm_alloc_frames_aligned 2 0x4000 example_pmm = Some (p, s') \<and> unat p mod 0x4000 = 0"
  using pmm_alloc_frames_aligned_correct [OF example_wf, of "0x4000" 2 0] by (auto simp: max_def)

text \<open>
  C3.  Freeing a block with the address and count it was allocated with restores the whole state,
  bitmap bytes, counters and log included; only the search hint has moved.
\<close>

theorem pmm_alloc_free_roundtrip:
  assumes "pmm_wf s" and "pmm_alloc_frames count s = Some (p, s')" and "p \<noteq> 0"
  shows "\<exists>hint. pmm_free_frames p count s' = s\<lparr>next_fit_hint := hint\<rparr>"
proof -
  have out: "alloc_outcome s (\<lambda>_. True) count p s'"
    using pmm_alloc_frames_outcome [OF assms(1), of count] assms(2) by auto
  then obtain r where "free_run s (\<lambda>_. True) (unat count) r" "p = of_nat (r * 4096)"
    "run_taken s (unat count) r s'" "count \<noteq> 0"
    using assms(3) by (auto simp: alloc_outcome_def split: if_splits)
  then show ?thesis using take_free_restores [OF assms(1)] by blast
qed

theorem pmm_alloc_free_roundtrip_witness:
  "\<exists>s' hint. pmm_alloc_frames 3 example_pmm = Some (0x2000, s')
     \<and> pmm_free_frames 0x2000 3 s' = example_pmm\<lparr>next_fit_hint := hint\<rparr>"
proof -
  obtain s' where "pmm_alloc_frames 3 example_pmm = Some (0x2000, s')"
    using example_alloc by auto
  then show ?thesis using pmm_alloc_free_roundtrip [OF example_wf, of 3 "0x2000" s'] by auto
qed

text \<open>
  C4.  After any sequence of allocations, writes of the clients into their own blocks, and frees,
  the live blocks are pairwise disjoint, lie in frames that were free at the start, and the free
  frames are exactly the initial ones that no live block covers; the invariant still holds.
\<close>

theorem pmm_live_blocks:
  assumes "pmm_ok d s0" and "pmm_run s0 s bs"
  shows "pmm_ok d s \<and> pairwise (\<lambda>b b'. disjnt (block_frames b) (block_frames b')) bs
     \<and> live_frames bs \<subseteq> free_frames s0 \<and> free_frames s = free_frames s0 - live_frames bs"
  using pmm_run_live [OF assms(2,1)] by (simp add: live_inv_def)

theorem pmm_live_blocks_witness:
  "\<exists>s. pmm_run example_pmm s {(2, 3)} \<and> free_frames s = {5..<16}"
proof -
  obtain s where s: "pmm_alloc_frames 3 example_pmm = Some (0x2000, s)"
    using example_alloc by auto
  have run: "pmm_run example_pmm s {(2, 3)}"
    using pmm_run.alloc [OF pmm_run.start s] by (simp add: add_block_def)
  moreover have "free_frames s = {2..<16} - {2..<5}"
    using pmm_live_blocks [OF example_ok run] by (simp add: example_free block_frames_def)
  moreover have "{2..<16} - {2..<5} = {5..<16 :: nat}" by auto
  ultimately show ?thesis by blast
qed

text \<open>
  C5.  \<open>pmm_alloc_frames_zeroed\<close> on a well-formed allocator either returns \<open>NULL\<close> and changes
  nothing, or returns the address of a run whose every byte, read through the direct map, is 0;
  bytes of other frames outside the bitmap keep their value, and zeroing the pages does not
  disturb the bitmap: precisely the run has left the set of free frames.
\<close>

theorem pmm_alloc_frames_zeroed_correct:
  assumes "pmm_ok d s"
  shows "\<exists>p s'. pmm_alloc_frames_zeroed count s = Some (p, s') \<and> pmm_ok d s'
     \<and> (p = 0 \<and> s' = s
        \<or> (\<exists>r. p = of_nat (r * 4096) \<and> p \<noteq> 0 \<and> {r..<r + unat count} \<subseteq> free_frames s
             \<and> free_frames s' = free_frames s - {r..<r + unat count}
             \<and> (\<forall>a. \<not> in_bitmap s a \<longrightarrow> mem s' a =
                   (if r \<le> frame_of s a \<and> frame_of s a < r + unat count then 0 else mem s a))))"
proof -
  have wf: "pmm_wf s" using assms by (simp add: pmm_ok_def pmm_inv_def)
  obtain p s' where call: "pmm_alloc_frames_zeroed count s = Some (p, s')"
    and out: "zeroed_outcome s (\<lambda>_. True) count p s'"
    using pmm_alloc_frames_zeroed_outcome [OF wf] by blast
  from zeroed_outcome_cases [OF assms out] call show ?thesis by blast
qed

theorem pmm_alloc_frames_zeroed_correct_witness:
  "\<exists>p s'. pmm_alloc_frames_zeroed 2 example_pmm = Some (p, s') \<and> pmm_ok 0 s'"
  using pmm_alloc_frames_zeroed_correct [OF example_ok, of 2] by blast

section \<open>Release\<close>

text \<open>
  C6.  \<open>pmm_free_frames\<close> clears the bits of the frames from the one that holds the address up to
  \<open>count\<close> frames on, cut off at the end of the bitmap; the free and used counters move by the
  number of these frames that were in use; no byte outside the bitmap changes.  The invariant is
  kept unless the range starts in frame 0.
\<close>

theorem pmm_free_frames_correct:
  fixes phys_addr count :: u64
  assumes "pmm_inv d s" and "4096 \<le> unat phys_addr"
  defines "X \<equiv> {unat phys_addr div 4096..<min (unat phys_addr div 4096 + unat count) (frames s)}"
  shows "frames_freed s X (pmm_free_frames phys_addr count s)
     \<and> free_frames (pmm_free_frames phys_addr count s) = free_frames s \<union> X
     \<and> pmm_inv d (pmm_free_frames phys_addr count s)"
proof -
  have F: "frames s \<le> 2 ^ 52" using assms(1) by (simp add: pmm_inv_def pmm_wf_def)
  have freed: "frames_freed s X (pmm_free_frames phys_addr count s)"
    unfolding X_def by (rule pmm_free_frames_freed [OF F])
  have X: "X \<subseteq> {..<frames s}" "0 \<notin> X" using assms(2) by (auto simp: X_def)
  have "free_frames s \<union> used_in s X = free_frames s \<union> X"
    using X(1) by (auto simp: used_in_def free_frames_def)
  then show ?thesis
    using freed frames_freed_free_frames [OF F freed X(1)] frames_freed_inv [OF assms(1) freed X]
    by simp
qed

theorem pmm_free_frames_correct_witness:
  "pmm_inv 0 (pmm_free_frames 0x5000 2 example_pmm)
     \<and> free_frames (pmm_free_frames 0x5000 2 example_pmm) = {2..<16}"
  using pmm_free_frames_correct [of 0 example_pmm "0x5000" 2] example_ok
  by (auto simp: pmm_ok_def example_free example_fields)

section \<open>Initialisation\<close>

text \<open>
  C7.  On a memory map whose entries end below the 52-bit limit and where a usable entry can hold
  the bitmap, \<open>pmm_init\<close> returns a well-formed allocator: the bitmap covers every RAM entry, the
  free frames are the whole frames of usable entries except frame 0 and the frames of the bitmap
  itself, which stay protected, and the free and used counters add up to the usable total.
\<close>

theorem pmm_init_correct:
  assumes "memmap_wf memmap" and "memmap_top memmap \<noteq> 0" and "memmap_bitmap memmap \<noteq> None"
    and "next_fit_hint s = 0"
  shows "\<exists>s'. pmm_init memmap hhdm s = Some s' \<and> pmm_wf s' \<and> pmm_layout s'
     \<and> frames s' = unat (memmap_top memmap) div 4096
     \<and> set (bitmap_frame_list s') \<subseteq> usable_frames memmap
     \<and> free_frames s' = usable_frames memmap - {0} - set (bitmap_frame_list s')
     \<and> pmm_usable_frames_count s'
         = of_nat (\<Sum>e\<leftarrow>usable_entries memmap. card (entry_frames e))
     \<and> pmm_free_frames_count s' + pmm_used_frames_count s' = pmm_usable_frames_count s'"
proof -
  obtain bp where "memmap_bitmap memmap = Some bp" using assms(3) by blast
  from pmm_init_spec [OF assms(1,2) this assms(4)] show ?thesis by blast
qed

definition example_memmap :: "limine_memmap_entry list" where
  "example_memmap = [\<lparr>entry_base = 0x1000, entry_length = 0xF000, entry_type = 0\<rparr>]"

lemma example_memmap_facts:
  "memmap_wf example_memmap" "memmap_top example_memmap = 0x10000"
  "memmap_bitmap example_memmap = Some 0x1000" "usable_frames example_memmap = {1..<16}"
proof -
  show "memmap_wf example_memmap" by (simp add: memmap_wf_def example_memmap_def)
  show top: "memmap_top example_memmap = 0x10000"
    by (simp add: memmap_top_def example_memmap_def pmm_scan_entry_def Let_def align_up_def
        align_down_def is_ram_type_def)
  show "memmap_bitmap example_memmap = Some 0x1000"
    by (simp add: memmap_bitmap_def top) (simp add: example_memmap_def align_up_def)
  show "usable_frames example_memmap = {1..<16}"
    by (simp add: usable_frames_def usable_entries_def example_memmap_def entry_frames_def)
qed

theorem pmm_init_correct_witness:
  "\<exists>s'. pmm_init example_memmap 0xFFFF800000000000 example_pmm = Some s' \<and> pmm_wf s' \<and> frames s' = 16"
  using pmm_init_correct [OF example_memmap_facts(1), of example_pmm "0xFFFF800000000000"]
  by (auto simp: example_memmap_facts example_fields)

text \<open>
  C8.  The free counter after \<open>pmm_init\<close>.  When frame 0 is usable it is the number of free frames;
  when it is not, which is what Limine guarantees, the counter is one too low: the step that
  protects frame 0 decrements it although no free frame was taken.  When in addition the bitmap
  fills every usable frame the counter wraps around to \<open>2 ^ 64 - 1\<close> with no frame free.
\<close>

theorem pmm_init_free_counter:
  assumes "memmap_wf memmap" and "memmap_top memmap \<noteq> 0" and "memmap_bitmap memmap \<noteq> None"
    and "next_fit_hint s = 0" and "pmm_init memmap hhdm s = Some s'"
  shows "if 0 \<in> usable_frames memmap then pmm_inv 0 s'
     else if free_frames s' \<noteq> {} then pmm_inv 1 s'
     else pmm_free_frames_count s' = - 1"
proof -
  obtain bp where "memmap_bitmap memmap = Some bp" using assms(3) by blast
  from pmm_init_spec [OF assms(1,2) this assms(4), of hhdm] assms(5)
  have wf: "pmm_wf s'" and B: "set (bitmap_frame_list s') \<subseteq> usable_frames memmap"
    and free: "free_frames s' = usable_frames memmap - {0} - set (bitmap_frame_list s')"
    and cnt: "pmm_free_frames_count s' = of_nat (card (usable_frames memmap)) - 1
       - of_nat (card (set (bitmap_frame_list s') - {0}))"
    by auto
  have "finite (usable_frames memmap)" by (simp add: usable_frames_def entry_frames_def)
  from init_counter_value [OF this B] have count: "pmm_free_frames_count s'
      = of_nat (card (free_frames s')) - (if 0 \<in> usable_frames memmap then 0 else 1)"
    using cnt free by simp
  have "card (free_frames s') \<le> frames s'"
    using card_mono [of "{..<frames s'}" "free_frames s'"] by (auto simp: free_frames_def)
  then have small: "unat (of_nat (card (free_frames s')) :: u64) = card (free_frames s')"
    using wf by (intro unat_of_nat_small) (simp add: pmm_wf_def)
  show ?thesis
  proof (cases "0 \<in> usable_frames memmap")
    case True
    then show ?thesis using wf count small by (simp add: pmm_inv_def)
  next
    case False
    have "pmm_inv 1 s'" if ne: "free_frames s' \<noteq> {}"
    proof -
      have pos: "card (free_frames s') \<noteq> 0" using ne by simp
      then have "(of_nat (card (free_frames s')) :: u64) \<noteq> 0" using small by (metis unat_0)
      then have "unat (pmm_free_frames_count s') = card (free_frames s') - 1"
        using count False small by (simp add: unat_dec_small)
      then have "unat (pmm_free_frames_count s') + 1 = card (free_frames s')" using pos by linarith
      then show ?thesis using wf by (simp only: pmm_inv_def simp_thms)
    qed
    then show ?thesis using False count by simp
  qed
qed

theorem pmm_init_free_counter_witness:
  "\<exists>s'. pmm_init example_memmap 0xFFFF800000000000 example_pmm = Some s' \<and> pmm_inv 1 s'"
proof -
  obtain s' where s': "pmm_init example_memmap 0xFFFF800000000000 example_pmm = Some s'"
    and free: "free_frames s' = {1..<16} - {0} - set (bitmap_frame_list s')"
    and F: "frames s' = 16" and "pmm_bitmap s' - hhdm_offset s' = 0x1000"
    using pmm_init_state [OF example_memmap_facts(1) _ example_memmap_facts(3),
        of "0xFFFF800000000000" example_pmm]
      pmm_init_spec [OF example_memmap_facts(1) _ example_memmap_facts(3), of example_pmm "0xFFFF800000000000"]
    by (auto simp: example_memmap_facts example_fields)
  have "set (bitmap_frame_list s') = {1}"
    by (simp add: bitmap_frame_list_def bitmap_phys_def F \<open>pmm_bitmap s' - hhdm_offset s' = 0x1000\<close> upt_rec)
  then have "2 \<in> free_frames s'" using free by simp
  then have "free_frames s' \<noteq> {}" by blast
  then show ?thesis
    using pmm_init_free_counter [OF example_memmap_facts(1) _ _ _ s'] s'
    by (auto simp: example_memmap_facts example_fields)
qed

text \<open>
  With the counter one too low the last free frame cannot be allocated: \<open>pmm_alloc\<close> returns
  \<open>NULL\<close> although a frame is free.
\<close>

lemma pmm_last_frame_lost:
  assumes "pmm_inv 1 s" and "card (free_frames s) = 1"
  shows "pmm_alloc s = Some (0, s)"
proof -
  have "pmm_free_frames_count s = 0" using assms by (simp add: pmm_inv_def unat_zero_iff)
  then show ?thesis by (simp add: pmm_alloc_def pmm_alloc_frames_def)
qed

end
