(* ===== verification/Vmm_Properties.thy ===== *)
theory Vmm_Properties
  imports Vmm_View Pmm_Properties
begin

text \<open>
  The properties of the virtual memory manager, \<open>kernel/arch/x86_64/mm/vmm.c\<close>, over the
  translation that the page tables give, and a concrete state at which they are evaluated.
\<close>

section \<open>A concrete address space\<close>

text \<open>
  Sixteen frames, the bitmap in frame 1, an empty top-level table in frame 2.
\<close>

definition example_vmm :: vmm_state where
  "example_vmm = \<lparr>mem = (\<lambda>_. 0)(0xFFFF800000001000 := 0x07), port_out = [],
     pmm_bitmap = 0xFFFF800000001000, pmm_bitmap_bytes = 2, pmm_bitmap_frames = 16,
     pmm_total_frames_count = 16, pmm_usable_frames_count = 16, pmm_free_frames_count = 13,
     pmm_used_frames_count = 3, next_fit_hint = 0, hhdm_offset = 0xFFFF800000000000,
     kernel_pml4_phys = 0x2000, invlpgs = []\<rparr>"

lemma example_vmm_fields:
  "pmm_bitmap_frames example_vmm = 16" "pmm_free_frames_count example_vmm = 13"
  "hhdm_offset example_vmm = 0xFFFF800000000000" "kernel_pml4_phys example_vmm = of_nat (2 * 4096)"
  "invlpgs example_vmm = []" "next_fit_hint example_vmm = 0"
  by (simp_all add: example_vmm_def)

lemma example_vmm_test: "pmm_test_frame example_vmm f \<longleftrightarrow> unat f < 3"
proof -
  have "bit (7::u8) n \<longleftrightarrow> n < 3" for n
    by (simp add: bit_numeral_rec bit_1_iff split: nat.splits) auto
  moreover have "f div 8 = 0 \<longleftrightarrow> unat f < 8"
    unfolding word_eq_unat unat_div_u64 by (auto simp: div_eq_0_iff)
  ultimately show ?thesis
    by (auto simp: pmm_test_frame_bit bitmap_byte_def example_vmm_def unat_mod_u64)
qed

lemma example_vmm_free: "free_frames example_vmm = {3..<16}"
  by (auto simp: free_frames_def example_vmm_test example_vmm_fields unat_of_nat_small)

lemma example_vmm_ok: "pmm_ok 0 example_vmm"
proof -
  have "pmm_layout example_vmm"
    by (simp add: pmm_layout_def example_vmm_test bitmap_frame_list_def bitmap_phys_def)
      (simp add: example_vmm_def upt_rec)
  moreover have "pmm_wf example_vmm"
    by (simp add: pmm_wf_def example_vmm_test example_vmm_fields)
  ultimately show ?thesis by (simp add: pmm_ok_def pmm_inv_def example_vmm_free example_vmm_fields)
qed

lemma example_vmm_tabs: "i < 512 \<Longrightarrow> ptabs example_vmm 2 i = 0"
proof (rule ptabs_zero)
  fix a assume "frame_of example_vmm a = 2"
  then have "a \<noteq> 0xFFFF800000001000" by (auto simp: frame_of_def example_vmm_fields)
  then show "mem example_vmm a = 0" by (simp add: example_vmm_def)
qed simp_all

lemma example_vmm_tree: "vmm_tree 0 2 example_vmm"
proof -
  have at: "table_at (ptabs example_vmm) 2 p = (if p = [] then Some 2 else None)" if "path p" for p
    using that
  proof (induction p rule: rev_induct)
    case (snoc i p)
    then show ?case
      by (auto simp: path_snoc table_at_snoc child_def example_vmm_tabs)
  qed simp
  have "pmm_owned example_vmm 2"
    by (simp add: pmm_owned_def example_vmm_free example_vmm_fields bitmap_frame_list_def bitmap_phys_def)
      (simp add: example_vmm_def)
  then have "pt_wf (ptabs example_vmm) 2 (pmm_owned example_vmm)"
    unfolding pt_wf_def by (auto simp: at example_vmm_tabs split: if_splits)
  moreover have "hhdm_ok example_vmm" by (simp add: hhdm_ok_def example_vmm_fields)
  ultimately show ?thesis using example_vmm_ok by (simp add: vmm_tree_def)
qed

lemma example_kernel_tree: "kernel_tree 0 2 example_vmm"
  using example_vmm_tree example_vmm_fields(4) by (simp add: kernel_tree_def)

lemma example_task_tree: "task_tree 0 2 (pml4_ptr example_vmm 2) example_vmm"
  using example_vmm_tree by (simp add: task_tree_def)

lemma example_vmm_empty: "page_view 2 example_vmm v = None"
proof -
  obtain i4 i3 i2 i1 where v: "v = (i4, i3, i2, i1)" by (cases v)
  have "table_at (ptabs example_vmm) 2 [i4, i3] = None" if "i4 < 512"
    using table_at_snoc [of "ptabs example_vmm" 2 "[]" i4] table_at_snoc [of "ptabs example_vmm" 2 "[i4]" i3] that
    by (simp add: child_def example_vmm_tabs)
  then show ?thesis by (simp add: page_view_def translate_table v vpage_ok_def)
qed

lemma example_map:
  assumes "page_aligned virt" and "page_aligned phys"
  shows "\<exists>s'. vmm_map virt phys flags example_vmm = Some (True, s') \<and> kernel_tree 0 2 s'"
proof -
  have "frames_left example_vmm = 13" by (simp add: frames_left_def example_vmm_fields)
  then show ?thesis
    using kernel_mapper.map1 [OF example_kernel_tree assms TrueI, of flags] example_vmm_empty
    by (auto simp del: page_view_of split: if_splits)
qed

section \<open>The address space\<close>

text \<open>
  C9.  The virtual memory manager implements an address space.  Any sequence of \<open>vmm_map\<close>,
  \<open>vmm_map_huge_2mb\<close>, \<open>vmm_unmap\<close> and \<open>vmm_unmap_huge_2mb\<close> calls returns, keeps the tables a
  well-formed tree of allocated frames, and what the processor translates afterwards is the result
  of the same operations on a map from pages to entries: a call that reports failure changes no
  translation, and a call that reports success was applicable and has exactly its own effect.
\<close>

theorem vmm_refines_address_space:
  assumes "kernel_tree d root s"
  shows "\<exists>bs s'. vmm_run ops s = Some (bs, s') \<and> length bs = length ops \<and> kernel_tree d root s'
     \<and> spec_run (page_view root s) (zip ops bs) (page_view root s')"
  by (rule vmm_run_spec [OF assms])

theorem vmm_refines_address_space_witness:
  "\<exists>bs s'. vmm_run [Op_Map 0x400000 0x5000 6, Op_Unmap 0x400000] example_vmm = Some (bs, s')
     \<and> length bs = 2 \<and> kernel_tree 0 2 s'"
  using vmm_refines_address_space [OF example_kernel_tree, of "[Op_Map 0x400000 0x5000 6, Op_Unmap 0x400000]"]
  by auto

text \<open>
  C10.  \<open>vmm_map\<close> on aligned addresses always returns.  When it succeeds, the page of \<open>virt\<close> was not
  mapped before and is now translated by \<open>phys | (flags & ~PTE_PRESENT) | PTE_PRESENT\<close>, every other
  page is translated as before, the page's TLB entry is invalidated, and at most three frames are
  used for tables; when it fails, every page is translated as before, and either fewer than three
  frames are left or the page is mapped already.  Unaligned addresses are refused without any
  effect.
\<close>

theorem vmm_map_correct:
  assumes "vmm_tree d root s" and "kernel_pml4_phys s = of_nat (root * 4096)"
  shows "if page_aligned virt \<and> page_aligned phys
     then \<exists>b s'. vmm_map virt phys flags s = Some (b, s')
       \<and> map_outcome d root virt {vpage_of virt} (Small (leaf_entry phys flags)) s b s'
       \<and> (if b then frames_left s \<le> 3 + frames_left s' else frames_left s < 3 \<or> mapped s' root virt)
     else vmm_map virt phys flags s = Some (False, s)"
proof (cases "page_aligned virt \<and> page_aligned phys")
  case True
  with vmm_map_outcome [OF assms, of virt phys flags, unfolded cost_def] show ?thesis by simp
qed (auto simp: vmm_map_directory)

theorem vmm_map_correct_witness:
  "\<exists>b s'. vmm_map 0x400000 0x5000 6 example_vmm = Some (b, s') \<and> vmm_tree 0 2 s'"
  using vmm_map_correct [OF example_vmm_tree example_vmm_fields(4), of "0x400000" "0x5000" 6]
  by (auto simp: page_aligned_def map_outcome_def)

text \<open>
  C11.  \<open>vmm_map_huge_2mb\<close> is the same for the 512 pages of a 2 MiB region, with at most two tables;
  it fails when the entry of the page directory is in use, be it by a page table with no page left
  in it.
\<close>

theorem vmm_map_huge_2mb_correct:
  assumes "vmm_tree d root s" and "kernel_pml4_phys s = of_nat (root * 4096)"
  shows "if huge_aligned virt \<and> huge_aligned phys
     then \<exists>b s'. vmm_map_huge_2mb virt phys flags s = Some (b, s')
       \<and> map_outcome d root virt (huge_pages virt) (Huge (huge_entry phys flags)) s b s'
       \<and> (if b then frames_left s \<le> 2 + frames_left s' else frames_left s < 2 \<or> region_taken s' root virt)
     else vmm_map_huge_2mb virt phys flags s = Some (False, s)"
proof (cases "huge_aligned virt \<and> huge_aligned phys")
  case True
  with vmm_map_huge_outcome [OF assms, of virt phys flags, unfolded cost_def] show ?thesis by simp
qed (auto simp: vmm_map_huge_directory)

theorem vmm_map_huge_2mb_correct_witness:
  "\<exists>b s'. vmm_map_huge_2mb 0x400000 0x200000 6 example_vmm = Some (b, s') \<and> vmm_tree 0 2 s'"
  using vmm_map_huge_2mb_correct [OF example_vmm_tree example_vmm_fields(4), of "0x400000" "0x200000" 6]
  by (auto simp: huge_aligned_def map_outcome_def)

text \<open>
  C12.  \<open>vmm_unmap\<close> succeeds exactly on an aligned address that is mapped.  It removes the entry, so
  that all pages the entry serves are unmapped: one page, or the whole 2 MiB region when the
  address lies in one.  Every other page is translated as before, and the TLB entry is invalidated.
\<close>

theorem vmm_unmap_correct:
  assumes "vmm_tree d root s" and "kernel_pml4_phys s = of_nat (root * 4096)"
  shows "\<exists>s'. vmm_unmap virt s = (page_aligned virt \<and> mapped s root virt, s')
       \<and> unmap_outcome d root virt (entry_pages s root virt) s (page_aligned virt \<and> mapped s root virt) s'"
  by (rule vmm_unmap_outcome [OF assms])

theorem vmm_unmap_correct_witness:
  "\<exists>s s'. vmm_map 0x400000 0x5000 6 example_vmm = Some (True, s)
     \<and> vmm_unmap 0x400000 s = (mapped s 2 0x400000, s') \<and> vmm_tree 0 2 s'"
proof -
  obtain s where s: "vmm_map 0x400000 0x5000 6 example_vmm = Some (True, s)" "kernel_tree 0 2 s"
    using example_map [of "0x400000" "0x5000" 6] by (auto simp: page_aligned_def)
  then show ?thesis
    using vmm_unmap_correct [of 0 2 s "0x400000"]
    by (auto simp: kernel_tree_def page_aligned_def unmap_outcome_def)
qed

section \<open>Ranges\<close>

text \<open>
  C13.  \<open>vmm_map_range\<close> always returns.  It maps the pages of the range in order, each to the
  corresponding physical page, and stops at the first page that is mapped already or for which
  the tables cannot be allocated; the pages before it stay mapped, and no page outside is touched.
  It reports success exactly when it has mapped all of them.
\<close>

theorem vmm_map_range_correct:
  assumes "kernel_tree d root s" and "page_aligned virt" and "page_aligned phys"
  shows "\<exists>b s' j. vmm_map_range virt phys count flags s = Some (b, s') \<and> kernel_tree d root s'
     \<and> j \<le> unat count \<and> (b \<longleftrightarrow> j = unat count)
     \<and> range_added virt phys (\<lambda>p. leaf_entry p flags) 0 j (page_view root s) (page_view root s')
     \<and> (\<not> b \<longrightarrow> frames_left s < 3 * Suc j \<or> page_view root s' (page_at virt j) \<noteq> None)"
  using kernel_mapper.range_loop_outcome [OF assms, of 0 "unat count" flags]
  unfolding vmm_map_range_def vmm_map_range_kernel_mapper by simp

theorem vmm_map_range_correct_witness:
  "\<exists>b s'. vmm_map_range 0x400000 0x5000 4 6 example_vmm = Some (b, s') \<and> kernel_tree 0 2 s'"
  using vmm_map_range_correct [OF example_kernel_tree, of "0x400000" "0x5000" 4 6]
  by (auto simp: page_aligned_def)

text \<open>
  C14.  \<open>vmm_map_range_for_pml4\<close> does the same in the address space of a task, as long as no 2 MiB
  page lies in the range.  The entry has its no-execute bit cleared whatever the flags say.
\<close>

theorem vmm_map_range_for_pml4_correct:
  assumes "task_tree d root pml4 s" and "page_aligned virt" and "page_aligned phys"
    and "\<And>i. i < unat count \<Longrightarrow> not_huge (page_view root s (page_at virt i))"
  shows "(\<exists>b s' j. vmm_map_range_for_pml4 pml4 virt phys count flags s = Some (b, s') \<and> task_tree d root pml4 s'
     \<and> j \<le> unat count \<and> (b \<longleftrightarrow> j = unat count)
     \<and> range_added virt phys (\<lambda>p. user_entry p flags) 0 j (page_view root s) (page_view root s')
     \<and> (\<not> b \<longrightarrow> frames_left s < 3 * Suc j \<or> page_view root s' (page_at virt j) \<noteq> None))
     \<and> (\<forall>p. \<not> bit (user_entry p flags) 63)"
  using task_mapper.range_loop_outcome [OF assms(1-3), of 0 "unat count" flags] assms(4)
  unfolding vmm_map_range_for_pml4_def vmm_map_range_task_mapper by simp

theorem vmm_map_range_for_pml4_correct_witness:
  "\<exists>b s'. vmm_map_range_for_pml4 (pml4_ptr example_vmm 2) 0x400000 0x5000 4 6 example_vmm = Some (b, s')
     \<and> task_tree 0 2 (pml4_ptr example_vmm 2) s'"
  using vmm_map_range_for_pml4_correct [OF example_task_tree, of "0x400000" "0x5000" 4 6]
  by (auto simp: page_aligned_def example_vmm_empty not_huge_def)

text \<open>
  C16.  Unmapping a range that \<open>vmm_map_range\<close> has mapped restores the address space.
\<close>

theorem vmm_map_unmap_range_roundtrip:
  assumes "kernel_tree d root s" and "page_aligned virt" and "page_aligned phys"
    and "vmm_map_range virt phys count flags s = Some (True, s')"
  shows "\<exists>s''. vmm_unmap_range virt count s' = (True, s'') \<and> kernel_tree d root s''
     \<and> page_view root s'' = page_view root s"
proof -
  from kernel_mapper.range_loop_outcome [OF assms(1-3), of 0 "unat count" flags] assms(4)
  have tree: "kernel_tree d root s'"
    and added: "range_added virt phys (\<lambda>p. leaf_entry p flags) 0 (unat count) (page_view root s) (page_view root s')"
    unfolding vmm_map_range_def vmm_map_range_kernel_mapper by auto
  have "not_huge (page_view root s' (page_at virt i))" if "i < unat count" for i
    using added that by (simp add: range_added_def not_huge_def)
  from vmm_unmap_range_view [OF tree assms(2) this]
  obtain s'' where un: "vmm_unmap_range virt count s' = (True, s'')" "kernel_tree d root s''"
    "page_view root s'' = (\<lambda>v. if v \<in> page_at virt ` {..<unat count} then None else page_view root s' v)" by blast
  have "page_view root s'' = page_view root s"
    using added unfolding un(3) range_added_def fun_eq_iff by (auto simp: atLeast0LessThan)
  then show ?thesis using un by blast
qed

lemma example_map_range:
  "\<exists>s'. vmm_map_range 0x400000 0x5000 2 6 example_vmm = Some (True, s')"
proof -
  obtain b s' j where r: "vmm_map_range 0x400000 0x5000 2 6 example_vmm = Some (b, s')" "j \<le> 2" "b \<longleftrightarrow> j = 2"
    and added: "range_added 0x400000 0x5000 (\<lambda>p. leaf_entry p 6) 0 j (page_view 2 example_vmm) (page_view 2 s')"
    and why: "\<not> b \<longrightarrow> frames_left example_vmm < 3 * Suc j \<or> page_view 2 s' (page_at 0x400000 j) \<noteq> None"
    using kernel_mapper.range_loop_outcome [OF example_kernel_tree, of "0x400000" "0x5000" 0 2 6]
    unfolding vmm_map_range_def vmm_map_range_kernel_mapper by (auto simp: page_aligned_def)
  have "page_at 0x400000 1 \<noteq> page_at 0x400000 0"
    by (simp add: page_at_def vpage_of_def PT_INDEX_def word_eq_unat)
  then have "page_at 0x400000 j \<notin> page_at 0x400000 ` {0..<j}" if "j < 2"
    using that by (cases j) auto
  then have "page_view 2 s' (page_at 0x400000 j) = None" if "j < 2"
    using added that example_vmm_empty unfolding range_added_def by metis
  moreover have "frames_left example_vmm = 13" by (simp add: frames_left_def example_vmm_fields)
  ultimately show ?thesis using r why by auto
qed

theorem vmm_map_unmap_range_roundtrip_witness:
  "\<exists>s' s''. vmm_map_range 0x400000 0x5000 2 6 example_vmm = Some (True, s')
     \<and> vmm_unmap_range 0x400000 2 s' = (True, s'') \<and> page_view 2 s'' = page_view 2 example_vmm"
proof -
  obtain s' where s': "vmm_map_range 0x400000 0x5000 2 6 example_vmm = Some (True, s')"
    using example_map_range by blast
  then show ?thesis
    using vmm_map_unmap_range_roundtrip [OF example_kernel_tree _ _ s'] by (auto simp: page_aligned_def)
qed

section \<open>Queries\<close>

lemma low_flags:
  assumes "fl < (4096 :: u64)"
  shows "fl AND 0xFFF = fl" "fl AND NOT 0xFFF = 0"
proof -
  have "unat fl < 2 ^ 12" using assms by (simp add: word_less_unat)
  then have "take_bit 12 fl = fl" by (metis take_bit_nat_eq_self unsigned_take_bit_eq word_unat_eq_iff)
  then show "fl AND 0xFFF = fl" by (simp add: low_bits)
  then show "fl AND NOT 0xFFF = 0" by (metis and.assoc bit.conj_cancel_right bit.conj_zero_right)
qed

text \<open>
  C17.  After a successful \<open>vmm_map\<close> with flags in the low twelve bits and without the size bit,
  \<open>vmm_get_physical\<close> gives the physical address of every byte of the page, and \<open>vmm_get_flags\<close> the
  flags with the present bit.
\<close>

theorem vmm_map_query_roundtrip:
  assumes "kernel_tree d root s" and "vmm_map virt phys flags s = Some (True, s')"
    and "off < 4096" and "flags < 4096" and "\<not> bit flags 7"
  shows "vmm_get_physical s' (virt + off) = phys + off \<and> vmm_get_flags s' (virt + off) = flags OR 1"
proof -
  have "flags AND 0xFFF = flags" "flags AND NOT 0xFFF = 0" by (rule low_flags [OF assms(4)])+
  then show ?thesis using vmm_map_query [OF assms(1-3,5)] by simp
qed

theorem vmm_map_query_roundtrip_witness:
  "\<exists>s'. vmm_map 0x400000 0x5000 6 example_vmm = Some (True, s')
     \<and> vmm_get_physical s' 0x400123 = 0x5123 \<and> vmm_get_flags s' 0x400123 = 7"
proof -
  obtain s' where s': "vmm_map 0x400000 0x5000 6 example_vmm = Some (True, s')"
    using example_map [of "0x400000" "0x5000" 6] by (auto simp: page_aligned_def)
  then show ?thesis
    using vmm_map_query_roundtrip [OF example_kernel_tree s', of "0x123"] by (simp add: bit_numeral_rec)
qed

text \<open>
  C18.  The flag \<open>PTE_NX\<close> is bit 63 of the entry, and the queries do not know it: for a page at a physical
  address below \<open>2^63\<close> that is mapped with it and any other flags of the low twelve bits but the size bit,
  \<open>vmm_get_physical\<close> gives an address that is wrong by \<open>2^63\<close>, and \<open>vmm_get_flags\<close> shows the other flags only.
\<close>

theorem vmm_get_physical_nx:
  assumes "kernel_tree d root s" and "vmm_map virt phys (PTE_NX OR fl) s = Some (True, s')"
    and "off < 4096" and "\<not> bit phys 63" and "fl < 4096" and "\<not> bit fl 7"
  shows "vmm_get_physical s' (virt + off) = phys + 2 ^ 63 + off \<and> vmm_get_flags s' (virt + off) = fl OR PTE_PRESENT"
proof -
  have low: "fl AND 0xFFF = fl" "fl AND NOT 0xFFF = 0" by (rule low_flags [OF assms(5)])+
  have nx: "(PTE_NX OR fl) AND NOT 0xFFF = (PTE_NX :: u64)" "(PTE_NX OR fl) AND 0xFFF = fl" "\<not> bit (PTE_NX OR fl) 7"
    using low assms(6) by (simp_all add: bit.conj_disj_distrib2 bit_or_iff bit_numeral_rec)
  have "phys AND PTE_NX = 0"
    using and_exp_eq_0_iff_not_bit [of phys 63] assms(4) by simp
  then have "phys OR PTE_NX = phys + PTE_NX" by (simp add: disjunctive_add_eq_or)
  then show ?thesis using vmm_map_query [OF assms(1-3) nx(3)] unfolding nx by simp
qed

theorem vmm_get_physical_nx_witness:
  "\<exists>s'. vmm_map 0x400000 0x5000 (PTE_NX OR (PTE_WRITE OR PTE_USER)) example_vmm = Some (True, s')
     \<and> vmm_get_physical s' 0x400123 = 0x8000000000005123 \<and> vmm_get_flags s' 0x400123 = 7"
proof -
  obtain s' where s': "vmm_map 0x400000 0x5000 (PTE_NX OR (PTE_WRITE OR PTE_USER)) example_vmm = Some (True, s')"
    using example_map [of "0x400000" "0x5000"] by (auto simp: page_aligned_def)
  then show ?thesis
    using vmm_get_physical_nx [OF example_kernel_tree s', of "0x123"] by (simp add: bit_numeral_rec)
qed

end
