(* ===== verification/Descriptors.thy ===== *)
theory Descriptors
  imports Estella_Prelude
begin

text \<open>
  The descriptor tables of \<open>cpu/gdt.c\<close> and \<open>interrupts/idt.c\<close> as data: the packed structures of
  \<open>gdt.h\<close> and \<open>idt.h\<close>, the values \<open>gdt_init\<close> and \<open>idt_init\<close> store, and how the processor reads
  them.  The operations on the kernel state are in theory \<open>Kernel\<close>.

  Addresses the linker chooses are the fields of the parameter \<open>image\<close>.
\<close>

record image =
  img_tss :: u64
  img_gdt :: u64
  img_idt :: u64
  img_kernel_main_stack :: u64
  img_ist1_stack :: u64
  img_ist2_stack :: u64
  img_ist3_stack :: u64
  img_isr :: "nat \<Rightarrow> u64"
  img_lapic_timer_isr :: u64
  img_keyboard_isr :: u64
  img_lapic_error_isr :: u64
  img_syscall_handler :: u64

section \<open>Segment descriptors and the task state segment\<close>

record gdt_ptr =
  gp_limit :: u16
  gp_base :: u64

record gdt_entry =
  limit_low :: u16
  base_low :: u16
  base_mid :: u8
  access :: u8
  granularity :: u8
  base_high :: u8

record gdt_system_entry =
  s_limit_low :: u16
  s_base_low :: u16
  s_base_mid :: u8
  s_access :: u8
  s_granularity :: u8
  s_base_high :: u8
  s_base_upper :: u32
  s_reserved :: u32

record tss_struct =
  reserved0 :: u32
  rsp0 :: u64
  rsp1 :: u64
  rsp2 :: u64
  reserved1 :: u64
  ist1 :: u64
  ist2 :: u64
  ist3 :: u64
  ist4 :: u64
  ist5 :: u64
  ist6 :: u64
  ist7 :: u64
  reserved2 :: u64
  reserved3 :: u16
  iomap_base :: u16

abbreviation (input) sizeof_tss :: u64 where "sizeof_tss \<equiv> 104"
abbreviation (input) sizeof_gdt :: u64 where "sizeof_gdt \<equiv> 56"

text \<open>
  \<open>tss_desc\<close> points at \<open>gdt[5]\<close>: the sixteen bytes of a system descriptor fill two entries.
\<close>

definition system_entry_halves :: "gdt_system_entry \<Rightarrow> gdt_entry \<times> gdt_entry" where
  "system_entry_halves d =
     (\<lparr>limit_low = s_limit_low d, base_low = s_base_low d, base_mid = s_base_mid d, access = s_access d,
       granularity = s_granularity d, base_high = s_base_high d\<rparr>,
      \<lparr>limit_low = ucast (s_base_upper d), base_low = ucast (drop_bit 16 (s_base_upper d)),
       base_mid = ucast (s_reserved d), access = ucast (drop_bit 8 (s_reserved d)),
       granularity = ucast (drop_bit 16 (s_reserved d)), base_high = ucast (drop_bit 24 (s_reserved d))\<rparr>)"

definition tss_descriptor :: "u64 \<Rightarrow> gdt_system_entry" where
  "tss_descriptor tss_addr =
     \<lparr>s_limit_low = ucast (sizeof_tss - 1), s_base_low = ucast (tss_addr AND 0xFFFF),
      s_base_mid = ucast (drop_bit 16 tss_addr AND 0xFF), s_access = 0x89, s_granularity = 0,
      s_base_high = ucast (drop_bit 24 tss_addr AND 0xFF), s_base_upper = ucast (drop_bit 32 tss_addr),
      s_reserved = 0\<rparr>"

definition flat_segment :: "u8 \<Rightarrow> u8 \<Rightarrow> gdt_entry" where
  "flat_segment acc gran =
     \<lparr>limit_low = 0, base_low = 0, base_mid = 0, access = acc, granularity = gran, base_high = 0\<rparr>"

text \<open>The stores of \<open>gdt_init\<close> into the array, whose first entry they leave alone.\<close>

definition gdt_fill :: "u64 \<Rightarrow> gdt_entry list \<Rightarrow> gdt_entry list" where
  "gdt_fill tss_addr g =
     (let (lower, upper) = system_entry_halves (tss_descriptor tss_addr)
      in g[1 := flat_segment 0x9A 0x20, 2 := flat_segment 0x92 0x00, 3 := flat_segment 0xF2 0x00,
           4 := flat_segment 0xFA 0x20, 5 := lower, 6 := upper])"

section \<open>Interrupt gates\<close>

record idt_entry =
  offset_low :: u16
  selector :: u16
  ist :: u8
  type_attr :: u8
  offset_mid :: u16
  offset_high :: u32
  zero :: u32

record idtr =
  idtr_limit :: u16
  idtr_base :: u64

abbreviation (input) IDT_INTERRUPT :: u8 where "IDT_INTERRUPT \<equiv> 0x8E"
abbreviation (input) sizeof_idt :: u64 where "sizeof_idt \<equiv> 4096"

definition idt_set_gate :: "u8 \<Rightarrow> u64 \<Rightarrow> u8 \<Rightarrow> idt_entry list \<Rightarrow> idt_entry list" where
  "idt_set_gate n addr stack t =
     t[unat n := \<lparr>offset_low = ucast (addr AND 0xFFFF), selector = 0x08, ist = stack, type_attr = IDT_INTERRUPT,
                  offset_mid = ucast (drop_bit 16 addr AND 0xFFFF), offset_high = ucast (drop_bit 32 addr), zero = 0\<rparr>]"

text \<open>The gates \<open>idt_init\<close> sets after its loop: vector, handler and stack, in the order of the code.\<close>

definition idt_gates :: "image \<Rightarrow> (u8 \<times> u64 \<times> u8) list" where
  "idt_gates I =
     (let isr = img_isr I in
      [(0x00, isr 0, 0), (0x01, isr 1, 0), (0x02, isr 2, 2), (0x03, isr 3, 0), (0x04, isr 4, 0), (0x05, isr 5, 0),
       (0x06, isr 6, 0), (0x07, isr 7, 0), (0x08, isr 8, 1), (0x09, isr 9, 0), (0x0A, isr 10, 0), (0x0B, isr 11, 0),
       (0x0C, isr 12, 0), (0x0D, isr 13, 0), (0x0E, isr 14, 0), (0x0F, isr 15, 0), (0x10, isr 16, 0),
       (0x11, isr 17, 0), (0x12, isr 18, 3), (0x13, isr 19, 0), (0x14, isr 20, 0), (0x15, isr 21, 0),
       (0x16, isr 22, 0), (0x17, isr 23, 0), (0x18, isr 24, 0), (0x19, isr 25, 0), (0x1A, isr 26, 0),
       (0x1B, isr 27, 0), (0x1C, isr 28, 0), (0x1D, isr 29, 0), (0x1E, isr 30, 0), (0x1F, isr 31, 0),
       (0x20, img_lapic_timer_isr I, 0), (0x21, img_keyboard_isr I, 0), (0xFE, img_lapic_error_isr I, 0)])"

definition idt_fill :: "image \<Rightarrow> idt_entry list \<Rightarrow> idt_entry list" where
  "idt_fill I t =
     (let t = fold (\<lambda>i. idt_set_gate (of_nat i) (img_isr I 0 + of_nat i * 16) 0) [0..<256] t
      in fold (\<lambda>(n, handler, stack). idt_set_gate n handler stack) (idt_gates I) t)"

end
