(* ===== verification/Fbtext.thy ===== *)
theory Fbtext
  imports Klib_String
begin

text \<open>
  The framebuffer console, \<open>kernel/drivers/fbtext.c\<close>, and the font loader, \<open>kernel/drivers/font.c\<close>.

  The console works on a pair of its own variables and the byte memory, which holds the pixels (32
  bits each, at \<open>address + 4 * (y * stride + x)\<close>) and the glyphs.  A null pointer is \<open>None\<close> (the
  framebuffer, the font) or address 0 (the glyphs).
\<close>

section \<open>Fonts\<close>

record psf1_header =
  psf1_magic0 :: u8
  psf1_magic1 :: u8
  psf1_mode :: u8
  psf1_charsize :: u8

definition load_psf1_header :: "memory \<Rightarrow> u64 \<Rightarrow> psf1_header" where
  "load_psf1_header m p = \<lparr>psf1_magic0 = m p, psf1_magic1 = m (p + 1), psf1_mode = m (p + 2), psf1_charsize = m (p + 3)\<rparr>"

record psf2_header =
  psf2_magic :: u32
  psf2_version :: u32
  psf2_headersize :: u32
  psf2_flags :: u32
  psf2_length :: u32
  psf2_charsize :: u32
  psf2_height :: u32
  psf2_width :: u32

definition load_psf2_header :: "memory \<Rightarrow> u64 \<Rightarrow> psf2_header" where
  "load_psf2_header m p = \<lparr>psf2_magic = read32 m p, psf2_version = read32 m (p + 4), psf2_headersize = read32 m (p + 8),
     psf2_flags = read32 m (p + 12), psf2_length = read32 m (p + 16), psf2_charsize = read32 m (p + 20),
     psf2_height = read32 m (p + 24), psf2_width = read32 m (p + 28)\<rparr>"

text \<open>Both loaders return the address of the header, 0 when they reject the file.\<close>

definition load_psf1_font :: "memory \<Rightarrow> u64 \<Rightarrow> u64" where
  "load_psf1_font m fontfile =
     (if fontfile = 0 then 0
      else let hdr = load_psf1_header m fontfile
           in if psf1_magic0 hdr = 0x36 \<and> psf1_magic1 hdr = 0x04 then fontfile else 0)"

definition load_psf2_font :: "memory \<Rightarrow> u64 \<Rightarrow> u64 \<Rightarrow> u64" where
  "load_psf2_font m fontfile sz =
     (if fontfile = 0 then 0
      else if sz < 32 then 0
      else let hdr = load_psf2_header m fontfile
           in if psf2_magic hdr = 0x864AB572
              then if sz \<ge> ucast (psf2_headersize hdr + psf2_length hdr * psf2_charsize hdr) then fontfile else 0
              else 0)"

text \<open>
  \<open>font_t\<close>.  The union \<open>hdr\<close> is the address of the header, which is read when the code
  dereferences it.
\<close>

record font_t =
  is_psf2 :: bool
  font_hdr :: u64
  glyphs :: u64
  font_width :: u32
  font_height :: u32
  line_height :: u32
  glyph_count :: u32

section \<open>The console\<close>

record limine_framebuffer =
  fb_address :: u64
  fb_width :: u64
  fb_height :: u64
  fb_pitch :: u64

record fb_state =
  g_fb :: "limine_framebuffer option"
  g_font :: "font_t option"
  g_cursor_x :: u64
  g_cursor_y :: u64
  overwrite :: bool
  overwrite_pos :: u64

type_synonym fb_mem = "fb_state \<times> memory"

abbreviation (input) LEFT_MARGIN :: u64 where "LEFT_MARGIN \<equiv> 20"

definition fbtext_init :: "limine_framebuffer option \<Rightarrow> font_t option \<Rightarrow> fb_state \<Rightarrow> fb_state" where
  "fbtext_init fb font s =
     (let s = s\<lparr>g_fb := fb, g_font := font\<rparr>
      in case font of None \<Rightarrow> s
         | Some f \<Rightarrow> if glyphs f = 0 \<or> font_width f = 0 \<or> font_height f = 0 then s
                     else s\<lparr>g_cursor_x := LEFT_MARGIN, g_cursor_y := 15\<rparr>)"

definition fb_newline :: "font_t \<Rightarrow> fb_state \<Rightarrow> fb_state" where
  "fb_newline f s = s\<lparr>g_cursor_x := LEFT_MARGIN, g_cursor_y := g_cursor_y s + ucast (line_height f)\<rparr>"

definition fb_advance :: "limine_framebuffer \<Rightarrow> font_t \<Rightarrow> u64 \<Rightarrow> fb_state \<Rightarrow> fb_state" where
  "fb_advance fb f pixels s =
     (let s = s\<lparr>g_cursor_x := g_cursor_x s + pixels\<rparr>
      in if g_cursor_x s + ucast (font_width f) > fb_width fb then fb_newline f s else s)"

definition pixel_addr :: "limine_framebuffer \<Rightarrow> u64 \<Rightarrow> u64 \<Rightarrow> u64" where
  "pixel_addr fb px py = fb_address fb + 4 * (py * (fb_pitch fb div 4) + px)"

definition fb_clear_area ::
  "limine_framebuffer option \<Rightarrow> u64 \<Rightarrow> u64 \<Rightarrow> u64 \<Rightarrow> u64 \<Rightarrow> u32 \<Rightarrow> memory \<Rightarrow> memory" where
  "fb_clear_area g x y width height color m =
     (case g of None \<Rightarrow> m
      | Some fb \<Rightarrow>
          if x \<ge> fb_width fb \<or> y \<ge> fb_height fb then m
          else let max_x = fb_width fb; max_y = fb_height fb;
                   width = (if x + width > max_x then max_x - x else width);
                   height = (if y + height > max_y then max_y - y else height)
               in if width = 0 \<or> height = 0 then m
                  else for_upto height (\<lambda>dy m. let py = y + dy in
                         for_upto width (\<lambda>dx m. let px = x + dx in write32 (pixel_addr fb px py) color m) m) m)"

text \<open>\<open>fb_clear\<close> dereferences the framebuffer without a check.\<close>

definition fb_clear :: "fb_mem \<Rightarrow> fb_mem option" where
  "fb_clear sm =
     (case sm of (s, m) \<Rightarrow>
        case g_fb s of None \<Rightarrow> None
        | Some fb \<Rightarrow> Some (s\<lparr>g_cursor_x := LEFT_MARGIN, g_cursor_y := 15\<rparr>,
                           fb_clear_area (g_fb s) 0 0 (fb_width fb) (fb_height fb) 0 m))"

text \<open>The loops over the bits of a glyph.\<close>

definition draw_pixel :: "limine_framebuffer \<Rightarrow> u64 \<Rightarrow> u64 \<Rightarrow> u32 \<Rightarrow> memory \<Rightarrow> memory" where
  "draw_pixel fb px py color m =
     (if px < fb_width fb \<and> py < fb_height fb then write32 (pixel_addr fb px py) color m else m)"

definition glyph_bit :: "u64 \<Rightarrow> u32 \<Rightarrow> u32 \<Rightarrow> u32 \<Rightarrow> memory \<Rightarrow> bool" where
  "glyph_bit glyph bytes_per_row row col m =
     (let byte_idx = row * bytes_per_row + (col div 8);
          bit_mask = (ucast (drop_bit (unat (col mod 8)) (0x80 :: u32)) :: u8)
      in m (glyph + ucast byte_idx) AND bit_mask \<noteq> 0)"

definition draw_glyph ::
  "limine_framebuffer \<Rightarrow> font_t \<Rightarrow> u64 \<Rightarrow> u64 \<Rightarrow> u64 \<Rightarrow> u32 \<Rightarrow> memory \<Rightarrow> memory" where
  "draw_glyph fb f glyph cx cy color m =
     (let bytes_per_row = (font_width f + 7) div 8
      in fold (\<lambda>row m. fold (\<lambda>col m.
            if glyph_bit glyph bytes_per_row (of_nat row) (of_nat col) m
            then draw_pixel fb (cx + of_nat col) (cy + of_nat row) color m else m)
          [0..<unat (font_width f)] m) [0..<unat (font_height f)] m)"

definition fb_backspace :: "limine_framebuffer \<Rightarrow> font_t \<Rightarrow> fb_mem \<Rightarrow> fb_mem" where
  "fb_backspace fb f sm =
     (case sm of (s, m) \<Rightarrow>
        if g_cursor_x s > LEFT_MARGIN then
          let s = s\<lparr>g_cursor_x := g_cursor_x s - ucast (font_width f)\<rparr>;
              m = fb_clear_area (g_fb s) (g_cursor_x s) (g_cursor_y s) (ucast (font_width f)) (ucast (font_height f)) 0 m
          in (s\<lparr>overwrite := False\<rparr>, m)
        else if g_cursor_y s > 15 then
          let s = s\<lparr>g_cursor_y := g_cursor_y s - ucast (line_height f)\<rparr>;
              s = s\<lparr>g_cursor_x := fb_width fb - ucast (font_width f)\<rparr>;
              m = fb_clear_area (g_fb s) (g_cursor_x s) (g_cursor_y s) (ucast (font_width f)) (ucast (font_height f)) 0 m
          in (s, m)
        else (s, m))"

definition fb_draw_char :: "limine_framebuffer \<Rightarrow> font_t \<Rightarrow> u32 \<Rightarrow> u32 \<Rightarrow> fb_mem \<Rightarrow> fb_mem" where
  "fb_draw_char fb f codepoint color sm =
     (case sm of (s, m) \<Rightarrow>
        let s = (if g_cursor_x s + ucast (font_width f) > fb_width fb
                 then (fb_newline f s)\<lparr>overwrite := False\<rparr> else s)
        in if g_cursor_y s + ucast (font_height f) > fb_height fb then (s, m)
           else
             let (s, m) =
                   (if overwrite s
                    then let m = fb_clear_area (g_fb s) (g_cursor_x s) (g_cursor_y s)
                                   (ucast (font_width f)) (ucast (font_height f)) 0 m;
                             new_right = g_cursor_x s + ucast (font_width f)
                         in (if new_right > overwrite_pos s then s\<lparr>overwrite := (new_right \<noteq> 0)\<rparr> else s, m)
                    else (s, m));
                 glyph_offset = (if is_psf2 f then ucast codepoint * ucast (psf2_charsize (load_psf2_header m (font_hdr f)))
                                 else ucast codepoint * ucast (font_height f));
                 glyph = glyphs f + glyph_offset;
                 m = draw_glyph fb f glyph (g_cursor_x s) (g_cursor_y s) color m
             in (fb_advance fb f (ucast (font_width f)) s, m))"

definition fb_put_char :: "u32 \<Rightarrow> u32 \<Rightarrow> fb_mem \<Rightarrow> fb_mem" where
  "fb_put_char codepoint color sm =
     (case sm of (s, m) \<Rightarrow>
        case (g_fb s, g_font s) of
          (Some fb, Some f) \<Rightarrow>
            if glyphs f = 0 then (s, m)
            else
              let codepoint = (if codepoint > 255 then of_char CHR ''?'' else codepoint)
              in if codepoint = 10 then ((fb_newline f s)\<lparr>overwrite := False\<rparr>, m)
                 else if codepoint = 13
                 then (s\<lparr>g_cursor_x := LEFT_MARGIN, overwrite := True, overwrite_pos := LEFT_MARGIN\<rparr>, m)
                 else if codepoint = 8 then fb_backspace fb f (s, m)
                 else fb_draw_char fb f codepoint color (s, m)
        | _ \<Rightarrow> (s, m))"

text \<open>A string argument is the bytes before its terminator, \<open>None\<close> for \<open>NULL\<close>.\<close>

fun fb_print_loop :: "u8 list \<Rightarrow> u32 \<Rightarrow> fb_mem \<Rightarrow> fb_mem" where
  "fb_print_loop [] color sm = sm"
| "fb_print_loop (c # str) color sm = fb_print_loop str color (fb_put_char (ucast c) color sm)"

definition fb_print :: "u8 list option \<Rightarrow> u32 \<Rightarrow> fb_mem \<Rightarrow> fb_mem" where
  "fb_print str color sm = (case str of None \<Rightarrow> sm | Some cs \<Rightarrow> fb_print_loop cs color sm)"

definition fb_print_at :: "u8 list option \<Rightarrow> u32 \<Rightarrow> u32 \<Rightarrow> u32 \<Rightarrow> fb_mem \<Rightarrow> fb_mem" where
  "fb_print_at str color x y sm =
     (case sm of (s, m) \<Rightarrow>
        if sint x < 0 \<or> sint y < 0 then (s, m)
        else
          let old_x = g_cursor_x s; old_y = g_cursor_y s;
              (s, m) = fb_print str color (s\<lparr>g_cursor_x := ucast x, g_cursor_y := ucast y\<rparr>, m)
          in (s\<lparr>g_cursor_x := old_x, g_cursor_y := old_y\<rparr>, m))"

text \<open>The digits \<open>fb_print_number\<close> collects from the end of its buffer.\<close>

function number_bytes :: "u64 \<Rightarrow> u8 list \<Rightarrow> u8 list" where
  "number_bytes n p =
     (let p = ucast (of_char CHR ''0'' + n mod 10) # p; n = n div 10
      in if n \<noteq> 0 then number_bytes n p else p)"
  by pat_completeness auto
termination
  by (relation "measure (\<lambda>(n, p). unat n)")
    (auto simp: unat_div_u64 word_eq_unat simp del: word_unat_eq_iff intro!: div_less_dividend)

declare number_bytes.simps [simp del]

definition fb_print_number :: "u64 \<Rightarrow> u32 \<Rightarrow> fb_mem \<Rightarrow> fb_mem" where
  "fb_print_number n color sm = fb_print (Some (number_bytes n [])) color sm"

end
