(* ===== verification/Keyboard.thy ===== *)
theory Keyboard
  imports Estella_Prelude
begin

text \<open>
  The PS/2 keyboard driver, \<open>kernel/drivers/keyboard.c\<close>: the ring buffer of characters between the
  interrupt handler and the readers, and the decoding of scancodes.

  The buffer has 128 places and indices \<open>kbd_head\<close> and \<open>kbd_tail\<close>; \<open>kbd_queue\<close> is the list of the
  characters it holds.  The locale \<open>char_queue\<close> states what a producer and a consumer rely on;
  \<open>kbd\<close> interprets it on the driver.  The parts of the handler that talk to the devices (reading port
  0x60, acknowledging the interrupt) are in \<open>Interrupts\<close>.
\<close>

section \<open>The driver\<close>

record kbd_state =
  kbd_buffer :: "u8 list"
  kbd_head :: u32
  kbd_tail :: u32
  left_shift :: bool
  right_shift :: bool
  caps_lock :: bool

abbreviation (input) KBD_BUFFER_SIZE :: u32 where "KBD_BUFFER_SIZE \<equiv> 128"

definition kbd_buffer_empty :: "kbd_state \<Rightarrow> bool" where
  "kbd_buffer_empty s \<longleftrightarrow> kbd_head s = kbd_tail s"

definition kbd_buffer_full :: "kbd_state \<Rightarrow> bool" where
  "kbd_buffer_full s \<longleftrightarrow> (kbd_head s + 1) mod KBD_BUFFER_SIZE = kbd_tail s"

definition kbd_buffer_push :: "u8 \<Rightarrow> kbd_state \<Rightarrow> kbd_state" where
  "kbd_buffer_push c s =
     (if \<not> kbd_buffer_full s
      then s\<lparr>kbd_buffer := (kbd_buffer s)[unat (kbd_head s) := c],
             kbd_head := (kbd_head s + 1) mod KBD_BUFFER_SIZE\<rparr>
      else s)"

definition kbd_buffer_pop :: "kbd_state \<Rightarrow> u8 \<times> kbd_state" where
  "kbd_buffer_pop s =
     (if kbd_buffer_empty s then (0, s)
      else let c = kbd_buffer s ! unat (kbd_tail s)
           in (c, s\<lparr>kbd_tail := (kbd_tail s + 1) mod KBD_BUFFER_SIZE\<rparr>))"

text \<open>The tables, in the rows of the source.\<close>

definition ascii_base :: "u8 list" where
  "ascii_base =
     [0, 0] @ bytes ''1234567890-='' @ [8, 9]
     @ bytes ''qwertyuiop[]'' @ [10, 0] @ bytes ''as''
     @ bytes ''dfghjkl;'' @ [39, 96, 0, 92] @ bytes ''zxcv''
     @ bytes ''bnm,./'' @ [0] @ bytes ''*'' @ [0] @ bytes '' '' @ [0, 0, 0, 0, 0, 0]
     @ [0, 0, 0, 0, 0, 0, 0] @ bytes ''789-456+1''
     @ bytes ''230.'' @ replicate 12 0
     @ replicate 16 0
     @ replicate 16 0"

definition ascii_shift :: "u8 list" where
  "ascii_shift =
     [0, 0] @ bytes ''!@#$%^&*()_+'' @ [8, 9]
     @ bytes ''QWERTYUIOP{}'' @ [10, 0] @ bytes ''AS''
     @ bytes ''DFGHJKL:'' @ [34, 126, 0] @ bytes ''|ZXCV''
     @ bytes ''BNM<>?'' @ [0] @ bytes ''*'' @ [0] @ bytes '' '' @ [0, 0, 0, 0, 0, 0]
     @ [0, 0, 0, 0, 0, 0, 0] @ bytes ''789-456+1''
     @ bytes ''230.'' @ replicate 12 0
     @ replicate 16 0
     @ replicate 16 0"

definition is_shift_pressed :: "kbd_state \<Rightarrow> bool" where
  "is_shift_pressed s \<longleftrightarrow> left_shift s \<or> right_shift s"

definition get_char_from_scancode :: "u8 \<Rightarrow> kbd_state \<Rightarrow> u8" where
  "get_char_from_scancode code s =
     (let table = (if is_shift_pressed s then ascii_shift else ascii_base);
          ch = (if code < 128 then table ! unat code else 0)
      in if caps_lock s \<and> of_char CHR ''a'' \<le> ch \<and> ch \<le> of_char CHR ''z'' then ch - 32
         else if caps_lock s \<and> of_char CHR ''A'' \<le> ch \<and> ch \<le> of_char CHR ''Z'' \<and> is_shift_pressed s
         then ch + 32
         else ch)"

text \<open>What \<open>keyboard_handler\<close> does with the scancode it has read.\<close>

definition keyboard_scancode :: "u8 \<Rightarrow> kbd_state \<Rightarrow> kbd_state" where
  "keyboard_scancode scancode s =
     (let is_break = scancode AND 0x80 \<noteq> 0;
          code = scancode AND 0x7F
      in if is_break then
           let s = (if code = 0x2A then s\<lparr>left_shift := False\<rparr> else s)
           in if code = 0x36 then s\<lparr>right_shift := False\<rparr> else s
         else if code = 0x2A then s\<lparr>left_shift := True\<rparr>
         else if code = 0x36 then s\<lparr>right_shift := True\<rparr>
         else if code = 0x3A then s\<lparr>caps_lock := \<not> caps_lock s\<rparr>
         else kbd_buffer_push (get_char_from_scancode code s) s)"

definition keyboard_has_data :: "kbd_state \<Rightarrow> bool" where
  "keyboard_has_data s \<longleftrightarrow> \<not> kbd_buffer_empty s"

definition keyboard_get_char :: "kbd_state \<Rightarrow> u8 \<times> kbd_state" where
  "keyboard_get_char s = kbd_buffer_pop s"

section \<open>The buffer as a bounded queue\<close>

text \<open>
  The contract between a producer and a consumer of characters: first in, first out, at most \<open>cap\<close>
  characters, and a character that finds no room is dropped.
\<close>

datatype queue_op = Push u8 | Pop

fun queue_spec :: "nat \<Rightarrow> queue_op list \<Rightarrow> u8 list \<Rightarrow> u8 list \<times> u8 list" where
  "queue_spec cap [] q = ([], q)"
| "queue_spec cap (Push c # ops) q = queue_spec cap ops (if length q < cap then q @ [c] else q)"
| "queue_spec cap (Pop # ops) q =
     (case q of [] \<Rightarrow> apfst (Cons 0) (queue_spec cap ops [])
      | c # cs \<Rightarrow> apfst (Cons c) (queue_spec cap ops cs))"

locale char_queue =
  fixes push :: "u8 \<Rightarrow> 's \<Rightarrow> 's"
    and pop :: "'s \<Rightarrow> u8 \<times> 's"
    and nonempty :: "'s \<Rightarrow> bool"
    and queue :: "'s \<Rightarrow> u8 list"
    and ok :: "'s \<Rightarrow> bool"
    and cap :: nat
  assumes push: "ok s \<Longrightarrow> ok (push c s) \<and> queue (push c s) = (if length (queue s) < cap then queue s @ [c] else queue s)"
    and pop_empty: "ok s \<Longrightarrow> queue s = [] \<Longrightarrow> pop s = (0, s)"
    and pop_Cons: "ok s \<Longrightarrow> queue s = c # cs \<Longrightarrow> \<exists>s'. pop s = (c, s') \<and> ok s' \<and> queue s' = cs"
    and nonempty: "ok s \<Longrightarrow> nonempty s \<longleftrightarrow> queue s \<noteq> []"
    and bound: "ok s \<Longrightarrow> length (queue s) \<le> cap"
begin

fun run :: "queue_op list \<Rightarrow> 's \<Rightarrow> u8 list \<times> 's" where
  "run [] s = ([], s)"
| "run (Push c # ops) s = run ops (push c s)"
| "run (Pop # ops) s = (let (c, s) = pop s; (cs, s) = run ops s in (c # cs, s))"

lemma run_spec:
  "ok s \<Longrightarrow> \<exists>s'. run ops s = (fst (queue_spec cap ops (queue s)), s') \<and> ok s'
     \<and> queue s' = snd (queue_spec cap ops (queue s))"
proof (induction ops arbitrary: s)
  case Nil
  then show ?case by simp
next
  case (Cons op ops)
  show ?case
  proof (cases op)
    case (Push c)
    then show ?thesis using push [OF Cons.prems, of c] Cons.IH [of "push c s"] by auto
  next
    case Pop
    show ?thesis
    proof (cases "queue s")
      case Nil
      then show ?thesis
        using Pop pop_empty [OF Cons.prems] Cons.IH [OF Cons.prems] by (auto simp: apfst_def map_prod_def split: prod.splits)
    next
      case (Cons c cs)
      then obtain s1 where "pop s = (c, s1)" "ok s1" "queue s1 = cs" using pop_Cons [OF Cons.prems] by blast
      then show ?thesis
        using Pop Cons Cons.IH [of s1] by (auto simp: apfst_def map_prod_def split: prod.splits)
    qed
  qed
qed

end

definition kbd_ok :: "kbd_state \<Rightarrow> bool" where
  "kbd_ok s \<longleftrightarrow> length (kbd_buffer s) = 128 \<and> unat (kbd_head s) < 128 \<and> unat (kbd_tail s) < 128"

definition kbd_used :: "kbd_state \<Rightarrow> nat" where
  "kbd_used s = (unat (kbd_head s) + 128 - unat (kbd_tail s)) mod 128"

definition kbd_queue :: "kbd_state \<Rightarrow> u8 list" where
  "kbd_queue s = map (\<lambda>i. kbd_buffer s ! ((unat (kbd_tail s) + i) mod 128)) [0..<kbd_used s]"

lemma ring_next:
  fixes i :: u32
  assumes "unat i < 128"
  shows "unat ((i + 1) mod 128) = (unat i + 1) mod 128"
proof -
  have "unat (i + 1) = unat i + 1" using assms by (simp add: unat_word_ariths)
  then show ?thesis by (simp add: unat_mod)
qed

lemma kbd_used_if:
  assumes "kbd_ok s"
  shows "kbd_used s = (if unat (kbd_tail s) \<le> unat (kbd_head s) then unat (kbd_head s) - unat (kbd_tail s)
     else unat (kbd_head s) + 128 - unat (kbd_tail s))"
proof (cases "unat (kbd_tail s) \<le> unat (kbd_head s)")
  case True
  then have "kbd_used s = (unat (kbd_head s) - unat (kbd_tail s) + 128) mod 128" by (simp add: kbd_used_def)
  also have "\<dots> = unat (kbd_head s) - unat (kbd_tail s)"
    unfolding mod_add_self2 by (rule mod_less) (use assms in \<open>auto simp: kbd_ok_def\<close>)
  finally show ?thesis using True by simp
next
  case False
  then show ?thesis using assms by (simp add: kbd_used_def kbd_ok_def)
qed

lemma kbd_used_bound: "kbd_ok s \<Longrightarrow> kbd_used s \<le> 127"
  by (simp add: kbd_used_def less_Suc_eq_le [symmetric])

lemma kbd_empty_iff: "kbd_ok s \<Longrightarrow> kbd_buffer_empty s \<longleftrightarrow> kbd_used s = 0"
  by (auto simp: kbd_buffer_empty_def kbd_used_if kbd_ok_def word_unat_eq_iff)

lemma kbd_full_iff: "kbd_ok s \<Longrightarrow> kbd_buffer_full s \<longleftrightarrow> kbd_used s = 127"
proof -
  assume ok: "kbd_ok s"
  have "kbd_buffer_full s \<longleftrightarrow> (unat (kbd_head s) + 1) mod 128 = unat (kbd_tail s)"
    using ok by (simp add: kbd_buffer_full_def word_unat_eq_iff ring_next kbd_ok_def)
  also have "\<dots> \<longleftrightarrow> kbd_used s = 127"
    using ok by (cases "unat (kbd_head s) = 127") (auto simp: kbd_used_if kbd_ok_def)
  finally show ?thesis .
qed

lemma kbd_queue_length [simp]: "length (kbd_queue s) = kbd_used s"
  by (simp add: kbd_queue_def)

lemma ring_add:
  assumes "(a :: nat) < 128" and "b < 128"
  shows "(a + b) mod 128 = (if a + b < 128 then a + b else a + b - 128)"
  using assms by (auto simp: le_mod_geq)

lemma kbd_slot:
  assumes "kbd_ok s"
  shows "(unat (kbd_tail s) + kbd_used s) mod 128 = unat (kbd_head s)"
    "i < kbd_used s \<Longrightarrow> (unat (kbd_tail s) + i) mod 128 \<noteq> unat (kbd_head s)"
proof -
  show "(unat (kbd_tail s) + kbd_used s) mod 128 = unat (kbd_head s)"
    using assms by (simp add: kbd_used_if kbd_ok_def)
  assume i: "i < kbd_used s"
  then have "i < 128" using kbd_used_bound [OF assms] by simp
  then show "(unat (kbd_tail s) + i) mod 128 \<noteq> unat (kbd_head s)"
    using assms i kbd_used_if [OF assms] by (auto simp: ring_add kbd_ok_def split: if_splits)
qed

lemma kbd_push_queue:
  assumes ok: "kbd_ok s"
  shows "kbd_ok (kbd_buffer_push c s)"
    "kbd_queue (kbd_buffer_push c s) = (if kbd_used s < 127 then kbd_queue s @ [c] else kbd_queue s)"
proof -
  note len = kbd_used_bound [OF ok]
  let ?s = "kbd_buffer_push c s"
  show ok': "kbd_ok ?s" using ok by (simp add: kbd_buffer_push_def kbd_ok_def ring_next)
  show "kbd_queue ?s = (if kbd_used s < 127 then kbd_queue s @ [c] else kbd_queue s)"
  proof (cases "kbd_used s < 127")
    case False
    then show ?thesis using len by (simp add: kbd_buffer_push_def kbd_full_iff [OF ok])
  next
    case True
    then have eq: "?s = s\<lparr>kbd_buffer := (kbd_buffer s)[unat (kbd_head s) := c],
        kbd_head := (kbd_head s + 1) mod KBD_BUFFER_SIZE\<rparr>"
      by (simp add: kbd_buffer_push_def kbd_full_iff [OF ok])
    have used: "kbd_used ?s = Suc (kbd_used s)"
      using ok ok' True kbd_used_if [OF ok] kbd_used_if [OF ok'] unfolding eq
      by (cases "unat (kbd_head s) = 127") (auto simp: kbd_ok_def ring_next split: if_splits)
    have "kbd_queue ?s = map (\<lambda>i. (kbd_buffer s)[unat (kbd_head s) := c] ! ((unat (kbd_tail s) + i) mod 128)) [0..<Suc (kbd_used s)]"
      unfolding kbd_queue_def used by (simp add: eq)
    also have "\<dots> = kbd_queue s @ [c]"
      using kbd_slot(1) [OF ok] kbd_slot(2) [OF ok, THEN not_sym] ok by (simp add: kbd_queue_def kbd_ok_def)
    finally show ?thesis using True by simp
  qed
qed

lemma kbd_pop_queue:
  assumes ok: "kbd_ok s" and "kbd_queue s = c # cs"
  shows "\<exists>s'. kbd_buffer_pop s = (c, s') \<and> kbd_ok s' \<and> kbd_queue s' = cs"
proof -
  let ?s = "s\<lparr>kbd_tail := (kbd_tail s + 1) mod KBD_BUFFER_SIZE\<rparr>"
  have pos: "0 < kbd_used s" using assms(2) kbd_queue_length [of s] by simp
  have ok': "kbd_ok ?s" using ok by (simp add: kbd_ok_def ring_next)
  have used: "kbd_used s = Suc (kbd_used ?s)"
    using ok pos kbd_used_if [OF ok] kbd_used_if [OF ok']
    by (cases "unat (kbd_tail s) = 127") (auto simp: kbd_ok_def ring_next split: if_splits)
  have "kbd_queue s = map (\<lambda>i. kbd_buffer s ! ((unat (kbd_tail s) + i) mod 128)) (0 # map Suc [0..<kbd_used ?s])"
    unfolding kbd_queue_def used by (simp add: map_Suc_upt upt_conv_Cons del: upt_Suc)
  also have "\<dots> = kbd_buffer s ! unat (kbd_tail s) # kbd_queue ?s"
    using ok by (simp add: kbd_queue_def kbd_ok_def ring_next mod_add_left_eq)
  finally have "kbd_queue s = kbd_buffer s ! unat (kbd_tail s) # kbd_queue ?s" .
  then show ?thesis
    using assms(2) ok' pos by (simp add: kbd_buffer_pop_def kbd_empty_iff [OF ok])
qed

interpretation kbd: char_queue kbd_buffer_push keyboard_get_char keyboard_has_data kbd_queue kbd_ok 127
proof
  fix s :: kbd_state and c cs
  assume ok: "kbd_ok s"
  show "kbd_ok (kbd_buffer_push c s) \<and>
      kbd_queue (kbd_buffer_push c s) = (if length (kbd_queue s) < 127 then kbd_queue s @ [c] else kbd_queue s)"
    using kbd_push_queue [OF ok] by simp
  have empty: "kbd_buffer_empty s \<longleftrightarrow> kbd_queue s = []"
    using kbd_empty_iff [OF ok] kbd_queue_length [of s] by (metis length_0_conv)
  then show "keyboard_has_data s \<longleftrightarrow> kbd_queue s \<noteq> []" by (simp add: keyboard_has_data_def)
  show "length (kbd_queue s) \<le> 127" using kbd_used_bound [OF ok] by simp
  show "kbd_queue s = [] \<Longrightarrow> keyboard_get_char s = (0, s)"
    using empty by (simp add: keyboard_get_char_def kbd_buffer_pop_def)
  show "kbd_queue s = c # cs \<Longrightarrow> \<exists>s'. keyboard_get_char s = (c, s') \<and> kbd_ok s' \<and> kbd_queue s' = cs"
    using kbd_pop_queue [OF ok] by (simp add: keyboard_get_char_def)
qed

section \<open>Properties of the driver\<close>

definition example_kbd :: kbd_state where
  "example_kbd = \<lparr>kbd_buffer = replicate 128 0, kbd_head = 127, kbd_tail = 127,
     left_shift = False, right_shift = False, caps_lock = False\<rparr>"

lemma example_kbd_ok: "kbd_ok example_kbd"
  by (simp add: example_kbd_def kbd_ok_def)

text \<open>
  C19.  The ring buffer is a queue of at most 127 characters: whatever the interleaving of
  \<open>kbd_buffer_push\<close> and \<open>keyboard_get_char\<close>, the characters come out in the order they went in, none
  is lost unless it arrives when 127 are waiting, and reading an empty buffer gives 0.
\<close>

theorem kbd_buffer_refines_queue:
  assumes "kbd_ok s"
  shows "\<exists>s'. kbd.run ops s = (fst (queue_spec 127 ops (kbd_queue s)), s') \<and> kbd_ok s'
     \<and> kbd_queue s' = snd (queue_spec 127 ops (kbd_queue s))"
  by (rule kbd.run_spec [OF assms])

theorem kbd_buffer_refines_queue_witness:
  "fst (kbd.run [Push 97, Push 98, Pop, Push 99, Pop, Pop, Pop] example_kbd) = [97, 98, 99, 0]"
proof -
  have "kbd_queue example_kbd = []" by (simp add: kbd_queue_def kbd_used_def example_kbd_def)
  then show ?thesis
    using kbd_buffer_refines_queue [OF example_kbd_ok, of "[Push 97, Push 98, Pop, Push 99, Pop, Pop, Pop]"] by auto
qed

text \<open>
  A letter key gives the capital letter exactly when one of Shift and Caps Lock is active but
  not both; the keys of the digit row are shifted by Shift alone, whatever Caps Lock says.
\<close>

lemma keyboard_letter_case:
  "map (\<lambda>code. get_char_from_scancode code s)
     ([0x10, 0x11, 0x12, 0x13, 0x14, 0x15, 0x16, 0x17, 0x18, 0x19]
      @ [0x1E, 0x1F, 0x20, 0x21, 0x22, 0x23, 0x24, 0x25, 0x26]
      @ [0x2C, 0x2D, 0x2E, 0x2F, 0x30, 0x31, 0x32])
     = bytes (if is_shift_pressed s \<noteq> caps_lock s then ''QWERTYUIOPASDFGHJKLZXCVBNM''
              else ''qwertyuiopasdfghjklzxcvbnm'')
   \<and> map (\<lambda>code. get_char_from_scancode code s) [2, 3, 4, 5, 6, 7, 8, 9, 0xA, 0xB, 0xC, 0xD]
     = bytes (if is_shift_pressed s then ''!@#$%^&*()_+'' else ''1234567890-='')"
  by (simp add: get_char_from_scancode_def ascii_base_def ascii_shift_def)

lemma scancode_parts:
  fixes x :: u8
  shows "x AND 0x80 \<noteq> 0 \<longleftrightarrow> bit x 7"
    "\<not> bit x 7 \<Longrightarrow> x AND 0x7F = x"
    "bit x 7 \<Longrightarrow> (x AND 0x7F = 0x2A \<longleftrightarrow> x = 0xAA) \<and> (x AND 0x7F = 0x36 \<longleftrightarrow> x = 0xB6)"
proof -
  have m: "(0x7F :: u8) = mask 7" by (simp add: mask_eq_exp_minus_1)
  show "x AND 0x80 \<noteq> 0 \<longleftrightarrow> bit x 7" using and_exp_eq_0_iff_not_bit [of x 7] by simp
  have less: "n < 7 \<longleftrightarrow> n \<noteq> 7" if "n < LENGTH(8)" for n using that by auto
  show "\<not> bit x 7 \<Longrightarrow> x AND 0x7F = x"
    unfolding m by (rule bit_word_eqI) (auto simp: bit_and_iff bit_mask_iff less)
  assume b: "bit x 7"
  have top: "bit (0x80 :: u8) n \<longleftrightarrow> n = 7" for n using bit_exp_iff [where 'a = u8, of 7 n] by auto
  have "x = (x AND 0x7F) OR 0x80"
  proof (rule bit_word_eqI)
    fix n assume "n < LENGTH(8)"
    then show "bit x n = bit ((x AND 0x7F) OR 0x80) n"
      unfolding m bit_or_iff bit_and_iff top using b by (cases "n = 7") (auto simp: bit_mask_iff)
  qed
  moreover have "(0xAA :: u8) AND 0x7F = 0x2A" "(0xB6 :: u8) AND 0x7F = 0x36" by simp_all
  moreover have "(0x2A :: u8) OR 0x80 = 0xAA" "(0x36 :: u8) OR 0x80 = 0xB6" by simp_all
  ultimately show "(x AND 0x7F = 0x2A \<longleftrightarrow> x = 0xAA) \<and> (x AND 0x7F = 0x36 \<longleftrightarrow> x = 0xB6)" by metis
qed

text \<open>What a scancode does to the buffer and to the modifiers.\<close>

lemma keyboard_scancode_effect:
  assumes "kbd_ok s"
  shows "kbd_ok (keyboard_scancode scancode s)
     \<and> kbd_queue (keyboard_scancode scancode s) =
         (if bit scancode 7 \<or> scancode \<in> {0x2A, 0x36, 0x3A} \<or> length (kbd_queue s) = 127 then kbd_queue s
          else kbd_queue s @ [get_char_from_scancode scancode s])
     \<and> left_shift (keyboard_scancode scancode s) =
         (if scancode = 0x2A then True else if scancode = 0xAA then False else left_shift s)
     \<and> right_shift (keyboard_scancode scancode s) =
         (if scancode = 0x36 then True else if scancode = 0xB6 then False else right_shift s)
     \<and> caps_lock (keyboard_scancode scancode s) = (if scancode = 0x3A then \<not> caps_lock s else caps_lock s)"
proof (cases "bit scancode 7")
  case True
  moreover from this have "scancode \<notin> {0x2A, 0x36, 0x3A}" by (auto simp: bit_numeral_rec)
  ultimately show ?thesis
    using assms scancode_parts(3) [OF True] scancode_parts(1) [of scancode]
    by (auto simp: keyboard_scancode_def Let_def kbd_ok_def kbd_queue_def kbd_used_def)
next
  case False
  then have "scancode \<noteq> 0xAA" "scancode \<noteq> 0xB6" by (auto simp: bit_numeral_rec)
  moreover have "left_shift (kbd_buffer_push c s) = left_shift s" "right_shift (kbd_buffer_push c s) = right_shift s"
    "caps_lock (kbd_buffer_push c s) = caps_lock s" for c by (simp_all add: kbd_buffer_push_def)
  moreover have "kbd_used s < 127 \<longleftrightarrow> kbd_used s \<noteq> 127" using kbd_used_bound [OF assms] by auto
  ultimately show ?thesis
    using False assms kbd_push_queue [OF assms] scancode_parts(1) [of scancode] scancode_parts(2) [OF False]
    by (auto simp: keyboard_scancode_def Let_def) (auto simp: kbd_ok_def kbd_queue_def kbd_used_def)
qed

text \<open>
  C20.  Whatever scancode arrives, the indices stay inside the buffer and at most one character is
  added, at the end: only a make code that is neither a Shift nor Caps Lock adds one, and a key
  without a character adds a 0.  The modifiers follow their keys: after a code for a Shift key the
  modifier is set exactly when the code is a make code, and Caps Lock changes on every make code.
\<close>

theorem keyboard_scancode_invariant:
  assumes "kbd_ok s"
  shows "kbd_ok (keyboard_scancode scancode s)
     \<and> kbd_queue (keyboard_scancode scancode s) =
         (if bit scancode 7 \<or> scancode \<in> {0x2A, 0x36, 0x3A} \<or> length (kbd_queue s) = 127 then kbd_queue s
          else kbd_queue s @ [get_char_from_scancode scancode s])
     \<and> left_shift (keyboard_scancode scancode s) =
         (if scancode = 0x2A then True else if scancode = 0xAA then False else left_shift s)
     \<and> right_shift (keyboard_scancode scancode s) =
         (if scancode = 0x36 then True else if scancode = 0xB6 then False else right_shift s)
     \<and> caps_lock (keyboard_scancode scancode s) = (if scancode = 0x3A then \<not> caps_lock s else caps_lock s)"
  by (rule keyboard_scancode_effect [OF assms])

theorem keyboard_scancode_invariant_witness:
  "kbd_queue (keyboard_scancode 0x1E example_kbd) = [97]"
  using keyboard_scancode_invariant [OF example_kbd_ok, of "0x1E"]
  by (simp add: kbd_queue_def kbd_used_def example_kbd_def get_char_from_scancode_def is_shift_pressed_def
      ascii_base_def bit_numeral_rec)

end
