(* ===== verification/Devices.thy ===== *)
theory Devices
  imports Vmm
begin

text \<open>
  The devices and the special instructions: port accesses (\<open>cpu/io.c\<close>), model-specific registers
  (\<open>cpu/msr.h\<close>), \<open>cpuid\<close> (\<open>cpu/cpuid.h\<close>), the time stamp counter, and volatile accesses to
  memory-mapped registers.

  Every access is recorded in the trace \<open>io_log\<close>.  What the hardware answers is not in the sources:
  it is the parameter \<open>hardware\<close>, whose answer to a read may depend on the whole trace so far.  It also
  says when the keyboard asks for an interrupt: \<open>hw_key_irq H k\<close> if it does when a loop that waits for
  input polls for the \<open>k\<close>th time.  \<open>Sti\<close> is the instruction that enables interrupts.
\<close>

datatype dev_event =
    In8 u16 | Out8 u16 u8
  | In16 u16 | Out16 u16 u16
  | In32 u16 | Out32 u16 u32
  | Rdmsr u32 | Wrmsr u32 u32 u32
  | Mmio_read32 u64 | Mmio_write32 u64 u32
  | Mmio_read64 u64 | Mmio_write64 u64 u64
  | Rdtsc | Sti

record hardware =
  hw_read :: "dev_event list \<Rightarrow> dev_event \<Rightarrow> u64"
  hw_cpuid :: "u32 \<Rightarrow> u32 \<times> u32 \<times> u32 \<times> u32"
  hw_key_irq :: "nat \<Rightarrow> bool"

record hw_state = vmm_state +
  io_log :: "dev_event list"

definition dev_write :: "dev_event \<Rightarrow> 'a hw_state_scheme \<Rightarrow> 'a hw_state_scheme" where
  "dev_write e s = s\<lparr>io_log := io_log s @ [e]\<rparr>"

definition dev_read :: "hardware \<Rightarrow> dev_event \<Rightarrow> 'a hw_state_scheme \<Rightarrow> u64 \<times> 'a hw_state_scheme" where
  "dev_read H e s = (hw_read H (io_log s) e, s\<lparr>io_log := io_log s @ [e]\<rparr>)"

section \<open>Ports\<close>

definition inb :: "hardware \<Rightarrow> u16 \<Rightarrow> 'a hw_state_scheme \<Rightarrow> u8 \<times> 'a hw_state_scheme" where
  "inb H port s = (let (v, s) = dev_read H (In8 port) s in (ucast v, s))"

definition io_outb :: "u8 \<Rightarrow> u16 \<Rightarrow> 'a hw_state_scheme \<Rightarrow> 'a hw_state_scheme" where
  "io_outb value port s = dev_write (Out8 port value) s"

definition inw :: "hardware \<Rightarrow> u16 \<Rightarrow> 'a hw_state_scheme \<Rightarrow> u16 \<times> 'a hw_state_scheme" where
  "inw H port s = (let (v, s) = dev_read H (In16 port) s in (ucast v, s))"

definition outw :: "u16 \<Rightarrow> u16 \<Rightarrow> 'a hw_state_scheme \<Rightarrow> 'a hw_state_scheme" where
  "outw value port s = dev_write (Out16 port value) s"

definition inl :: "hardware \<Rightarrow> u16 \<Rightarrow> 'a hw_state_scheme \<Rightarrow> u32 \<times> 'a hw_state_scheme" where
  "inl H port s = (let (v, s) = dev_read H (In32 port) s in (ucast v, s))"

definition outl :: "u32 \<Rightarrow> u16 \<Rightarrow> 'a hw_state_scheme \<Rightarrow> 'a hw_state_scheme" where
  "outl value port s = dev_write (Out32 port value) s"

section \<open>Model-specific registers, cpuid, the time stamp counter\<close>

text \<open>The instructions use a pair of 32-bit registers for a 64-bit value.\<close>

definition join32 :: "u32 \<Rightarrow> u32 \<Rightarrow> u64" where
  "join32 low high = push_bit 32 (ucast high) OR ucast low"

definition rdmsr :: "hardware \<Rightarrow> u32 \<Rightarrow> 'a hw_state_scheme \<Rightarrow> u64 \<times> 'a hw_state_scheme" where
  "rdmsr H msr s =
     (let (v, s) = dev_read H (Rdmsr msr) s;
          low = ucast v; high = ucast (drop_bit 32 v)
      in (join32 low high, s))"

definition wrmsr :: "u32 \<Rightarrow> u64 \<Rightarrow> 'a hw_state_scheme \<Rightarrow> 'a hw_state_scheme" where
  "wrmsr msr val s =
     (let low = ucast (val AND 0xFFFFFFFF); high = ucast (drop_bit 32 val)
      in dev_write (Wrmsr msr low high) s)"

text \<open>The value a register holds: the one last written, or the one the processor starts with.\<close>

definition msr_value :: "hardware \<Rightarrow> u32 \<Rightarrow> dev_event list \<Rightarrow> u64" where
  "msr_value H msr log =
     fold (\<lambda>e v. case e of Wrmsr n low high \<Rightarrow> if n = msr then join32 low high else v | _ \<Rightarrow> v) log (hw_read H [] (Rdmsr msr))"

definition cpuid :: "hardware \<Rightarrow> u32 \<Rightarrow> u32 \<times> u32 \<times> u32 \<times> u32" where
  "cpuid H leaf = hw_cpuid H leaf"

definition rdtsc :: "hardware \<Rightarrow> 'a hw_state_scheme \<Rightarrow> u64 \<times> 'a hw_state_scheme" where
  "rdtsc H s =
     (let (v, s) = dev_read H Rdtsc s;
          low = ucast v; high = ucast (drop_bit 32 v)
      in (join32 low high, s))"

section \<open>Memory-mapped registers\<close>

definition mmio_read32 :: "hardware \<Rightarrow> u64 \<Rightarrow> 'a hw_state_scheme \<Rightarrow> u32 \<times> 'a hw_state_scheme" where
  "mmio_read32 H a s = (let (v, s) = dev_read H (Mmio_read32 a) s in (ucast v, s))"

definition mmio_write32 :: "u64 \<Rightarrow> u32 \<Rightarrow> 'a hw_state_scheme \<Rightarrow> 'a hw_state_scheme" where
  "mmio_write32 a v s = dev_write (Mmio_write32 a v) s"

definition mmio_read64 :: "hardware \<Rightarrow> u64 \<Rightarrow> 'a hw_state_scheme \<Rightarrow> u64 \<times> 'a hw_state_scheme" where
  "mmio_read64 H a s = dev_read H (Mmio_read64 a) s"

definition mmio_write64 :: "u64 \<Rightarrow> u64 \<Rightarrow> 'a hw_state_scheme \<Rightarrow> 'a hw_state_scheme" where
  "mmio_write64 a v s = dev_write (Mmio_write64 a v) s"

section \<open>The two halves of a register\<close>

lemma join32_halves [simp]: "join32 (ucast v) (ucast (drop_bit 32 v)) = v"
proof (rule bit_word_eqI)
  fix n assume "n < LENGTH(64)"
  then show "bit (join32 (ucast v) (ucast (drop_bit 32 v))) n = bit v n"
    by (auto simp: join32_def bit_or_iff bit_push_bit_iff bit_ucast_iff bit_drop_bit_eq)
qed

lemma ucast_low_half: "(ucast (v AND 0xFFFFFFFF :: u64) :: u32) = ucast v"
proof (rule bit_word_eqI)
  have m: "(0xFFFFFFFF :: u64) = mask 32" by (simp add: mask_eq_exp_minus_1)
  fix n assume "n < LENGTH(32)"
  then show "bit (ucast (v AND 0xFFFFFFFF :: u64) :: u32) n = bit (ucast v :: u32) n"
    unfolding m by (auto simp: bit_ucast_iff bit_and_iff bit_mask_iff)
qed

lemma dev_simps [simp]:
  "rdmsr H msr s = dev_read H (Rdmsr msr) s"
  "rdtsc H s = dev_read H Rdtsc s"
  "wrmsr msr val s = dev_write (Wrmsr msr (ucast val) (ucast (drop_bit 32 val))) s"
  by (simp_all add: rdmsr_def rdtsc_def wrmsr_def dev_read_def ucast_low_half)

end
