(* ===== verification/Acpi.thy ===== *)
theory Acpi
  imports Devices
begin

text \<open>
  The ACPI tables, \<open>kernel/arch/x86_64/acpi/acpi.c\<close>: packed structures in memory, found through
  the XSDT.  A structure is a record with a loader that reads its fields at their packed offsets;
  a pointer is an address, 0 for \<open>NULL\<close>.
\<close>

section \<open>The structures\<close>

definition read_bytes :: "memory \<Rightarrow> u64 \<Rightarrow> nat \<Rightarrow> u8 list" where
  "read_bytes m p n = map (\<lambda>i. m (p + of_nat i)) [0..<n]"

record rsdp2 =
  rsdp_signature :: "u8 list"
  rsdp_checksum :: u8
  rsdp_oemid :: "u8 list"
  rsdp_revision :: u8
  rsdp_rsdt_address :: u32
  rsdp_length :: u32
  rsdp_xsdt_address :: u64
  rsdp_extended_checksum :: u8

definition load_rsdp2 :: "memory \<Rightarrow> u64 \<Rightarrow> rsdp2" where
  "load_rsdp2 m p = \<lparr>rsdp_signature = read_bytes m p 8, rsdp_checksum = m (p + 8),
     rsdp_oemid = read_bytes m (p + 9) 6, rsdp_revision = m (p + 15), rsdp_rsdt_address = read32 m (p + 16),
     rsdp_length = read32 m (p + 20), rsdp_xsdt_address = read64 m (p + 24),
     rsdp_extended_checksum = m (p + 32)\<rparr>"

record acpi_sdt_header =
  sdt_signature :: "u8 list"
  sdt_length :: u32
  sdt_revision :: u8
  sdt_checksum :: u8
  sdt_oemid :: "u8 list"
  sdt_oem_table_id :: "u8 list"
  sdt_oem_revision :: u32
  sdt_creator_id :: u32
  sdt_creator_revision :: u32

definition load_acpi_sdt_header :: "memory \<Rightarrow> u64 \<Rightarrow> acpi_sdt_header" where
  "load_acpi_sdt_header m p = \<lparr>sdt_signature = read_bytes m p 4, sdt_length = read32 m (p + 4),
     sdt_revision = m (p + 8), sdt_checksum = m (p + 9), sdt_oemid = read_bytes m (p + 10) 6,
     sdt_oem_table_id = read_bytes m (p + 16) 8, sdt_oem_revision = read32 m (p + 24),
     sdt_creator_id = read32 m (p + 28), sdt_creator_revision = read32 m (p + 32)\<rparr>"

abbreviation (input) sizeof_acpi_sdt_header :: u64 where "sizeof_acpi_sdt_header \<equiv> 36"

text \<open>\<open>xsdt->entries[i]\<close>, the flexible array after the header.\<close>

definition xsdt_entry :: "memory \<Rightarrow> u64 \<Rightarrow> u64 \<Rightarrow> u64" where
  "xsdt_entry m xsdt i = read64 m (xsdt + sizeof_acpi_sdt_header + 8 * i)"

record madt =
  madt_header :: acpi_sdt_header
  madt_lapic_address :: u32
  madt_flags :: u32

definition load_madt :: "memory \<Rightarrow> u64 \<Rightarrow> madt" where
  "load_madt m p = \<lparr>madt_header = load_acpi_sdt_header m p, madt_lapic_address = read32 m (p + 36),
     madt_flags = read32 m (p + 40)\<rparr>"

abbreviation (input) sizeof_madt :: u64 where "sizeof_madt \<equiv> 44"

record madt_entry_header =
  entry_kind :: u8
  entry_size :: u8

definition load_madt_entry_header :: "memory \<Rightarrow> u64 \<Rightarrow> madt_entry_header" where
  "load_madt_entry_header m p = \<lparr>entry_kind = m p, entry_size = m (p + 1)\<rparr>"

record madt_ioapic =
  mio_header :: madt_entry_header
  mio_ioapic_id :: u8
  mio_address :: u32
  mio_gsi_base :: u32

definition load_madt_ioapic :: "memory \<Rightarrow> u64 \<Rightarrow> madt_ioapic" where
  "load_madt_ioapic m p = \<lparr>mio_header = load_madt_entry_header m p, mio_ioapic_id = m (p + 2),
     mio_address = read32 m (p + 4), mio_gsi_base = read32 m (p + 8)\<rparr>"

record hpet_address =
  ha_address_space_id :: u8
  ha_register_bit_width :: u8
  ha_register_bit_offset :: u8
  ha_address :: u64

definition load_hpet_address :: "memory \<Rightarrow> u64 \<Rightarrow> hpet_address" where
  "load_hpet_address m p = \<lparr>ha_address_space_id = m p, ha_register_bit_width = m (p + 1),
     ha_register_bit_offset = m (p + 2), ha_address = read64 m (p + 4)\<rparr>"

record hpet =
  hpet_header :: acpi_sdt_header
  hpet_event_timer_block_id :: u32
  hpet_base_address :: hpet_address
  hpet_number :: u8
  hpet_minimum_clock_tick :: u16
  hpet_page_protection :: u8

definition load_hpet :: "memory \<Rightarrow> u64 \<Rightarrow> hpet" where
  "load_hpet m p = \<lparr>hpet_header = load_acpi_sdt_header m p, hpet_event_timer_block_id = read32 m (p + 36),
     hpet_base_address = load_hpet_address m (p + 40), hpet_number = m (p + 52),
     hpet_minimum_clock_tick = read16 m (p + 53), hpet_page_protection = m (p + 55)\<rparr>"

section \<open>The functions of acpi.c\<close>

definition acpi_get_xsdt :: "'a pmm_state_scheme \<Rightarrow> u64 \<Rightarrow> u64" where
  "acpi_get_xsdt s rsdp_ptr =
     (let rsdp = load_rsdp2 (mem s) rsdp_ptr
      in if rsdp_revision rsdp < 2 then 0 else rsdp_xsdt_address rsdp + hhdm_offset s)"

text \<open>The inner loop compares the four bytes of the signature and leaves at the first difference.\<close>

fun signature_match :: "memory \<Rightarrow> u64 \<Rightarrow> u8 list \<Rightarrow> nat list \<Rightarrow> bool" where
  "signature_match m header sig [] = True"
| "signature_match m header sig (j # js) =
     (if m (header + of_nat j) \<noteq> sig ! j then False else signature_match m header sig js)"

fun acpi_find_loop :: "'a pmm_state_scheme \<Rightarrow> u64 \<Rightarrow> u8 list \<Rightarrow> nat list \<Rightarrow> u64" where
  "acpi_find_loop s xsdt sig [] = 0"
| "acpi_find_loop s xsdt sig (i # is) =
     (let header = xsdt_entry (mem s) xsdt (of_nat i) + hhdm_offset s
      in if signature_match (mem s) header sig [0, 1, 2, 3] then header
         else acpi_find_loop s xsdt sig is)"

definition acpi_find_table :: "'a pmm_state_scheme \<Rightarrow> u64 \<Rightarrow> u8 list \<Rightarrow> u64" where
  "acpi_find_table s xsdt sig =
     (let len = sdt_length (load_acpi_sdt_header (mem s) xsdt);
          entries = (ucast len - sizeof_acpi_sdt_header) div 8
      in acpi_find_loop s xsdt sig [0..<unat entries])"

definition acpi_get_madt :: "'a pmm_state_scheme \<Rightarrow> u64 \<Rightarrow> u64" where
  "acpi_get_madt s rsdp_ptr =
     (let xsdt = acpi_get_xsdt s rsdp_ptr
      in if xsdt = 0 then 0 else acpi_find_table s xsdt (bytes ''APIC''))"

definition acpi_get_hpet :: "'a pmm_state_scheme \<Rightarrow> u64 \<Rightarrow> u64" where
  "acpi_get_hpet s rsdp_ptr =
     (let xsdt = acpi_get_xsdt s rsdp_ptr
      in if xsdt = 0 then 0 else acpi_find_table s xsdt (bytes ''HPET''))"

section \<open>Finding a table\<close>

lemma signature_match_bytes:
  "length sig = 4 \<Longrightarrow> signature_match m header sig [0, 1, 2, 3] \<longleftrightarrow> read_bytes m header 4 = sig"
  by (auto simp: read_bytes_def list_eq_iff_nth_eq less_Suc_eq numeral_eq_Suc upt_rec)

text \<open>The addresses of the tables that the XSDT lists.\<close>

definition xsdt_tables :: "'a pmm_state_scheme \<Rightarrow> u64 \<Rightarrow> nat \<Rightarrow> u64 list" where
  "xsdt_tables s xsdt n = map (\<lambda>i. xsdt_entry (mem s) xsdt (of_nat i) + hhdm_offset s) [0..<n]"

lemma acpi_find_loop_find:
  assumes "length sig = 4"
  shows "acpi_find_loop s xsdt sig is =
    (case find (\<lambda>h. read_bytes (mem s) h 4 = sig)
        (map (\<lambda>i. xsdt_entry (mem s) xsdt (of_nat i) + hhdm_offset s) is) of
       None \<Rightarrow> 0 | Some h \<Rightarrow> h)"
  by (induction "is") (auto simp: Let_def signature_match_bytes [OF assms] simp del: signature_match.simps One_nat_def)

lemma acpi_find_table_find:
  assumes "length sig = 4"
    and "sdt_length (load_acpi_sdt_header (mem s) xsdt) = of_nat (36 + 8 * n)" and "36 + 8 * n < 4294967296"
  shows "acpi_find_table s xsdt sig =
    (case find (\<lambda>h. read_bytes (mem s) h 4 = sig) (xsdt_tables s xsdt n) of None \<Rightarrow> 0 | Some h \<Rightarrow> h)"
proof -
  have "unat (of_nat (36 + 8 * n) :: u32) = 36 + 8 * n" using assms(3) by (simp only: unat_of_nat) simp
  then have "ucast (of_nat (36 + 8 * n) :: u32) = (of_nat (36 + 8 * n) :: u64)"
    by (simp only: word_unat_eq_iff unat_ucast_u32) (simp only: unat_of_nat, use assms(3) in simp)
  then have "(ucast (of_nat (36 + 8 * n) :: u32) - 36 :: u64) = of_nat (8 * n)" by simp
  moreover have "unat (of_nat (8 * n) div 8 :: u64) = n"
    using assms(3) by (simp add: unat_div_u64 unat_of_nat_small del: of_nat_mult)
  ultimately show ?thesis
    unfolding acpi_find_table_def assms(2) Let_def xsdt_tables_def acpi_find_loop_find [OF assms(1)] by simp
qed

end
