(* ===== verification/Apic.thy ===== *)
theory Apic
  imports Acpi
begin

text \<open>
  The interrupt controllers: the local APIC (\<open>interrupts/lapic.c\<close>), the I/O APICs
  (\<open>interrupts/ioapic.c\<close>), and the generic names for them (\<open>interrupts/irq.c\<close>).

  Register accesses go to the trace of \<open>Devices\<close>.  A pointer to an element of the array \<open>ioapics\<close>
  is its index, \<open>None\<close> for \<open>NULL\<close>.  An operation that calls \<open>vmm_map\<close> or walks the MADT is partial;
  \<open>rsdp\<close> is \<open>rsdp_request.response->address\<close>, which the boot loader provides.
\<close>

section \<open>State\<close>

record ioapic_t =
  ioapic_id :: u32
  gsi_base :: u32
  mmio_base_va :: u64
  max_redirection :: u8

record apic_state = hw_state +
  lapic_ticks :: u64
  lapic_phys :: u64
  lapic_va :: u64
  x2apic_enabled :: bool
  ioapics :: "ioapic_t list"
  ioapic_count :: u64

section \<open>The local APIC\<close>

abbreviation (input) LAPIC_TPR :: u32 where "LAPIC_TPR \<equiv> 0x080"
abbreviation (input) LAPIC_EOI :: u32 where "LAPIC_EOI \<equiv> 0x0B0"
abbreviation (input) LAPIC_SVR :: u32 where "LAPIC_SVR \<equiv> 0x0F0"
abbreviation (input) LAPIC_ESR :: u32 where "LAPIC_ESR \<equiv> 0x280"
abbreviation (input) LAPIC_LVT_TIMER :: u32 where "LAPIC_LVT_TIMER \<equiv> 0x320"
abbreviation (input) LAPIC_LVT_THERMAL :: u32 where "LAPIC_LVT_THERMAL \<equiv> 0x330"
abbreviation (input) LAPIC_LVT_PERF :: u32 where "LAPIC_LVT_PERF \<equiv> 0x340"
abbreviation (input) LAPIC_LVT_LINT0 :: u32 where "LAPIC_LVT_LINT0 \<equiv> 0x350"
abbreviation (input) LAPIC_LVT_LINT1 :: u32 where "LAPIC_LVT_LINT1 \<equiv> 0x360"
abbreviation (input) LAPIC_LVT_ERROR :: u32 where "LAPIC_LVT_ERROR \<equiv> 0x370"
abbreviation (input) LAPIC_TIMER_INIT :: u32 where "LAPIC_TIMER_INIT \<equiv> 0x380"
abbreviation (input) LAPIC_TIMER_DCR :: u32 where "LAPIC_TIMER_DCR \<equiv> 0x3E0"
abbreviation (input) LAPIC_SVR_ENABLE :: u32 where "LAPIC_SVR_ENABLE \<equiv> 0x100"
abbreviation (input) LAPIC_MASKED :: u32 where "LAPIC_MASKED \<equiv> 0x10000"
abbreviation (input) LAPIC_MODE_PERIODIC :: u32 where "LAPIC_MODE_PERIODIC \<equiv> 0x20000"
abbreviation (input) LAPIC_LVT_TIMER_TSC_DEADLINE :: u32 where "LAPIC_LVT_TIMER_TSC_DEADLINE \<equiv> 0x40000"
abbreviation (input) LAPIC_TIMER_VECTOR :: u32 where "LAPIC_TIMER_VECTOR \<equiv> 0x20"
abbreviation (input) LAPIC_ERROR_VECTOR :: u32 where "LAPIC_ERROR_VECTOR \<equiv> 0xFE"
abbreviation (input) LAPIC_SPURIOUS_VECTOR :: u32 where "LAPIC_SPURIOUS_VECTOR \<equiv> 0xFF"
abbreviation (input) IA32_APIC_BASE_MSR :: u32 where "IA32_APIC_BASE_MSR \<equiv> 0x1B"
abbreviation (input) IA32_APIC_BASE_ENABLE :: u64 where "IA32_APIC_BASE_ENABLE \<equiv> 0x800"
abbreviation (input) IA32_APIC_BASE_X2APIC :: u64 where "IA32_APIC_BASE_X2APIC \<equiv> 0x400"
abbreviation (input) IA32_TSC_DEADLINE :: u32 where "IA32_TSC_DEADLINE \<equiv> 0x6E0"
abbreviation (input) PTE_PWT :: u64 where "PTE_PWT \<equiv> 8"
abbreviation (input) PTE_PCD :: u64 where "PTE_PCD \<equiv> 0x10"

definition lapic_read :: "hardware \<Rightarrow> u32 \<Rightarrow> 'a apic_state_scheme \<Rightarrow> u32 \<times> 'a apic_state_scheme" where
  "lapic_read H reg s =
     (if x2apic_enabled s
      then let msr = 0x800 + drop_bit 4 reg; (v, s) = rdmsr H msr s in (ucast v, s)
      else mmio_read32 H (lapic_va s + 4 * ucast (reg div 4)) s)"

definition lapic_write :: "u32 \<Rightarrow> u32 \<Rightarrow> 'a apic_state_scheme \<Rightarrow> 'a apic_state_scheme" where
  "lapic_write reg val s =
     (if x2apic_enabled s
      then let msr = 0x800 + drop_bit 4 reg in wrmsr msr (ucast val) s
      else mmio_write32 (lapic_va s + 4 * ucast (reg div 4)) val s)"

definition lapic_eoi :: "'a apic_state_scheme \<Rightarrow> 'a apic_state_scheme" where
  "lapic_eoi s = lapic_write LAPIC_EOI 0 s"

definition lapic_init :: "hardware \<Rightarrow> u64 \<Rightarrow> 'a apic_state_scheme \<Rightarrow> 'a apic_state_scheme option" where
  "lapic_init H rsdp s =
     (let madt = acpi_get_madt s rsdp in
      if madt = 0 then Some s
      else
        let s = s\<lparr>lapic_phys := ucast (madt_lapic_address (load_madt (mem s) madt))\<rparr>;
            s = s\<lparr>lapic_va := lapic_phys s + hhdm_offset s\<rparr>
        in do {
          (_, s) \<leftarrow> vmm_map (lapic_va s) (lapic_phys s) (PTE_PRESENT OR PTE_WRITE OR PTE_PCD OR PTE_PWT) s;
          let (eax, ebx, ecx, edx) = cpuid H 1;
              x2apic_supported = (ecx AND 0x200000 \<noteq> 0)
          in if x2apic_supported then
               let s = serial_log (bytes ''x2APIC supported\<newline>'') s;
                   (apic_base, s) = rdmsr H IA32_APIC_BASE_MSR s;
                   apic_base = apic_base OR IA32_APIC_BASE_ENABLE OR IA32_APIC_BASE_X2APIC;
                   s = wrmsr IA32_APIC_BASE_MSR apic_base s;
                   s = s\<lparr>x2apic_enabled := True\<rparr>;
                   s = lapic_write LAPIC_ESR 0 s;
                   s = lapic_write LAPIC_TPR 0 s;
                   s = lapic_write LAPIC_SVR (LAPIC_SVR_ENABLE OR LAPIC_SPURIOUS_VECTOR) s;
                   s = lapic_write LAPIC_LVT_THERMAL LAPIC_MASKED s;
                   s = lapic_write LAPIC_LVT_PERF LAPIC_MASKED s;
                   s = lapic_write LAPIC_LVT_LINT0 LAPIC_MASKED s;
                   s = lapic_write LAPIC_LVT_LINT1 LAPIC_MASKED s;
                   s = lapic_write LAPIC_LVT_ERROR (LAPIC_MASKED OR LAPIC_ERROR_VECTOR) s
               in Some (serial_log (bytes ''LAPIC initialized\<newline>'') s)
             else
               let s = serial_log (bytes ''x2APIC not supported\<newline>'') s
               in Some (s\<lparr>x2apic_enabled := False\<rparr>)
        })"

section \<open>The I/O APICs\<close>

abbreviation (input) IOAPIC_VERSION :: u32 where "IOAPIC_VERSION \<equiv> 0x01"
abbreviation (input) IOAPIC_REDIR_TBL_OFFSET :: u32 where "IOAPIC_REDIR_TBL_OFFSET \<equiv> 0x10"
abbreviation (input) IOREDTBL_MASKED :: u32 where "IOREDTBL_MASKED \<equiv> 0x10000"
abbreviation (input) IOREDTBL_TRIGGER_LEVEL :: u32 where "IOREDTBL_TRIGGER_LEVEL \<equiv> 0x8000"
abbreviation (input) IOREDTBL_POLARITY_LOW :: u32 where "IOREDTBL_POLARITY_LOW \<equiv> 0x2000"

definition ioapic_write_internal :: "u64 \<Rightarrow> u32 \<Rightarrow> u32 \<Rightarrow> 'a hw_state_scheme \<Rightarrow> 'a hw_state_scheme" where
  "ioapic_write_internal base reg val s =
     (let s = mmio_write32 base reg s in mmio_write32 (base + 4 * 4) val s)"

definition ioapic_read_internal :: "hardware \<Rightarrow> u64 \<Rightarrow> u32 \<Rightarrow> 'a hw_state_scheme \<Rightarrow> u32 \<times> 'a hw_state_scheme" where
  "ioapic_read_internal H base reg s =
     (let s = mmio_write32 base reg s in mmio_read32 H (base + 4 * 4) s)"

definition ioapic_read :: "hardware \<Rightarrow> nat option \<Rightarrow> u32 \<Rightarrow> 'a apic_state_scheme \<Rightarrow> u32 \<times> 'a apic_state_scheme" where
  "ioapic_read H io reg s =
     (case io of None \<Rightarrow> (0xFFFFFFFF, s)
      | Some i \<Rightarrow> if mmio_base_va (ioapics s ! i) = 0 then (0xFFFFFFFF, s)
                  else ioapic_read_internal H (mmio_base_va (ioapics s ! i)) reg s)"

definition ioapic_write :: "nat option \<Rightarrow> u32 \<Rightarrow> u32 \<Rightarrow> 'a apic_state_scheme \<Rightarrow> 'a apic_state_scheme" where
  "ioapic_write io reg val s =
     (case io of None \<Rightarrow> s
      | Some i \<Rightarrow> if mmio_base_va (ioapics s ! i) = 0 then s
                  else ioapic_write_internal (mmio_base_va (ioapics s ! i)) reg val s)"

definition ioapic_mask_pin :: "nat \<Rightarrow> nat \<Rightarrow> 'a apic_state_scheme \<Rightarrow> 'a apic_state_scheme" where
  "ioapic_mask_pin io i s =
     (let reg_low = IOAPIC_REDIR_TBL_OFFSET + of_nat i * 2;
          reg_high = reg_low + 1;
          s = ioapic_write (Some io) reg_low IOREDTBL_MASKED s
      in ioapic_write (Some io) reg_high 0 s)"

definition ioapic_init_one :: "hardware \<Rightarrow> u64 \<Rightarrow> 'a apic_state_scheme \<Rightarrow> 'a apic_state_scheme option" where
  "ioapic_init_one H entry s =
     (if ioapic_count s \<ge> 8 then Some (serial_log (bytes ''Too many IOAPICs (>8)\<newline>'') s)
      else
        let e = load_madt_ioapic (mem s) entry;
            phys = ucast (mio_address e);
            virt = phys + hhdm_offset s
        in do {
          (_, s) \<leftarrow> vmm_map virt phys (PTE_PRESENT OR PTE_WRITE OR PTE_PCD OR PTE_PWT) s;
          let io = unat (ioapic_count s);
              s = s\<lparr>ioapic_count := ioapic_count s + 1\<rparr>;
              s = s\<lparr>ioapics := (ioapics s)[io := (ioapics s ! io)\<lparr>ioapic_id := ucast (mio_ioapic_id e),
                     gsi_base := mio_gsi_base e, mmio_base_va := virt\<rparr>]\<rparr>;
              (version, s) = ioapic_read H (Some io) IOAPIC_VERSION s;
              maxred = ucast (drop_bit 16 version AND 0xFF);
              s = s\<lparr>ioapics := (ioapics s)[io := (ioapics s ! io)\<lparr>max_redirection := maxred\<rparr>]\<rparr>
          in Some (fold (ioapic_mask_pin io) [0..<Suc (unat maxred)] s)
        })"

text \<open>The walk over the MADT.  An entry of length 0 makes it run for ever.\<close>

partial_function (option) ioapic_init_loop ::
  "hardware \<Rightarrow> u64 \<Rightarrow> u64 \<Rightarrow> 'a apic_state_scheme \<Rightarrow> 'a apic_state_scheme option" where
  "ioapic_init_loop H ptr limit s =
     (if ptr < limit
      then Option.bind
             (if entry_kind (load_madt_entry_header (mem s) ptr) = 1 then ioapic_init_one H ptr s else Some s)
             (\<lambda>t. ioapic_init_loop H (ptr + ucast (entry_size (load_madt_entry_header (mem t) ptr))) limit t)
      else Some s)"

definition ioapic_init_all :: "hardware \<Rightarrow> u64 \<Rightarrow> 'a apic_state_scheme \<Rightarrow> 'a apic_state_scheme option" where
  "ioapic_init_all H madt s =
     (let ptr = madt + sizeof_madt;
          limit = madt + ucast (sdt_length (madt_header (load_madt (mem s) madt)))
      in do {
        s \<leftarrow> ioapic_init_loop H ptr limit s;
        Some (serial_log (bytes ''IOAPIC initialized\<newline>'') s)
      })"

text \<open>The pair of the I/O APIC and the pin that serve a global system interrupt.\<close>

fun ioapic_for_gsi_loop :: "'a apic_state_scheme \<Rightarrow> u32 \<Rightarrow> nat list \<Rightarrow> (nat \<times> u32) option" where
  "ioapic_for_gsi_loop s gsi [] = None"
| "ioapic_for_gsi_loop s gsi (i # is) =
     (let io = ioapics s ! i
      in if gsi \<ge> gsi_base io \<and> gsi < gsi_base io + ucast (max_redirection io) + 1
         then Some (i, gsi - gsi_base io)
         else ioapic_for_gsi_loop s gsi is)"

definition ioapic_for_gsi :: "'a apic_state_scheme \<Rightarrow> u32 \<Rightarrow> (nat \<times> u32) option" where
  "ioapic_for_gsi s gsi = ioapic_for_gsi_loop s gsi [0..<unat (ioapic_count s)]"

definition ioapic_set_irq ::
  "u32 \<Rightarrow> u8 \<Rightarrow> bool \<Rightarrow> bool \<Rightarrow> u8 \<Rightarrow> u32 \<Rightarrow> 'a apic_state_scheme \<Rightarrow> 'a apic_state_scheme" where
  "ioapic_set_irq irq vector level_triggered active_low delivery_mode destination s =
     (let gsi = irq; level = level_triggered; low = active_low
      in case ioapic_for_gsi s gsi of None \<Rightarrow> s
         | Some (io, pin) \<Rightarrow>
             let low_reg = IOAPIC_REDIR_TBL_OFFSET + pin * 2;
                 high_reg = low_reg + 1;
                 low_val = ucast vector OR ucast delivery_mode
                   OR (if level then IOREDTBL_TRIGGER_LEVEL else 0)
                   OR (if low then IOREDTBL_POLARITY_LOW else 0);
                 high_val = push_bit 24 destination;
                 s = ioapic_write (Some io) low_reg (low_val OR IOREDTBL_MASKED) s;
                 s = ioapic_write (Some io) high_reg high_val s
             in ioapic_write (Some io) low_reg low_val s)"

definition ioapic_mask_irq :: "hardware \<Rightarrow> u32 \<Rightarrow> 'a apic_state_scheme \<Rightarrow> 'a apic_state_scheme" where
  "ioapic_mask_irq H irq s =
     (let gsi = irq
      in case ioapic_for_gsi s gsi of None \<Rightarrow> s
         | Some (io, pin) \<Rightarrow>
             let reg = IOAPIC_REDIR_TBL_OFFSET + pin * 2;
                 (val, s) = ioapic_read H (Some io) reg s
             in ioapic_write (Some io) reg (val OR IOREDTBL_MASKED) s)"

definition ioapic_unmask_irq :: "hardware \<Rightarrow> u32 \<Rightarrow> 'a apic_state_scheme \<Rightarrow> 'a apic_state_scheme" where
  "ioapic_unmask_irq H irq s =
     (let gsi = irq
      in case ioapic_for_gsi s gsi of None \<Rightarrow> s
         | Some (io, pin) \<Rightarrow>
             let reg = IOAPIC_REDIR_TBL_OFFSET + pin * 2;
                 (val, s) = ioapic_read H (Some io) reg s
             in ioapic_write (Some io) reg (val AND NOT IOREDTBL_MASKED) s)"

section \<open>The generic names\<close>

definition irq_set ::
  "u32 \<Rightarrow> u8 \<Rightarrow> bool \<Rightarrow> bool \<Rightarrow> u8 \<Rightarrow> u32 \<Rightarrow> 'a apic_state_scheme \<Rightarrow> 'a apic_state_scheme" where
  "irq_set irq vector level low mode dest s = ioapic_set_irq irq vector level low mode dest s"

definition irq_eoi :: "'a apic_state_scheme \<Rightarrow> 'a apic_state_scheme" where
  "irq_eoi s = lapic_eoi s"

definition irq_mask :: "hardware \<Rightarrow> u32 \<Rightarrow> 'a apic_state_scheme \<Rightarrow> 'a apic_state_scheme" where
  "irq_mask H irq s = ioapic_mask_irq H irq s"

definition irq_unmask :: "hardware \<Rightarrow> u32 \<Rightarrow> 'a apic_state_scheme \<Rightarrow> 'a apic_state_scheme" where
  "irq_unmask H irq s = ioapic_unmask_irq H irq s"

end
