(* ===== verification/Clock.thy ===== *)
theory Clock
  imports Apic
begin

text \<open>
  The clocks: the HPET (\<open>time/hpet.c\<close>), the time stamp counter (\<open>time/tsc.c\<close>) and the calendar
  (\<open>time/time.c\<close>).

  A result \<open>None\<close> stands for a call that does not return: a division by zero, a wait that never ends,
  a read past the table of months, or \<open>vmm_map\<close> not returning.
\<close>

record clock_state = apic_state +
  hpet_va :: u64
  hpet_frequency_hz :: u64
  tsc_frequency_hz :: u64
  tsc_ticks_per_10ms :: u64
  boot_timestamp :: u64
  boot_tsc :: u64
  current_datetime :: "u8 list"

section \<open>The HPET\<close>

abbreviation (input) HPET_CAPABILITIES :: u64 where "HPET_CAPABILITIES \<equiv> 0x000"
abbreviation (input) HPET_CONFIG :: u64 where "HPET_CONFIG \<equiv> 0x010"
abbreviation (input) HPET_MAIN_COUNTER :: u64 where "HPET_MAIN_COUNTER \<equiv> 0x0F0"
abbreviation (input) HPET_CFG_ENABLE :: u64 where "HPET_CFG_ENABLE \<equiv> 1"

definition hpet_read :: "hardware \<Rightarrow> u64 \<Rightarrow> 'a clock_state_scheme \<Rightarrow> u64 \<times> 'a clock_state_scheme" where
  "hpet_read H offset s = mmio_read64 H (hpet_va s + offset) s"

definition hpet_write :: "u64 \<Rightarrow> u64 \<Rightarrow> 'a clock_state_scheme \<Rightarrow> 'a clock_state_scheme" where
  "hpet_write offset val s = mmio_write64 (hpet_va s + offset) val s"

definition hpet_init :: "hardware \<Rightarrow> u64 \<Rightarrow> 'a clock_state_scheme \<Rightarrow> 'a clock_state_scheme option" where
  "hpet_init H rsdp s =
     (let hpet = acpi_get_hpet s rsdp in
      if hpet = 0 then Some (serial_log (bytes ''HPET not found\<newline>'') s)
      else
        let hpet_phys = ha_address (hpet_base_address (load_hpet (mem s) hpet));
            s = s\<lparr>hpet_va := hpet_phys + hhdm_offset s\<rparr>
        in do {
          (_, s) \<leftarrow> vmm_map (hpet_va s) hpet_phys (PTE_PRESENT OR PTE_WRITE OR PTE_PCD OR PTE_PWT) s;
          let (capabilities, s) = hpet_read H HPET_CAPABILITIES s;
              period_fs = (ucast (drop_bit 32 capabilities AND 0xFFFFFFFF) :: u32)
          in if period_fs = 0 then Some (serial_log (bytes ''Invalid HPET period\<newline>'') s)
             else
               let s = s\<lparr>hpet_frequency_hz := 1000000000000000 div ucast period_fs\<rparr>;
                   (config, s) = hpet_read H HPET_CONFIG s;
                   s = hpet_write HPET_CONFIG (config OR HPET_CFG_ENABLE) s
               in Some (serial_log (bytes ''HPET initialized\<newline>'') s)
        })"

section \<open>The time stamp counter\<close>

definition tsc_is_invariant :: "hardware \<Rightarrow> 'a machine_scheme \<Rightarrow> bool \<times> 'a machine_scheme" where
  "tsc_is_invariant H s =
     (let (max_ext_leaf, _, _, _) = cpuid H 0x80000000;
          tsc_invariant =
            (if max_ext_leaf \<ge> 0x80000007
             then let (_, _, _, edx) = cpuid H 0x80000007 in edx AND 0x100 \<noteq> 0
             else False);
          s = (if \<not> tsc_invariant then serial_log (bytes ''TSC not invariant\<newline>'') s else s)
      in (tsc_invariant, s))"

definition tsc_calibrate_cpuid :: "hardware \<Rightarrow> u64" where
  "tsc_calibrate_cpuid H =
     (let (max_leaf, _, _, _) = cpuid H 0;
          (eax, ebx, ecx, _) = cpuid H 0x15
      in if max_leaf \<ge> 0x15 \<and> eax \<noteq> 0 \<and> ebx \<noteq> 0 \<and> ecx \<noteq> 0
         then (ucast ecx * ucast ebx) div ucast eax
         else let (eax, _, _, _) = cpuid H 0x16
              in if max_leaf \<ge> 0x16 \<and> eax \<noteq> 0 then ucast eax * 1000000 else 0)"

text \<open>The wait until the HPET has counted \<open>ticks\<close> from \<open>start\<close>.\<close>

partial_function (option) hpet_wait ::
  "hardware \<Rightarrow> u64 \<Rightarrow> u64 \<Rightarrow> 'a clock_state_scheme \<Rightarrow> 'a clock_state_scheme option" where
  "hpet_wait H start ticks s =
     (if fst (hpet_read H HPET_MAIN_COUNTER s) - start < ticks
      then hpet_wait H start ticks (snd (hpet_read H HPET_MAIN_COUNTER s))
      else Some (snd (hpet_read H HPET_MAIN_COUNTER s)))"

definition tsc_calibrate_hpet ::
  "hardware \<Rightarrow> u64 \<Rightarrow> 'a clock_state_scheme \<Rightarrow> (u64 \<times> 'a clock_state_scheme) option" where
  "tsc_calibrate_hpet H rsdp s = do {
     s \<leftarrow> hpet_init H rsdp (serial_log (bytes ''TSC calibration via CPUID failed, trying via HPET\<newline>'') s);
     if hpet_frequency_hz s = 0
     then Some (0, serial_log (bytes ''HPET init failed, no TSC calibration\<newline>'') s)
     else
       let calibration_duration_ns = 100000000;
           ticks_to_wait = (hpet_frequency_hz s * calibration_duration_ns) div 1000000000;
           (hpet_start, s) = hpet_read H HPET_MAIN_COUNTER s;
           (tsc_start, s) = rdtsc H s
       in do {
         s \<leftarrow> hpet_wait H hpet_start ticks_to_wait s;
         let (tsc_end, s) = rdtsc H s;
             (hpet_end, s) = hpet_read H HPET_MAIN_COUNTER s;
             hpet_delta = hpet_end - hpet_start;
             tsc_delta = tsc_end - tsc_start
         in if hpet_delta = 0 then None else Some ((tsc_delta * hpet_frequency_hz s) div hpet_delta, s)
       }}"

definition tsc_calibrate ::
  "hardware \<Rightarrow> u64 \<Rightarrow> 'a clock_state_scheme \<Rightarrow> (u64 \<times> 'a clock_state_scheme) option" where
  "tsc_calibrate H rsdp s =
     (let freq = tsc_calibrate_cpuid H
      in if freq \<noteq> 0 then Some (freq, serial_log (bytes ''TSC calibrated via CPUID\<newline>'') s)
         else do {
           (freq, s) \<leftarrow> tsc_calibrate_hpet H rsdp s;
           if freq \<noteq> 0 then
             let ghz = freq div 1000000000;
                 mhz = (freq mod 1000000000) div 1000000;
                 s = serial_log (bytes ''TSC calibrated via HPET: '') s;
                 s = serial_log (u64_to_dec_bytes ghz) s;
                 s = serial_log (bytes ''.'') s;
                 s = (if mhz < 100 then serial_log (bytes ''0'') s else s);
                 s = (if mhz < 10 then serial_log (bytes ''0'') s else s);
                 s = serial_log (u64_to_dec_bytes mhz) s
             in Some (freq, serial_log (bytes '' GHz\<newline>'') s)
           else Some (freq, s)
         })"

definition tsc_init :: "hardware \<Rightarrow> u64 \<Rightarrow> 'a clock_state_scheme \<Rightarrow> 'a clock_state_scheme option" where
  "tsc_init H rsdp s = do {
     (freq, s) \<leftarrow> tsc_calibrate H rsdp s;
     let s = s\<lparr>tsc_frequency_hz := freq\<rparr>
     in if tsc_frequency_hz s = 0 then Some (serial_log (bytes ''TSC initialization failed\<newline>'') s)
        else let s = s\<lparr>tsc_ticks_per_10ms := tsc_frequency_hz s div 100\<rparr>
             in Some (serial_log (bytes ''TSC initialized\<newline>'') s) }"

section \<open>The calendar\<close>

text \<open>\<open>date\<close> is \<open>date_at_boot_request.response->timestamp\<close>, absent when there is no response.\<close>

definition time_init :: "hardware \<Rightarrow> u64 option \<Rightarrow> 'a clock_state_scheme \<Rightarrow> 'a clock_state_scheme" where
  "time_init H date s =
     (let s = (case date of
                 Some timestamp \<Rightarrow> if 0 \<le> sint timestamp then s\<lparr>boot_timestamp := timestamp\<rparr> else s\<lparr>boot_timestamp := 0\<rparr>
               | None \<Rightarrow> s\<lparr>boot_timestamp := 0\<rparr>);
          (t, s) = rdtsc H s
      in s\<lparr>boot_tsc := t\<rparr>)"

definition time_get_timestamp :: "hardware \<Rightarrow> 'a clock_state_scheme \<Rightarrow> (u64 \<times> 'a clock_state_scheme) option" where
  "time_get_timestamp H s =
     (let (t, s) = rdtsc H s;
          delta_ticks = t - boot_tsc s
      in if tsc_frequency_hz s = 0 then None
         else let delta_sec = delta_ticks div tsc_frequency_hz s
              in Some (boot_timestamp s + delta_sec, s))"

definition is_leap :: "u64 \<Rightarrow> bool" where
  "is_leap year \<longleftrightarrow> year mod 4 = 0 \<and> (year mod 100 \<noteq> 0 \<or> year mod 400 = 0)"

function year_loop :: "u64 \<Rightarrow> u64 \<Rightarrow> u64 \<times> u64" where
  "year_loop year days =
     (let days_in_year = (if is_leap year then 366 else 365)
      in if days \<ge> days_in_year then year_loop (year + 1) (days - days_in_year) else (year, days))"
  by pat_completeness auto
termination
  by (relation "measure (\<lambda>(year, days). unat days)") (auto simp: unat_diff_small word_le_unat)

declare year_loop.simps [simp del]

definition month_days :: "u8 list" where
  "month_days = [31, 28, 31, 30, 31, 30, 31, 31, 30, 31, 30, 31]"

function month_loop :: "u64 \<Rightarrow> u64 \<Rightarrow> u64 \<Rightarrow> (u64 \<times> u64) option" where
  "month_loop year month days =
     (if 12 \<le> month then None
      else let dim = (if month = 1 \<and> is_leap year then 29 else ucast (month_days ! unat month))
           in if days \<ge> dim then month_loop year (month + 1) (days - dim) else Some (month, days))"
  by pat_completeness auto
termination
  by (relation "measure (\<lambda>(year, month, days). 12 - unat month)") (auto simp: word_le_unat unat_inc_small)

declare month_loop.simps [simp del]

definition digit_char :: "u64 \<Rightarrow> u8" where
  "digit_char d = ucast (of_char CHR ''0'' + d)"

text \<open>The twenty bytes of \<open>YYYY/MM/DD HH:MM:SS\<close> with the terminator.\<close>

definition datetime_bytes :: "u64 \<Rightarrow> u64 \<Rightarrow> u64 \<Rightarrow> u64 \<Rightarrow> u64 \<Rightarrow> u64 \<Rightarrow> u8 list" where
  "datetime_bytes year month day hour minute sec =
     [digit_char (year div 1000 mod 10), digit_char (year div 100 mod 10), digit_char (year div 10 mod 10),
      digit_char (year mod 10), of_char CHR ''/'', digit_char ((month + 1) div 10), digit_char ((month + 1) mod 10),
      of_char CHR ''/'', digit_char (day div 10), digit_char (day mod 10), of_char CHR '' '',
      digit_char (hour div 10), digit_char (hour mod 10), of_char CHR '':'', digit_char (minute div 10),
      digit_char (minute mod 10), of_char CHR '':'', digit_char (sec div 10), digit_char (sec mod 10), 0]"

definition time_get_current :: "hardware \<Rightarrow> 'a clock_state_scheme \<Rightarrow> (u8 list \<times> 'a clock_state_scheme) option" where
  "time_get_current H s = do {
     (ts, s) \<leftarrow> time_get_timestamp H s;
     let days = ts div 86400;
         secs_in_day = ts mod 86400;
         hour = secs_in_day div 3600;
         minute = (secs_in_day mod 3600) div 60;
         sec = secs_in_day mod 60;
         (year, days) = year_loop 1970 days
     in do {
       (month, days) \<leftarrow> month_loop year 0 days;
       let day = days + 1;
           s = s\<lparr>current_datetime := datetime_bytes year month day hour minute sec\<rparr>
       in Some (current_datetime s, s)
     }}"

end
