(* ===== verification/Kernel.thy ===== *)
theory Kernel
  imports Descriptors Fbtext Keyboard Clock
begin

text \<open>
  The state of the whole kernel, the console and keyboard as parts of it, the set-up of the
  descriptor tables, the panic screen and the keyboard interrupt.

  The state holds the variables of every component and the control registers the code sets.  Memory
  below the upper half is what the page tables in \<open>cr3\<close> make of it: \<open>virt_loc\<close> is the address
  in the direct map behind an address the current address space translates.
\<close>

section \<open>The state\<close>

record kernel = clock_state +
  gdt :: "gdt_entry list"
  gp :: gdt_ptr
  tss :: tss_struct
  idt :: "idt_entry list"
  idt_reg :: idtr
  seg_cs :: u16
  seg_ds :: u16
  seg_es :: u16
  seg_ss :: u16
  task_reg :: u16
  cr3 :: u64
  kbd :: kbd_state
  fb :: fb_state
  current_task :: u64
  run_queue_head :: u64
  next_pid :: u32
  line_buffer :: "u8 list"
  line_pos :: u32
  syscall_buf :: "u8 list"

section \<open>Virtual memory as the processor sees it\<close>

text \<open>
  The walk of the processor: \<open>None\<close> is a page fault; a write needs the writable bit at every level,
  because the boot loader enters the kernel with \<open>CR0.WP\<close> set.
\<close>

definition table_frame :: "u64 \<Rightarrow> u64" where
  "table_frame e = e AND 0xFFFFFFFFFF000"

definition mmu_step :: "'a pmm_state_scheme \<Rightarrow> bool \<Rightarrow> u64 \<Rightarrow> u64 \<Rightarrow> u64 option" where
  "mmu_step s wr table index =
     (let e = read64 (mem s) (phys_to_virt s table + 8 * index)
      in if bit e 0 \<and> (wr \<longrightarrow> bit e 1) then Some e else None)"

definition mmu_walk :: "'a pmm_state_scheme \<Rightarrow> bool \<Rightarrow> u64 \<Rightarrow> u64 \<Rightarrow> u64 option" where
  "mmu_walk s wr root v = do {
     e4 \<leftarrow> mmu_step s wr (table_frame root) (PML4_INDEX v);
     e3 \<leftarrow> mmu_step s wr (table_frame e4) (PDP_INDEX v);
     if bit e3 7 then Some ((e3 AND 0xFFFFFC0000000) + (v AND 0x3FFFFFFF)) else do {
     e2 \<leftarrow> mmu_step s wr (table_frame e3) (PD_INDEX v);
     if bit e2 7 then Some ((e2 AND 0xFFFFFFFE00000) + (v AND 0x1FFFFF)) else do {
     e1 \<leftarrow> mmu_step s wr (table_frame e2) (PT_INDEX v);
     Some (table_frame e1 + (v AND 0xFFF))
   }}}"

definition virt_loc :: "kernel \<Rightarrow> bool \<Rightarrow> u64 \<Rightarrow> u64 option" where
  "virt_loc s wr v =
     (if v \<ge> 0xFFFF800000000000 then Some v
      else if v < 0x800000000000 then map_option (phys_to_virt s) (mmu_walk s wr (cr3 s) v)
      else None)"

definition load_byte :: "kernel \<Rightarrow> u64 \<Rightarrow> u8 option" where
  "load_byte s v = map_option (mem s) (virt_loc s False v)"

definition store_byte :: "u64 \<Rightarrow> u8 \<Rightarrow> kernel \<Rightarrow> kernel option" where
  "store_byte v b s = map_option (\<lambda>a. s\<lparr>mem := (mem s)(a := b)\<rparr>) (virt_loc s True v)"

section \<open>The console and the keyboard in the kernel\<close>

definition on_console :: "(fb_mem \<Rightarrow> fb_mem) \<Rightarrow> kernel \<Rightarrow> kernel" where
  "on_console f s = (let (b, m) = f (fb s, mem s) in s\<lparr>fb := b, mem := m\<rparr>)"

abbreviation put_char :: "u32 \<Rightarrow> u32 \<Rightarrow> kernel \<Rightarrow> kernel" where
  "put_char c color \<equiv> on_console (fb_put_char c color)"

abbreviation print :: "string \<Rightarrow> u32 \<Rightarrow> kernel \<Rightarrow> kernel" where
  "print str color \<equiv> on_console (fb_print (Some (bytes str)) color)"

abbreviation print_bytes :: "u8 list \<Rightarrow> u32 \<Rightarrow> kernel \<Rightarrow> kernel" where
  "print_bytes str color \<equiv> on_console (fb_print (Some str) color)"

abbreviation print_number :: "u64 \<Rightarrow> u32 \<Rightarrow> kernel \<Rightarrow> kernel" where
  "print_number n color \<equiv> on_console (fb_print_number n color)"

abbreviation puts :: "string \<Rightarrow> kernel \<Rightarrow> kernel" where
  "puts str \<equiv> serial_log (bytes str)"

definition keyboard_handler :: "hardware \<Rightarrow> kernel \<Rightarrow> kernel" where
  "keyboard_handler H s =
     (let (scancode, s) = inb H 0x60 s;
          s = s\<lparr>kbd := keyboard_scancode scancode (kbd s)\<rparr>
      in irq_eoi s)"

definition keyboard_init :: "kernel \<Rightarrow> kernel" where
  "keyboard_init s = puts ''PS/2 keyboard driver initialized\<newline>'' (irq_set 1 0x21 False False 0 0 s)"

section \<open>Descriptor tables\<close>

text \<open>\<open>lgdt\<close>, and the segment registers reloaded from the new table.\<close>

definition load_gdt :: "gdt_ptr \<Rightarrow> kernel \<Rightarrow> kernel" where
  "load_gdt p s = s\<lparr>gp := p, seg_ds := 0x10, seg_es := 0x10, seg_cs := 0x08, seg_ss := 0x10\<rparr>"

definition gdt_init :: "image \<Rightarrow> kernel \<Rightarrow> kernel" where
  "gdt_init I s =
     (let s = s\<lparr>gdt := gdt_fill (img_tss I) (gdt s)\<rparr>;
          s = s\<lparr>tss := (tss s)\<lparr>rsp0 := img_kernel_main_stack I + 16 * 4096, ist1 := img_ist1_stack I + 8192,
                 ist2 := img_ist2_stack I + 8192, ist3 := img_ist3_stack I + 8192\<rparr>\<rparr>;
          s = load_gdt \<lparr>gp_limit = ucast (sizeof_gdt - 1), gp_base = img_gdt I\<rparr> s;
          s = s\<lparr>task_reg := 0x28\<rparr>
      in puts ''GDT with TSS initialized\<newline>'' s)"

definition idt_init :: "image \<Rightarrow> kernel \<Rightarrow> kernel" where
  "idt_init I s =
     (let s = s\<lparr>idt := idt_fill I (idt s)\<rparr>;
          s = s\<lparr>idt_reg := \<lparr>idtr_limit = ucast (sizeof_idt - 1), idtr_base = img_idt I\<rparr>\<rparr>
      in puts ''IDT initialized\<newline>'' s)"

section \<open>The panic screen\<close>

text \<open>
  \<open>exception_handler\<close> does not return: the state is the one it halts in.  \<open>hex_text\<close> is the
  buffer after \<open>u64_to_hex\<close>.
\<close>

definition hex_text :: "u64 \<Rightarrow> u8 list" where
  "hex_text v = bytes ''0x'' @ u64_to_hex_digits v"

definition panic_line :: "string \<Rightarrow> u64 \<Rightarrow> kernel \<Rightarrow> kernel" where
  "panic_line label v s =
     (let s = print label 0xAAAAAA s;
          s = print_bytes (hex_text v) 0xFFFFFF s;
          s = print ''\<newline>'' 0 s;
          s = puts label s;
          s = serial_log (hex_text v) s
      in puts ''\<newline>'' s)"

definition panic_both :: "string \<Rightarrow> u32 \<Rightarrow> kernel \<Rightarrow> kernel" where
  "panic_both str color s = puts str (print str color s)"

definition panic_cr2 :: "u64 \<Rightarrow> u64 \<Rightarrow> kernel \<Rightarrow> kernel" where
  "panic_cr2 error_code cr2 s =
     (let s = print ''CR2    : '' 0xAAAAAA s;
          s = print_bytes (hex_text cr2) 0xFF7777 s;
          s = print ''  -> '' 0xAAAAAA s;
          s = puts ''CR2    : '' s;
          s = serial_log (hex_text cr2) s;
          s = puts ''  -> '' s;
          s = (if error_code AND 1 \<noteq> 0 then panic_both ''page-protection violation'' 0xFF7777 s
               else panic_both ''page not present'' 0xFF7777 s);
          s = (if error_code AND 2 \<noteq> 0 then panic_both '', write attempt'' 0xFF7777 s else s);
          s = (if error_code AND 4 \<noteq> 0 then panic_both '', user mode'' 0xFF7777 s else s);
          s = (if error_code AND 8 \<noteq> 0 then panic_both '', reserved bit set'' 0xFF7777 s else s);
          s = (if error_code AND 16 \<noteq> 0 then panic_both '', instruction fetch'' 0xFF7777 s else s)
      in puts ''\<newline>'' (print ''\<newline>'' 0 s))"

definition exception_handler ::
  "u64 \<Rightarrow> u64 \<Rightarrow> u64 \<Rightarrow> u64 \<Rightarrow> u64 \<Rightarrow> u64 \<Rightarrow> u64 \<Rightarrow> u64 \<Rightarrow> kernel \<Rightarrow> kernel" where
  "exception_handler cr2 vector error_code rip cs rflags rsp ss s =
     (let s = panic_both ''KERNEL PANIC!\<newline>'' 0xFF5555 s;
          s = print ''Vector : '' 0xAAAAAA s;
          s = print_number vector 0xAAAAAA s;
          s = puts ''Vector : '' s;
          s = serial_log (u64_to_dec_bytes vector) s;
          s = panic_both ''   '' 0xAAAAAA s;
          s = (if vector < 32 then panic_both ''(exception)'' 0xAAAAAA s else s);
          s = panic_both ''\<newline>'' 0 s;
          s = panic_line ''Error  : '' error_code s;
          s = panic_line ''RIP    : '' rip s;
          s = print ''CS     : '' 0xAAAAAA s;
          s = print_bytes (hex_text cs) 0xFFFFFF s;
          s = print ''  (ring '' 0xAAAAAA s;
          s = print_number (cs AND 3) 0xAAAAAA s;
          s = print '')\<newline>'' 0xAAAAAA s;
          s = puts ''CS     : '' s;
          s = serial_log (hex_text cs) s;
          s = puts ''  (ring '' s;
          s = serial_log (u64_to_dec_bytes (cs AND 3)) s;
          s = puts '')\<newline>'' s;
          s = panic_line ''RFLAGS : '' rflags s;
          s = panic_line ''RSP    : '' rsp s;
          s = panic_line ''SS     : '' ss s;
          s = (if vector = 14 then panic_cr2 error_code cr2 s else s);
          s = print ''\<newline>System halted.\<newline>'' 0xFF5555 s
      in puts ''System halted.\<newline>\<newline>'' s)"

end
