(* ===== verification/Scheduler.thy ===== *)
theory Scheduler
  imports Kernel
begin

text \<open>
  The scheduler: the run queue of \<open>usermode/scheduler.c\<close>, the timer tick of
  \<open>interrupts/apictimer.c\<close> that drives it, and the timer interrupt of \<open>interrupts/isr.S\<close> that
  switches tasks.

  A \<open>task_t\<close> is forty bytes of memory at the task's address; the run queue is the circular list its
  \<open>next\<close> fields form.  A result \<open>None\<close> is a loop over that list that does not end.
\<close>

section \<open>Tasks in memory\<close>

datatype task_state_t = TASK_READY | TASK_RUNNING | TASK_BLOCKED | TASK_DEAD

definition state_code :: "task_state_t \<Rightarrow> u32" where
  "state_code t = (case t of TASK_READY \<Rightarrow> 0 | TASK_RUNNING \<Rightarrow> 1 | TASK_BLOCKED \<Rightarrow> 2 | TASK_DEAD \<Rightarrow> 3)"

record cpu_context_t =
  c_r15 :: u64
  c_r14 :: u64
  c_r13 :: u64
  c_r12 :: u64
  c_r11 :: u64
  c_r10 :: u64
  c_r9 :: u64
  c_r8 :: u64
  c_rbp :: u64
  c_rdi :: u64
  c_rsi :: u64
  c_rdx :: u64
  c_rcx :: u64
  c_rbx :: u64
  c_rax :: u64
  c_rip :: u64
  c_cs :: u64
  c_rflags :: u64
  c_rsp :: u64
  c_ss :: u64

abbreviation (input) sizeof_cpu_context_t :: u64 where "sizeof_cpu_context_t \<equiv> 160"
abbreviation (input) TASK_STACK_SIZE :: u64 where "TASK_STACK_SIZE \<equiv> 16 * 4096"

definition task_ctx :: "memory \<Rightarrow> u64 \<Rightarrow> u64" where "task_ctx m t = read64 m t"
definition task_pml4_phys :: "memory \<Rightarrow> u64 \<Rightarrow> u64" where "task_pml4_phys m t = read64 m (t + 8)"
definition task_kernel_stack :: "memory \<Rightarrow> u64 \<Rightarrow> u64" where "task_kernel_stack m t = read64 m (t + 16)"
definition task_state :: "memory \<Rightarrow> u64 \<Rightarrow> u32" where "task_state m t = read32 m (t + 24)"
definition task_pid :: "memory \<Rightarrow> u64 \<Rightarrow> u32" where "task_pid m t = read32 m (t + 28)"
definition task_next :: "memory \<Rightarrow> u64 \<Rightarrow> u64" where "task_next m t = read64 m (t + 32)"

definition set_ctx :: "u64 \<Rightarrow> u64 \<Rightarrow> memory \<Rightarrow> memory" where "set_ctx t v m = write64 t v m"
definition set_pml4_phys :: "u64 \<Rightarrow> u64 \<Rightarrow> memory \<Rightarrow> memory" where "set_pml4_phys t v m = write64 (t + 8) v m"
definition set_kernel_stack :: "u64 \<Rightarrow> u64 \<Rightarrow> memory \<Rightarrow> memory" where "set_kernel_stack t v m = write64 (t + 16) v m"
definition set_state :: "u64 \<Rightarrow> task_state_t \<Rightarrow> memory \<Rightarrow> memory" where "set_state t v m = write32 (t + 24) (state_code v) m"
definition set_pid :: "u64 \<Rightarrow> u32 \<Rightarrow> memory \<Rightarrow> memory" where "set_pid t v m = write32 (t + 28) v m"
definition set_next :: "u64 \<Rightarrow> u64 \<Rightarrow> memory \<Rightarrow> memory" where "set_next t v m = write64 (t + 32) v m"

text \<open>The registers a context holds, popped in this order.\<close>

definition load_context :: "memory \<Rightarrow> u64 \<Rightarrow> cpu_context_t" where
  "load_context m p =
     \<lparr>c_r15 = read64 m p, c_r14 = read64 m (p + 8), c_r13 = read64 m (p + 16), c_r12 = read64 m (p + 24),
      c_r11 = read64 m (p + 32), c_r10 = read64 m (p + 40), c_r9 = read64 m (p + 48), c_r8 = read64 m (p + 56),
      c_rbp = read64 m (p + 64), c_rdi = read64 m (p + 72), c_rsi = read64 m (p + 80), c_rdx = read64 m (p + 88),
      c_rcx = read64 m (p + 96), c_rbx = read64 m (p + 104), c_rax = read64 m (p + 112), c_rip = read64 m (p + 120),
      c_cs = read64 m (p + 128), c_rflags = read64 m (p + 136), c_rsp = read64 m (p + 144), c_ss = read64 m (p + 152)\<rparr>"

section \<open>The run queue\<close>

definition scheduler_init :: "kernel \<Rightarrow> kernel" where
  "scheduler_init s = puts ''[scheduler] initialized\<newline>'' (s\<lparr>run_queue_head := 0, current_task := 0\<rparr>)"

partial_function (option) queue_tail :: "memory \<Rightarrow> u64 \<Rightarrow> u64 \<Rightarrow> u64 option" where
  "queue_tail m head tail = (if task_next m tail \<noteq> head then queue_tail m head (task_next m tail) else Some tail)"

definition scheduler_add_task :: "u64 \<Rightarrow> kernel \<Rightarrow> kernel option" where
  "scheduler_add_task task s =
     (let s = s\<lparr>mem := set_state task TASK_READY (mem s)\<rparr>
      in if run_queue_head s = 0
         then let s = s\<lparr>run_queue_head := task\<rparr> in Some (s\<lparr>mem := set_next task task (mem s)\<rparr>)
         else do {
           tail \<leftarrow> queue_tail (mem s) (run_queue_head s) (run_queue_head s);
           let m = set_next tail task (mem s); m = set_next task (run_queue_head s) m
           in Some (s\<lparr>mem := m\<rparr>)
         })"

definition runnable :: "memory \<Rightarrow> u64 \<Rightarrow> bool" where
  "runnable m t \<longleftrightarrow> task_state m t = state_code TASK_READY \<or> task_state m t = state_code TASK_RUNNING"

partial_function (option) next_loop :: "memory \<Rightarrow> u64 \<Rightarrow> u64 \<Rightarrow> u64 option" where
  "next_loop m start t =
     (if runnable m t then Some t
      else if task_next m t \<noteq> start then next_loop m start (task_next m t)
      else Some 0)"

definition scheduler_next :: "kernel \<Rightarrow> u64 option" where
  "scheduler_next s =
     (if run_queue_head s = 0 then Some 0
      else let start = (if current_task s \<noteq> 0 then task_next (mem s) (current_task s) else run_queue_head s)
           in next_loop (mem s) start start)"

definition schedule :: "kernel \<Rightarrow> kernel option" where
  "schedule s = do {
     next \<leftarrow> scheduler_next s;
     if next = 0 \<or> next = current_task s then Some s
     else
       let s = (if current_task s \<noteq> 0 \<and> task_state (mem s) (current_task s) = state_code TASK_RUNNING
                then s\<lparr>mem := set_state (current_task s) TASK_READY (mem s)\<rparr> else s);
           s = s\<lparr>current_task := next\<rparr>
       in Some (s\<lparr>mem := set_state (current_task s) TASK_RUNNING (mem s)\<rparr>)
   }"

section \<open>The timer\<close>

abbreviation (input) SCHED_QUANTUM :: u64 where "SCHED_QUANTUM \<equiv> 10"

definition lapic_timer_handler :: "hardware \<Rightarrow> kernel \<Rightarrow> kernel option" where
  "lapic_timer_handler H s =
     (let s = (if x2apic_enabled s
               then let (t, s) = rdtsc H s; next_deadline = t + tsc_ticks_per_10ms s
                    in wrmsr IA32_TSC_DEADLINE next_deadline s
               else s);
          s = lapic_eoi s;
          s = s\<lparr>lapic_ticks := lapic_ticks s + 1\<rparr>
      in if lapic_ticks s mod SCHED_QUANTUM = 0 then schedule s else Some s)"

definition apic_timer_init :: "hardware \<Rightarrow> kernel \<Rightarrow> kernel" where
  "apic_timer_init H s =
     (let (eax, ebx, ecx, edx) = cpuid H 1;
          tsc_deadline_supported = (ecx AND 0x1000000 \<noteq> 0);
          (tsc_invariant, s) = tsc_is_invariant H s;
          use_tsc_deadline = (tsc_deadline_supported \<and> tsc_frequency_hz s \<noteq> 0 \<and> tsc_invariant);
          s = (if use_tsc_deadline
               then let s = puts ''Using TSC-deadline timer\<newline>'' s;
                        s = lapic_write LAPIC_LVT_TIMER (LAPIC_TIMER_VECTOR OR LAPIC_LVT_TIMER_TSC_DEADLINE) s;
                        s = wrmsr IA32_TSC_DEADLINE 0 s;
                        (t, s) = rdtsc H s
                    in wrmsr IA32_TSC_DEADLINE (t + tsc_ticks_per_10ms s) s
               else let s = puts ''Using periodic LAPIC timer\<newline>'' s;
                        s = lapic_write LAPIC_TIMER_DCR 3 s;
                        s = lapic_write LAPIC_LVT_TIMER (LAPIC_TIMER_VECTOR OR LAPIC_MODE_PERIODIC) s
                    in lapic_write LAPIC_TIMER_INIT 1000000 s);
          s = lapic_write LAPIC_LVT_ERROR LAPIC_ERROR_VECTOR s
      in puts ''LAPIC timer initialized\<newline>'' s)"

definition apic_init :: "hardware \<Rightarrow> u64 \<Rightarrow> kernel \<Rightarrow> kernel option" where
  "apic_init H rsdp s =
     (let madt = acpi_get_madt s rsdp
      in if madt = 0 then Some s
         else do {
           s \<leftarrow> lapic_init H rsdp s;
           s \<leftarrow> tsc_init H rsdp s;
           let s = apic_timer_init H s in do {
           s \<leftarrow> ioapic_init_all H madt s;
           Some (puts ''APIC fully initialized\<newline>'' s)
         }})"

section \<open>The timer interrupt\<close>

text \<open>
  The interrupt pushes the registers of the interrupted code below \<open>sp\<close>: the processor the last
  five of the context, \<open>PUSH_REGS\<close> the rest, so that a context lies at \<open>sp - 160\<close>.
\<close>

definition push_context :: "u64 \<Rightarrow> cpu_context_t \<Rightarrow> memory \<Rightarrow> memory" where
  "push_context sp r m =
     fold (\<lambda>(k, v). write64 (sp - k) v)
       [(8, c_ss r), (16, c_rsp r), (24, c_rflags r), (32, c_cs r), (40, c_rip r),
        (48, c_rax r), (56, c_rbx r), (64, c_rcx r), (72, c_rdx r), (80, c_rsi r), (88, c_rdi r), (96, c_rbp r),
        (104, c_r8 r), (112, c_r9 r), (120, c_r10 r), (128, c_r11 r), (136, c_r12 r), (144, c_r13 r),
        (152, c_r14 r), (160, c_r15 r)] m"

text \<open>
  Where the processor starts pushing: at \<open>tss.rsp0\<close> when it comes from ring 3, else below the
  interrupted stack pointer, aligned to sixteen bytes.
\<close>

definition interrupt_sp :: "cpu_context_t \<Rightarrow> kernel \<Rightarrow> u64" where
  "interrupt_sp r s = (if c_cs r AND 3 \<noteq> 0 then rsp0 (tss s) else c_rsp r) AND NOT 0xF"

text \<open>The result is the context \<open>iretq\<close> resumes.\<close>

definition lapic_timer_isr :: "hardware \<Rightarrow> cpu_context_t \<Rightarrow> kernel \<Rightarrow> (cpu_context_t \<times> kernel) option" where
  "lapic_timer_isr H r s =
     (let sp = interrupt_sp r s;
          s = s\<lparr>mem := push_context sp r (mem s)\<rparr>;
          rsp = sp - 160
      in if read64 (mem s) (rsp + 128) AND 3 = 0
         then do {
           s \<leftarrow> lapic_timer_handler H s;
           Some (load_context (mem s) rsp, s)
         }
         else
           let s = (if current_task s \<noteq> 0 then s\<lparr>mem := set_ctx (current_task s) rsp (mem s)\<rparr> else s)
           in do {
             s \<leftarrow> lapic_timer_handler H s;
             if current_task s = 0 then Some (load_context (mem s) rsp, s)
             else
               let task = current_task s;
                   s = s\<lparr>cr3 := task_pml4_phys (mem s) task\<rparr>;
                   s = s\<lparr>tss := (tss s)\<lparr>rsp0 := task_kernel_stack (mem s) task + 65536\<rparr>\<rparr>;
                   rsp = task_ctx (mem s) task;
                   s = s\<lparr>mem := write64 (rsp + 152) 0x1B (mem s)\<rparr>
               in Some (load_context (mem s) rsp, s)
           })"

text \<open>The keyboard interrupt saves and restores the registers around its handler.\<close>

definition keyboard_isr :: "hardware \<Rightarrow> cpu_context_t \<Rightarrow> kernel \<Rightarrow> cpu_context_t \<times> kernel" where
  "keyboard_isr H r s =
     (let sp = interrupt_sp r s;
          s = s\<lparr>mem := push_context sp r (mem s)\<rparr>;
          s = keyboard_handler H s
      in (load_context (mem s) (sp - 160), s))"

end
