(* ===== verification/Run_Queue.thy ===== *)
theory Run_Queue
  imports Scheduler
begin

text \<open>
  The run queue as a list.  The locale \<open>linked_nodes\<close> is the interface between circular lists and
  the memory that holds their links; it is interpreted on the \<open>next\<close> fields of tasks in memory.  The
  loops of the scheduler are shown to compute functions of the list.
\<close>

section \<open>Circular lists\<close>

locale linked_nodes =
  fixes nxt :: "'s \<Rightarrow> 'a \<Rightarrow> 'a"
    and link :: "'a \<Rightarrow> 'a \<Rightarrow> 's \<Rightarrow> 's"
    and sep :: "'a \<Rightarrow> 'a \<Rightarrow> bool"
  assumes nxt_link: "nxt (link a b s) a = b"
    and nxt_link_other: "sep a c \<Longrightarrow> nxt (link a b s) c = nxt s c"
begin

definition ring :: "'s \<Rightarrow> 'a list \<Rightarrow> bool" where
  "ring s ts \<longleftrightarrow> ts \<noteq> [] \<and> successively (\<lambda>a b. nxt s a = b) (ts @ [hd ts])"

definition separate :: "'a list \<Rightarrow> bool" where
  "separate ts \<longleftrightarrow> distinct ts \<and> (\<forall>a\<in>set ts. \<forall>b\<in>set ts. a \<noteq> b \<longrightarrow> sep a b)"

lemma ring_rotate: "ring s (us @ vs) \<Longrightarrow> ring s (vs @ us)"
  by (cases "us = []"; cases "vs = []") (auto simp: ring_def successively_append_iff)

lemma ring_cong:
  assumes "\<And>a. a \<in> set ts \<Longrightarrow> nxt s a = nxt s' a"
  shows "ring s ts \<longleftrightarrow> ring s' ts"
proof -
  have "successively (\<lambda>a b. nxt s a = b) (us @ [h]) \<longleftrightarrow> successively (\<lambda>a b. nxt s' a = b) (us @ [h])"
    if "\<forall>a\<in>set us. nxt s a = nxt s' a" for us h
    using that by (induction us) (auto simp: successively_Cons hd_append)
  then show ?thesis using assms by (simp add: ring_def)
qed

lemma ring_single: "ring (link t t s) [t]"
  by (simp add: ring_def nxt_link)

lemma ring_append:
  assumes r: "ring s ts" and sep: "separate (ts @ [t])"
  shows "ring (link t (hd ts) (link (last ts) t s)) (ts @ [t])"
proof -
  obtain us l where ts: "ts = us @ [l]" using r by (metis ring_def rev_exhaust)
  let ?s = "link t (hd ts) (link l t s)"
  have t: "sep t a" "t \<noteq> a" if "a \<in> set ts" for a using sep that by (auto simp: separate_def)
  have l: "sep l a" if "a \<in> set us" for a using sep that ts by (auto simp: separate_def)
  have us: "nxt ?s a = nxt s a" if "a \<in> set us" for a
    using t [of a] l [of a] that ts by (simp add: nxt_link_other)
  have last: "nxt ?s l = t" "nxt ?s t = hd ts" using t [of l] ts by (simp_all add: nxt_link_other nxt_link)
  have "successively (\<lambda>a b. nxt ?s a = b) (vs @ [x])"
    if "successively (\<lambda>a b. nxt s a = b) (vs @ [x])" "\<forall>a\<in>set vs. nxt ?s a = nxt s a" for vs x
    using that by (induction vs) (auto simp: successively_Cons hd_append)
  then have front: "successively (\<lambda>a b. nxt ?s a = b) (us @ [l])"
    using r us unfolding ring_def ts by (simp only: successively_append_iff) blast
  have "successively (\<lambda>a b. nxt ?s a = b) ((us @ [l]) @ [t, hd ts])"
    using front last by (simp only: successively_append_iff [of _ "us @ [l]"]) simp
  moreover have e: "(ts @ [t]) @ [hd (ts @ [t])] = (us @ [l]) @ [t, hd ts]" and "last ts = l"
    by (cases us; simp add: ts)+
  ultimately show ?thesis unfolding ring_def e by simp
qed

lemma ring_next_in: "ring s ts \<Longrightarrow> a \<in> set ts \<Longrightarrow> nxt s a \<in> set ts"
proof -
  have "nxt s a \<in> set (us @ [h])" if "successively (\<lambda>a b. nxt s a = b) (us @ [h])" "a \<in> set us" for us h
    using that by (induction us) (auto simp: successively_Cons hd_append split: if_splits)
  then show "ring s ts \<Longrightarrow> a \<in> set ts \<Longrightarrow> nxt s a \<in> set ts"
    unfolding ring_def by (metis hd_in_set insert_absorb list.simps(15) rotate1.simps(2) set_rotate1)
qed

end

section \<open>Tasks in memory\<close>

text \<open>Two tasks do not overlap.\<close>

definition tasks_apart :: "u64 \<Rightarrow> u64 \<Rightarrow> bool" where
  "tasks_apart a b \<longleftrightarrow> 40 \<le> b - a \<and> 40 \<le> a - b"

definition same_task :: "memory \<Rightarrow> memory \<Rightarrow> u64 \<Rightarrow> bool" where
  "same_task m m' t \<longleftrightarrow> (\<forall>i<40. m (t + i) = m' (t + i))"

lemmas task_fields = task_ctx_def task_pml4_phys_def task_kernel_stack_def task_state_def task_pid_def task_next_def
lemmas task_setters = set_ctx_def set_pml4_phys_def set_kernel_stack_def set_state_def set_pid_def set_next_def

lemma field_offset: "(k :: u64) \<le> 32 \<Longrightarrow> i < 8 \<Longrightarrow> k + i < 40"
  by (simp add: word_less_unat word_le_unat unat_add_small)

lemma field_offset4: "(k :: u64) \<le> 36 \<Longrightarrow> i < 4 \<Longrightarrow> k + i < 40"
  by (simp add: word_less_unat word_le_unat unat_add_small)

lemma same_task_fields:
  assumes "same_task m m' t"
  shows "task_ctx m t = task_ctx m' t" "task_pml4_phys m t = task_pml4_phys m' t"
    "task_kernel_stack m t = task_kernel_stack m' t" "task_state m t = task_state m' t"
    "task_pid m t = task_pid m' t" "task_next m t = task_next m' t"
proof -
  have r64: "read64 m (t + k) = read64 m' (t + k)" if "k \<le> 32" for k
    using assms field_offset [OF that] by (intro read64_cong) (simp add: same_task_def add.assoc)
  have r32: "read32 m (t + k) = read32 m' (t + k)" if "k \<le> 36" for k
    using assms field_offset4 [OF that] by (intro read32_cong) (simp add: same_task_def add.assoc)
  show "task_ctx m t = task_ctx m' t" "task_pml4_phys m t = task_pml4_phys m' t"
    "task_kernel_stack m t = task_kernel_stack m' t" "task_state m t = task_state m' t"
    "task_pid m t = task_pid m' t" "task_next m t = task_next m' t"
    using r64 [of 0] by (simp_all add: task_fields r64 r32)
qed

lemma same_task_runnable: "same_task m m' t \<Longrightarrow> runnable m t = runnable m' t"
  by (simp add: runnable_def same_task_fields)

lemma apart_offsets:
  assumes "tasks_apart a b" and "k \<le> 40 - n" "n \<le> 40" and "i < 40"
  shows "n \<le> b + i - (a + k)"
proof -
  define d where "d = b - a"
  have d: "40 \<le> unat d" "unat d + 40 \<le> 18446744073709551616"
    using assms(1) unat_diff_sum [of a b] by (cases "a = b"; simp add: tasks_apart_def word_le_unat d_def)+
  have k: "unat k + unat n \<le> 40"
    using assms(2,3) by (simp add: word_le_unat unat_diff_small)
  have i: "unat i < 40" using assms(4) by (simp add: word_less_unat)
  have "k \<le> d" using d k by (simp add: word_le_unat)
  then have dk: "unat (d - k) = unat d - unat k" by (simp add: unat_diff_small word_le_unat)
  have e: "b + i - (a + k) = (d - k) + i" by (simp add: d_def algebra_simps)
  have "unat ((d - k) + i) = unat (d - k) + unat i"
    by (rule unat_add_small) (use dk d i k in linarith)
  then have "unat (b + i - (a + k)) = unat d - unat k + unat i" unfolding e using dk by simp
  then show ?thesis using d k by (simp add: word_le_unat)
qed

lemma same_task_setters:
  assumes "tasks_apart a b"
  shows "same_task (set_ctx a v m) m b" "same_task (set_pml4_phys a v m) m b"
    "same_task (set_kernel_stack a v m) m b" "same_task (set_state a st m) m b"
    "same_task (set_pid a w m) m b" "same_task (set_next a v m) m b"
proof -
  have w64: "same_task (write64 (a + k) v m) m b" if "k \<le> 32" for k
    using apart_offsets [OF assms, of k 8] that by (simp add: same_task_def write64_outside)
  have w32: "same_task (write32 (a + k) x m) m b" if "k \<le> 36" for k x
    using apart_offsets [OF assms, of k 4] that by (simp add: same_task_def write32_outside)
  show "same_task (set_ctx a v m) m b" "same_task (set_pml4_phys a v m) m b"
    "same_task (set_kernel_stack a v m) m b" "same_task (set_state a st m) m b"
    "same_task (set_pid a w m) m b" "same_task (set_next a v m) m b"
    using w64 [of 0] by (simp_all add: task_setters w64 w32)
qed

lemma field_updates [simp]:
  "task_state (set_state t st m) t = state_code st" "task_next (set_state t st m) t = task_next m t"
  "task_state (set_next t v m) t = task_state m t" "task_next (set_next t v m) t = v"
  "task_ctx (set_state t st m) t = task_ctx m t" "task_pml4_phys (set_state t st m) t = task_pml4_phys m t"
  "task_kernel_stack (set_state t st m) t = task_kernel_stack m t" "task_pid (set_state t st m) t = task_pid m t"
  "task_ctx (set_ctx t v m) t = v" "task_next (set_ctx t v m) t = task_next m t"
  "task_state (set_ctx t v m) t = task_state m t" "task_pml4_phys (set_ctx t v m) t = task_pml4_phys m t"
  "task_kernel_stack (set_ctx t v m) t = task_kernel_stack m t" "task_pid (set_ctx t v m) t = task_pid m t"
  using read64_write64_other [of t "t + 8"] read64_write64_other [of "t + 32" t]
  by (simp_all add: task_fields task_setters read64_write64_same read32_write32_same read64_write64_other
      read64_write32_other read32_write64_other read32_write32_other)

lemma task_next_set_next_other: "tasks_apart a c \<Longrightarrow> task_next (set_next a b m) c = task_next m c"
  by (rule same_task_fields(6)) (rule same_task_setters)

interpretation tasks: linked_nodes task_next set_next tasks_apart
  by unfold_locales (simp_all add: task_next_set_next_other)

end
