(* ===== verification/Round_Robin.thy ===== *)
theory Round_Robin
  imports Run_Queue
begin

text \<open>
  The scheduler against its specification: a list of tasks with a state each and a current task,
  where \<open>schedule\<close> takes the first task behind the current one that can run.  The relation
  \<open>sched_rel\<close> ties the specification to the memory; every operation of the code preserves it.
\<close>

section \<open>The specification\<close>

record sched =
  queue :: "u64 list"
  states :: "u64 \<Rightarrow> task_state_t"
  cur :: "u64 option"

text \<open>The tasks behind \<open>x\<close> in cyclic order, \<open>x\<close> itself last.\<close>

definition after :: "'a \<Rightarrow> 'a list \<Rightarrow> 'a list" where
  "after x ts = tl (dropWhile (\<lambda>y. y \<noteq> x) ts) @ takeWhile (\<lambda>y. y \<noteq> x) ts @ [x]"

definition can_run :: "sched \<Rightarrow> u64 \<Rightarrow> bool" where
  "can_run a t \<longleftrightarrow> states a t = TASK_READY \<or> states a t = TASK_RUNNING"

definition order :: "sched \<Rightarrow> u64 list" where
  "order a = (case cur a of None \<Rightarrow> queue a | Some c \<Rightarrow> after c (queue a))"

definition pick :: "sched \<Rightarrow> u64 option" where
  "pick a = find (can_run a) (order a)"

definition preempt :: "sched \<Rightarrow> u64 \<Rightarrow> task_state_t" where
  "preempt a = (case cur a of None \<Rightarrow> states a
     | Some c \<Rightarrow> if states a c = TASK_RUNNING then (states a)(c := TASK_READY) else states a)"

definition spec_schedule :: "sched \<Rightarrow> sched" where
  "spec_schedule a =
     (case pick a of None \<Rightarrow> a
      | Some t \<Rightarrow> if cur a = Some t then a
                 else a\<lparr>cur := Some t, states := (preempt a)(t := TASK_RUNNING)\<rparr>)"

definition spec_add :: "u64 \<Rightarrow> sched \<Rightarrow> sched" where
  "spec_add t a = a\<lparr>queue := queue a @ [t], states := (states a)(t := TASK_READY)\<rparr>"

section \<open>The relation\<close>

definition task_ptr :: "u64 option \<Rightarrow> u64" where
  "task_ptr t = (case t of None \<Rightarrow> 0 | Some t \<Rightarrow> t)"

definition queue_rel :: "memory \<Rightarrow> u64 \<Rightarrow> u64 list \<Rightarrow> bool" where
  "queue_rel m head ts \<longleftrightarrow> (if ts = [] then head = 0 else tasks.ring m ts \<and> head = hd ts)
     \<and> 0 \<notin> set ts \<and> tasks.separate ts"

definition sched_rel :: "kernel \<Rightarrow> sched \<Rightarrow> bool" where
  "sched_rel s a \<longleftrightarrow> queue_rel (mem s) (run_queue_head s) (queue a)
     \<and> current_task s = task_ptr (cur a) \<and> set_option (cur a) \<subseteq> set (queue a)
     \<and> (\<forall>t\<in>set (queue a). task_state (mem s) t = state_code (states a t))"

lemma state_code_inj [simp]: "state_code x = state_code y \<longleftrightarrow> x = y"
  by (cases x; cases y) (simp_all add: state_code_def)

lemma sched_rel_cong:
  assumes "mem s = mem s'" "run_queue_head s = run_queue_head s'" "current_task s = current_task s'"
  shows "sched_rel s a \<longleftrightarrow> sched_rel s' a"
  using assms by (simp add: sched_rel_def)

lemma sched_rel_runnable: "sched_rel s a \<Longrightarrow> t \<in> set (queue a) \<Longrightarrow> runnable (mem s) t = can_run a t"
  by (simp add: sched_rel_def runnable_def can_run_def)

lemma find_cong_set: "(\<And>x. x \<in> set xs \<Longrightarrow> P x = Q x) \<Longrightarrow> find P xs = find Q xs"
  by (induction xs) auto

section \<open>Cyclic order\<close>

lemma after_split: "x \<notin> set us \<Longrightarrow> after x (us @ x # vs) = vs @ us @ [x]"
  by (simp add: after_def dropWhile_append takeWhile_append)

lemma after_swap:
  assumes "distinct (us @ vs)" and "x \<in> set (us @ vs)"
  shows "after x (us @ vs) = after x (vs @ us)"
proof -
  have sym: "after x (us @ vs) = after x (vs @ us)" if "distinct (us @ vs)" "x \<in> set us" for us vs
  proof -
    obtain p q where "us = p @ x # q" using \<open>x \<in> set us\<close> by (meson split_list)
    then show ?thesis
      using that(1) after_split [of x p "q @ vs"] after_split [of x "vs @ p" q] by auto
  qed
  show ?thesis
  proof (cases "x \<in> set us")
    case True
    then show ?thesis using sym assms by blast
  next
    case False
    then have "distinct (vs @ us)" "x \<in> set vs" using assms by auto
    then show ?thesis using sym [of vs us] by simp
  qed
qed

lemma after_perm:
  assumes "distinct ts" and "c \<in> set ts"
  obtains us vs where "ts = us @ vs" and "after c ts = vs @ us"
proof -
  obtain p q where "ts = p @ c # q" using assms(2) by (meson split_list)
  then show thesis using that [of "p @ [c]" q] assms(1) after_split [of c p q] by auto
qed

lemma order_perm:
  assumes "distinct (queue a)" and "set_option (cur a) \<subseteq> set (queue a)"
  obtains us vs where "queue a = us @ vs" and "order a = vs @ us"
  using assms after_perm [of "queue a"] that [of "[]" "queue a"] that
  by (cases "cur a") (auto simp: order_def)

lemma order_set:
  assumes "distinct (queue a)" and "set_option (cur a) \<subseteq> set (queue a)"
  shows "set (order a) = set (queue a)" "distinct (order a)" "length (order a) = length (queue a)"
  using order_perm [OF assms] assms(1) by (metis set_append sup_commute, metis distinct_append inf_commute, metis length_append add.commute)

lemma last_order: "cur a = Some c \<Longrightarrow> order a \<noteq> [] \<and> last (order a) = c"
  by (simp add: order_def after_def)

section \<open>The loops\<close>

lemma queue_tail_walk:
  "successively (\<lambda>a b. task_next m a = b) (t # ts @ [h]) \<Longrightarrow> h \<notin> set ts
    \<Longrightarrow> queue_tail m h t = Some (last (t # ts))"
proof (induction ts arbitrary: t)
  case Nil
  then show ?case by (simp add: queue_tail.simps)
next
  case (Cons u us)
  then have "task_next m t = u" "u \<noteq> h" by auto
  moreover have "queue_tail m h u = Some (last (u # us))" using Cons by simp
  ultimately show ?case by (simp add: queue_tail.simps)
qed

lemma next_loop_walk:
  "successively (\<lambda>a b. task_next m a = b) (t # ts @ [h]) \<Longrightarrow> h \<notin> set ts
    \<Longrightarrow> next_loop m h t = Some (task_ptr (find (runnable m) (t # ts)))"
proof (induction ts arbitrary: t)
  case Nil
  then show ?case by (simp add: next_loop.simps task_ptr_def)
next
  case (Cons u us)
  then have "task_next m t = u" "u \<noteq> h" by auto
  moreover have "next_loop m h u = Some (task_ptr (find (runnable m) (u # us)))" using Cons by simp
  ultimately show ?case using next_loop.simps [of m h t] by (simp add: task_ptr_def)
qed

lemma ring_walk:
  assumes "tasks.ring m ts" and "distinct ts"
  obtains us where "ts = hd ts # us" "hd ts \<notin> set us"
    "successively (\<lambda>a b. task_next m a = b) (hd ts # us @ [hd ts])"
  using assms that [of "tl ts"] by (cases ts) (auto simp: tasks.ring_def)

lemma ring_last: "tasks.ring m ts \<Longrightarrow> task_next m (last ts) = hd ts"
  by (auto simp: tasks.ring_def successively_append_iff)

lemma sched_relD:
  assumes "sched_rel s a"
  shows "distinct (queue a)" "set_option (cur a) \<subseteq> set (queue a)" "0 \<notin> set (queue a)" "tasks.separate (queue a)"
    "current_task s = task_ptr (cur a)" "queue_rel (mem s) (run_queue_head s) (queue a)"
    "queue a \<noteq> [] \<Longrightarrow> tasks.ring (mem s) (queue a)" "queue a \<noteq> [] \<Longrightarrow> run_queue_head s = hd (queue a)"
    "t \<in> set (queue a) \<Longrightarrow> task_state (mem s) t = state_code (states a t)"
  using assms by (auto simp: sched_rel_def queue_rel_def tasks.separate_def)

lemma scheduler_next_pick:
  assumes r: "sched_rel s a"
  shows "scheduler_next s = Some (task_ptr (pick a))"
proof (cases "queue a = []")
  case True
  then have "cur a = None" "run_queue_head s = 0"
    using r by (auto simp: sched_rel_def queue_rel_def)
  then show ?thesis using True by (simp add: scheduler_next_def pick_def order_def task_ptr_def)
next
  case False
  note d = sched_relD [OF r]
  obtain us vs where q: "queue a = us @ vs" "order a = vs @ us" using order_perm [OF d(1,2)] by blast
  have o: "tasks.ring (mem s) (order a)" "distinct (order a)" "set (order a) = set (queue a)"
    using tasks.ring_rotate [of "mem s" us vs] d(7) [OF False] order_set [OF d(1,2)] q by simp_all
  have head: "run_queue_head s \<noteq> 0" using d(3) d(8) [OF False] hd_in_set [OF False] by metis
  have start: "(if current_task s \<noteq> 0 then task_next (mem s) (current_task s) else run_queue_head s) = hd (order a)"
  proof (cases "cur a")
    case None
    then show ?thesis using d(5) d(8) [OF False] by (simp add: task_ptr_def order_def)
  next
    case (Some c)
    then have "c \<noteq> 0" using d(2,3) by auto
    then show ?thesis using Some d(5) last_order [OF Some] ring_last [OF o(1)] by (simp add: task_ptr_def)
  qed
  obtain ws where ws: "order a = hd (order a) # ws" "hd (order a) \<notin> set ws"
      "successively (\<lambda>a b. task_next (mem s) a = b) (hd (order a) # ws @ [hd (order a)])"
    using ring_walk [OF o(1,2)] by blast
  have "find (runnable (mem s)) (order a) = pick a"
    unfolding pick_def by (rule find_cong_set) (use o(3) sched_rel_runnable [OF r] in auto)
  then show ?thesis
    unfolding scheduler_next_def Let_def start using head next_loop_walk [OF ws(3,2)] ws(1) by simp
qed

section \<open>The operations preserve the relation\<close>

lemma separateD: "tasks.separate ts \<Longrightarrow> a \<in> set ts \<Longrightarrow> b \<in> set ts \<Longrightarrow> a \<noteq> b \<Longrightarrow> tasks_apart a b"
  by (simp add: tasks.separate_def)

lemma ring_set_state:
  assumes "tasks.separate ts" and "t \<in> set ts"
  shows "tasks.ring (set_state t st m) ts = tasks.ring m ts"
proof (rule tasks.ring_cong)
  fix b assume "b \<in> set ts"
  then show "task_next (set_state t st m) b = task_next m b"
    using separateD [OF assms(1,2), of b] same_task_fields(6) [OF same_task_setters(4)] by (cases "b = t") auto
qed

text \<open>Storing the state of one task.\<close>

lemma sched_rel_set_state:
  assumes r: "sched_rel s a" and t: "t \<in> set (queue a)"
  shows "sched_rel (s\<lparr>mem := set_state t st (mem s)\<rparr>) (a\<lparr>states := (states a)(t := st)\<rparr>)"
proof -
  note d = sched_relD [OF r]
  have "task_state (set_state t st (mem s)) b = state_code (((states a)(t := st)) b)" if "b \<in> set (queue a)" for b
    using d(9) [OF that] separateD [OF d(4) t that] same_task_fields(4) [OF same_task_setters(4)] by (cases "b = t") auto
  then show ?thesis
    using r t ring_set_state [OF d(4) t] by (auto simp: sched_rel_def queue_rel_def)
qed

lemma sched_rel_current: "sched_rel s a \<Longrightarrow> t \<in> set (queue a) \<Longrightarrow> sched_rel (s\<lparr>current_task := t\<rparr>) (a\<lparr>cur := Some t\<rparr>)"
  by (simp add: sched_rel_def task_ptr_def)

lemma pick_in: "sched_rel s a \<Longrightarrow> pick a = Some t \<Longrightarrow> t \<in> set (queue a) \<and> can_run a t \<and> t \<noteq> 0"
  using order_set(1) [of a] sched_relD(1-3) [of s a] by (auto simp: pick_def find_Some_iff) (metis nth_mem)+

lemma task_ptr_eq:
  "0 \<notin> set_option x \<Longrightarrow> task_ptr x = 0 \<longleftrightarrow> x = None"
  "0 \<notin> set_option x \<Longrightarrow> 0 \<notin> set_option y \<Longrightarrow> task_ptr x = task_ptr y \<longleftrightarrow> x = y"
  by (cases x; cases y; simp add: task_ptr_def)+

lemma schedule_refines:
  assumes r: "sched_rel s a"
  shows "\<exists>s'. schedule s = Some s' \<and> sched_rel s' (spec_schedule a) \<and> lapic_ticks s' = lapic_ticks s"
proof (cases "pick a")
  case None
  then show ?thesis
    using r scheduler_next_pick [OF r] by (simp add: schedule_def spec_schedule_def task_ptr_def)
next
  case (Some t)
  note d = sched_relD [OF r]
  have t: "t \<in> set (queue a)" "t \<noteq> 0" using pick_in [OF r Some] by simp_all
  have cur0: "0 \<notin> set_option (cur a)" using d(2,3) by auto
  have n: "scheduler_next s = Some t" using scheduler_next_pick [OF r] Some by (simp add: task_ptr_def)
  have same: "current_task s = t \<longleftrightarrow> cur a = Some t"
    using d(5) task_ptr_eq(2) [OF cur0, of "Some t"] t by (simp add: task_ptr_def)
  show ?thesis
  proof (cases "cur a = Some t")
    case True
    then show ?thesis using r n same Some by (simp add: schedule_def spec_schedule_def)
  next
    case False
    define s1 where "s1 = (if current_task s \<noteq> 0 \<and> task_state (mem s) (current_task s) = state_code TASK_RUNNING
                then s\<lparr>mem := set_state (current_task s) TASK_READY (mem s)\<rparr> else s)"
    have "sched_rel s1 (a\<lparr>states := preempt a\<rparr>)"
    proof (cases "cur a")
      case None
      then show ?thesis using r d(5) by (simp add: s1_def preempt_def task_ptr_def)
    next
      case (Some c)
      then have c: "c \<in> set (queue a)" "current_task s = c" "c \<noteq> 0" using d(2,3,5) by (auto simp: task_ptr_def)
      then show ?thesis
        using r Some d(9) [OF c(1)] sched_rel_set_state [OF r c(1)] by (simp add: s1_def preempt_def)
    qed
    then have "sched_rel (s1\<lparr>current_task := t\<rparr>) (a\<lparr>states := preempt a, cur := Some t\<rparr>)"
      using sched_rel_current t by fastforce
    then have "sched_rel (s1\<lparr>current_task := t, mem := set_state t TASK_RUNNING (mem s1)\<rparr>)
        (a\<lparr>cur := Some t, states := (preempt a)(t := TASK_RUNNING)\<rparr>)"
      using sched_rel_set_state t by fastforce
    moreover have "schedule s = Some (s1\<lparr>current_task := t, mem := set_state t TASK_RUNNING (mem s1)\<rparr>)"
      using n same False t by (simp add: schedule_def s1_def Let_def)
    moreover have "spec_schedule a = a\<lparr>cur := Some t, states := (preempt a)(t := TASK_RUNNING)\<rparr>"
      using Some False by (simp add: spec_schedule_def)
    moreover have "lapic_ticks s1 = lapic_ticks s" by (simp add: s1_def)
    ultimately show ?thesis by simp
  qed
qed

text \<open>A task that does not overlap those in the queue may be added.\<close>

definition addable :: "u64 \<Rightarrow> sched \<Rightarrow> bool" where
  "addable t a \<longleftrightarrow> t \<noteq> 0 \<and> tasks.separate (queue a @ [t])"

lemma scheduler_add_task_refines:
  assumes r: "sched_rel s a" and t: "addable t a"
  shows "\<exists>s'. scheduler_add_task t s = Some s' \<and> sched_rel s' (spec_add t a) \<and> lapic_ticks s' = lapic_ticks s"
proof -
  note d = sched_relD [OF r]
  have fresh: "t \<notin> set (queue a)" "t \<noteq> 0" "tasks.separate (queue a @ [t])"
    using t by (auto simp: addable_def tasks.separate_def)
  have apart: "tasks_apart t b" "tasks_apart b t" if "b \<in> set (queue a)" for b
    using separateD [OF fresh(3)] that fresh(1) by auto
  define m where "m = set_state t TASK_READY (mem s)"
  have m: "same_task m (mem s) b" if "b \<in> set (queue a)" for b
    using apart [OF that] by (simp add: m_def same_task_setters)
  have keep: "task_state m b = state_code (states a b)" if "b \<in> set (queue a)" for b
    using same_task_fields(4) [OF m [OF that]] d(9) [OF that] by simp
  have cur: "set_option (cur a) \<subseteq> insert t (set (queue a))" using d(2) by blast
  show ?thesis
  proof (cases "queue a = []")
    case True
    then have "run_queue_head s = 0" using r by (simp add: sched_rel_def queue_rel_def)
    then have "scheduler_add_task t s = Some (s\<lparr>run_queue_head := t, mem := set_next t t m\<rparr>)"
      by (simp add: scheduler_add_task_def Let_def m_def)
    moreover have "sched_rel (s\<lparr>run_queue_head := t, mem := set_next t t m\<rparr>) (spec_add t a)"
      using True fresh d(5) cur tasks.ring_single [of t m]
      by (simp add: sched_rel_def queue_rel_def spec_add_def m_def)
    ultimately show ?thesis by simp
  next
    case False
    have head: "run_queue_head s = hd (queue a)" "run_queue_head s \<noteq> 0"
      using d(3) d(8) [OF False] hd_in_set [OF False] by metis+
    have ring: "tasks.ring m (queue a)"
      using tasks.ring_cong [of "queue a" m "mem s"] same_task_fields(6) [OF m] d(7) [OF False] by blast
    obtain ws where ws: "queue a = hd (queue a) # ws" "hd (queue a) \<notin> set ws"
        "successively (\<lambda>a b. task_next m a = b) (hd (queue a) # ws @ [hd (queue a)])"
      using ring_walk [OF ring d(1)] by blast
    have tail: "queue_tail m (hd (queue a)) (hd (queue a)) = Some (last (queue a))"
      using queue_tail_walk [OF ws(3,2)] ws(1) by metis
    define m2 where "m2 = set_next t (hd (queue a)) (set_next (last (queue a)) t m)"
    have "scheduler_add_task t s = Some (s\<lparr>mem := m2\<rparr>)"
      using head tail by (simp add: scheduler_add_task_def Let_def m_def m2_def)
    moreover have "tasks.ring m2 (queue a @ [t])"
      unfolding m2_def by (rule tasks.ring_append [OF ring fresh(3)])
    moreover have "task_state m2 b = state_code (states (spec_add t a) b)" if b: "b \<in> set (queue a @ [t])" for b
    proof -
      have keep_next: "task_state (set_next x v m') b = task_state m' b" if "x = b \<or> tasks_apart x b" for x v m'
        using that same_task_fields(4) [OF same_task_setters(6)] by auto
      have "last (queue a) = b \<or> tasks_apart (last (queue a)) b" "t = b \<or> tasks_apart t b"
        using b separateD [OF fresh(3), of _ b] last_in_set [OF False] by auto
      then have "task_state m2 b = task_state m b" by (simp add: m2_def keep_next)
      then show ?thesis using b keep fresh(1) by (auto simp: spec_add_def m_def)
    qed
    ultimately show ?thesis
      using False head fresh d(3,5) cur by (auto simp: sched_rel_def queue_rel_def spec_add_def)
  qed
qed

section \<open>Fairness\<close>

lemma can_run_schedule: "can_run (spec_schedule a) t = can_run a t"
proof (cases "pick a")
  case None
  then show ?thesis by (simp add: spec_schedule_def)
next
  case (Some u)
  then have "can_run a u" by (auto simp: pick_def find_Some_iff)
  then show ?thesis using Some by (auto simp: spec_schedule_def can_run_def preempt_def split: option.splits)
qed

lemma queue_schedule [simp]: "queue (spec_schedule a) = queue a"
  by (simp add: spec_schedule_def split: option.splits)

definition behind :: "sched \<Rightarrow> u64 \<Rightarrow> nat" where
  "behind a t = length (takeWhile (\<lambda>y. y \<noteq> t) (order a))"

lemma takeWhile_first: "t \<notin> set ps \<Longrightarrow> takeWhile (\<lambda>y. y \<noteq> t) (ps @ t # zs) = ps"
  by (induction ps) auto

text \<open>A task that can run moves one place forward with every \<open>schedule\<close> at least, or it is taken.\<close>

lemma schedule_progress:
  assumes q: "distinct (queue a)" "set_option (cur a) \<subseteq> set (queue a)" and t: "t \<in> set (queue a)" "can_run a t"
  shows "cur (spec_schedule a) = Some t \<or> behind (spec_schedule a) t < behind a t \<and> set_option (cur (spec_schedule a)) \<subseteq> set (queue a)"
proof -
  note o = order_set [OF q]
  have "t \<in> set (order a)" using t o by simp
  then obtain u where u: "pick a = Some u" using t(2) by (cases "pick a") (auto simp: pick_def find_None_iff)
  show ?thesis
  proof (cases "u = t")
    case True
    then show ?thesis using u by (simp add: spec_schedule_def)
  next
    case False
    obtain i where i: "i < length (order a)" "order a ! i = u" "\<And>j. j < i \<Longrightarrow> \<not> can_run a (order a ! j)"
      using u by (auto simp: pick_def find_Some_iff)
    define xs ys where "xs = take i (order a)" and "ys = drop (Suc i) (order a)"
    have xy: "order a = xs @ u # ys" unfolding xs_def ys_def using id_take_nth_drop [OF i(1)] i(2) by simp
    have "t \<notin> set xs" using i(3) t(2) i(1) by (auto simp: xs_def in_set_conv_nth)
    then have "t \<in> set ys" using \<open>t \<in> set (order a)\<close> False by (simp add: xy)
    then obtain ps zs where ys: "ys = ps @ t # zs" "t \<notin> set ps" by (meson split_list_first)
    have "cur a \<noteq> Some u"
    proof
      assume "cur a = Some u"
      then have "last (order a) = u" using last_order by blast
      then show False using o(2) ys by (simp add: xy) (metis last_in_set list.simps(3) append_is_Nil_conv last_append last_ConsR)
    qed
    then have cur: "cur (spec_schedule a) = Some u" using u by (simp add: spec_schedule_def)
    obtain p r where pr: "queue a = p @ r" "order a = r @ p" using order_perm [OF q] by blast
    have uq: "u \<in> set (queue a)" using xy o(1) by (metis in_set_conv_decomp)
    have "after u (queue a) = after u (order a)"
      using after_swap [of p r u] q(1) uq by (simp only: pr)
    also have "\<dots> = ys @ xs @ [u]" using after_split [of u xs ys] o(2) by (simp add: xy)
    finally have "order (spec_schedule a) = ys @ xs @ [u]" using cur by (simp add: order_def)
    then have "behind (spec_schedule a) t = length ps" using takeWhile_first [OF ys(2)] ys(1) by (simp add: behind_def)
    moreover have "behind a t = length xs + Suc (length ps)"
      using \<open>t \<notin> set xs\<close> False ys takeWhile_first [of t "xs @ u # ps" zs] by (auto simp: behind_def xy)
    ultimately show ?thesis using cur uq by simp
  qed
qed

text \<open>The timer: \<open>schedule\<close> is called at every tenth tick, and the ticks wrap around.\<close>

primrec timer_ticks :: "hardware \<Rightarrow> nat \<Rightarrow> kernel \<Rightarrow> kernel option" where
  "timer_ticks H 0 s = Some s"
| "timer_ticks H (Suc n) s = Option.bind (lapic_timer_handler H s) (timer_ticks H n)"

lemma timer_ticks_add: "timer_ticks H (m + n) s = Option.bind (timer_ticks H m s) (timer_ticks H n)"
  by (induction m arbitrary: s) (auto split: Option.bind_split)

lemma lapic_write_frame:
  "mem (lapic_write r v s) = mem s" "run_queue_head (lapic_write r v s) = run_queue_head s"
  "current_task (lapic_write r v s) = current_task s" "lapic_ticks (lapic_write r v s) = lapic_ticks s"
  by (simp_all add: lapic_write_def mmio_write32_def dev_write_def)

lemma lapic_timer_handler_eq:
  "\<exists>s1. mem s1 = mem s \<and> run_queue_head s1 = run_queue_head s \<and> current_task s1 = current_task s
     \<and> lapic_ticks s1 = lapic_ticks s + 1
     \<and> lapic_timer_handler H s = (if (lapic_ticks s + 1) mod 10 = 0 then schedule s1 else Some s1)"
  by (rule exI [of _ "(lapic_eoi (if x2apic_enabled s then wrmsr IA32_TSC_DEADLINE (fst (rdtsc H s) + tsc_ticks_per_10ms s) (snd (rdtsc H s)) else s))\<lparr>lapic_ticks := lapic_ticks s + 1\<rparr>"])
    (simp add: lapic_timer_handler_def Let_def lapic_eoi_def lapic_write_frame dev_read_def dev_write_def)

lemma handler_refines:
  assumes r: "sched_rel s a"
  shows "\<exists>s'. lapic_timer_handler H s = Some s' \<and> lapic_ticks s' = lapic_ticks s + 1
     \<and> sched_rel s' (if (lapic_ticks s + 1) mod 10 = 0 then spec_schedule a else a)"
proof -
  obtain s1 where s1: "mem s1 = mem s" "run_queue_head s1 = run_queue_head s" "current_task s1 = current_task s"
      "lapic_ticks s1 = lapic_ticks s + 1"
      "lapic_timer_handler H s = (if (lapic_ticks s + 1) mod 10 = 0 then schedule s1 else Some s1)"
    using lapic_timer_handler_eq by blast
  have r1: "sched_rel s1 a" using r sched_rel_cong [OF s1(1-3)] by simp
  then show ?thesis using schedule_refines [OF r1] s1(4,5) by auto
qed

lemma tick_due: "\<exists>d. 1 \<le> d \<and> d \<le> 10 \<and> (x + of_nat d :: u64) mod 10 = 0"
proof -
  define d where "d = 10 - unat x mod 10"
  have d: "1 \<le> d" "d \<le> 10" "(unat x + d) mod 10 = 0"
    unfolding d_def by (auto, presburger+)
  show ?thesis
  proof (cases "unat x + d < 18446744073709551616")
    case True
    have "unat (of_nat d :: u64) = d" using d(2) by (simp add: unat_of_nat_small)
    then have "unat (x + of_nat d) = unat x + d" using True by (simp add: unat_add_small)
    then have "unat ((x + of_nat d) mod 10) = 0" using d(3) by (simp only: unat_mod) simp
    then have "(x + of_nat d) mod 10 = 0" by (simp only: unsigned_eq_0_iff)
    then show ?thesis using d(1,2) by (intro exI [of _ d]) simp
  next
    case False
    define e where "e = 18446744073709551616 - unat x"
    have e: "1 \<le> e" "e \<le> 10" using unat_u64_less [of x] d(2) False by (auto simp: e_def)
    have "(of_nat (unat x + e) :: u64) = 0" using unat_u64_less [of x] by (simp add: e_def)
    then have "x + of_nat e = 0" by simp
    then show ?thesis using e by (intro exI [of _ e]) simp
  qed
qed

lemma ticks_until_schedule:
  assumes "sched_rel s a" and "1 \<le> d" and "(lapic_ticks s + of_nat d) mod 10 = 0"
  shows "\<exists>k s'. 1 \<le> k \<and> k \<le> d \<and> timer_ticks H k s = Some s' \<and> sched_rel s' (spec_schedule a)"
  using assms
proof (induction d arbitrary: s)
  case 0
  then show ?case by simp
next
  case (Suc d)
  obtain s1 where s1: "lapic_timer_handler H s = Some s1" "lapic_ticks s1 = lapic_ticks s + 1"
      "sched_rel s1 (if (lapic_ticks s + 1) mod 10 = 0 then spec_schedule a else a)"
    using handler_refines [OF Suc.prems(1)] by blast
  show ?case
  proof (cases "(lapic_ticks s + 1) mod 10 = 0")
    case True
    then show ?thesis using s1 by (intro exI [of _ 1] exI [of _ s1]) simp
  next
    case False
    then have "d \<noteq> 0" using Suc.prems(3) by (cases d) simp_all
    then obtain k s' where "1 \<le> k" "k \<le> d" "timer_ticks H k s1 = Some s'" "sched_rel s' (spec_schedule a)"
      using Suc.IH [of s1] s1 Suc.prems(3) False by (auto simp: add.assoc)
    then show ?thesis using s1(1) by (intro exI [of _ "Suc k"] exI [of _ s']) simp
  qed
qed

lemma timer_fair:
  assumes "sched_rel s a" and "t \<in> set (queue a)" and "can_run a t"
  shows "\<exists>k s'. k \<le> 10 * Suc (behind a t) \<and> timer_ticks H k s = Some s' \<and> current_task s' = t"
  using assms
proof (induction "behind a t" arbitrary: s a rule: less_induct)
  case less
  note d = sched_relD [OF less.prems(1)]
  obtain e where e: "1 \<le> e" "e \<le> 10" "(lapic_ticks s + of_nat e) mod 10 = 0"
    using tick_due [of "lapic_ticks s"] by (elim exE conjE)
  obtain k s1 where k: "k \<le> e" "timer_ticks H k s = Some s1" "sched_rel s1 (spec_schedule a)"
    using ticks_until_schedule [OF less.prems(1) e(1,3), where H = H] by blast
  consider "cur (spec_schedule a) = Some t" | "behind (spec_schedule a) t < behind a t"
    using schedule_progress [OF d(1,2) less.prems(2,3)] by blast
  then show ?case
  proof cases
    case 1
    then have "current_task s1 = t" using sched_relD(5) [OF k(3)] by (simp add: task_ptr_def)
    then show ?thesis using k e(2) by (intro exI [of _ k] exI [of _ s1]) simp
  next
    case 2
    obtain j s2 where j: "j \<le> 10 * Suc (behind (spec_schedule a) t)" "timer_ticks H j s1 = Some s2" "current_task s2 = t"
      using less.hyps [OF 2 k(3)] less.prems by (auto simp: can_run_schedule)
    then have "timer_ticks H (k + j) s = Some s2" using k by (simp add: timer_ticks_add)
    then show ?thesis using j k e(2) 2 by (intro exI [of _ "k + j"] exI [of _ s2]) simp
  qed
qed

lemma behind_less: "sched_rel s a \<Longrightarrow> t \<in> set (queue a) \<Longrightarrow> behind a t < length (queue a)"
proof -
  assume r: "sched_rel s a" and t: "t \<in> set (queue a)"
  note o = order_set [OF sched_relD(1,2) [OF r]]
  obtain ps zs where "order a = ps @ t # zs" "t \<notin> set ps" using t o(1) by (metis split_list_first)
  then show ?thesis using takeWhile_first [of t ps zs] o(3) by (simp add: behind_def)
qed

end
