(* ===== verification/Context_Switch.thy ===== *)
theory Context_Switch
  imports Round_Robin
begin

text \<open>
  Saving and restoring the registers of a task: what the timer interrupt pushes, what it pops, and
  which memory a tick leaves alone.
\<close>

section \<open>Regions\<close>

text \<open>The \<open>n\<close> bytes at \<open>a\<close> and the \<open>k\<close> bytes at \<open>b\<close> do not overlap.\<close>

definition regions_disjoint :: "u64 \<Rightarrow> u64 \<Rightarrow> u64 \<Rightarrow> u64 \<Rightarrow> bool" where
  "regions_disjoint a n b k \<longleftrightarrow> n \<le> b - a \<and> k \<le> a - b"

lemma regions_disjoint_sym: "regions_disjoint a n b k \<longleftrightarrow> regions_disjoint b k a n"
  by (auto simp: regions_disjoint_def)

lemma regions_disjointD: "regions_disjoint a n b k \<Longrightarrow> i < k \<Longrightarrow> n \<le> b + i - a"
  using regions_apart [of n b a k i] by (simp add: regions_disjoint_def)

lemma load_context_cong:
  assumes "\<And>i. i < 160 \<Longrightarrow> m (p + i) = m' (p + i)"
  shows "load_context m p = load_context m' p"
proof -
  have k: "k + i < 160" if "k \<le> 152" "i < 8" for k i :: u64
    using that by (simp add: word_less_unat word_le_unat unat_add_small)
  have r: "read64 m (p + k) = read64 m' (p + k)" if "k \<le> 152" for k
    using assms k [OF that] by (intro read64_cong) (simp add: add.assoc)
  show ?thesis using r [of 0] by (simp add: load_context_def r)
qed

section \<open>Pushing registers\<close>

lemma mult8_apart:
  fixes a b :: u64
  assumes "8 dvd unat a" "8 dvd unat b" "a \<noteq> b"
  shows "8 \<le> a - b"
proof (cases "b \<le> a")
  case True
  then have "unat (a - b) = unat a - unat b" by (simp add: unat_diff_small word_le_unat)
  then have "8 dvd unat (a - b)" using assms by simp
  moreover have "unat (a - b) \<noteq> 0" using assms(3) by (simp only: unsigned_eq_0_iff) simp
  ultimately show ?thesis by (simp add: word_le_unat dvd_imp_le)
next
  case False
  then have "unat (b - a) = unat b - unat a" by (simp add: unat_diff_small word_le_unat)
  then have "8 dvd unat (b - a)" "unat (b - a) + unat (a - b) = 18446744073709551616"
    using assms unat_diff_sum [of b a] by simp_all
  then have "8 dvd unat (a - b)"
    by presburger
  moreover have "unat (a - b) \<noteq> 0" using assms(3) by (simp only: unsigned_eq_0_iff) simp
  ultimately show ?thesis by (simp add: word_le_unat dvd_imp_le)
qed

lemma read64_pushes:
  assumes "\<forall>(k', v)\<in>set kvs. 8 dvd unat k'" and "8 dvd unat k"
  shows "read64 (fold (\<lambda>(k, v). write64 (sp - k) v) kvs m) (sp - k) =
     (case map_of (rev kvs) k of None \<Rightarrow> read64 m (sp - k) | Some v \<Rightarrow> v)"
  using assms(1)
proof (induction kvs arbitrary: m rule: rev_induct)
  case (snoc kv kvs)
  obtain k' v where kv: "kv = (k', v)" by fastforce
  have "8 \<le> k' - k" "8 \<le> k - k'" if "k \<noteq> k'"
    using mult8_apart [of k' k] mult8_apart [of k k'] that snoc.prems assms(2) kv by auto
  then have "read64 (write64 (sp - k') v m') (sp - k) = (if k = k' then v else read64 m' (sp - k))" for m'
    by (simp add: read64_write64_same read64_write64_other)
  then show ?case using snoc kv by auto
qed simp

lemma pushes_outside:
  assumes "\<forall>(k, v)\<in>set kvs. 8 \<le> k \<and> k \<le> n" and "n \<le> x - (sp - n)"
  shows "fold (\<lambda>(k, v). write64 (sp - k) v) kvs m x = m x"
  using assms(1)
proof (induction kvs arbitrary: m rule: rev_induct)
  case (snoc kv kvs)
  obtain k v where kv: "kv = (k, v)" by fastforce
  have k: "8 \<le> k" "k \<le> n" using snoc.prems kv by auto
  define d where "d = x - (sp - n)"
  have e: "x - (sp - k) = d - (n - k)" by (simp add: d_def)
  have nk: "unat (n - k) = unat n - unat k" "unat k \<le> unat n" "unat n \<le> unat d"
    using k(2) assms(2) by (simp_all add: unat_diff_small word_le_unat d_def)
  then have "unat (d - (n - k)) = unat d - (unat n - unat k)" by (simp add: unat_diff_small word_le_unat)
  then have "8 \<le> x - (sp - k)" unfolding e using k(1) nk by (simp add: word_le_unat)
  then show ?case using snoc kv by (simp add: write64_outside)
qed simp

lemma push_context_outside: "160 \<le> x - (sp - 160) \<Longrightarrow> push_context sp r m x = m x"
  unfolding push_context_def by (rule pushes_outside) simp_all

lemma load_push_context [simp]: "load_context (push_context sp r m) (sp - 160) = r"
proof -
  have "read64 (push_context sp r m) (sp - k) =
     (case map_of (rev [(8, c_ss r), (16, c_rsp r), (24, c_rflags r), (32, c_cs r), (40, c_rip r),
        (48, c_rax r), (56, c_rbx r), (64, c_rcx r), (72, c_rdx r), (80, c_rsi r), (88, c_rdi r), (96, c_rbp r),
        (104, c_r8 r), (112, c_r9 r), (120, c_r10 r), (128, c_r11 r), (136, c_r12 r), (144, c_r13 r),
        (152, c_r14 r), (160, c_r15 r)]) k of None \<Rightarrow> read64 m (sp - k) | Some v \<Rightarrow> v)" if "8 dvd unat k" for k
    unfolding push_context_def by (rule read64_pushes) (use that in simp_all)
  note rd = this
  have e: "sp - 160 + 8 = sp - 152" "sp - 160 + 16 = sp - 144" "sp - 160 + 24 = sp - 136" "sp - 160 + 32 = sp - 128"
    "sp - 160 + 40 = sp - 120" "sp - 160 + 48 = sp - 112" "sp - 160 + 56 = sp - 104" "sp - 160 + 64 = sp - 96"
    "sp - 160 + 72 = sp - 88" "sp - 160 + 80 = sp - 80" "sp - 160 + 88 = sp - 72" "sp - 160 + 96 = sp - 64"
    "sp - 160 + 104 = sp - 56" "sp - 160 + 112 = sp - 48" "sp - 160 + 120 = sp - 40" "sp - 160 + 128 = sp - 32"
    "sp - 160 + 136 = sp - 24" "sp - 160 + 144 = sp - 16" "sp - 160 + 152 = sp - 8"
    by simp_all
  show ?thesis unfolding load_context_def e by (simp add: rd)
qed

lemma load_context_set_ss: "load_context (write64 (p + 152) v m) p = (load_context m p)\<lparr>c_ss := v\<rparr>"
  using read64_write64_other [of p "p + 152"] read64_write64_other [of "p + 152" p]
  by (simp add: load_context_def read64_write64_same read64_write64_other)

section \<open>What a tick leaves alone\<close>

definition task_frame :: "u64 list \<Rightarrow> memory \<Rightarrow> memory \<Rightarrow> bool" where
  "task_frame ts m m' \<longleftrightarrow>
     (\<forall>t\<in>set ts. task_ctx m' t = task_ctx m t \<and> task_pml4_phys m' t = task_pml4_phys m t
        \<and> task_kernel_stack m' t = task_kernel_stack m t \<and> task_pid m' t = task_pid m t)
     \<and> (\<forall>x. (\<forall>t\<in>set ts. 40 \<le> x - t) \<longrightarrow> m' x = m x)"

lemma task_frame_refl: "task_frame ts m m"
  by (simp add: task_frame_def)

lemma task_frame_trans: "task_frame ts m m' \<Longrightarrow> task_frame ts m' m'' \<Longrightarrow> task_frame ts m m''"
  by (simp add: task_frame_def)

lemma offset_outside:
  fixes x t k n :: u64
  assumes "40 \<le> x - t" and "k \<le> 40 - n" "n \<le> 40"
  shows "n \<le> x - (t + k)"
proof -
  define d where "d = x - t"
  have e: "x - (t + k) = d - k" by (simp add: d_def)
  have k: "unat k + unat n \<le> 40" using assms(2,3) by (simp add: word_le_unat unat_diff_small)
  have d: "40 \<le> unat d" using assms(1) by (simp add: word_le_unat d_def)
  then have "unat (d - k) = unat d - unat k" using k by (simp add: unat_diff_small word_le_unat)
  then show ?thesis unfolding e using k d by (simp add: word_le_unat)
qed

lemma task_frame_set_state:
  assumes "tasks.separate ts" and "t \<in> set ts"
  shows "task_frame ts m (set_state t st m)"
proof -
  have "task_ctx (set_state t st m) u = task_ctx m u \<and> task_pml4_phys (set_state t st m) u = task_pml4_phys m u
      \<and> task_kernel_stack (set_state t st m) u = task_kernel_stack m u \<and> task_pid (set_state t st m) u = task_pid m u"
    if "u \<in> set ts" for u
    using separateD [OF assms that] same_task_fields [OF same_task_setters(4)] by (cases "u = t") auto
  moreover have "set_state t st m x = m x" if "40 \<le> x - t" for x
    using offset_outside [OF that, of 24 4] by (simp add: set_state_def write32_outside)
  ultimately show ?thesis using assms(2) by (simp add: task_frame_def)
qed

lemma schedule_frame:
  assumes r: "sched_rel s a" and "schedule s = Some s'"
  shows "task_frame (queue a) (mem s) (mem s') \<and> tss s' = tss s \<and> cr3 s' = cr3 s"
proof -
  note d = sched_relD [OF r]
  define n where "n = task_ptr (pick a)"
  have n: "scheduler_next s = Some n" using scheduler_next_pick [OF r] by (simp add: n_def)
  have inq: "n \<noteq> 0 \<Longrightarrow> n \<in> set (queue a)" using pick_in [OF r] by (cases "pick a") (auto simp: n_def task_ptr_def)
  have cur: "current_task s \<noteq> 0 \<Longrightarrow> current_task s \<in> set (queue a)"
    using d(2,5) by (cases "cur a") (auto simp: task_ptr_def)
  define m1 where "m1 = (if current_task s \<noteq> 0 \<and> task_state (mem s) (current_task s) = state_code TASK_RUNNING
                then set_state (current_task s) TASK_READY (mem s) else mem s)"
  have m1: "task_frame (queue a) (mem s) m1"
    using task_frame_set_state [OF d(4) cur] task_frame_refl by (simp add: m1_def)
  have m2: "n \<noteq> 0 \<Longrightarrow> task_frame (queue a) (mem s) (set_state n TASK_RUNNING m1)"
    using task_frame_trans [OF m1 task_frame_set_state [OF d(4) inq]] by simp
  show ?thesis
    using assms(2) n m2 task_frame_refl by (auto simp: schedule_def m1_def Let_def split: if_splits)
qed

lemma lapic_write_frame2:
  "tss (lapic_write r v s) = tss s" "cr3 (lapic_write r v s) = cr3 s"
  by (simp_all add: lapic_write_def mmio_write32_def dev_write_def)

lemma handler_frame:
  assumes r: "sched_rel s a" and h: "lapic_timer_handler H s = Some s'"
  shows "task_frame (queue a) (mem s) (mem s') \<and> tss s' = tss s \<and> cr3 s' = cr3 s"
proof -
  define s1 where "s1 = (lapic_eoi (if x2apic_enabled s
      then wrmsr IA32_TSC_DEADLINE (fst (rdtsc H s) + tsc_ticks_per_10ms s) (snd (rdtsc H s)) else s))
      \<lparr>lapic_ticks := lapic_ticks s + 1\<rparr>"
  have s1: "mem s1 = mem s" "run_queue_head s1 = run_queue_head s" "current_task s1 = current_task s"
      "tss s1 = tss s" "cr3 s1 = cr3 s"
    by (simp_all add: s1_def lapic_eoi_def lapic_write_frame lapic_write_frame2 dev_read_def dev_write_def)
  have "lapic_timer_handler H s = (if (lapic_ticks s + 1) mod 10 = 0 then schedule s1 else Some s1)"
    by (simp add: lapic_timer_handler_def Let_def s1_def lapic_eoi_def lapic_write_frame dev_read_def dev_write_def)
  moreover have "sched_rel s1 a" using r sched_rel_cong [OF s1(1-3)] by simp
  ultimately show ?thesis
    using h schedule_frame [of s1 a s'] task_frame_refl s1 by (auto split: if_splits)
qed

lemma sched_rel_frame:
  assumes "sched_rel s a" and "\<And>t. t \<in> set (queue a) \<Longrightarrow> task_next m' t = task_next (mem s) t"
    and "\<And>t. t \<in> set (queue a) \<Longrightarrow> task_state m' t = task_state (mem s) t"
  shows "sched_rel (s\<lparr>mem := m'\<rparr>) a"
  using assms tasks.ring_cong [of "queue a" "m'" "mem s"] by (auto simp: sched_rel_def queue_rel_def)

section \<open>The timer interrupt\<close>

definition saved :: "memory \<Rightarrow> u64 \<Rightarrow> cpu_context_t" where
  "saved m t = load_context m (task_ctx m t)"

definition stack_base :: "memory \<Rightarrow> u64 \<Rightarrow> u64" where
  "stack_base m t = task_kernel_stack m t + 65536 - 160"

text \<open>
  Where the registers of a task are or will be saved: for the current task below \<open>tss.rsp0\<close>, for the
  others where their \<open>ctx\<close> points.
\<close>

definition home :: "kernel \<Rightarrow> u64 \<Rightarrow> u64 \<Rightarrow> u64" where
  "home s c t = (if t = c then rsp0 (tss s) - 160 else task_ctx (mem s) t)"

definition spaces_ok :: "u64 list \<Rightarrow> (u64 \<Rightarrow> u64) \<Rightarrow> (u64 \<Rightarrow> u64) \<Rightarrow> bool" where
  "spaces_ok ts h b \<longleftrightarrow>
     (\<forall>t\<in>set ts. \<forall>u\<in>set ts. regions_disjoint (h t) 160 u 40 \<and> regions_disjoint (b t) 160 u 40
        \<and> (t \<noteq> u \<longrightarrow> regions_disjoint (h t) 160 (h u) 160 \<and> regions_disjoint (b t) 160 (h u) 160
             \<and> regions_disjoint (b t) 160 (b u) 160))"

text \<open>
  The state a timer interrupt from ring 3 finds: a current task; the spaces for registers overlap
  neither each other nor a task; stacks are aligned; every saved \<open>ss\<close> is the user data selector.
\<close>

definition timer_inv :: "kernel \<Rightarrow> sched \<Rightarrow> u64 \<Rightarrow> bool" where
  "timer_inv s a c \<longleftrightarrow> sched_rel s a \<and> cur a = Some c
     \<and> spaces_ok (queue a) (home s c) (stack_base (mem s))
     \<and> rsp0 (tss s) AND NOT 0xF = rsp0 (tss s)
     \<and> (\<forall>t\<in>set (queue a). (task_kernel_stack (mem s) t + 65536) AND NOT 0xF = task_kernel_stack (mem s) t + 65536)
     \<and> (\<forall>t\<in>set (queue a). t \<noteq> c \<longrightarrow> c_ss (saved (mem s) t) = 0x1B)"

lemma spaces_okD:
  assumes "spaces_ok ts h b" and "t \<in> set ts" and "u \<in> set ts"
  shows "regions_disjoint (h t) 160 u 40" "regions_disjoint (b t) 160 u 40"
    "t \<noteq> u \<Longrightarrow> regions_disjoint (h t) 160 (h u) 160" "t \<noteq> u \<Longrightarrow> regions_disjoint (b t) 160 (h u) 160"
    "t \<noteq> u \<Longrightarrow> regions_disjoint (b t) 160 (b u) 160"
  using assms by (simp_all add: spaces_ok_def)

text \<open>After the switch the new task is saved at the base of its own stack.\<close>

lemma spaces_ok_switch:
  assumes "spaces_ok ts h b" and "d \<in> set ts"
  shows "spaces_ok ts (h(d := b d)) b"
  using assms regions_disjoint_sym unfolding spaces_ok_def by (auto simp: fun_upd_def)

lemma task_frame_load:
  assumes f: "task_frame ts m m'" and p: "\<forall>t\<in>set ts. regions_disjoint p 160 t 40"
  shows "load_context m' p = load_context m p"
proof (rule load_context_cong)
  fix i :: u64 assume "i < 160"
  then have "\<forall>t\<in>set ts. 40 \<le> p + i - t"
    using p regions_disjoint_sym regions_disjointD by metis
  then show "m' (p + i) = m (p + i)" using f by (simp add: task_frame_def)
qed

text \<open>The stores before the handler: the registers, and \<open>ctx\<close> of the current task.\<close>

lemma push_saves:
  fixes r :: cpu_context_t
  assumes inv: "timer_inv s a c"
  defines "sp \<equiv> rsp0 (tss s)"
  defines "m \<equiv> set_ctx c (sp - 160) (push_context sp r (mem s))"
  shows "sched_rel (s\<lparr>mem := m\<rparr>) a"
    and "t \<in> set (queue a) \<Longrightarrow> task_ctx m t = home s c t"
    and "t \<in> set (queue a) \<Longrightarrow> task_pml4_phys m t = task_pml4_phys (mem s) t
           \<and> task_kernel_stack m t = task_kernel_stack (mem s) t"
    and "t \<in> set (queue a) \<Longrightarrow> load_context m (home s c t) = (if t = c then r else saved (mem s) t)"
proof -
  have r: "sched_rel s a" and c: "c \<in> set (queue a)" and ok: "spaces_ok (queue a) (home s c) (stack_base (mem s))"
    using inv sched_relD(2) [of s a] by (auto simp: timer_inv_def)
  note d = sched_relD [OF r]
  have hc: "home s c c = sp - 160" by (simp add: home_def sp_def)
  define m1 where "m1 = push_context sp r (mem s)"
  have same: "same_task m1 (mem s) t" if "t \<in> set (queue a)" for t
    using regions_disjointD [OF spaces_okD(1) [OF ok c that]] unfolding same_task_def m1_def hc
    by (simp add: push_context_outside)
  have f1: "task_ctx m1 t = task_ctx (mem s) t" "task_pml4_phys m1 t = task_pml4_phys (mem s) t"
      "task_kernel_stack m1 t = task_kernel_stack (mem s) t" "task_next m1 t = task_next (mem s) t"
      "task_state m1 t = task_state (mem s) t" if "t \<in> set (queue a)" for t
    using same_task_fields [OF same [OF that]] by simp_all
  have f2: "task_ctx m t = (if t = c then sp - 160 else task_ctx m1 t)" "task_pml4_phys m t = task_pml4_phys m1 t"
      "task_kernel_stack m t = task_kernel_stack m1 t" "task_next m t = task_next m1 t" "task_state m t = task_state m1 t"
    if "t \<in> set (queue a)" for t
    using separateD [OF d(4) c that] same_task_fields [OF same_task_setters(1)]
    by (cases "t = c"; force simp: m_def m1_def)+
  show "sched_rel (s\<lparr>mem := m\<rparr>) a" by (rule sched_rel_frame [OF r]) (simp_all add: f1 f2)
  show "t \<in> set (queue a) \<Longrightarrow> task_ctx m t = home s c t"
    and "t \<in> set (queue a) \<Longrightarrow> task_pml4_phys m t = task_pml4_phys (mem s) t
           \<and> task_kernel_stack m t = task_kernel_stack (mem s) t"
    by (simp_all add: f1 f2 home_def sp_def)
  assume t: "t \<in> set (queue a)"
  have "load_context m (home s c t) = load_context m1 (home s c t)"
  proof (rule load_context_cong)
    fix i :: u64 assume "i < 160"
    then have "40 \<le> home s c t + i - c"
      using spaces_okD(1) [OF ok t c] regions_disjoint_sym regions_disjointD by metis
    then show "m (home s c t + i) = m1 (home s c t + i)"
      using offset_outside [of "home s c t + i" c 0 8] by (simp add: m_def m1_def set_ctx_def write64_outside)
  qed
  also have "\<dots> = (if t = c then r else saved (mem s) t)"
  proof (cases "t = c")
    case True
    then show ?thesis by (simp add: hc m1_def)
  next
    case False
    have "load_context m1 (home s c t) = load_context (mem s) (home s c t)"
      using regions_disjointD [OF spaces_okD(3) [OF ok c t]] False unfolding hc m1_def
      by (intro load_context_cong) (simp add: push_context_outside)
    then show ?thesis using False by (simp add: saved_def home_def)
  qed
  finally show "load_context m (home s c t) = (if t = c then r else saved (mem s) t)" .
qed

lemma spaces_ok_cong:
  assumes "spaces_ok ts h b" and "\<And>t. t \<in> set ts \<Longrightarrow> h' t = h t" and "\<And>t. t \<in> set ts \<Longrightarrow> b' t = b t"
  shows "spaces_ok ts h' b'"
  using assms by (simp add: spaces_ok_def)

lemma ss_outside:
  fixes x p :: u64
  assumes "160 \<le> x - p"
  shows "8 \<le> x - (p + 152)"
proof -
  define d where "d = x - p"
  have e: "x - (p + 152) = d - 152" by (simp add: d_def)
  have "160 \<le> unat d" using assms by (simp add: word_le_unat d_def)
  then have "unat (d - 152) = unat d - 152" by (simp add: unat_diff_small word_le_unat)
  then show ?thesis unfolding e using \<open>160 \<le> unat d\<close> by (simp add: word_le_unat)
qed

lemma cs_pushed: "read64 (push_context sp r m) (sp - 32) = c_cs r"
  using arg_cong [OF load_push_context [of sp r m], of c_cs] by (simp add: load_context_def)

lemma cur_schedule: "cur a = Some c \<Longrightarrow> \<exists>d. cur (spec_schedule a) = Some d"
  by (auto simp: spec_schedule_def split: option.splits)

text \<open>The stores after the handler: only \<open>ss\<close> of the task to resume.\<close>

lemma resume_saves:
  assumes r: "sched_rel s a" and d: "d \<in> set (queue a)" and ok: "spaces_ok (queue a) h b"
    and h: "\<forall>t\<in>set (queue a). task_ctx (mem s) t = h t"
    and ss: "c_ss (load_context (mem s) (h d)) = 0x1B"
  defines "m \<equiv> write64 (h d + 152) 0x1B (mem s)"
  shows "sched_rel (s\<lparr>mem := m\<rparr>) a"
    and "t \<in> set (queue a) \<Longrightarrow> task_ctx m t = h t \<and> task_pml4_phys m t = task_pml4_phys (mem s) t
           \<and> task_kernel_stack m t = task_kernel_stack (mem s) t"
    and "t \<in> set (queue a) \<Longrightarrow> load_context m (h t) = load_context (mem s) (h t)"
proof -
  have same: "same_task m (mem s) t" if "t \<in> set (queue a)" for t
    using regions_disjointD [OF spaces_okD(1) [OF ok d that]] ss_outside
    by (simp add: same_task_def m_def write64_outside)
  show "sched_rel (s\<lparr>mem := m\<rparr>) a"
    by (rule sched_rel_frame [OF r]) (simp_all add: same_task_fields [OF same])
  show "t \<in> set (queue a) \<Longrightarrow> task_ctx m t = h t \<and> task_pml4_phys m t = task_pml4_phys (mem s) t
           \<and> task_kernel_stack m t = task_kernel_stack (mem s) t"
    using h by (simp add: same_task_fields [OF same])
  assume t: "t \<in> set (queue a)"
  show "load_context m (h t) = load_context (mem s) (h t)"
  proof (cases "t = d")
    case True
    then show ?thesis using ss load_context_set_ss [of "h d" "0x1B" "mem s"] by (simp add: m_def)
  next
    case False
    then show ?thesis
      using regions_disjointD [OF spaces_okD(3) [OF ok d t]] ss_outside unfolding m_def
      by (intro load_context_cong) (simp add: write64_outside)
  qed
qed

lemma lapic_timer_isr_switch:
  assumes inv: "timer_inv s a c" and user: "c_cs r AND 3 \<noteq> 0" and ss: "c_ss r = 0x1B"
  shows "\<exists>s' a' d. lapic_timer_isr H r s = Some (saved (mem s') d, s') \<and> timer_inv s' a' d
     \<and> a' = (if (lapic_ticks s + 1) mod 10 = 0 then spec_schedule a else a)
     \<and> (\<forall>t\<in>set (queue a). saved (mem s') t = (if t = c then r else saved (mem s) t))
     \<and> cr3 s' = task_pml4_phys (mem s) d"
proof -
  define q sp where "q = queue a" and "sp = rsp0 (tss s)"
  have r: "sched_rel s a" and cur: "cur a = Some c" "c \<in> set q" "c \<noteq> 0" "current_task s = c"
      and ok: "spaces_ok q (home s c) (stack_base (mem s))" and al: "sp AND NOT 0xF = sp"
    using inv sched_relD(2,3,5) [of s a] by (auto simp: timer_inv_def task_ptr_def q_def sp_def)
  define m where "m = set_ctx c (sp - 160) (push_context sp r (mem s))"
  note push = push_saves [OF inv, where r = r, folded sp_def, folded m_def q_def]
  define s2 where "s2 = s\<lparr>mem := m\<rparr>"
  obtain s3 where s3: "lapic_timer_handler H s2 = Some s3"
      "sched_rel s3 (if (lapic_ticks s + 1) mod 10 = 0 then spec_schedule a else a)"
    using handler_refines [of s2 a H] push(1) by (auto simp: s2_def)
  define a' where "a' = (if (lapic_ticks s + 1) mod 10 = 0 then spec_schedule a else a)"
  have q': "queue a' = q" by (simp add: a'_def q_def)
  obtain d where d: "cur a' = Some d"
    using cur(1) cur_schedule [of a c] by (cases "(lapic_ticks s + 1) mod 10 = 0") (auto simp: a'_def)
  have dq: "d \<in> set q" "d \<noteq> 0" "current_task s3 = d"
    using sched_relD(2,3,5) [OF s3(2) [folded a'_def]] d q' by (auto simp: task_ptr_def)
  have fr: "task_frame q m (mem s3)" "tss s3 = tss s"
    using handler_frame [of s2 a H s3] push(1) s3(1) by (simp_all add: s2_def q_def)
  have f3: "task_ctx (mem s3) t = home s c t" "task_pml4_phys (mem s3) t = task_pml4_phys (mem s) t"
      "task_kernel_stack (mem s3) t = task_kernel_stack (mem s) t" if "t \<in> set q" for t
    using fr(1) push(2,3) that by (simp_all add: task_frame_def)
  have f3': "\<forall>t\<in>set q. task_ctx (mem s3) t = home s c t" using f3(1) by simp
  have l3: "load_context (mem s3) (home s c t) = (if t = c then r else saved (mem s) t)" if "t \<in> set q" for t
    using task_frame_load [OF fr(1)] spaces_okD(1) [OF ok that] push(4) [OF that] by simp
  have ss3: "c_ss (load_context (mem s3) (home s c d)) = 0x1B"
    using l3 [OF dq(1)] ss inv dq(1) by (auto simp: timer_inv_def q_def)
  define m4 where "m4 = write64 (home s c d + 152) 0x1B (mem s3)"
  note res = resume_saves [OF s3(2) [folded a'_def], unfolded q', OF dq(1) ok f3' ss3, folded m4_def]
  define s4 where "s4 = s3\<lparr>cr3 := task_pml4_phys (mem s) d, tss := (tss s)\<lparr>rsp0 := task_kernel_stack (mem s) d + 65536\<rparr>, mem := m4\<rparr>"
  have isr: "lapic_timer_isr H r s = Some (load_context m4 (home s c d), s4)"
    unfolding lapic_timer_isr_def Let_def interrupt_sp_def
    using user al cur s3(1) dq f3 [OF dq(1)] fr(2)
    by (simp add: cs_pushed s2_def m_def s4_def m4_def sp_def)
  have sv: "saved m4 t = (if t = c then r else saved (mem s) t)" if "t \<in> set q" for t
    using res(2,3) [OF that] l3 [OF that] by (simp add: saved_def)
  have "sched_rel s4 a'" using res(1) sched_rel_cong [of s4 "s3\<lparr>mem := m4\<rparr>" a'] by (simp add: s4_def)
  moreover have "spaces_ok q (home s4 d) (stack_base (mem s4))"
    by (rule spaces_ok_cong [OF spaces_ok_switch [OF ok dq(1)]])
      (simp_all add: home_def stack_base_def s4_def res(2) f3)
  moreover have "c_ss (saved m4 t) = 0x1B" if "t \<in> set q" for t
    using sv [OF that] ss inv that by (auto simp: timer_inv_def q_def)
  ultimately have "timer_inv s4 a' d"
    using d q' inv dq(1) res(2) f3 by (simp add: timer_inv_def s4_def q_def)
  then show ?thesis
    using isr sv res(2) [OF dq(1)] by (intro exI [of _ s4] exI [of _ a'] exI [of _ d]) (simp add: s4_def saved_def a'_def q_def)
qed
end
