(* ===== verification/Example_State.thy ===== *)
theory Example_State
  imports Kernel
begin

text \<open>
  A small kernel state and a device that always answers 0 and always asks for a keyboard interrupt, and the
  addresses of an image of the kernel, for the witnesses.
\<close>

definition example_kernel :: kernel where
  "example_kernel =
     \<lparr>mem = (\<lambda>_. 0), port_out = [],
      pmm_bitmap = 0, pmm_bitmap_bytes = 0, pmm_bitmap_frames = 0, pmm_total_frames_count = 0,
      pmm_usable_frames_count = 0, pmm_free_frames_count = 0, pmm_used_frames_count = 0, next_fit_hint = 0,
      hhdm_offset = 0xFFFF800000000000, kernel_pml4_phys = 0, invlpgs = [], io_log = [],
      lapic_ticks = 0, lapic_phys = 0, lapic_va = 0, x2apic_enabled = False, ioapics = [], ioapic_count = 0,
      hpet_va = 0, hpet_frequency_hz = 0, tsc_frequency_hz = 0, tsc_ticks_per_10ms = 0, boot_timestamp = 0, boot_tsc = 0,
      current_datetime = [],
      gdt = [], gp = \<lparr>gp_limit = 0, gp_base = 0\<rparr>,
      tss = \<lparr>reserved0 = 0, rsp0 = 0, rsp1 = 0, rsp2 = 0, reserved1 = 0, ist1 = 0, ist2 = 0, ist3 = 0, ist4 = 0,
        ist5 = 0, ist6 = 0, ist7 = 0, reserved2 = 0, reserved3 = 0, iomap_base = 0\<rparr>,
      idt = [], idt_reg = \<lparr>idtr_limit = 0, idtr_base = 0\<rparr>, seg_cs = 0, seg_ds = 0, seg_es = 0, seg_ss = 0, task_reg = 0,
      cr3 = 0, kbd = example_kbd,
      fb = \<lparr>g_fb = None, g_font = None, g_cursor_x = 20, g_cursor_y = 15, overwrite = False, overwrite_pos = 0\<rparr>,
      current_task = 0, run_queue_head = 0, next_pid = 1, line_buffer = replicate 256 0, line_pos = 0, syscall_buf = replicate 64 0\<rparr>"

definition example_hardware :: hardware where
  "example_hardware = \<lparr>hw_read = (\<lambda>log e. 0), hw_cpuid = (\<lambda>leaf. (0, 0, 0, 0)), hw_key_irq = (\<lambda>k. True)\<rparr>"

definition example_image :: image where
  "example_image =
     \<lparr>img_tss = 0xFFFFFFFF80010000, img_gdt = 0xFFFFFFFF80011000, img_idt = 0xFFFFFFFF80012000,
      img_kernel_main_stack = 0xFFFFFFFF80020000, img_ist1_stack = 0xFFFFFFFF80030000,
      img_ist2_stack = 0xFFFFFFFF80032000, img_ist3_stack = 0xFFFFFFFF80034000,
      img_isr = (\<lambda>n. 0xFFFFFFFF80001000 + 9 * of_nat n), img_lapic_timer_isr = 0xFFFFFFFF80001800,
      img_keyboard_isr = 0xFFFFFFFF80001900, img_lapic_error_isr = 0xFFFFFFFF80001A00,
      img_syscall_handler = 0xFFFFFFFF80001B00\<rparr>"

end
