(* ===== verification/Scheduler_Properties.thy ===== *)
theory Scheduler_Properties
  imports Context_Switch Example_State
begin

text \<open>
  The properties of the scheduler and of the timer interrupt, with an example state for the
  witnesses.
\<close>

section \<open>Sequences of operations\<close>

datatype sched_op = Op_add u64 | Op_schedule

fun sched_run :: "sched_op list \<Rightarrow> kernel \<Rightarrow> kernel option" where
  "sched_run [] s = Some s"
| "sched_run (Op_add t # ops) s = Option.bind (scheduler_add_task t s) (sched_run ops)"
| "sched_run (Op_schedule # ops) s = Option.bind (schedule s) (sched_run ops)"

fun sched_spec :: "sched_op list \<Rightarrow> sched \<Rightarrow> sched" where
  "sched_spec [] a = a"
| "sched_spec (Op_add t # ops) a = sched_spec ops (spec_add t a)"
| "sched_spec (Op_schedule # ops) a = sched_spec ops (spec_schedule a)"

text \<open>Tasks are added only where no task of the queue is.\<close>

fun sched_ok :: "sched_op list \<Rightarrow> sched \<Rightarrow> bool" where
  "sched_ok [] a \<longleftrightarrow> True"
| "sched_ok (Op_add t # ops) a \<longleftrightarrow> addable t a \<and> sched_ok ops (spec_add t a)"
| "sched_ok (Op_schedule # ops) a \<longleftrightarrow> sched_ok ops (spec_schedule a)"

lemma sched_run_refines:
  "sched_rel s a \<Longrightarrow> sched_ok ops a \<Longrightarrow> \<exists>s'. sched_run ops s = Some s' \<and> sched_rel s' (sched_spec ops a)"
proof (induction ops arbitrary: s a)
  case Nil
  then show ?case by simp
next
  case (Cons op ops)
  show ?case
  proof (cases op)
    case (Op_add t)
    then obtain s1 where "scheduler_add_task t s = Some s1" "sched_rel s1 (spec_add t a)"
      using scheduler_add_task_refines [OF Cons.prems(1), of t] Cons.prems(2) by auto
    then show ?thesis using Cons.IH [of s1 "spec_add t a"] Cons.prems(2) Op_add by simp
  next
    case Op_schedule
    obtain s1 where "schedule s = Some s1" "sched_rel s1 (spec_schedule a)"
      using schedule_refines [OF Cons.prems(1)] by blast
    then show ?thesis using Cons.IH [of s1 "spec_schedule a"] Cons.prems(2) Op_schedule by simp
  qed
qed

definition one_running :: "sched \<Rightarrow> bool" where
  "one_running a \<longleftrightarrow> (\<forall>t\<in>set (queue a). states a t = TASK_RUNNING \<longrightarrow> cur a = Some t)"

lemma one_running_schedule: "one_running a \<Longrightarrow> one_running (spec_schedule a)"
  by (auto simp: one_running_def spec_schedule_def preempt_def split: option.splits if_splits)

lemma one_running_spec: "one_running a \<Longrightarrow> one_running (sched_spec ops a)"
proof (induction ops arbitrary: a)
  case (Cons op ops)
  have "one_running (spec_add t a)" for t
    using Cons.prems by (auto simp: one_running_def spec_add_def)
  then show ?case using Cons one_running_schedule [OF Cons.prems] by (cases op) auto
qed simp

text \<open>A dead task stays dead, and nothing makes it current.\<close>

definition retired :: "u64 \<Rightarrow> sched \<Rightarrow> bool" where
  "retired t a \<longleftrightarrow> t \<in> set (queue a) \<and> states a t = TASK_DEAD \<and> cur a \<noteq> Some t"

lemma retired_spec: "retired t a \<Longrightarrow> sched_ok ops a \<Longrightarrow> retired t (sched_spec ops a)"
proof (induction ops arbitrary: a)
  case (Cons op ops)
  have "retired t (spec_schedule a)"
  proof (cases "pick a")
    case None
    then show ?thesis using Cons.prems(1) by (simp add: spec_schedule_def)
  next
    case (Some u)
    then have "can_run a u" by (auto simp: pick_def find_Some_iff)
    then show ?thesis
      using Some Cons.prems(1) by (auto simp: retired_def spec_schedule_def can_run_def preempt_def split: option.splits)
  qed
  moreover have "retired t (spec_add u a)" if "addable u a" for u
    using that Cons.prems(1) by (auto simp: retired_def spec_add_def addable_def tasks.separate_def)
  ultimately show ?case using Cons by (cases op) auto
qed simp

section \<open>An example state\<close>

definition empty_sched :: sched where
  "empty_sched = \<lparr>queue = [], states = (\<lambda>_. TASK_READY), cur = None\<rparr>"

lemma example_rel: "sched_rel (scheduler_init example_kernel) empty_sched"
  by (simp add: sched_rel_def queue_rel_def empty_sched_def scheduler_init_def example_kernel_def serial_log_def
      task_ptr_def tasks.separate_def)

lemma example_added:
  "\<exists>s. sched_run [Op_add 0x1000, Op_add 0x2000] (scheduler_init example_kernel) = Some s
     \<and> sched_rel s (sched_spec [Op_add 0x1000, Op_add 0x2000] empty_sched)"
  by (rule sched_run_refines [OF example_rel])
    (simp add: addable_def empty_sched_def spec_add_def tasks.separate_def tasks_apart_def)

section \<open>Properties\<close>

text \<open>
  C21.  The run queue implements a first-in first-out list of tasks with round-robin selection:
  from any state that represents a specification state, every sequence of \<open>scheduler_add_task\<close> calls
  (for tasks that do not overlap those queued) and \<open>schedule\<close> calls returns, and the state it leaves
  represents the state of the specification after the same sequence.
\<close>

theorem scheduler_refines_queue:
  assumes "sched_rel s a" and "sched_ok ops a"
  shows "\<exists>s'. sched_run ops s = Some s' \<and> sched_rel s' (sched_spec ops a)"
  using sched_run_refines [OF assms] .

theorem scheduler_refines_queue_witness:
  "sched_rel (scheduler_init example_kernel) empty_sched
     \<and> sched_ok [Op_add 0x1000, Op_add 0x2000, Op_schedule, Op_schedule] empty_sched
     \<and> (\<exists>s'. sched_run [Op_add 0x1000, Op_add 0x2000, Op_schedule, Op_schedule] (scheduler_init example_kernel) = Some s'
          \<and> sched_rel s' (sched_spec [Op_add 0x1000, Op_add 0x2000, Op_schedule, Op_schedule] empty_sched))"
proof -
  have "sched_ok [Op_add 0x1000, Op_add 0x2000, Op_schedule, Op_schedule] empty_sched"
    by (simp add: addable_def empty_sched_def spec_add_def tasks.separate_def tasks_apart_def)
  then show ?thesis using example_rel scheduler_refines_queue [OF example_rel] by blast
qed

text \<open>
  C22.  The timer is fair: a task in the run queue that can run is the current task after at most ten
  ticks per queued task, whatever the tick counter is (also across its wrap-around), and every tick
  returns.
\<close>

theorem timer_fairness:
  assumes "sched_rel s a" and "t \<in> set (queue a)" and "can_run a t"
  shows "\<exists>k s'. k \<le> 10 * length (queue a) \<and> timer_ticks H k s = Some s' \<and> current_task s' = t"
proof -
  obtain k s' where "k \<le> 10 * Suc (behind a t)" "timer_ticks H k s = Some s'" "current_task s' = t"
    using timer_fair [OF assms, of H] by (elim exE conjE)
  moreover have "Suc (behind a t) \<le> length (queue a)" using behind_less [OF assms(1,2)] by simp
  ultimately show ?thesis by (intro exI [of _ k] exI [of _ s']) simp
qed

theorem timer_fairness_witness:
  "\<exists>s. sched_run [Op_add 0x1000, Op_add 0x2000] (scheduler_init example_kernel) = Some s
     \<and> (\<exists>k s'. k \<le> 20 \<and> timer_ticks example_hardware k s = Some s' \<and> current_task s' = 0x2000)"
proof -
  obtain s where s: "sched_run [Op_add 0x1000, Op_add 0x2000] (scheduler_init example_kernel) = Some s"
      "sched_rel s (sched_spec [Op_add 0x1000, Op_add 0x2000] empty_sched)"
    using example_added by blast
  show ?thesis
    using s(1) timer_fairness [OF s(2), of "0x2000" example_hardware]
    by (simp add: spec_add_def empty_sched_def can_run_def)
qed

text \<open>
  C23.  At most one task is running: along every sequence of \<open>scheduler_add_task\<close> and \<open>schedule\<close> calls, from a
  state in which only the current task may be running, a task whose state is \<open>TASK_RUNNING\<close> is the current
  task; and every task that is dead and not current stays dead and is never made current again.
\<close>

theorem scheduler_states:
  assumes "sched_rel s a" and "sched_ok ops a" and "one_running a"
  shows "\<exists>s'. sched_run ops s = Some s'
     \<and> (\<forall>u\<in>set (queue (sched_spec ops a)). task_state (mem s') u = state_code TASK_RUNNING \<longrightarrow> current_task s' = u)
     \<and> (\<forall>t. retired t a \<longrightarrow> task_state (mem s') t = state_code TASK_DEAD \<and> current_task s' \<noteq> t)"
proof -
  obtain s' where s': "sched_run ops s = Some s'" "sched_rel s' (sched_spec ops a)"
    using sched_run_refines [OF assms(1,2)] by blast
  note d = sched_relD [OF s'(2)]
  have one: "one_running (sched_spec ops a)" by (rule one_running_spec [OF assms(3)])
  have "current_task s' = u" if "u \<in> set (queue (sched_spec ops a))" "task_state (mem s') u = state_code TASK_RUNNING" for u
    using that d(5) d(9) [OF that(1)] one by (simp add: one_running_def task_ptr_def)
  moreover have "task_state (mem s') t = state_code TASK_DEAD \<and> current_task s' \<noteq> t" if "retired t a" for t
    using retired_spec [OF that assms(2)] d(3,5) d(9) [of t] by (auto simp: retired_def task_ptr_def split: option.splits)
  ultimately show ?thesis using s'(1) by blast
qed

theorem scheduler_states_witness:
  "\<exists>s. sched_run [Op_add 0x1000, Op_add 0x2000] (scheduler_init example_kernel) = Some s
     \<and> (\<exists>s'. sched_run [Op_schedule, Op_schedule] s = Some s'
          \<and> \<not> (task_state (mem s') 0x1000 = state_code TASK_RUNNING \<and> task_state (mem s') 0x2000 = state_code TASK_RUNNING))
     \<and> (\<exists>s'. sched_run [Op_schedule, Op_schedule] (s\<lparr>mem := set_state 0x2000 TASK_DEAD (mem s)\<rparr>) = Some s'
          \<and> task_state (mem s') 0x2000 = state_code TASK_DEAD \<and> current_task s' \<noteq> 0x2000)"
proof -
  define a where "a = sched_spec [Op_add 0x1000, Op_add 0x2000] empty_sched"
  obtain s where s: "sched_run [Op_add 0x1000, Op_add 0x2000] (scheduler_init example_kernel) = Some s" "sched_rel s a"
    using example_added a_def by blast
  have dead: "one_running (a\<lparr>states := (states a)(0x2000 := TASK_DEAD)\<rparr>)" "retired 0x2000 (a\<lparr>states := (states a)(0x2000 := TASK_DEAD)\<rparr>)"
    by (simp_all add: a_def spec_add_def empty_sched_def one_running_def retired_def)
  have "sched_rel (s\<lparr>mem := set_state 0x2000 TASK_DEAD (mem s)\<rparr>) (a\<lparr>states := (states a)(0x2000 := TASK_DEAD)\<rparr>)"
    by (rule sched_rel_set_state [OF s(2)]) (simp add: a_def spec_add_def empty_sched_def)
  then have "\<exists>s'. sched_run [Op_schedule, Op_schedule] (s\<lparr>mem := set_state 0x2000 TASK_DEAD (mem s)\<rparr>) = Some s'
      \<and> task_state (mem s') 0x2000 = state_code TASK_DEAD \<and> current_task s' \<noteq> 0x2000"
    using scheduler_states [of _ _ "[Op_schedule, Op_schedule]"] dead by fastforce
  moreover have "set (queue (sched_spec [Op_schedule, Op_schedule] a)) = {0x1000, 0x2000}"
    by (simp add: a_def spec_add_def empty_sched_def spec_schedule_def split: option.splits)
  then have "\<exists>s'. sched_run [Op_schedule, Op_schedule] s = Some s'
      \<and> \<not> (task_state (mem s') 0x1000 = state_code TASK_RUNNING \<and> task_state (mem s') 0x2000 = state_code TASK_RUNNING)"
    using scheduler_states [OF s(2), of "[Op_schedule, Op_schedule]"] by (fastforce simp: a_def spec_add_def empty_sched_def one_running_def)
  ultimately show ?thesis using s(1) by blast
qed

text \<open>
  C24.  Preemption is transparent.  When the timer interrupts a task in ring 3 with the registers
  \<open>r\<close>, the interrupt returns; it resumes the task the scheduler selects with exactly the registers
  that task had when it was last interrupted (or created), in its own address space; the
  registers of the interrupted task are saved, those of every other task are kept; and the state is
  again one a timer interrupt may find.
\<close>

theorem lapic_timer_isr_transparent:
  assumes "timer_inv s a c" and "c_cs r AND 3 \<noteq> 0" and "c_ss r = 0x1B"
  shows "\<exists>s' a' d. lapic_timer_isr H r s = Some (saved (mem s') d, s') \<and> timer_inv s' a' d
     \<and> a' = (if (lapic_ticks s + 1) mod 10 = 0 then spec_schedule a else a)
     \<and> (\<forall>t\<in>set (queue a). saved (mem s') t = (if t = c then r else saved (mem s) t))
     \<and> cr3 s' = task_pml4_phys (mem s) d"
  using lapic_timer_isr_switch [OF assms] .

text \<open>Two tasks at 0x1000 and 0x2000 with stacks at 0x100000 and 0x200000, the first one current.\<close>

definition example_tasks :: memory where
  "example_tasks =
     write64 0x20FFF8 0x1B (set_ctx 0x2000 0x20FF60 (set_kernel_stack 0x2000 0x200000 (set_kernel_stack 0x1000 0x100000
       (set_next 0x2000 0x1000 (set_next 0x1000 0x2000 (set_state 0x1000 TASK_RUNNING (\<lambda>_. 0)))))))"

definition example_running :: kernel where
  "example_running = example_kernel\<lparr>mem := example_tasks, current_task := 0x1000, run_queue_head := 0x1000, lapic_ticks := 9,
     tss := (tss example_kernel)\<lparr>rsp0 := 0x110000\<rparr>\<rparr>"

definition example_sched :: sched where
  "example_sched = \<lparr>queue = [0x1000, 0x2000], states = (\<lambda>_. TASK_READY)(0x1000 := TASK_RUNNING), cur = Some 0x1000\<rparr>"

definition example_context :: cpu_context_t where
  "example_context = \<lparr>c_r15 = 15, c_r14 = 14, c_r13 = 13, c_r12 = 12, c_r11 = 11, c_r10 = 10, c_r9 = 9, c_r8 = 8,
     c_rbp = 7, c_rdi = 6, c_rsi = 5, c_rdx = 4, c_rcx = 3, c_rbx = 2, c_rax = 1, c_rip = 0x400000, c_cs = 0x23,
     c_rflags = 0x202, c_rsp = 0x7FFFFFFF8000, c_ss = 0x1B\<rparr>"

lemma read64_zero [simp]: "read64 (\<lambda>_. 0) a = 0" and read32_zero [simp]: "read32 (\<lambda>_. 0) a = 0"
  by (rule bit_word_eqI; simp add: bit_read64 bit_read32)+

lemma example_task_fields:
  "task_next example_tasks 0x1000 = 0x2000" "task_next example_tasks 0x2000 = 0x1000"
  "task_state example_tasks 0x1000 = 1" "task_state example_tasks 0x2000 = 0"
  "task_ctx example_tasks 0x2000 = 0x20FF60" "task_kernel_stack example_tasks 0x1000 = 0x100000"
  "task_kernel_stack example_tasks 0x2000 = 0x200000" "c_ss (saved example_tasks 0x2000) = 0x1B"
  by (simp_all add: saved_def load_context_def example_tasks_def task_fields task_setters state_code_def
      read64_write64_same read64_write64_other read32_write32_same read32_write64_other read32_write32_other
      read64_write32_other)

lemma example_timer_inv: "timer_inv example_running example_sched 0x1000"
proof -
  have "tasks.ring example_tasks [0x1000, 0x2000]" by (simp add: tasks.ring_def example_task_fields)
  then have "sched_rel example_running example_sched"
    by (simp add: sched_rel_def queue_rel_def example_running_def example_sched_def task_ptr_def
        tasks.separate_def tasks_apart_def example_task_fields state_code_def)
  moreover have "spaces_ok [0x1000, 0x2000] (home example_running 0x1000) (stack_base example_tasks)"
    by (simp add: spaces_ok_def home_def stack_base_def regions_disjoint_def example_task_fields example_running_def)
  ultimately show ?thesis
    by (simp add: timer_inv_def example_running_def example_sched_def example_task_fields)
qed

theorem lapic_timer_isr_transparent_witness:
  "timer_inv example_running example_sched 0x1000
     \<and> (\<exists>s' d. lapic_timer_isr example_hardware example_context example_running = Some (saved (mem s') d, s')
          \<and> saved (mem s') 0x1000 = example_context)"
  using example_timer_inv lapic_timer_isr_transparent [OF example_timer_inv, of example_context example_hardware]
  by (auto simp: example_context_def example_sched_def)

end
