(* ===== verification/Usermode.thy ===== *)
theory Usermode
  imports Scheduler
begin

text \<open>
  User programs: the ELF loader (\<open>usermode/elf.c\<close>), the creation of a task
  (\<open>task_create_from_elf\<close> in \<open>usermode/scheduler.c\<close>), and the ways into ring 3
  (\<open>usermode/usermode.c\<close>).

  A result \<open>None\<close> means that the page allocator or the mapping below does not return.
\<close>

section \<open>ELF headers\<close>

record Elf64_Ehdr =
  e_ident :: "u8 list"
  e_type :: u16
  e_machine :: u16
  e_version :: u32
  e_entry :: u64
  e_phoff :: u64
  e_shoff :: u64
  e_flags :: u32
  e_ehsize :: u16
  e_phentsize :: u16
  e_phnum :: u16
  e_shentsize :: u16
  e_shnum :: u16
  e_shstrndx :: u16

definition load_ehdr :: "memory \<Rightarrow> u64 \<Rightarrow> Elf64_Ehdr" where
  "load_ehdr m p =
     \<lparr>e_ident = read_bytes m p 16, e_type = read16 m (p + 16), e_machine = read16 m (p + 18),
      e_version = read32 m (p + 20), e_entry = read64 m (p + 24), e_phoff = read64 m (p + 32),
      e_shoff = read64 m (p + 40), e_flags = read32 m (p + 48), e_ehsize = read16 m (p + 52),
      e_phentsize = read16 m (p + 54), e_phnum = read16 m (p + 56), e_shentsize = read16 m (p + 58),
      e_shnum = read16 m (p + 60), e_shstrndx = read16 m (p + 62)\<rparr>"

record Elf64_Phdr =
  p_type :: u32
  p_flags :: u32
  p_offset :: u64
  p_vaddr :: u64
  p_paddr :: u64
  p_filesz :: u64
  p_memsz :: u64
  p_align :: u64

abbreviation (input) sizeof_phdr :: u64 where "sizeof_phdr \<equiv> 56"
abbreviation (input) PF_X :: u32 where "PF_X \<equiv> 1"
abbreviation (input) PF_W :: u32 where "PF_W \<equiv> 2"

definition load_phdr :: "memory \<Rightarrow> u64 \<Rightarrow> Elf64_Phdr" where
  "load_phdr m p =
     \<lparr>p_type = read32 m p, p_flags = read32 m (p + 4), p_offset = read64 m (p + 8), p_vaddr = read64 m (p + 16),
      p_paddr = read64 m (p + 24), p_filesz = read64 m (p + 32), p_memsz = read64 m (p + 40), p_align = read64 m (p + 48)\<rparr>"

section \<open>Loading\<close>

definition elf_valid :: "memory \<Rightarrow> u64 \<Rightarrow> bool" where
  "elf_valid m elf_data \<longleftrightarrow>
     (let ehdr = load_ehdr m elf_data
      in \<not> (memcmp m elf_data (lit (CHR 0x7F # ''ELF'')) 0 4 \<noteq> 0 \<or> e_ident ehdr ! 4 \<noteq> 2 \<or> e_ident ehdr ! 5 \<noteq> 1
            \<or> e_machine ehdr \<noteq> 0x3E \<or> e_type ehdr \<noteq> 2))"

definition segment_flags :: "u32 \<Rightarrow> u64" where
  "segment_flags pf =
     (let pte_flags = PTE_PRESENT OR PTE_USER;
          pte_flags = (if pf AND PF_W \<noteq> 0 then pte_flags OR PTE_WRITE else pte_flags)
      in if pf AND PF_X = 0 then pte_flags OR PTE_NX else pte_flags)"

text \<open>
  One iteration of the loop over the program headers, for the header of type \<open>PT_LOAD\<close> at \<open>phdr_i\<close>.  The flags are read
  after the segment has been copied.
\<close>

definition load_segment :: "u64 \<Rightarrow> u64 \<Rightarrow> u64 \<Rightarrow> 'a vmm_state_scheme \<Rightarrow> (bool \<times> 'a vmm_state_scheme) option" where
  "load_segment elf_data pml4 phdr_i s =
     (let ph = load_phdr (mem s) phdr_i;
          vaddr = p_vaddr ph; offset = p_offset ph; filesz = p_filesz ph; memsz = p_memsz ph;
          page_start = vaddr AND NOT (PAGE_SIZE - 1);
          page_offset = vaddr - page_start;
          num_pages = (memsz + page_offset + PAGE_SIZE - 1) div PAGE_SIZE
      in do {
        (phys, s) \<leftarrow> pmm_alloc_frames_zeroed num_pages s;
        if phys = 0 then Some (False, serial_log (bytes ''Failed to alloc phys mem for ELF segment\<newline>'') s)
        else
          let virt_base = phys_to_virt s phys;
              dest = virt_base + page_offset;
              s = s\<lparr>mem := memcpy dest (elf_data + offset) filesz (mem s)\<rparr>;
              pte_flags = segment_flags (p_flags (load_phdr (mem s) phdr_i))
          in do {
            (success, s) \<leftarrow> vmm_map_range_for_pml4 pml4 page_start phys num_pages pte_flags s;
            if \<not> success
            then let s = serial_log (bytes ''Failed to map ELF segment\<newline>'') s in Some (False, pmm_free_frames phys num_pages s)
            else Some (True, s)
          }})"

text \<open>
  The loop reads the header anew in every round; its counter has sixteen bits, as \<open>e_phnum\<close> has, so
  it ends.
\<close>

lemma u16_round: "(i :: u16) < j \<Longrightarrow> 65536 - unat (i + 1) < 65536 - unat i"
  using unsigned_less [of j, where 'a = nat] by (simp add: word_less_nat_alt unat_word_ariths)

function load_elf_loop :: "u64 \<Rightarrow> u64 \<Rightarrow> u64 \<Rightarrow> u16 \<Rightarrow> 'a vmm_state_scheme \<Rightarrow> (bool \<times> 'a vmm_state_scheme) option" where
  "load_elf_loop elf_data pml4 phdr i s =
     (if i < e_phnum (load_ehdr (mem s) elf_data)
      then let phdr_i = phdr + ucast i * sizeof_phdr
           in if p_type (load_phdr (mem s) phdr_i) \<noteq> 1 then load_elf_loop elf_data pml4 phdr (i + 1) s
              else do {
                (ok, s) \<leftarrow> load_segment elf_data pml4 phdr_i s;
                if ok then load_elf_loop elf_data pml4 phdr (i + 1) s else Some (False, s)
              }
      else Some (True, s))"
  by pat_completeness auto

termination
  by (relation "measure (\<lambda>(elf_data, pml4, phdr, i, s). 65536 - unat i)") (auto intro: u16_round)

declare load_elf_loop.simps [simp del]

text \<open>The entry point is the value stored through \<open>entry_point_out\<close>, \<open>None\<close> when nothing is stored.\<close>

definition load_elf :: "u64 \<Rightarrow> u64 \<Rightarrow> 'a vmm_state_scheme \<Rightarrow> ((bool \<times> u64 option) \<times> 'a vmm_state_scheme) option" where
  "load_elf elf_data pml4 s =
     (if \<not> elf_valid (mem s) elf_data
      then Some ((False, None), serial_log (bytes ''Invalid ELF header\<newline>'') s)
      else
        let ehdr = load_ehdr (mem s) elf_data;
            entry_point = e_entry ehdr;
            phdr = elf_data + e_phoff ehdr
        in do {
          (ok, s) \<leftarrow> load_elf_loop elf_data pml4 phdr 0 s;
          Some ((ok, Some entry_point), s)
        })"

section \<open>Creating a task\<close>

abbreviation (input) USER_STACK_VADDR :: u64 where "USER_STACK_VADDR \<equiv> 0x7FFFFFFF0000"
abbreviation (input) USER_STACK_PAGES :: u64 where "USER_STACK_PAGES \<equiv> 8"

text \<open>The upper half of the kernel's top-level table is shared by every address space.\<close>

definition copy_kernel_half :: "u64 \<Rightarrow> u64 \<Rightarrow> memory \<Rightarrow> memory" where
  "copy_kernel_half pml4 kpml4 m =
     fold (\<lambda>i m. write64 (pml4 + 8 * of_nat i) (read64 m (kpml4 + 8 * of_nat i)) m) [256..<512] m"

definition init_context :: "u64 \<Rightarrow> u64 \<Rightarrow> memory \<Rightarrow> memory" where
  "init_context ctx entry m =
     (let m = memset ctx 0 sizeof_cpu_context_t m;
          m = write64 (ctx + 120) entry m;
          m = write64 (ctx + 128) 0x23 m;
          m = write64 (ctx + 136) 0x202 m;
          m = write64 (ctx + 144) (USER_STACK_VADDR + USER_STACK_PAGES * 4096) m
      in write64 (ctx + 152) 0x1B m)"

definition task_create_from_elf :: "u64 \<Rightarrow> kernel \<Rightarrow> (u64 \<times> kernel) option" where
  "task_create_from_elf elf_data s = do {
     (task_phys, s) \<leftarrow> pmm_alloc_zeroed s;
     let task = phys_to_virt s task_phys;
         s = s\<lparr>mem := set_pid task (next_pid s) (mem s)\<rparr>;
         s = s\<lparr>next_pid := next_pid s + 1\<rparr>
     in do {
     (pml4_phys, s) \<leftarrow> pmm_alloc_zeroed s;
     let pml4 = phys_to_virt s pml4_phys;
         kpml4 = phys_to_virt s (kernel_pml4_phys s);
         s = s\<lparr>mem := copy_kernel_half pml4 kpml4 (mem s)\<rparr>;
         s = s\<lparr>mem := set_pml4_phys task pml4_phys (mem s)\<rparr>
     in do {
     ((ok, entry_out), s) \<leftarrow> load_elf elf_data pml4 s;
     if \<not> ok then Some (0, puts ''[task] ELF load failed\<newline>'' s)
     else let entry = (case entry_out of None \<Rightarrow> 0 | Some e \<Rightarrow> e) in do {
     (ustack_phys, s) \<leftarrow> pmm_alloc_frames_zeroed USER_STACK_PAGES s;
     (_, s) \<leftarrow> vmm_map_range_for_pml4 pml4 USER_STACK_VADDR ustack_phys USER_STACK_PAGES
                (PTE_PRESENT OR PTE_WRITE OR PTE_USER OR PTE_NX) s;
     (kstack_phys, s) \<leftarrow> pmm_alloc_frames_zeroed (TASK_STACK_SIZE div 4096) s;
     let s = s\<lparr>mem := set_kernel_stack task (phys_to_virt s kstack_phys) (mem s)\<rparr>;
         kstack_top = task_kernel_stack (mem s) task + TASK_STACK_SIZE;
         ctx = kstack_top - sizeof_cpu_context_t;
         s = s\<lparr>mem := init_context ctx entry (mem s)\<rparr>;
         s = s\<lparr>mem := set_ctx task ctx (mem s)\<rparr>
     in Some (task, s)
   }}}}"

section \<open>Entering ring 3\<close>

text \<open>\<open>task_enter\<close> does not return: the result is the context it resumes.\<close>

definition task_enter :: "u64 \<Rightarrow> kernel \<Rightarrow> cpu_context_t \<times> kernel" where
  "task_enter task s =
     (let s = s\<lparr>current_task := task\<rparr>;
          s = s\<lparr>cr3 := task_pml4_phys (mem s) task\<rparr>
      in (load_context (mem s) (task_ctx (mem s) task), s))"

text \<open>What \<open>iretq\<close> pops; \<open>runElf_ring3\<close> leaves the other registers as they are.\<close>

record iret_frame =
  f_rip :: u64
  f_cs :: u64
  f_rflags :: u64
  f_rsp :: u64
  f_ss :: u64

abbreviation (input) USER_HEAP_VADDR :: u64 where "USER_HEAP_VADDR \<equiv> 0x400000000000"
abbreviation (input) USER_STACK_SIZE :: u64 where "USER_STACK_SIZE \<equiv> 8 * PAGE_SIZE"

definition push_frame :: "u64 \<Rightarrow> u64 \<Rightarrow> memory \<Rightarrow> u64 \<times> memory" where
  "push_frame sp entry_point m =
     (let sp = sp - 8; m = write64 sp 0x1B m;
          sp = sp - 8; m = write64 sp (USER_STACK_VADDR + USER_STACK_SIZE) m;
          sp = sp - 8; m = write64 sp 0x202 m;
          sp = sp - 8; m = write64 sp 0x23 m;
          sp = sp - 8; m = write64 sp entry_point m
      in (sp, m))"

definition load_frame :: "memory \<Rightarrow> u64 \<Rightarrow> iret_frame" where
  "load_frame m p = \<lparr>f_rip = read64 m p, f_cs = read64 m (p + 8), f_rflags = read64 m (p + 16),
     f_rsp = read64 m (p + 24), f_ss = read64 m (p + 32)\<rparr>"

text \<open>The frame it enters ring 3 with, \<open>None\<close> inside the pair when it returns to its caller.\<close>

definition runElf_ring3 :: "u64 \<Rightarrow> u64 \<Rightarrow> kernel \<Rightarrow> (iret_frame option \<times> kernel) option" where
  "runElf_ring3 elf_data elf_size s = do {
     (user_pml4_phys, s) \<leftarrow> pmm_alloc_zeroed s;
     let user_pml4 = phys_to_virt s user_pml4_phys;
         kernel_pml4 = phys_to_virt s (kernel_pml4_phys s);
         s = s\<lparr>mem := copy_kernel_half user_pml4 kernel_pml4 (mem s)\<rparr>
     in do {
     ((ok, entry_out), s) \<leftarrow> load_elf elf_data user_pml4 s;
     case (ok, entry_out) of
       (True, Some entry_point) \<Rightarrow>
         let stack_pages = USER_STACK_SIZE div PAGE_SIZE in do {
         (user_stack_phys, s) \<leftarrow> pmm_alloc_frames_zeroed stack_pages s;
         (success, s) \<leftarrow> vmm_map_range_for_pml4 user_pml4 USER_STACK_VADDR user_stack_phys stack_pages
                           (PTE_PRESENT OR PTE_WRITE OR PTE_USER OR PTE_NX) s;
         if \<not> success then Some (None, puts ''[runElf_ring3] Failed to map user stack\<newline>'' s) else do {
         (user_heap_phys, s) \<leftarrow> pmm_alloc_zeroed s;
         (success, s) \<leftarrow> vmm_map_for_pml4 user_pml4 USER_HEAP_VADDR user_heap_phys
                           (PTE_PRESENT OR PTE_WRITE OR PTE_USER OR PTE_NX) s;
         if \<not> success then Some (None, puts ''[runElf_ring3] Failed to map user heap\<newline>'' s) else do {
         (temp_stack_phys, s) \<leftarrow> pmm_alloc_zeroed s;
         let sp = phys_to_virt s temp_stack_phys + 8 * (PAGE_SIZE div 8);
             (sp, m) = push_frame sp entry_point (mem s);
             s = puts ''[runElf_ring3] iretq to ring3\<newline>'' (s\<lparr>mem := m\<rparr>);
             s = s\<lparr>cr3 := user_pml4_phys\<rparr>
         in Some (Some (load_frame (mem s) sp), s)
         }}}
     | _ \<Rightarrow> Some (None, puts ''[runElf_ring3] Failed to load ELF\<newline>'' s)
   }}"

end
