(* ===== verification/Syscalls.thy ===== *)
theory Syscalls
  imports Usermode
begin

text \<open>
  System calls: the set-up and the handler of \<open>syscalls/syscalls.c\<close> and the entry code of
  \<open>syscalls/syscall_entry.S\<close>.

  The instruction \<open>syscall\<close> clears the flags in \<open>IA32_FMASK\<close>; the handler runs with what is left of them, here
  the argument \<open>flags\<close>.  While \<open>read\<close> waits, a request of the keyboard is served where the interrupt flag is
  set.  A result \<open>None\<close> is a page fault on a user address, the null pointer, or a loop that does not end.
\<close>

section \<open>Set-up\<close>

abbreviation (input) EFER_MSR :: u32 where "EFER_MSR \<equiv> 0xC0000080"
abbreviation (input) IA32_STAR_MSR :: u32 where "IA32_STAR_MSR \<equiv> 0xC0000081"
abbreviation (input) IA32_LSTAR_MSR :: u32 where "IA32_LSTAR_MSR \<equiv> 0xC0000082"
abbreviation (input) IA32_FMASK_MSR :: u32 where "IA32_FMASK_MSR \<equiv> 0xC0000084"
abbreviation (input) KERNEL_CS :: u64 where "KERNEL_CS \<equiv> 0x08"

definition star_value :: u64 where
  "star_value = (let star = 0; star = star OR push_bit 32 KERNEL_CS in star OR push_bit 48 0x10)"

definition syscalls_init :: "image \<Rightarrow> hardware \<Rightarrow> kernel \<Rightarrow> kernel" where
  "syscalls_init I H s =
     (let (efer, s) = rdmsr H EFER_MSR s;
          efer = efer OR push_bit 0 1;
          s = wrmsr EFER_MSR efer s;
          s = wrmsr IA32_LSTAR_MSR (img_syscall_handler I) s;
          s = wrmsr IA32_STAR_MSR star_value s;
          s = wrmsr IA32_FMASK_MSR (push_bit 9 1) s
      in puts ''syscalls enabled\<newline>'' s)"

section \<open>The handler\<close>

abbreviation (input) SYS_READ :: u64 where "SYS_READ \<equiv> 0"
abbreviation (input) SYS_WRITE :: u64 where "SYS_WRITE \<equiv> 1"
abbreviation (input) SYS_GETPID :: u64 where "SYS_GETPID \<equiv> 39"
abbreviation (input) SYS_EXIT :: u64 where "SYS_EXIT \<equiv> 60"

record syscall_context_t =
  sc_rax :: u64
  sc_rbx :: u64
  sc_rbp :: u64
  sc_rdi :: u64
  sc_rsi :: u64
  sc_rdx :: u64
  sc_rcx :: u64
  sc_r8 :: u64
  sc_r9 :: u64
  sc_r10 :: u64
  sc_r11 :: u64
  sc_r12 :: u64
  sc_r13 :: u64
  sc_r14 :: u64
  sc_r15 :: u64

definition load_syscall_context :: "memory \<Rightarrow> u64 \<Rightarrow> syscall_context_t" where
  "load_syscall_context m p =
     \<lparr>sc_rax = read64 m p, sc_rbx = read64 m (p + 8), sc_rbp = read64 m (p + 16), sc_rdi = read64 m (p + 24),
      sc_rsi = read64 m (p + 32), sc_rdx = read64 m (p + 40), sc_rcx = read64 m (p + 48), sc_r8 = read64 m (p + 56),
      sc_r9 = read64 m (p + 64), sc_r10 = read64 m (p + 72), sc_r11 = read64 m (p + 80), sc_r12 = read64 m (p + 88),
      sc_r13 = read64 m (p + 96), sc_r14 = read64 m (p + 104), sc_r15 = read64 m (p + 112)\<rparr>"

text \<open>
  How the handler ends: it returns a value, \<open>task_enter\<close> resumes another task, or it halts.
\<close>

datatype sys_result = Sys_return u64 kernel | Sys_enter cpu_context_t kernel | Sys_halt kernel

text \<open>\<open>buf[i]\<close> is a signed \<open>char\<close>, so \<open>fb_put_char\<close> gets it sign-extended.\<close>

fun write_loop :: "u64 \<Rightarrow> nat list \<Rightarrow> kernel \<Rightarrow> kernel option" where
  "write_loop buf [] s = Some s"
| "write_loop buf (i # is) s = do {
     c \<leftarrow> load_byte s (buf + of_nat i);
     write_loop buf is (put_char (scast c) 0xAAAAAA s)
   }"

definition sys_write :: "syscall_context_t \<Rightarrow> kernel \<Rightarrow> sys_result option" where
  "sys_write ctx s =
     (let fd = sc_rdi ctx; buf = sc_rsi ctx; len = sc_rdx ctx
      in if fd = 1 then do { s \<leftarrow> write_loop buf [0..<unat len] s; Some (Sys_return len s) }
         else Some (Sys_return (- 1) s))"

fun copy_line :: "u64 \<Rightarrow> nat list \<Rightarrow> kernel \<Rightarrow> kernel option" where
  "copy_line user_buf [] s = Some s"
| "copy_line user_buf (i # is) s = do {
     s \<leftarrow> store_byte (user_buf + of_nat i) (line_buffer s ! i) s;
     copy_line user_buf is s
   }"

definition finish_line :: "u64 \<Rightarrow> u64 \<Rightarrow> kernel \<Rightarrow> sys_result option" where
  "finish_line user_buf count s =
     (let copy_size = (if scast (line_pos s) < count then line_pos s else ucast count)
      in do {
        s \<leftarrow> copy_line user_buf [0..<nat (sint copy_size)] s;
        let s = s\<lparr>line_pos := 0\<rparr>;
            s = put_char 10 0xFFFFFF s
        in Some (Sys_return (scast copy_size) s)
      })"

definition edit_line :: "u8 \<Rightarrow> kernel \<Rightarrow> kernel" where
  "edit_line c s =
     (if c = 8 \<or> c = 127
      then if sint (line_pos s) > 0 then put_char 8 0xFFFFFF (s\<lparr>line_pos := line_pos s - 1\<rparr>) else s
      else if c \<ge> 32 \<and> c \<le> 126
      then if (scast (line_pos s) :: u64) < 255
           then put_char (scast c) 0xFFFFFF
                  (s\<lparr>line_buffer := (line_buffer s)[unat (line_pos s) := c], line_pos := line_pos s + 1\<rparr>)
           else s
      else s)"

text \<open>
  One poll of the keyboard buffer: the keyboard interrupt comes in first, if it is enabled and there is one.  The loop
  goes on (\<open>Inl\<close>) or the call ends (\<open>Inr\<close>).
\<close>

definition keyboard_interrupt :: "hardware \<Rightarrow> u64 \<Rightarrow> nat \<Rightarrow> kernel \<Rightarrow> kernel" where
  "keyboard_interrupt H flags k s = (if bit flags 9 \<and> hw_key_irq H k then keyboard_handler H s else s)"

definition read_step :: "hardware \<Rightarrow> u64 \<Rightarrow> u64 \<Rightarrow> u64 \<Rightarrow> nat \<Rightarrow> kernel \<Rightarrow> kernel + sys_result option" where
  "read_step H flags user_buf count k s =
     (let s = keyboard_interrupt H flags k s
      in if \<not> keyboard_has_data (kbd s) then Inl s
         else let (c, b) = keyboard_get_char (kbd s);
                  s = s\<lparr>kbd := b\<rparr>
              in if c = 10 then Inr (finish_line user_buf count s) else Inl (edit_line c s))"

partial_function (option) read_loop :: "hardware \<Rightarrow> u64 \<Rightarrow> u64 \<Rightarrow> u64 \<Rightarrow> nat \<Rightarrow> kernel \<Rightarrow> sys_result option" where
  "read_loop H flags user_buf count k s =
     (case read_step H flags user_buf count k s of
        Inl s \<Rightarrow> read_loop H flags user_buf count (Suc k) s
      | Inr res \<Rightarrow> res)"

definition sys_read :: "hardware \<Rightarrow> u64 \<Rightarrow> syscall_context_t \<Rightarrow> kernel \<Rightarrow> sys_result option" where
  "sys_read H flags ctx s =
     (let fd = sc_rdi ctx; user_buf = sc_rsi ctx; count = sc_rdx ctx
      in if fd \<noteq> 0 \<or> count = 0 then Some (Sys_return (- 1) s) else read_loop H flags user_buf count 0 s)"

definition sys_getpid :: "kernel \<Rightarrow> sys_result option" where
  "sys_getpid s =
     (if current_task s = 0 then None else Some (Sys_return (ucast (task_pid (mem s) (current_task s))) s))"

text \<open>\<open>u64_to_dec\<close> into the static array \<open>buf\<close> of 64 bytes, and the string that is in it.\<close>

definition dec_text :: "u64 \<Rightarrow> u8 list \<Rightarrow> u8 list" where
  "dec_text v buf = (let bs = u64_to_dec_bytes v @ [0] in bs @ drop (length bs) buf)"

definition store_dec :: "u64 \<Rightarrow> kernel \<Rightarrow> kernel" where
  "store_dec v s = s\<lparr>syscall_buf := dec_text v (syscall_buf s)\<rparr>"

definition buf_string :: "kernel \<Rightarrow> u8 list" where
  "buf_string s = takeWhile (\<lambda>b. b \<noteq> 0) (syscall_buf s)"

definition sys_exit :: "syscall_context_t \<Rightarrow> kernel \<Rightarrow> sys_result option" where
  "sys_exit ctx s =
     (if current_task s = 0 then None
      else
        let s = print ''\<newline>[task pid: '' 0xAAAAAA s;
            s = store_dec (ucast (task_pid (mem s) (current_task s))) s;
            s = print_bytes (buf_string s) 0xAAAAAA s;
            s = print ''] exited with code '' 0xAAAAAA s;
            s = store_dec (sc_rdi ctx) s;
            s = print_bytes (buf_string s) 0xAAAAAA s;
            s = print ''\<newline>'' 0 s;
            s = s\<lparr>mem := set_state (current_task s) TASK_DEAD (mem s)\<rparr>
        in do {
          next \<leftarrow> scheduler_next s;
          if next = 0 then Some (Sys_halt (print ''no tasks left\<newline>'' 0xAAAAAA s))
          else let (r, s) = task_enter next s in Some (Sys_enter r s)
        })"

definition sys_unhandled :: "syscall_context_t \<Rightarrow> kernel \<Rightarrow> sys_result option" where
  "sys_unhandled ctx s =
     (let s = print ''unhandled syscall #'' 0xAAAAAA s;
          s = store_dec (sc_rax ctx) s;
          s = print_bytes (buf_string s) 0xAAAAAA s;
          s = print ''\<newline>'' 0 s
      in Some (Sys_return (- 1) s))"

definition syscall_common_handler :: "hardware \<Rightarrow> u64 \<Rightarrow> u64 \<Rightarrow> kernel \<Rightarrow> sys_result option" where
  "syscall_common_handler H flags ctx_ptr s =
     (let ctx = load_syscall_context (mem s) ctx_ptr
      in if sc_rax ctx = SYS_WRITE then sys_write ctx s
         else if sc_rax ctx = SYS_READ then sys_read H flags ctx s
         else if sc_rax ctx = SYS_GETPID then sys_getpid s
         else if sc_rax ctx = SYS_EXIT then sys_exit ctx s
         else sys_unhandled ctx s)"

section \<open>The entry\<close>

text \<open>
  The entry code saves \<open>r12\<close> on the user stack, keeps the user stack pointer in \<open>r12\<close>, switches to the
  stack in \<open>tss.rsp0\<close> and pushes the registers.  \<open>swapgs\<close> has no effect the kernel uses.
\<close>

fun load_bytes :: "kernel \<Rightarrow> u64 \<Rightarrow> nat list \<Rightarrow> u8 list option" where
  "load_bytes s v [] = Some []"
| "load_bytes s v (i # is) = do {
     b \<leftarrow> load_byte s (v + of_nat i);
     bs \<leftarrow> load_bytes s v is;
     Some (b # bs)
   }"

fun store_list :: "u64 \<Rightarrow> u8 list \<Rightarrow> kernel \<Rightarrow> kernel option" where
  "store_list v [] s = Some s"
| "store_list v (b # bs) s = do { s \<leftarrow> store_byte v b s; store_list (v + 1) bs s }"

definition store64 :: "u64 \<Rightarrow> u64 \<Rightarrow> kernel \<Rightarrow> kernel option" where
  "store64 v x s = store_list v (map (\<lambda>i. ucast (drop_bit (8 * i) x)) [0..<8]) s"

definition load64 :: "kernel \<Rightarrow> u64 \<Rightarrow> u64 option" where
  "load64 s v = map_option le_word (load_bytes s v [0..<8])"

definition push_syscall :: "u64 \<Rightarrow> cpu_context_t \<Rightarrow> u64 \<Rightarrow> memory \<Rightarrow> memory" where
  "push_syscall sp r user_sp m =
     fold (\<lambda>(k, v). write64 (sp - k) v)
       [(8, c_r15 r), (16, c_r14 r), (24, c_r13 r), (32, user_sp), (40, c_r11 r), (48, c_r10 r), (56, c_r9 r),
        (64, c_r8 r), (72, c_rcx r), (80, c_rdx r), (88, c_rsi r), (96, c_rdi r), (104, c_rbp r), (112, c_rbx r),
        (120, c_rax r)] m"

text \<open>What \<open>sysretq\<close> resumes: the popped registers, with the result in \<open>rax\<close>.\<close>

definition pop_syscall :: "memory \<Rightarrow> u64 \<Rightarrow> u64 \<Rightarrow> u64 \<Rightarrow> cpu_context_t" where
  "pop_syscall m p ret r12 =
     (let c = load_syscall_context m p
      in \<lparr>c_r15 = sc_r15 c, c_r14 = sc_r14 c, c_r13 = sc_r13 c, c_r12 = r12, c_r11 = sc_r11 c, c_r10 = sc_r10 c,
          c_r9 = sc_r9 c, c_r8 = sc_r8 c, c_rbp = sc_rbp c, c_rdi = sc_rdi c, c_rsi = sc_rsi c, c_rdx = sc_rdx c,
          c_rcx = sc_rcx c, c_rbx = sc_rbx c, c_rax = ret, c_rip = sc_rcx c, c_cs = 0x23, c_rflags = sc_r11 c,
          c_rsp = sc_r12 c + 8, c_ss = 0x1B\<rparr>)"

definition syscall_handler :: "hardware \<Rightarrow> cpu_context_t \<Rightarrow> kernel \<Rightarrow> sys_result option" where
  "syscall_handler H r s =
     (let user_sp = c_rsp r - 8 in do {
      s \<leftarrow> store64 user_sp (c_r12 r) s;
      let sp = rsp0 (tss s);
          s = s\<lparr>mem := push_syscall sp r user_sp (mem s)\<rparr>
      in do {
      res \<leftarrow> syscall_common_handler H (c_rflags r) (sp - 120) s;
      case res of
        Sys_return ret s \<Rightarrow> do {
          r12 \<leftarrow> load64 s (sc_r12 (load_syscall_context (mem s) (sp - 120)));
          Some (Sys_enter (pop_syscall (mem s) (sp - 120) ret r12) s)
        }
      | Sys_enter r s \<Rightarrow> Some (Sys_enter r s)
      | Sys_halt s \<Rightarrow> Some (Sys_halt s)
   }})"

text \<open>
  The instruction \<open>syscall\<close> itself: \<open>rcx\<close> and \<open>r11\<close> receive the return address and the flags, and the flags in
  \<open>IA32_FMASK\<close> are cleared.
\<close>

definition syscall_insn :: "hardware \<Rightarrow> kernel \<Rightarrow> cpu_context_t \<Rightarrow> cpu_context_t" where
  "syscall_insn H s r =
     r\<lparr>c_rcx := c_rip r, c_r11 := c_rflags r, c_rflags := c_rflags r AND NOT (msr_value H IA32_FMASK_MSR (io_log s))\<rparr>"

end
