(* ===== verification/Fbtext_Bounds.thy ===== *)
theory Fbtext_Bounds
  imports Fbtext
begin

text \<open>
  The console writes only inside the framebuffer.
\<close>

section \<open>The framebuffer as a region\<close>

definition in_fb :: "limine_framebuffer \<Rightarrow> u64 \<Rightarrow> bool" where
  "in_fb fb a \<longleftrightarrow> unat (a - fb_address fb) < unat (fb_pitch fb) * unat (fb_height fb)"

text \<open>A row holds its pixels, and the sizes are far from the end of the address space.\<close>

definition fb_ok :: "limine_framebuffer \<Rightarrow> bool" where
  "fb_ok fb \<longleftrightarrow> 4 * unat (fb_width fb) \<le> unat (fb_pitch fb)
     \<and> unat (fb_pitch fb) * unat (fb_height fb) < 2 ^ 63 \<and> unat (fb_width fb) < 2 ^ 62 \<and> unat (fb_height fb) < 2 ^ 62"

lemma pixel_inside:
  assumes ok: "fb_ok fb" and px: "px < fb_width fb" and py: "py < fb_height fb" and a: "a - pixel_addr fb px py < 4"
  shows "in_fb fb a"
proof -
  define off where "off = unat py * (unat (fb_pitch fb) div 4) + unat px"
  have lt: "unat px < unat (fb_width fb)" "unat py < unat (fb_height fb)" using px py by (simp_all add: word_less_unat)
  have "4 * off + 4 \<le> unat py * unat (fb_pitch fb) + 4 * unat (fb_width fb)"
  proof -
    have "4 * (unat py * (unat (fb_pitch fb) div 4)) \<le> unat py * unat (fb_pitch fb)"
      using mult_le_mono2 [of "4 * (unat (fb_pitch fb) div 4)" "unat (fb_pitch fb)" "unat py"]
      by (simp only: mult.left_commute [of 4])
    moreover have "4 * A \<le> B \<Longrightarrow> 4 * (A + unat px) + 4 \<le> B + 4 * unat (fb_width fb)" for A B :: nat
      using lt(1) by simp
    ultimately show ?thesis unfolding off_def by blast
  qed
  also have "\<dots> \<le> Suc (unat py) * unat (fb_pitch fb)" using ok by (simp add: fb_ok_def)
  also have "\<dots> \<le> unat (fb_pitch fb) * unat (fb_height fb)"
    using lt(2) mult_le_mono1 [of "Suc (unat py)" "unat (fb_height fb)" "unat (fb_pitch fb)"] by (simp add: mult.commute)
  finally have off: "4 * off + 4 \<le> unat (fb_pitch fb) * unat (fb_height fb)" .
  then have small: "4 * off + 4 < 2 ^ 63" using ok unfolding fb_ok_def by linarith
  have w: "pixel_addr fb px py = fb_address fb + of_nat (4 * off)"
    by (simp add: pixel_addr_def off_def unat_div_u64 [of "fb_pitch fb" 4, simplified, symmetric])
  define i where "i = a - pixel_addr fb px py"
  have i: "unat i < 4" using a by (simp add: i_def word_less_unat)
  define n where "n = 4 * off"
  have n: "unat (of_nat n :: u64) = n" using small by (intro unat_of_nat_small) (simp add: n_def)
  have e: "a - fb_address fb = of_nat n + i" by (simp add: i_def w n_def)
  have "unat (of_nat n + i) = n + unat i"
    using small i n unat_add_small [of "of_nat n" i] by (simp add: n_def)
  then have "unat (a - fb_address fb) = 4 * off + unat i" by (simp only: e n_def)
  then show ?thesis using off i by (simp add: in_fb_def)
qed

lemma write_pixel_outside:
  "fb_ok fb \<Longrightarrow> px < fb_width fb \<Longrightarrow> py < fb_height fb \<Longrightarrow> \<not> in_fb fb a
    \<Longrightarrow> write32 (pixel_addr fb px py) color m a = m a"
  using pixel_inside [of fb px py a] by (auto simp: write32_def)

lemma draw_pixel_outside: "fb_ok fb \<Longrightarrow> \<not> in_fb fb a \<Longrightarrow> draw_pixel fb px py color m a = m a"
  by (simp add: draw_pixel_def write_pixel_outside)

section \<open>Loops\<close>

lemma fold_outside:
  assumes "\<And>i m. i \<in> set is \<Longrightarrow> f i m a = (m a :: u8)"
  shows "fold f is m a = m a"
  using assms by (induction "is" arbitrary: m) auto

lemma clear_row_bounds:
  fixes x w lim :: u64
  assumes "x < lim" "unat x + unat w < 2 ^ 64" "d < unat (if x + w > lim then lim - x else w)"
  shows "x + of_nat d < lim"
proof -
  define w' where "w' = (if x + w > lim then lim - x else w)"
  have xw: "unat (x + w) = unat x + unat w" using assms(2) by (simp add: unat_add_small)
  have "unat x + unat w' \<le> unat lim"
    using assms(1) xw by (auto simp: w'_def word_less_unat unat_diff_small word_le_unat)
  moreover have "d < unat w'" using assms(3) by (simp add: w'_def)
  ultimately have d: "unat x + d < unat lim" by simp
  then have "unat (x + of_nat d) = unat x + d"
    using unat_u64_less [of lim] by (simp add: unat_add_small unat_of_nat_small)
  then show ?thesis using d by (simp add: word_less_unat)
qed

lemma fb_clear_area_outside:
  assumes ok: "fb_ok fb" and a: "\<not> in_fb fb a" and wrap: "unat w < 2 ^ 63" "unat h < 2 ^ 63"
  shows "fb_clear_area (Some fb) x y w h color m a = m a"
proof (cases "x \<ge> fb_width fb \<or> y \<ge> fb_height fb")
  case True
  then show ?thesis by (simp add: fb_clear_area_def)
next
  case False
  define w' where "w' = (if x + w > fb_width fb then fb_width fb - x else w)"
  define h' where "h' = (if y + h > fb_height fb then fb_height fb - y else h)"
  have "unat x < unat (fb_width fb)" "unat y < unat (fb_height fb)" using False by (simp_all add: word_less_unat not_le)
  then have sums: "unat x + unat w < 2 ^ 64" "unat y + unat h < 2 ^ 64" using ok wrap by (simp_all add: fb_ok_def)
  have row: "x + of_nat dx < fb_width fb" if "dx < unat w'" for dx
    using clear_row_bounds [of x "fb_width fb" w dx] that sums False by (simp add: w'_def not_le)
  have col: "y + of_nat dy < fb_height fb" if "dy < unat h'" for dy
    using clear_row_bounds [of y "fb_height fb" h dy] that sums False by (simp add: h'_def not_le)
  have inner: "for_upto w' (\<lambda>dx. write32 (pixel_addr fb (x + dx) (y + of_nat dy)) color) m a = m a" if "dy < unat h'" for dy m
    unfolding for_upto_def by (rule fold_outside) (use row col [OF that] ok a in \<open>simp add: write_pixel_outside\<close>)
  have "for_upto h' (\<lambda>dy. for_upto w' (\<lambda>dx. write32 (pixel_addr fb (x + dx) (y + dy)) color)) m a = m a"
    unfolding for_upto_def [of h'] by (rule fold_outside) (use inner in simp)
  then show ?thesis using False by (simp add: fb_clear_area_def Let_def w'_def h'_def)
qed

lemma draw_glyph_outside: "fb_ok fb \<Longrightarrow> \<not> in_fb fb a \<Longrightarrow> draw_glyph fb f glyph cx cy color m a = m a"
  unfolding draw_glyph_def Let_def by (intro fold_outside) (simp add: draw_pixel_outside)

section \<open>Operations\<close>

text \<open>What an operation of the console keeps.\<close>

definition console_keeps :: "limine_framebuffer \<Rightarrow> fb_mem \<Rightarrow> fb_mem \<Rightarrow> bool" where
  "console_keeps fb sm sm' \<longleftrightarrow> g_fb (fst sm') = g_fb (fst sm) \<and> g_font (fst sm') = g_font (fst sm)
     \<and> (\<forall>a. \<not> in_fb fb a \<longrightarrow> snd sm' a = snd sm a)"

lemma console_keeps_refl: "console_keeps fb sm sm"
  by (simp add: console_keeps_def)

lemma console_keeps_trans: "console_keeps fb sm sm' \<Longrightarrow> console_keeps fb sm' sm'' \<Longrightarrow> console_keeps fb sm sm''"
  by (simp add: console_keeps_def)

lemma glyph_size: "unat (ucast (w :: u32) :: u64) < 2 ^ 63"
  using unsigned_less [of w, where 'a = nat] by (simp add: unat_ucast_u32)

lemma clear_glyph_outside:
  "fb_ok fb \<Longrightarrow> \<not> in_fb fb a \<Longrightarrow> fb_clear_area (Some fb) x y (ucast (w :: u32)) (ucast (h :: u32)) color m a = m a"
  using fb_clear_area_outside glyph_size by blast

lemma fb_newline_simps [simp]: "g_fb (fb_newline f s) = g_fb s" "g_font (fb_newline f s) = g_font s"
  by (simp_all add: fb_newline_def)

lemma fb_advance_simps [simp]: "g_fb (fb_advance fb f n s) = g_fb s" "g_font (fb_advance fb f n s) = g_font s"
  by (simp_all add: fb_advance_def Let_def)

lemma fb_backspace_keeps: "fb_ok fb \<Longrightarrow> g_fb s = Some fb \<Longrightarrow> console_keeps fb (s, m) (fb_backspace fb f (s, m))"
  by (simp add: fb_backspace_def console_keeps_def Let_def clear_glyph_outside)

lemma fb_draw_char_keeps: "fb_ok fb \<Longrightarrow> g_fb s = Some fb \<Longrightarrow> console_keeps fb (s, m) (fb_draw_char fb f c color (s, m))"
  by (simp add: fb_draw_char_def console_keeps_def Let_def clear_glyph_outside draw_glyph_outside)

lemma fb_put_char_keeps:
  assumes "fb_ok fb" and "g_fb (fst sm) = Some fb"
  shows "console_keeps fb sm (fb_put_char c color sm)"
proof (cases sm)
  case (Pair s m)
  then have fb: "g_fb s = Some fb" using assms(2) by simp
  show ?thesis
  proof (cases "g_font s")
    case None
    then show ?thesis using Pair fb by (simp add: fb_put_char_def console_keeps_refl)
  next
    case (Some f)
    define c' where "c' = (if c > 255 then of_char CHR ''?'' else c)"
    have "fb_put_char c color sm = (if glyphs f = 0 then sm
       else if c' = 10 then ((fb_newline f s)\<lparr>overwrite := False\<rparr>, m)
       else if c' = 13 then (s\<lparr>g_cursor_x := LEFT_MARGIN, overwrite := True, overwrite_pos := LEFT_MARGIN\<rparr>, m)
       else if c' = 8 then fb_backspace fb f (s, m) else fb_draw_char fb f c' color (s, m))"
      using Pair fb Some by (simp add: fb_put_char_def c'_def Let_def)
    moreover have "console_keeps fb sm ((fb_newline f s)\<lparr>overwrite := False\<rparr>, m)"
      "console_keeps fb sm (s\<lparr>g_cursor_x := LEFT_MARGIN, overwrite := True, overwrite_pos := LEFT_MARGIN\<rparr>, m)"
      using Pair by (simp_all add: console_keeps_def)
    ultimately show ?thesis
      using Pair console_keeps_refl fb_backspace_keeps [OF assms(1) fb] fb_draw_char_keeps [OF assms(1) fb] by simp
  qed
qed

lemma fb_print_loop_keeps:
  "fb_ok fb \<Longrightarrow> g_fb (fst sm) = Some fb \<Longrightarrow> console_keeps fb sm (fb_print_loop cs color sm)"
proof (induction cs arbitrary: sm)
  case Nil
  then show ?case by (simp add: console_keeps_refl)
next
  case (Cons c cs)
  have 1: "console_keeps fb sm (fb_put_char (ucast c) color sm)" using Cons.prems by (rule fb_put_char_keeps)
  then have "g_fb (fst (fb_put_char (ucast c) color sm)) = Some fb" using Cons.prems by (simp add: console_keeps_def)
  then have "console_keeps fb (fb_put_char (ucast c) color sm) (fb_print_loop cs color (fb_put_char (ucast c) color sm))"
    by (rule Cons.IH [OF Cons.prems(1)])
  then show ?case using console_keeps_trans [OF 1] by simp
qed

lemma fb_print_keeps: "fb_ok fb \<Longrightarrow> g_fb (fst sm) = Some fb \<Longrightarrow> console_keeps fb sm (fb_print str color sm)"
  by (cases str) (simp_all add: fb_print_def console_keeps_refl fb_print_loop_keeps)

section \<open>Any sequence of calls\<close>

datatype console_op = Con_put u32 u32 | Con_print "u8 list option" u32 | Con_print_at "u8 list option" u32 u32 u32
  | Con_number u64 u32 | Con_clear

text \<open>\<open>fb_clear\<close> faults without a framebuffer.\<close>

fun console_step :: "console_op \<Rightarrow> fb_mem \<Rightarrow> fb_mem option" where
  "console_step (Con_put c color) sm = Some (fb_put_char c color sm)"
| "console_step (Con_print str color) sm = Some (fb_print str color sm)"
| "console_step (Con_print_at str color x y) sm = Some (fb_print_at str color x y sm)"
| "console_step (Con_number n color) sm = Some (fb_print_number n color sm)"
| "console_step Con_clear sm = fb_clear sm"

fun console_run :: "console_op list \<Rightarrow> fb_mem \<Rightarrow> fb_mem option" where
  "console_run [] sm = Some sm"
| "console_run (op # ops) sm = Option.bind (console_step op sm) (console_run ops)"

lemma fb_print_at_keeps:
  assumes "fb_ok fb" and "g_fb (fst sm) = Some fb"
  shows "console_keeps fb sm (fb_print_at str color x y sm)"
proof (cases sm)
  case (Pair s m)
  have "console_keeps fb (s\<lparr>g_cursor_x := ucast x, g_cursor_y := ucast y\<rparr>, m)
      (fb_print str color (s\<lparr>g_cursor_x := ucast x, g_cursor_y := ucast y\<rparr>, m))"
    by (rule fb_print_keeps [OF assms(1)]) (use assms(2) Pair in simp)
  then show ?thesis
    using Pair by (auto simp: fb_print_at_def console_keeps_def Let_def split: prod.splits)
qed

lemma console_step_keeps:
  assumes "fb_ok fb" and "g_fb (fst sm) = Some fb"
  shows "\<exists>sm'. console_step op sm = Some sm' \<and> console_keeps fb sm sm'"
proof (cases op)
  case Con_clear
  have "unat (fb_width fb) < 2 ^ 63" "unat (fb_height fb) < 2 ^ 63" using assms(1) by (simp_all add: fb_ok_def)
  then have "fb_clear_area (Some fb) 0 0 (fb_width fb) (fb_height fb) 0 m a = m a" if "\<not> in_fb fb a" for m a
    using fb_clear_area_outside [OF assms(1) that] by simp
  then show ?thesis
    using Con_clear assms(2) by (cases sm) (simp add: fb_clear_def console_keeps_def)
qed (use assms in \<open>simp_all add: fb_put_char_keeps fb_print_keeps fb_print_at_keeps fb_print_number_def\<close>)

lemma console_run_keeps:
  "fb_ok fb \<Longrightarrow> g_fb (fst sm) = Some fb \<Longrightarrow> \<exists>sm'. console_run ops sm = Some sm' \<and> console_keeps fb sm sm'"
proof (induction ops arbitrary: sm)
  case Nil
  then show ?case by (simp add: console_keeps_refl)
next
  case (Cons op ops)
  obtain sm1 where 1: "console_step op sm = Some sm1" "console_keeps fb sm sm1"
    using console_step_keeps [OF Cons.prems] by blast
  then have "g_fb (fst sm1) = Some fb" using Cons.prems by (simp add: console_keeps_def)
  then obtain sm2 where "console_run ops sm1 = Some sm2" "console_keeps fb sm1 sm2"
    using Cons.IH [OF Cons.prems(1)] by blast
  then show ?case using 1 console_keeps_trans by auto
qed

text \<open>
  C25.  Memory safety of the console: whatever is printed, in whatever colour, from whatever cursor
  position and with whatever font, a sequence of \<open>fb_put_char\<close>, \<open>fb_print\<close>, \<open>fb_print_at\<close>,
  \<open>fb_print_number\<close> and \<open>fb_clear\<close> calls returns, changes no byte outside the framebuffer, and keeps
  the framebuffer and the font it uses.
\<close>

theorem fb_console_inside:
  assumes "fb_ok fb" and "g_fb s = Some fb"
  shows "\<exists>s' m'. console_run ops (s, m) = Some (s', m') \<and> g_fb s' = Some fb \<and> g_font s' = g_font s
     \<and> (\<forall>a. m' a \<noteq> m a \<longrightarrow> in_fb fb a)"
proof -
  obtain sm' where "console_run ops (s, m) = Some sm'" "console_keeps fb (s, m) sm'"
    using console_run_keeps [OF assms(1), of "(s, m)" ops] assms(2) by auto
  then show ?thesis using assms(2) by (cases sm') (auto simp: console_keeps_def)
qed

definition example_fb :: limine_framebuffer where
  "example_fb = \<lparr>fb_address = 0x1000000, fb_width = 64, fb_height = 32, fb_pitch = 256\<rparr>"

definition example_console :: fb_state where
  "example_console = \<lparr>g_fb = Some example_fb,
     g_font = Some \<lparr>is_psf2 = False, font_hdr = 0x5000, glyphs = 0x5004, font_width = 8, font_height = 16, line_height = 17, glyph_count = 256\<rparr>,
     g_cursor_x = 20, g_cursor_y = 15, overwrite = False, overwrite_pos = 0\<rparr>"

lemma example_fb_ok: "fb_ok example_fb"
  by (simp add: fb_ok_def example_fb_def)

theorem fb_console_inside_witness:
  "fb_ok example_fb \<and> g_fb example_console = Some example_fb
     \<and> (\<exists>s' m'. console_run [Con_print (Some (bytes ''Hi'')) 0xFFFFFF, Con_put 8 0, Con_clear] (example_console, \<lambda>_. 0xFF) = Some (s', m')
          \<and> (\<forall>a. m' a \<noteq> 0xFF \<longrightarrow> in_fb example_fb a))"
  using example_fb_ok fb_console_inside [OF example_fb_ok, of example_console _ "\<lambda>_. 0xFF"]
  by (fastforce simp: example_console_def)

end
