(* ===== verification/Line_Input.thy ===== *)
theory Line_Input
  imports Syscalls Fbtext_Bounds Example_State
begin

text \<open>
  The system call \<open>read\<close>: the characters it takes from the keyboard buffer as edits of a line, when it
  returns, and what it stores.
\<close>

section \<open>The console inside the kernel\<close>

definition screen :: "kernel \<Rightarrow> u64 \<Rightarrow> bool" where
  "screen s a \<longleftrightarrow> (case g_fb (fb s) of None \<Rightarrow> False | Some f \<Rightarrow> in_fb f a)"

definition console_ok :: "kernel \<Rightarrow> bool" where
  "console_ok s \<longleftrightarrow> (case g_fb (fb s) of None \<Rightarrow> True | Some f \<Rightarrow> fb_ok f)"

text \<open>What may differ after output: the state of the console, and memory on the screen.\<close>

definition output_only :: "kernel \<Rightarrow> kernel \<Rightarrow> bool" where
  "output_only s s' \<longleftrightarrow> (\<exists>b m. s' = s\<lparr>fb := b, mem := m\<rparr> \<and> g_fb b = g_fb (fb s) \<and> (\<forall>a. \<not> screen s a \<longrightarrow> m a = mem s a))"

lemma output_onlyI:
  "g_fb b = g_fb (fb s) \<Longrightarrow> (\<And>a. \<not> screen s a \<Longrightarrow> m a = mem s a) \<Longrightarrow> output_only s (s\<lparr>fb := b, mem := m\<rparr>)"
  unfolding output_only_def by blast

lemma fb_put_char_none: "g_fb (fst sm) = None \<Longrightarrow> fb_put_char c color sm = sm"
  by (cases sm) (simp add: fb_put_char_def)

lemma put_char_output:
  assumes "console_ok s"
  shows "output_only s (put_char c color s)"
proof -
  obtain b m where bm: "fb_put_char c color (fb s, mem s) = (b, m)" by fastforce
  have "g_fb b = g_fb (fb s) \<and> (\<forall>a. \<not> screen s a \<longrightarrow> m a = mem s a)"
  proof (cases "g_fb (fb s)")
    case None
    then show ?thesis using bm fb_put_char_none [of "(fb s, mem s)" c color] by simp
  next
    case (Some f)
    then have "console_keeps f (fb s, mem s) (b, m)"
      using assms fb_put_char_keeps [of f "(fb s, mem s)" c color] bm by (simp add: console_ok_def)
    then show ?thesis using Some by (simp add: console_keeps_def screen_def)
  qed
  then show ?thesis using output_onlyI [of b s m] bm by (simp add: on_console_def)
qed

lemma output_onlyD:
  assumes "output_only s s'"
  shows "g_fb (fb s') = g_fb (fb s)" "screen s' = screen s" "console_ok s' = console_ok s"
    "\<not> screen s a \<Longrightarrow> mem s' a = mem s a" "kbd s' = kbd s" "line_buffer s' = line_buffer s" "line_pos s' = line_pos s"
  using assms by (auto simp: output_only_def screen_def console_ok_def)

section \<open>The line\<close>

definition line :: "kernel \<Rightarrow> u8 list" where
  "line s = take (unat (line_pos s)) (line_buffer s)"

definition line_ok :: "kernel \<Rightarrow> bool" where
  "line_ok s \<longleftrightarrow> length (line_buffer s) = 256 \<and> unat (line_pos s) \<le> 255"

text \<open>What a character does to the line: backspace and delete remove, printable characters append.\<close>

definition edited :: "u8 list \<Rightarrow> u8 \<Rightarrow> u8 list" where
  "edited l c = (if c = 8 \<or> c = 127 then butlast l
     else if 32 \<le> c \<and> c \<le> 126 \<and> length l < 255 then l @ [c] else l)"

lemma small_sint: "unat (x :: u32) \<le> 255 \<Longrightarrow> sint x = int (unat x)"
proof -
  assume "unat x \<le> 255"
  then have "x \<le> 255" by (simp add: word_le_nat_alt)
  then have "uint x \<le> 255" by (simp add: word_le_def)
  moreover have "- 2147483648 \<le> uint x" using uint_ge_0 [of x] by linarith
  ultimately show ?thesis using signed_take_bit_int_eq_self [of 31 "uint x"] by (simp add: sint_uint)
qed

lemma small_scast: "unat (x :: u32) \<le> 255 \<Longrightarrow> unat (scast x :: u64) = unat x"
  by (simp add: scast_eq small_sint unat_of_nat_small)

lemma line_length: "line_ok s \<Longrightarrow> length (line s) = unat (line_pos s)"
  by (simp add: line_def line_ok_def)

text \<open>What may differ while a line is read.\<close>

definition reading :: "kernel \<Rightarrow> kernel \<Rightarrow> bool" where
  "reading s s' \<longleftrightarrow> (\<exists>b m lb lp k io. s' = s\<lparr>fb := b, mem := m, line_buffer := lb, line_pos := lp, kbd := k, io_log := io\<rparr>
     \<and> g_fb b = g_fb (fb s) \<and> (\<forall>a. \<not> screen s a \<longrightarrow> m a = mem s a))"

lemma readingI:
  "g_fb b = g_fb (fb s) \<Longrightarrow> (\<And>a. \<not> screen s a \<Longrightarrow> m a = mem s a)
     \<Longrightarrow> reading s (s\<lparr>fb := b, mem := m, line_buffer := lb, line_pos := lp, kbd := k, io_log := io\<rparr>)"
  unfolding reading_def by blast

lemma reading_refl: "reading s s"
  using readingI [of "fb s" s "mem s" "io_log s" "kbd s" "line_pos s" "line_buffer s"] by simp

lemma reading_kbd: "reading s (s\<lparr>kbd := k\<rparr>)" and reading_device: "reading s (s\<lparr>kbd := k, io_log := io\<rparr>)"
  using readingI [of "fb s" s "mem s" "io_log s" k "line_pos s" "line_buffer s"]
    readingI [of "fb s" s "mem s" io k "line_pos s" "line_buffer s"] by simp_all

lemma reading_line: "reading s (s\<lparr>line_buffer := lb, line_pos := lp\<rparr>)"
  using readingI [of "fb s" s "mem s" "io_log s" "kbd s" lp lb] by simp

lemma reading_output: "output_only s t \<Longrightarrow> reading s t"
  using readingI [of _ s _ "io_log s" "kbd s" "line_pos s" "line_buffer s"] by (auto simp: output_only_def)

lemma reading_trans: "reading s t \<Longrightarrow> reading t u \<Longrightarrow> reading s u"
  using readingI by (auto simp: reading_def screen_def)

lemma readingD:
  assumes "reading s s'"
  shows "g_fb (fb s') = g_fb (fb s)" "screen s' = screen s" "console_ok s' = console_ok s" "\<not> screen s a \<Longrightarrow> mem s' a = mem s a"
  using assms by (auto simp: reading_def screen_def console_ok_def)

lemma edit_line_edited:
  assumes ok: "line_ok s" and con: "console_ok s"
  shows "line (edit_line c s) = edited (line s) c \<and> line_ok (edit_line c s) \<and> kbd (edit_line c s) = kbd s
     \<and> reading s (edit_line c s)"
proof -
  have pos: "unat (line_pos s) \<le> 255" "length (line_buffer s) = 256" using ok by (simp_all add: line_ok_def)
  consider (del) "c = 8 \<or> c = 127" "line_pos s \<noteq> 0" | (del0) "c = 8 \<or> c = 127" "line_pos s = 0"
    | (ins) "\<not> (c = 8 \<or> c = 127)" "32 \<le> c" "c \<le> 126" "unat (line_pos s) < 255"
    | (skip) "\<not> (c = 8 \<or> c = 127)" "\<not> (32 \<le> c \<and> c \<le> 126 \<and> unat (line_pos s) < 255)" by blast
  then show ?thesis
  proof cases
    case del
    define t where "t = s\<lparr>line_pos := line_pos s - 1\<rparr>"
    have "unat (line_pos s) \<noteq> 0" using del(2) by (simp add: unsigned_eq_0_iff)
    then have "0 < sint (line_pos s)" unfolding small_sint [OF pos(1)] by (simp only: of_nat_0_less_iff)
    then have p: "unat (line_pos s - 1) = unat (line_pos s) - 1" "0 < sint (line_pos s)"
      using unat_minus_one [OF del(2)] by simp_all
    have out: "output_only t (put_char 8 0xFFFFFF t)"
      by (rule put_char_output) (use con in \<open>simp add: t_def console_ok_def\<close>)
    have "edit_line c s = put_char 8 0xFFFFFF t" using del p by (simp add: edit_line_def t_def)
    moreover have "reading s t" using reading_line [of s "line_pos s - 1" "line_buffer s"] by (simp add: t_def)
    ultimately show ?thesis
      using output_onlyD [OF out] reading_trans [OF _ reading_output [OF out]] del p pos
      by (auto simp: line_def line_ok_def edited_def t_def butlast_take)
  next
    case del0
    then show ?thesis using ok by (simp add: edit_line_def reading_refl edited_def line_def)
  next
    case ins
    define t where "t = s\<lparr>line_buffer := (line_buffer s)[unat (line_pos s) := c], line_pos := line_pos s + 1\<rparr>"
    have p: "unat (line_pos s + 1) = Suc (unat (line_pos s))" using ins(4) by (simp add: unat_word_ariths)
    have "(scast (line_pos s) :: u64) < 255" using ins(4) small_scast [OF pos(1)] by (simp add: word_less_unat)
    then have e: "edit_line c s = put_char (scast c) 0xFFFFFF t" using ins by (simp add: edit_line_def t_def)
    have out: "output_only t (put_char (scast c) 0xFFFFFF t)"
      by (rule put_char_output) (use con in \<open>simp add: t_def console_ok_def\<close>)
    have "reading s t" using reading_line by (simp add: t_def)
    moreover have "line t = line s @ [c]"
      using pos ins(4) p by (simp add: line_def t_def take_Suc_conv_app_nth)
    ultimately show ?thesis
      unfolding e using output_onlyD [OF out] reading_trans [OF _ reading_output [OF out]] ins p pos line_length [OF ok]
      by (auto simp: line_def line_ok_def edited_def t_def)
  next
    case skip
    then have "\<not> ((32 \<le> c \<and> c \<le> 126) \<and> (scast (line_pos s) :: u64) < 255)"
      using small_scast [OF pos(1)] by (auto simp: word_less_unat)
    then have "edit_line c s = s" using skip(1) by (auto simp: edit_line_def)
    then show ?thesis using skip ok line_length [OF ok] by (auto simp: reading_refl edited_def)
  qed
qed

section \<open>The loop\<close>

lemma kbd_edit_line: "kbd (edit_line c s) = kbd s"
  by (simp add: edit_line_def on_console_def split: prod.splits)

text \<open>The keyboard interrupt appends at most one character to the buffer and leaves the line alone.\<close>

lemma keyboard_handler_device:
  "\<exists>sc io. keyboard_handler H s = s\<lparr>kbd := keyboard_scancode sc (kbd s), io_log := io\<rparr>"
  by (simp add: keyboard_handler_def inb_def dev_read_def Let_def irq_eoi_def lapic_eoi_def lapic_write_def dev_write_def mmio_write32_def)
    blast

lemma keyboard_interrupt_appends:
  assumes "kbd_ok (kbd s)"
  shows "\<exists>zs. kbd_queue (kbd (keyboard_interrupt H flags k s)) = kbd_queue (kbd s) @ zs \<and> (\<not> bit flags 9 \<longrightarrow> zs = [])"
    "kbd_ok (kbd (keyboard_interrupt H flags k s))" "line (keyboard_interrupt H flags k s) = line s"
    "line_ok (keyboard_interrupt H flags k s) = line_ok s" "reading s (keyboard_interrupt H flags k s)"
proof -
  obtain sc io where k: "keyboard_handler H s = s\<lparr>kbd := keyboard_scancode sc (kbd s), io_log := io\<rparr>"
    using keyboard_handler_device by blast
  note effect = keyboard_scancode_effect [OF assms, of sc]
  have "\<exists>zs. kbd_queue (keyboard_scancode sc (kbd s)) = kbd_queue (kbd s) @ zs" using effect by auto
  then show "\<exists>zs. kbd_queue (kbd (keyboard_interrupt H flags k s)) = kbd_queue (kbd s) @ zs \<and> (\<not> bit flags 9 \<longrightarrow> zs = [])"
    by (auto simp: keyboard_interrupt_def k)
  show "kbd_ok (kbd (keyboard_interrupt H flags k s))" "line (keyboard_interrupt H flags k s) = line s"
    "line_ok (keyboard_interrupt H flags k s) = line_ok s" "reading s (keyboard_interrupt H flags k s)"
    using effect assms reading_device by (simp_all add: keyboard_interrupt_def k line_def line_ok_def reading_refl)
qed

text \<open>What the loop has done after \<open>n\<close> polls: it is still waiting, or it has ended.\<close>

primrec read_after :: "hardware \<Rightarrow> u64 \<Rightarrow> u64 \<Rightarrow> u64 \<Rightarrow> nat \<Rightarrow> kernel \<Rightarrow> kernel + sys_result option" where
  "read_after H flags user_buf count 0 s = Inl s"
| "read_after H flags user_buf count (Suc n) s =
     (case read_after H flags user_buf count n s of Inl t \<Rightarrow> read_step H flags user_buf count n t | Inr res \<Rightarrow> Inr res)"

text \<open>With interrupts masked and without a newline in the buffer every poll takes a character or waits.\<close>

lemma read_step_waits:
  assumes "\<not> bit flags 9" and ok: "kbd_ok (kbd s)" and "10 \<notin> set (kbd_queue (kbd s))"
  shows "\<exists>t. read_step H flags user_buf count k s = Inl t \<and> kbd_ok (kbd t) \<and> kbd_queue (kbd t) = tl (kbd_queue (kbd s))"
proof (cases "kbd_queue (kbd s)")
  case Nil
  then show ?thesis using assms(1) ok kbd.nonempty [OF ok] by (simp add: read_step_def keyboard_interrupt_def)
next
  case (Cons c cs)
  obtain b where "keyboard_get_char (kbd s) = (c, b)" "kbd_ok b" "kbd_queue b = cs"
    using kbd.pop_Cons [OF ok Cons] by blast
  then show ?thesis
    using assms Cons kbd.nonempty [OF ok] by (simp add: read_step_def keyboard_interrupt_def kbd_edit_line)
qed

lemma read_after_waits:
  assumes "\<not> bit flags 9" and "kbd_ok (kbd s)" and "10 \<notin> set (kbd_queue (kbd s))"
  shows "\<exists>t. read_after H flags user_buf count n s = Inl t \<and> kbd_ok (kbd t) \<and> kbd_queue (kbd t) = drop n (kbd_queue (kbd s))"
proof (induction n)
  case 0
  then show ?case using assms(2) by simp
next
  case (Suc n)
  then obtain t where t: "read_after H flags user_buf count n s = Inl t" "kbd_ok (kbd t)" "kbd_queue (kbd t) = drop n (kbd_queue (kbd s))"
    by blast
  moreover have "10 \<notin> set (kbd_queue (kbd t))" using t(3) assms(3) by (auto dest: in_set_dropD)
  ultimately show ?case using read_step_waits [OF assms(1), of t] by (simp add: drop_Suc tl_drop)
qed

lemma read_loop_stuck:
  assumes "\<not> bit flags 9" and "kbd_ok (kbd s)" and "10 \<notin> set (kbd_queue (kbd s))"
  shows "read_loop H flags user_buf count k s = None"
proof -
  have "\<not> bit flags 9 \<longrightarrow> kbd_ok (kbd s) \<longrightarrow> 10 \<in> set (kbd_queue (kbd s))"
    if "read_loop H flags user_buf count k s = Some y" for y
  proof (rule read_loop.raw_induct [OF _ that])
    fix rl :: "hardware \<Rightarrow> u64 \<Rightarrow> u64 \<Rightarrow> u64 \<Rightarrow> nat \<Rightarrow> kernel \<Rightarrow> sys_result option" and H flags u n k s y
    assume IH: "\<And>H flags u n k s y. rl H flags u n k s = Some y \<Longrightarrow> \<not> bit flags 9 \<longrightarrow> kbd_ok (kbd s) \<longrightarrow> 10 \<in> set (kbd_queue (kbd s))"
      and eq: "(case read_step H flags u n k s of Inl t \<Rightarrow> rl H flags u n (Suc k) t | Inr res \<Rightarrow> res) = Some y"
    show "\<not> bit flags 9 \<longrightarrow> kbd_ok (kbd s) \<longrightarrow> 10 \<in> set (kbd_queue (kbd s))"
    proof (intro impI, rule ccontr)
      assume "\<not> bit flags 9" "kbd_ok (kbd s)" "10 \<notin> set (kbd_queue (kbd s))"
      moreover from this obtain t where "read_step H flags u n k s = Inl t" "kbd_ok (kbd t)" "kbd_queue (kbd t) = tl (kbd_queue (kbd s))"
        using read_step_waits by blast
      moreover have "10 \<notin> set (tl (kbd_queue (kbd s)))" using calculation(3) by (cases "kbd_queue (kbd s)") auto
      ultimately show False using IH [of H flags u n "Suc k" t y] eq by simp
    qed
  qed
  then show ?thesis using assms by (cases "read_loop H flags user_buf count k s") auto
qed

lemma read_loop_line:
  "kbd_ok (kbd s) \<Longrightarrow> line_ok s \<Longrightarrow> console_ok s \<Longrightarrow> kbd_queue (kbd s) = xs @ 10 # ys \<Longrightarrow> 10 \<notin> set xs
    \<Longrightarrow> \<exists>t zs. read_loop H flags user_buf count k s = finish_line user_buf count t \<and> reading s t \<and> line_ok t
          \<and> line t = foldl edited (line s) xs \<and> kbd_queue (kbd t) = ys @ zs \<and> (\<not> bit flags 9 \<longrightarrow> zs = [])"
proof (induction xs arbitrary: s k ys)
  case Nil
  define i where "i = keyboard_interrupt H flags k s"
  note int = keyboard_interrupt_appends [OF Nil.prems(1), of H flags k, folded i_def]
  obtain zs where zs: "kbd_queue (kbd i) = 10 # ys @ zs" "\<not> bit flags 9 \<longrightarrow> zs = []" using int(1) Nil.prems(4) by auto
  obtain b where b: "keyboard_get_char (kbd i) = (10, b)" "kbd_queue b = ys @ zs"
    using kbd.pop_Cons [OF int(2) zs(1)] by blast
  have "read_loop H flags user_buf count k s = finish_line user_buf count (i\<lparr>kbd := b\<rparr>)"
    using b kbd.nonempty [OF int(2)] zs(1) by (subst read_loop.simps) (simp add: read_step_def i_def [symmetric] Let_def)
  moreover have "line_ok (i\<lparr>kbd := b\<rparr>)" "line (i\<lparr>kbd := b\<rparr>) = line s"
    using int(3,4) Nil.prems(2) by (simp_all add: line_def line_ok_def)
  ultimately show ?case using reading_trans [OF int(5) reading_kbd] b zs(2) by (intro exI [of _ "i\<lparr>kbd := b\<rparr>"] exI [of _ zs]) simp
next
  case (Cons c cs)
  define i where "i = keyboard_interrupt H flags k s"
  note int = keyboard_interrupt_appends [OF Cons.prems(1), of H flags k, folded i_def]
  obtain ws where ws: "kbd_queue (kbd i) = c # cs @ 10 # ys @ ws" "\<not> bit flags 9 \<longrightarrow> ws = []" using int(1) Cons.prems(4) by auto
  obtain b where b: "keyboard_get_char (kbd i) = (c, b)" "kbd_ok b" "kbd_queue b = cs @ 10 # ys @ ws"
    using kbd.pop_Cons [OF int(2) ws(1)] by blast
  define t where "t = edit_line c (i\<lparr>kbd := b\<rparr>)"
  have "line_ok (i\<lparr>kbd := b\<rparr>)" "console_ok (i\<lparr>kbd := b\<rparr>)" "line (i\<lparr>kbd := b\<rparr>) = line s"
    using int(3,4) Cons.prems readingD(3) [OF int(5)] by (simp_all add: line_ok_def console_ok_def line_def)
  then have t: "line t = edited (line s) c" "line_ok t" "kbd t = b" "reading s t"
    using edit_line_edited [of "i\<lparr>kbd := b\<rparr>" c] reading_trans [OF reading_trans [OF int(5) reading_kbd [of i b]]]
    by (simp_all add: t_def)
  have t': "kbd_ok (kbd t)" "console_ok t" "kbd_queue (kbd t) = cs @ 10 # ys @ ws" "10 \<notin> set cs"
    using t(3) b Cons.prems readingD(3) [OF t(4)] by simp_all
  obtain u zs where "read_loop H flags user_buf count (Suc k) t = finish_line user_buf count u" "reading t u" "line_ok u"
      "line u = foldl edited (line t) cs" "kbd_queue (kbd u) = (ys @ ws) @ zs" "\<not> bit flags 9 \<longrightarrow> zs = []"
    using Cons.IH [OF t'(1) t(2) t'(2,3,4), of "Suc k"] by blast
  moreover have "read_loop H flags user_buf count k s = read_loop H flags user_buf count (Suc k) t"
    using b(1) Cons.prems(5) kbd.nonempty [OF int(2)] ws(1)
    by (subst read_loop.simps) (simp add: read_step_def i_def [symmetric] Let_def t_def)
  ultimately show ?case using t reading_trans [OF t(4)] ws(2) by (intro exI [of _ u] exI [of _ "ws @ zs"]) simp
qed

section \<open>The buffer of the caller\<close>

lemma virt_loc_cong:
  assumes "mem s = mem t" "hhdm_offset s = hhdm_offset t" "cr3 s = cr3 t"
  shows "virt_loc s w v = virt_loc t w v"
  using assms by (simp add: virt_loc_def mmu_walk_def mmu_step_def phys_to_virt_def Let_def)

text \<open>
  The \<open>n\<close> bytes at the virtual address \<open>v\<close> are writable and lie at \<open>l 0\<close>, \<open>l 1\<close>, \dots in memory, not on the screen;
  neither the bytes themselves nor the screen hold the page tables that say so.
\<close>

definition buffer_at :: "kernel \<Rightarrow> u64 \<Rightarrow> nat \<Rightarrow> (nat \<Rightarrow> u64) \<Rightarrow> bool" where
  "buffer_at s v n l \<longleftrightarrow> inj_on l {..<n} \<and> (\<forall>i<n. \<not> screen s (l i))
     \<and> (\<forall>m. (\<forall>x. x \<notin> l ` {..<n} \<longrightarrow> \<not> screen s x \<longrightarrow> m x = mem s x)
          \<longrightarrow> (\<forall>i<n. virt_loc (s\<lparr>mem := m\<rparr>) True (v + of_nat i) = Some (l i)))"

lemma copy_line_stores:
  assumes b: "buffer_at s v n l" and r: "hhdm_offset t = hhdm_offset s" "cr3 t = cr3 s"
    and m: "\<And>x. x \<notin> l ` {..<n} \<Longrightarrow> \<not> screen s x \<Longrightarrow> mem t x = mem s x"
  shows "\<exists>m'. copy_line v [n - k..<n] t = Some (t\<lparr>mem := m'\<rparr>)
     \<and> (\<forall>i. n - k \<le> i \<longrightarrow> i < n \<longrightarrow> m' (l i) = line_buffer t ! i) \<and> (\<forall>x. x \<notin> l ` {n - k..<n} \<longrightarrow> m' x = mem t x)"
  using r m
proof (induction k arbitrary: t)
  case 0
  then show ?case by (intro exI [of _ "mem t"]) simp
next
  case (Suc k)
  show ?case
  proof (cases "k < n")
    case False
    then show ?thesis using Suc.IH [OF Suc.prems] by simp
  next
    case True
    define i where "i = n - Suc k"
    have i: "[n - Suc k..<n] = i # [n - k..<n]" "i < n" "Suc i = n - k"
      using True by (simp_all add: i_def upt_conv_Cons Suc_diff_Suc)
    have "virt_loc (s\<lparr>mem := mem t\<rparr>) True (v + of_nat i) = Some (l i)"
      using b i(2) Suc.prems(3) by (simp add: buffer_at_def)
    then have loc: "virt_loc t True (v + of_nat i) = Some (l i)"
      using virt_loc_cong [of t "s\<lparr>mem := mem t\<rparr>"] Suc.prems by simp
    define t1 where "t1 = t\<lparr>mem := (mem t)(l i := line_buffer t ! i)\<rparr>"
    have "{n - k..<n} \<subseteq> {..<n}" by auto
    then have li: "l i \<notin> l ` {n - k..<n}"
      using b i inj_on_image_mem_iff [of l "{..<n}" i "{n - k..<n}"] by (auto simp: buffer_at_def)
    have pre: "mem t1 x = mem s x" if "x \<notin> l ` {..<n}" "\<not> screen s x" for x
      using that Suc.prems(3) [OF that] i(2) by (auto simp: t1_def)
    have "\<exists>m'. copy_line v [n - k..<n] t1 = Some (t1\<lparr>mem := m'\<rparr>)
        \<and> (\<forall>j. n - k \<le> j \<longrightarrow> j < n \<longrightarrow> m' (l j) = line_buffer t1 ! j) \<and> (\<forall>x. x \<notin> l ` {n - k..<n} \<longrightarrow> m' x = mem t1 x)"
      by (rule Suc.IH) (use Suc.prems pre in \<open>simp_all add: t1_def\<close>)
    then obtain m' where m': "copy_line v [n - k..<n] t1 = Some (t1\<lparr>mem := m'\<rparr>)"
        "\<forall>j. n - k \<le> j \<longrightarrow> j < n \<longrightarrow> m' (l j) = line_buffer t1 ! j" "\<forall>x. x \<notin> l ` {n - k..<n} \<longrightarrow> m' x = mem t1 x"
      by (elim exE conjE)
    have "copy_line v [n - Suc k..<n] t = Some (t\<lparr>mem := m'\<rparr>)"
      using loc m'(1) by (simp add: i(1) store_byte_def t1_def)
    moreover have "m' (l j) = line_buffer t ! j" if "n - Suc k \<le> j" "j < n" for j
      using m'(2,3) li that i by (cases "j = i") (auto simp: t1_def i_def)
    moreover have "m' x = mem t x" if "x \<notin> l ` {n - Suc k..<n}" for x
    proof -
      have "x \<noteq> l i" "x \<notin> l ` {n - k..<n}" using that i(2,3) by (auto simp: i_def)
      then show ?thesis using m'(3) by (simp add: t1_def)
    qed
    ultimately show ?thesis by blast
  qed
qed

lemma finish_line_stores:
  assumes ok: "line_ok t" "console_ok t" and r: "reading s t" and n: "n = min (length (line t)) (unat count)"
    and b: "buffer_at s v n l"
  shows "\<exists>s'. finish_line v count t = Some (Sys_return (of_nat n) s') \<and> map (\<lambda>i. mem s' (l i)) [0..<n] = take n (line t)
     \<and> line_ok s' \<and> line s' = [] \<and> kbd s' = kbd t \<and> (\<forall>x. x \<notin> l ` {..<n} \<longrightarrow> \<not> screen s x \<longrightarrow> mem s' x = mem s x)"
proof -
  define cs where "cs = (if scast (line_pos t) < count then line_pos t else ucast count)"
  have pos: "unat (line_pos t) \<le> 255" "length (line_buffer t) = 256" using ok by (simp_all add: line_ok_def)
  have len: "length (line t) = unat (line_pos t)" by (rule line_length [OF ok(1)])
  have sc: "unat (scast (line_pos t) :: u64) = unat (line_pos t)" by (rule small_scast [OF pos(1)])
  have "unat cs = n"
  proof (cases "(scast (line_pos t) :: u64) < count")
    case True
    then show ?thesis using n len sc by (simp add: cs_def word_less_unat)
  next
    case False
    then have "unat count \<le> unat (line_pos t)" using sc by (simp add: word_less_unat)
    moreover have "unat (ucast count :: u32) = unat count"
      using calculation pos(1) by (simp add: unsigned_ucast_eq take_bit_nat_eq_self)
    ultimately show ?thesis using False n len by (simp add: cs_def)
  qed
  then have cs: "nat (sint cs) = n" "scast cs = (of_nat n :: u64)" "n \<le> 255"
    using small_sint [of cs] small_scast [of cs] n len pos(1)
    by (simp_all add: word_eq_unat unat_of_nat_small flip: \<open>unat cs = n\<close>)
  have "hhdm_offset t = hhdm_offset s" "cr3 t = cr3 s" using r by (auto simp: reading_def)
  then obtain m' where m': "copy_line v [0..<n] t = Some (t\<lparr>mem := m'\<rparr>)" "\<forall>i<n. m' (l i) = line_buffer t ! i"
      "\<forall>x. x \<notin> l ` {..<n} \<longrightarrow> m' x = mem t x"
    using copy_line_stores [OF b, of t n] readingD(4) [OF r] by (auto simp: atLeast0LessThan)
  define t1 where "t1 = t\<lparr>mem := m', line_pos := 0\<rparr>"
  have out: "output_only t1 (put_char 10 0xFFFFFF t1)"
    by (rule put_char_output) (use ok in \<open>simp add: t1_def console_ok_def\<close>)
  define s' where "s' = put_char 10 0xFFFFFF t1"
  have "screen t1 = screen t" by (simp add: t1_def screen_def fun_eq_iff)
  then have scr: "screen t1 = screen s" using readingD(2) [OF r] by simp
  have keep: "mem s' x = m' x" if "\<not> screen s x" for x
    using output_onlyD(4) [OF out] that scr by (simp add: s'_def t1_def)
  have "map (\<lambda>i. mem s' (l i)) [0..<n] = take n (line t)"
    using keep m'(2) b pos n len by (intro nth_equalityI) (simp_all add: buffer_at_def line_def)
  moreover have "finish_line v count t = Some (Sys_return (of_nat n) s')"
    using m'(1) cs by (simp add: finish_line_def Let_def s'_def t1_def flip: cs_def)
  moreover have "mem s' x = mem s x" if "x \<notin> l ` {..<n}" "\<not> screen s x" for x
    using keep m'(3) that readingD(4) [OF r] by simp
  moreover have "line_ok s'" "line s' = []" "kbd s' = kbd t"
    using output_onlyD [OF out] pos by (simp_all add: s'_def t1_def line_ok_def line_def)
  ultimately show ?thesis by blast
qed

section \<open>Properties\<close>

text \<open>
  C26.  The system call \<open>read\<close> delivers the first line the keyboard buffer holds: with the characters
  \<open>xs\<close> before the first newline, it applies them to the pending line as edits, stores the longest
  prefix of the line that fits into the caller's buffer and nothing else outside the screen, takes
  exactly the characters up to the newline out of the keyboard buffer, starts a new line, and returns
  the number of bytes stored.  The line never exceeds 255 characters.  What the keyboard adds meanwhile comes behind
  the rest of the buffer; with interrupts masked, as in the handler, it adds nothing.
\<close>

theorem sys_read_line:
  assumes "sc_rdi ctx = 0" and "sc_rdx ctx \<noteq> 0" and "kbd_ok (kbd s)" and "line_ok s" and "console_ok s"
    and "kbd_queue (kbd s) = xs @ 10 # ys" and "10 \<notin> set xs"
    and "l = foldl edited (line s) xs" and "n = min (length l) (unat (sc_rdx ctx))"
    and "buffer_at s (sc_rsi ctx) n loc"
  shows "\<exists>s' zs. sys_read H flags ctx s = Some (Sys_return (of_nat n) s') \<and> map (\<lambda>i. mem s' (loc i)) [0..<n] = take n l
     \<and> length l \<le> 255 \<and> line_ok s' \<and> line s' = [] \<and> kbd_queue (kbd s') = ys @ zs \<and> (\<not> bit flags 9 \<longrightarrow> zs = [])
     \<and> (\<forall>x. x \<notin> loc ` {..<n} \<longrightarrow> \<not> screen s x \<longrightarrow> mem s' x = mem s x)"
proof -
  obtain t zs where t: "read_loop H flags (sc_rsi ctx) (sc_rdx ctx) 0 s = finish_line (sc_rsi ctx) (sc_rdx ctx) t"
      "reading s t" "line_ok t" "line t = l" "kbd_queue (kbd t) = ys @ zs" "\<not> bit flags 9 \<longrightarrow> zs = []"
    using read_loop_line [OF assms(3-7), of H flags "sc_rsi ctx" "sc_rdx ctx" 0] assms(8) by blast
  moreover have "console_ok t" using assms(5) readingD(3) [OF t(2)] by simp
  moreover have "length l \<le> 255" using line_length [OF t(3)] t(3,4) by (simp add: line_ok_def)
  ultimately show ?thesis
    using finish_line_stores [of t s n "sc_rdx ctx" "sc_rsi ctx" loc] assms(1,2,9,10) by (auto simp: sys_read_def)
qed

definition example_typing :: kernel where
  "example_typing = example_kernel\<lparr>kbd := fold kbd_buffer_push [104, 8, 105, 10, 120] example_kbd\<rparr>"

definition example_read :: syscall_context_t where
  "example_read = \<lparr>sc_rax = 0, sc_rbx = 0, sc_rbp = 0, sc_rdi = 0, sc_rsi = 0xFFFF900000000000, sc_rdx = 16, sc_rcx = 0,
     sc_r8 = 0, sc_r9 = 0, sc_r10 = 0, sc_r11 = 0, sc_r12 = 0, sc_r13 = 0, sc_r14 = 0, sc_r15 = 0\<rparr>"

lemma example_queue: "kbd_ok (kbd example_typing)" "kbd_queue (kbd example_typing) = [104, 8] @ [105, 10, 120]"
proof -
  have e: "kbd_ok example_kbd" "kbd_queue example_kbd = []"
    by (simp_all add: kbd_ok_def kbd_queue_def kbd_used_def example_kbd_def)
  show "kbd_ok (kbd example_typing)" "kbd_queue (kbd example_typing) = [104, 8] @ [105, 10, 120]"
    using e kbd.push by (simp_all add: example_typing_def del: kbd_queue_length)
qed

theorem sys_read_line_witness:
  "\<exists>s'. sys_read example_hardware 2 example_read example_typing = Some (Sys_return 1 s') \<and> mem s' 0xFFFF900000000000 = 105
     \<and> kbd_queue (kbd s') = [120]"
proof -
  have fb: "g_fb (fb example_typing) = None" by (simp add: example_typing_def example_kernel_def)
  have ok: "line_ok example_typing" "console_ok example_typing" "line example_typing = []"
    using fb by (simp_all add: line_ok_def console_ok_def line_def example_typing_def example_kernel_def)
  have b: "buffer_at example_typing 0xFFFF900000000000 1 (\<lambda>i. 0xFFFF900000000000)"
    using fb by (simp add: buffer_at_def screen_def virt_loc_def inj_on_def)
  have "\<exists>s' zs. sys_read example_hardware 2 example_read example_typing = Some (Sys_return (of_nat 1) s')
      \<and> map (\<lambda>i. mem s' 0xFFFF900000000000) [0..<1] = take 1 [105] \<and> length [105 :: u8] \<le> 255 \<and> line_ok s' \<and> line s' = []
      \<and> kbd_queue (kbd s') = [120] @ zs \<and> (\<not> bit (2 :: u64) 9 \<longrightarrow> zs = [])
      \<and> (\<forall>x. x \<notin> (\<lambda>i. 0xFFFF900000000000) ` {..<1 :: nat} \<longrightarrow> \<not> screen example_typing x \<longrightarrow> mem s' x = mem example_typing x)"
    by (rule sys_read_line [where xs = "[104, 8, 105]"])
      (use ok b example_queue in \<open>simp_all add: example_read_def edited_def\<close>)
  moreover have "\<not> bit (2 :: u64) 9" by (simp add: bit_numeral_rec)
  ultimately show ?thesis by auto
qed

text \<open>
  Once \<open>syscalls_init\<close> has run, and as nothing else writes \<open>IA32_FMASK\<close>, the instruction \<open>syscall\<close> clears the interrupt
  flag.
\<close>

lemma syscalls_init_log:
  "\<exists>log. io_log (syscalls_init I H s) = log @ [Wrmsr IA32_FMASK_MSR 0x200 0]"
  by (simp add: syscalls_init_def Let_def dev_read_def dev_write_def serial_log_def)

lemma fmask_clears_if:
  assumes "io_log s = io_log (syscalls_init I H s0) @ es" and "\<forall>low high. Wrmsr IA32_FMASK_MSR low high \<notin> set es"
  shows "\<not> bit (c_rflags (syscall_insn H s r)) 9"
proof -
  define f :: "dev_event \<Rightarrow> u64 \<Rightarrow> u64"
    where "f = (\<lambda>e v. case e of Wrmsr n low high \<Rightarrow> if n = IA32_FMASK_MSR then join32 low high else v | _ \<Rightarrow> v)"
  obtain log where log: "io_log s = log @ [Wrmsr IA32_FMASK_MSR 0x200 0] @ es" using assms(1) syscalls_init_log by (metis append.assoc)
  have keep: "fold f es v = v" for v
    using assms(2) by (induction es arbitrary: v) (auto simp: f_def split: dev_event.splits)
  have "f (Wrmsr IA32_FMASK_MSR 0x200 0) v = 0x200" for v by (simp add: f_def join32_def)
  then have "msr_value H IA32_FMASK_MSR (io_log s) = 0x200"
    by (simp add: msr_value_def f_def [symmetric] log keep)
  then show ?thesis by (simp add: syscall_insn_def bit_and_iff bit_not_iff bit_numeral_rec)
qed

text \<open>
  C27.  The system call \<open>read\<close> returns only if the keyboard buffer holds a newline when it is called.  After
  \<open>syscalls_init\<close> the instruction \<open>syscall\<close> clears the interrupt flag, so while the handler polls no request of
  the keyboard is served, whenever there are any: after any number of polls the loop is still waiting, with the
  buffer emptied, and it never ends.
\<close>

theorem sys_read_waits_forever:
  assumes "io_log s = io_log (syscalls_init I H s0) @ es" and "\<forall>low high. Wrmsr IA32_FMASK_MSR low high \<notin> set es"
    and "sc_rdi ctx = 0" and "sc_rdx ctx \<noteq> 0" and "kbd_ok (kbd s)" and "10 \<notin> set (kbd_queue (kbd s))"
    and "flags = c_rflags (syscall_insn H s r)"
  shows "sys_read H flags ctx s = None
     \<and> (\<forall>n. \<exists>t. read_after H flags (sc_rsi ctx) (sc_rdx ctx) n s = Inl t \<and> kbd_queue (kbd t) = drop n (kbd_queue (kbd s)))"
proof -
  have fl: "\<not> bit flags 9" using fmask_clears_if [OF assms(1,2)] assms(7) by simp
  show ?thesis
    using assms(3,4) read_loop_stuck [OF fl assms(5,6)] read_after_waits [OF fl assms(5,6)] by (simp add: sys_read_def) blast
qed

definition example_caller :: cpu_context_t where
  "example_caller = (load_context (\<lambda>_. 0) 0)\<lparr>c_rflags := 0x202\<rparr>"

definition example_waiting :: kernel where
  "example_waiting = syscalls_init example_image example_hardware example_kernel"

lemma example_waiting_fields:
  "kbd_ok (kbd example_waiting)" "kbd_queue (kbd example_waiting) = []"
  by (simp_all add: example_waiting_def syscalls_init_def Let_def dev_read_def dev_write_def serial_log_def
      kbd_ok_def kbd_queue_def kbd_used_def example_kbd_def example_kernel_def)

theorem sys_read_waits_forever_witness:
  "kbd_ok (kbd example_waiting) \<and> 10 \<notin> set (kbd_queue (kbd example_waiting)) \<and> bit (c_rflags example_caller) 9
     \<and> (\<forall>k. hw_key_irq example_hardware k)
     \<and> sys_read example_hardware (c_rflags (syscall_insn example_hardware example_waiting example_caller)) example_read example_waiting = None"
proof -
  have log: "io_log example_waiting = io_log (syscalls_init example_image example_hardware example_kernel) @ []"
    by (simp add: example_waiting_def)
  have ctx: "sc_rdi example_read = 0" "sc_rdx example_read \<noteq> 0" by (simp_all add: example_read_def)
  have no: "10 \<notin> set (kbd_queue (kbd example_waiting))" "\<forall>low high. Wrmsr IA32_FMASK_MSR low high \<notin> set []"
    by (simp_all add: example_waiting_fields)
  show ?thesis
    using sys_read_waits_forever [OF log no(2) ctx example_waiting_fields(1) no(1) refl, of example_caller] no(1) example_waiting_fields(1)
    by (simp add: example_caller_def example_hardware_def bit_numeral_rec)
qed

text \<open>With the interrupt flag set the same call would return: the Enter key, scancode 0x1C, completes a line.\<close>

lemma read_returns_unmasked:
  "\<exists>s'. sys_read (example_hardware\<lparr>hw_read := (\<lambda>log e. 0x1C)\<rparr>) 0x202 example_read example_kernel = Some (Sys_return 0 s')"
proof -
  define H where "H = example_hardware\<lparr>hw_read := (\<lambda>log e. 0x1C)\<rparr>"
  define s1 where "s1 = keyboard_interrupt H 0x202 0 example_kernel"
  have "kbd s1 = keyboard_scancode 0x1C example_kbd"
    by (simp add: s1_def H_def keyboard_interrupt_def bit_numeral_rec example_hardware_def keyboard_handler_def inb_def dev_read_def
        irq_eoi_def lapic_eoi_def lapic_write_def mmio_write32_def dev_write_def example_kernel_def)
  moreover have "keyboard_has_data (keyboard_scancode 0x1C example_kbd)" "fst (keyboard_get_char (keyboard_scancode 0x1C example_kbd)) = 10"
    by (code_simp, code_simp)
  ultimately have "read_loop H 0x202 0xFFFF900000000000 16 0 example_kernel
      = finish_line 0xFFFF900000000000 16 (s1\<lparr>kbd := snd (keyboard_get_char (kbd s1))\<rparr>)"
    by (subst read_loop.simps) (auto simp: read_step_def Let_def s1_def [symmetric] split: prod.splits)
  moreover have "line_pos s1 = 0"
    by (simp add: s1_def H_def keyboard_interrupt_def keyboard_handler_def inb_def dev_read_def
        irq_eoi_def lapic_eoi_def lapic_write_def mmio_write32_def dev_write_def example_kernel_def)
  ultimately show ?thesis by (simp add: sys_read_def example_read_def finish_line_def H_def [symmetric])
qed

end
