(* ===== verification/Syscall_Properties.thy ===== *)
theory Syscall_Properties
  imports Line_Input Scheduler_Properties
begin

text \<open>
  System calls as a task sees them: the registers it gets back, the values the calls return, and what
  \<open>exit\<close> does to the scheduler.
\<close>

section \<open>Output\<close>

lemma output_only_refl: "output_only s s"
  using output_onlyI [of "fb s" s "mem s"] by simp

lemma output_only_trans: "output_only s t \<Longrightarrow> output_only t u \<Longrightarrow> output_only s u"
  using output_onlyI by (auto simp: output_only_def screen_def)

lemma print_output:
  assumes "console_ok s"
  shows "output_only s (on_console (fb_print str color) s)"
proof -
  obtain b m where bm: "fb_print str color (fb s, mem s) = (b, m)" by fastforce
  have "g_fb b = g_fb (fb s) \<and> (\<forall>a. \<not> screen s a \<longrightarrow> m a = mem s a)"
  proof (cases "g_fb (fb s)")
    case None
    have "fb_print_loop cs color (fb s, mem s) = (fb s, mem s)" for cs
      by (induction cs) (simp_all add: fb_put_char_none None)
    then have "fb_print str color (fb s, mem s) = (fb s, mem s)"
      by (cases str) (simp_all add: fb_print_def)
    then show ?thesis using bm by simp
  next
    case (Some f)
    then have "console_keeps f (fb s, mem s) (b, m)"
      using assms fb_print_keeps [of f "(fb s, mem s)" str color] bm by (simp add: console_ok_def)
    then show ?thesis using Some by (simp add: console_keeps_def screen_def)
  qed
  then show ?thesis using output_onlyI [of b s m] bm by (simp add: on_console_def)
qed

lemma output_chain:
  assumes "console_ok s" and "output_only s t"
  shows "output_only s (on_console (fb_print str color) t)"
proof -
  have "console_ok t" using assms output_onlyD(3) by simp
  then show ?thesis by (rule output_only_trans [OF assms(2) print_output])
qed

text \<open>Storing a number in the text buffer and printing it.\<close>

lemma print_store_dec [simp]: "on_console f (store_dec v s) = store_dec v (on_console f s)"
  by (simp add: on_console_def store_dec_def split: prod.splits)

lemma buf_string_store_dec [simp]: "buf_string (store_dec v s) = u64_to_dec_bytes v"
proof -
  have "\<forall>b\<in>set (u64_to_dec_bytes v). b \<noteq> 0" using u64_to_dec_bytes_spec [of v] is_digit_nonzero by blast
  then show ?thesis by (simp add: buf_string_def store_dec_def dec_text_def Let_def takeWhile_append2)
qed

lemma store_dec_same [simp]:
  "mem (store_dec v s) = mem s" "current_task (store_dec v s) = current_task s" "tss (store_dec v s) = tss s"
  "fb (store_dec v s) = fb s" "cr3 (store_dec v s) = cr3 s" "run_queue_head (store_dec v s) = run_queue_head s"
  "hhdm_offset (store_dec v s) = hhdm_offset s"
  by (simp_all add: store_dec_def)

section \<open>exit\<close>

text \<open>No task structure of the run queue lies on the screen.\<close>

definition tasks_off_screen :: "kernel \<Rightarrow> sched \<Rightarrow> bool" where
  "tasks_off_screen s a \<longleftrightarrow> (\<forall>t\<in>set (queue a). \<forall>i<40. \<not> screen s (t + i))"

lemma output_tasks:
  assumes "output_only s s'" and "tasks_off_screen s a" and "t \<in> set (queue a)"
  shows "same_task (mem s') (mem s) t"
  using assms output_onlyD(4) [OF assms(1)] by (simp add: same_task_def tasks_off_screen_def)

lemma output_sched_rel:
  assumes o: "output_only s s'" and off: "tasks_off_screen s a" and r: "sched_rel s a"
  shows "sched_rel s' a"
proof -
  have f: "task_next (mem s') t = task_next (mem s) t" "task_state (mem s') t = task_state (mem s) t"
    if "t \<in> set (queue a)" for t
    using same_task_fields [OF output_tasks [OF o off that]] by simp_all
  have "tasks.ring (mem s') (queue a) = tasks.ring (mem s) (queue a)"
    by (rule tasks.ring_cong) (simp add: f)
  moreover have "run_queue_head s' = run_queue_head s" "current_task s' = current_task s"
    using o by (auto simp: output_only_def)
  ultimately show ?thesis using r f by (simp add: sched_rel_def queue_rel_def)
qed

lemma pick_not_dead:
  "sched_rel s a \<Longrightarrow> pick (a\<lparr>states := (states a)(c := TASK_DEAD)\<rparr>) = Some t \<Longrightarrow> t \<noteq> c"
  by (auto simp: pick_def find_Some_iff can_run_def split: if_splits)

text \<open>
  C38.  The system call \<open>exit\<close> ends the current task for good: it marks it dead and resumes the saved
  context of the first task behind it in the run queue that can run, in that task's address space; if
  there is none, it halts.  In memory nothing changes outside the screen but the state field of the task.  The stack
  pointer in the task state segment stays that of the dead task, and the resumed task keeps the state it had.
\<close>

theorem sys_exit_switches:
  assumes r: "sched_rel s a" and c: "cur a = Some c" and con: "console_ok s" and off: "tasks_off_screen s a"
    and d: "d = a\<lparr>states := (states a)(c := TASK_DEAD)\<rparr>"
  shows "(pick d = None \<longrightarrow> (\<exists>s'. sys_exit ctx s = Some (Sys_halt s') \<and> sched_rel s' d))
    \<and> (\<forall>t. pick d = Some t \<longrightarrow> t \<in> set (queue a) \<and> t \<noteq> c \<and> can_run a t
        \<and> (\<exists>s'. sys_exit ctx s = Some (Sys_enter (load_context (mem s') (task_ctx (mem s) t)) s')
            \<and> sched_rel s' (d\<lparr>cur := Some t\<rparr>) \<and> cr3 s' = task_pml4_phys (mem s) t \<and> tss s' = tss s
            \<and> (\<forall>x. \<not> screen s x \<longrightarrow> 4 \<le> x - (c + 24) \<longrightarrow> mem s' x = mem s x)))"
proof -
  note rel = sched_relD [OF r]
  have cq: "c \<in> set (queue a)" "c \<noteq> 0" "current_task s = c" using rel c by (auto simp: task_ptr_def)
  define pid :: u64 where "pid = ucast (task_pid (mem (print ''\<newline>[task pid: '' 0xAAAAAA s)) (current_task (print ''\<newline>[task pid: '' 0xAAAAAA s)))"
  define o1 where "o1 = print ''\<newline>'' 0 (print_bytes (u64_to_dec_bytes (sc_rdi ctx)) 0xAAAAAA (print ''] exited with code '' 0xAAAAAA
     (print_bytes (u64_to_dec_bytes pid) 0xAAAAAA (print ''\<newline>[task pid: '' 0xAAAAAA s))))"
  define s1 where "s1 = store_dec (sc_rdi ctx) (store_dec pid o1)"
  define s2 where "s2 = s1\<lparr>mem := set_state c TASK_DEAD (mem s1)\<rparr>"
  have o1: "output_only s o1" unfolding o1_def by (intro output_chain con output_only_refl)
  then have cur1: "current_task s1 = c" and same1: "tss s1 = tss s" "g_fb (fb s1) = g_fb (fb s)"
    using cq by (auto simp: output_only_def s1_def)
  have "sched_rel s1 a" using output_sched_rel [OF o1 off r] sched_rel_cong [of s1 o1] by (simp add: s1_def)
  then have r2: "sched_rel s2 d" unfolding s2_def d by (rule sched_rel_set_state [OF _ cq(1)])
  have ex: "sys_exit ctx s = Option.bind (scheduler_next s2) (\<lambda>next. if next = 0 then Some (Sys_halt (print ''no tasks left\<newline>'' 0xAAAAAA s2))
      else let (r, s) = task_enter next s2 in Some (Sys_enter r s))"
    by (simp only: sys_exit_def Let_def pid_def [symmetric] print_store_dec buf_string_store_dec o1_def [symmetric] s1_def [symmetric]
        s2_def cur1 cq(2) cq(3) [symmetric] if_False) (simp add: cq)
  have con2: "console_ok s2" and off2: "tasks_off_screen s2 d"
    using con off same1(2) by (simp_all add: s2_def d console_ok_def tasks_off_screen_def screen_def)
  have "\<exists>s'. sys_exit ctx s = Some (Sys_halt s') \<and> sched_rel s' d" if "pick d = None"
    using ex scheduler_next_pick [OF r2] that output_sched_rel [OF print_output [OF con2] off2 r2]
    by (simp add: task_ptr_def)
  moreover have "t \<in> set (queue a) \<and> t \<noteq> c \<and> can_run a t
        \<and> (\<exists>s'. sys_exit ctx s = Some (Sys_enter (load_context (mem s') (task_ctx (mem s) t)) s')
            \<and> sched_rel s' (d\<lparr>cur := Some t\<rparr>) \<and> cr3 s' = task_pml4_phys (mem s) t \<and> tss s' = tss s
            \<and> (\<forall>x. \<not> screen s x \<longrightarrow> 4 \<le> x - (c + 24) \<longrightarrow> mem s' x = mem s x))" if p: "pick d = Some t" for t
  proof -
    have t: "t \<in> set (queue a)" "can_run d t" "t \<noteq> 0" "t \<noteq> c"
      using pick_in [OF r2 p] pick_not_dead [OF r] p by (auto simp: d)
    have "same_task (mem s2) (mem s1) t"
      using same_task_setters(4) [OF separateD [OF rel(4) cq(1) t(1)]] t(4) by (auto simp: s2_def)
    then have f: "task_ctx (mem s2) t = task_ctx (mem s) t" "task_pml4_phys (mem s2) t = task_pml4_phys (mem s) t"
      using same_task_fields [OF output_tasks [OF o1 off t(1)]] same_task_fields [of "mem s2" "mem s1" t] by (simp_all add: s1_def)
    define s3 where "s3 = s2\<lparr>current_task := t, cr3 := task_pml4_phys (mem s) t\<rparr>"
    have "sys_exit ctx s = Some (Sys_enter (load_context (mem s3) (task_ctx (mem s) t)) s3)"
      using ex scheduler_next_pick [OF r2] p t(3) f by (simp add: task_ptr_def task_enter_def Let_def s3_def)
    moreover have "sched_rel s3 (d\<lparr>cur := Some t\<rparr>)"
      using sched_rel_current [OF r2, of t] t(1) sched_rel_cong [of s3 "s2\<lparr>current_task := t\<rparr>"] by (simp add: s3_def d)
    moreover have "mem s3 x = mem s x" if "\<not> screen s x" "4 \<le> x - (c + 24)" for x
      using that output_onlyD(4) [OF o1] by (simp add: s3_def s2_def s1_def set_state_def write32_outside)
    moreover have "can_run a t" using t(2,4) by (simp add: d can_run_def)
    ultimately show ?thesis using t same1(1) by (intro conjI exI [of _ s3]) (simp_all add: s3_def s2_def)
  qed
  ultimately show ?thesis by blast
qed

definition example_exit :: syscall_context_t where
  "example_exit = example_read\<lparr>sc_rax := 60, sc_rdi := 42\<rparr>"

theorem sys_exit_switches_witness:
  "sched_rel example_running example_sched \<and> cur example_sched = Some 0x1000
    \<and> console_ok example_running \<and> tasks_off_screen example_running example_sched
    \<and> (\<exists>r s'. sys_exit example_exit example_running = Some (Sys_enter r s')
          \<and> current_task s' = 0x2000 \<and> rsp0 (tss s') = 0x110000)"
proof -
  have r: "sched_rel example_running example_sched" using example_timer_inv by (simp add: timer_inv_def)
  have c: "cur example_sched = Some 0x1000" by (simp add: example_sched_def)
  have fb: "g_fb (fb example_running) = None" by (simp add: example_running_def example_kernel_def)
  then have o: "console_ok example_running" "tasks_off_screen example_running example_sched"
    by (simp_all add: console_ok_def tasks_off_screen_def screen_def)
  have p: "pick (example_sched\<lparr>states := (states example_sched)(0x1000 := TASK_DEAD)\<rparr>) = Some 0x2000"
    by (simp add: pick_def order_def after_def can_run_def example_sched_def)
  obtain s' where "sys_exit example_exit example_running
        = Some (Sys_enter (load_context (mem s') (task_ctx (mem example_running) 0x2000)) s')"
      "sched_rel s' (example_sched\<lparr>states := (states example_sched)(0x1000 := TASK_DEAD), cur := Some 0x2000\<rparr>)"
      "tss s' = tss example_running"
    using sys_exit_switches [OF r c o refl, of example_exit] p by auto
  then show ?thesis
    using r c o by (auto simp: sched_rel_def task_ptr_def example_running_def)
qed

section \<open>The frame on the kernel stack\<close>

lemma load_push_syscall:
  "load_syscall_context (push_syscall sp r u m) (sp - 120) =
     \<lparr>sc_rax = c_rax r, sc_rbx = c_rbx r, sc_rbp = c_rbp r, sc_rdi = c_rdi r, sc_rsi = c_rsi r, sc_rdx = c_rdx r,
      sc_rcx = c_rcx r, sc_r8 = c_r8 r, sc_r9 = c_r9 r, sc_r10 = c_r10 r, sc_r11 = c_r11 r, sc_r12 = u,
      sc_r13 = c_r13 r, sc_r14 = c_r14 r, sc_r15 = c_r15 r\<rparr>"
proof -
  have "read64 (push_syscall sp r u m) (sp - k) =
     (case map_of (rev [(8, c_r15 r), (16, c_r14 r), (24, c_r13 r), (32, u), (40, c_r11 r), (48, c_r10 r), (56, c_r9 r),
        (64, c_r8 r), (72, c_rcx r), (80, c_rdx r), (88, c_rsi r), (96, c_rdi r), (104, c_rbp r), (112, c_rbx r),
        (120, c_rax r)]) k of None \<Rightarrow> read64 m (sp - k) | Some v \<Rightarrow> v)" if "8 dvd unat k" for k
    unfolding push_syscall_def by (rule read64_pushes) (use that in simp_all)
  note rd = this
  have e: "sp - 120 + 8 = sp - 112" "sp - 120 + 16 = sp - 104" "sp - 120 + 24 = sp - 96" "sp - 120 + 32 = sp - 88"
    "sp - 120 + 40 = sp - 80" "sp - 120 + 48 = sp - 72" "sp - 120 + 56 = sp - 64" "sp - 120 + 64 = sp - 56"
    "sp - 120 + 72 = sp - 48" "sp - 120 + 80 = sp - 40" "sp - 120 + 88 = sp - 32" "sp - 120 + 96 = sp - 24"
    "sp - 120 + 104 = sp - 16" "sp - 120 + 112 = sp - 8"
    by simp_all
  show ?thesis unfolding load_syscall_context_def e by (simp add: rd)
qed

lemma push_syscall_outside: "120 \<le> x - (sp - 120) \<Longrightarrow> push_syscall sp r u m x = m x"
  unfolding push_syscall_def by (rule pushes_outside) simp_all

lemma load_syscall_context_cong:
  assumes "\<And>i. i < 120 \<Longrightarrow> m (p + i) = m' (p + i)"
  shows "load_syscall_context m p = load_syscall_context m' p"
proof -
  have k: "k + i < 120" if "k \<le> 112" "i < 8" for k i :: u64
    using that by (simp add: word_less_unat word_le_unat unat_add_small)
  have r: "read64 m (p + k) = read64 m' (p + k)" if "k \<le> 112" for k
    using assms k [OF that] by (intro read64_cong) (simp add: add.assoc)
  show ?thesis using r [of 0] by (simp add: load_syscall_context_def r)
qed

section \<open>The slot on the user stack\<close>

text \<open>
  The \<open>n\<close> bytes at \<open>v\<close> are writable and lie at \<open>l 0\<close>, \<open>l 1\<close>, \dots outside the set \<open>W\<close>; the translation does not depend on
  them nor on \<open>W\<close>.
\<close>

definition slot_at :: "kernel \<Rightarrow> u64 \<Rightarrow> nat \<Rightarrow> (nat \<Rightarrow> u64) \<Rightarrow> u64 set \<Rightarrow> bool" where
  "slot_at s v n l W \<longleftrightarrow> inj_on l {..<n} \<and> l ` {..<n} \<inter> W = {}
     \<and> (\<forall>m. (\<forall>x. x \<notin> l ` {..<n} \<longrightarrow> x \<notin> W \<longrightarrow> m x = mem s x)
          \<longrightarrow> (\<forall>i<n. virt_loc (s\<lparr>mem := m\<rparr>) True (v + of_nat i) = Some (l i)))"

lemma slot_loc:
  assumes "slot_at s v n l W" and "hhdm_offset t = hhdm_offset s" "cr3 t = cr3 s"
    and "\<And>x. x \<notin> l ` {..<n} \<Longrightarrow> x \<notin> W \<Longrightarrow> mem t x = mem s x" and "i < n"
  shows "virt_loc t True (v + of_nat i) = Some (l i)"
proof -
  have "virt_loc (s\<lparr>mem := mem t\<rparr>) True (v + of_nat i) = Some (l i)"
    using assms by (simp add: slot_at_def)
  then show ?thesis using virt_loc_cong [of t "s\<lparr>mem := mem t\<rparr>"] assms(2,3) by simp
qed

lemma mmu_step_read: "mmu_step s True t i = Some e \<Longrightarrow> mmu_step s False t i = Some e"
  by (auto simp: mmu_step_def Let_def split: if_splits)

lemma mmu_walk_read:
  assumes "mmu_walk s True root v = Some p"
  shows "mmu_walk s False root v = Some p"
proof -
  have bind: "Option.bind f' g' = Some p"
    if "Option.bind f g = Some p" "\<And>e. f = Some e \<Longrightarrow> f' = Some e" "\<And>e. g e = Some p \<Longrightarrow> g' e = Some p"
    for f f' :: "u64 option" and g g'
    using that by (cases f) auto
  have leaf: "(if b then x else y') = Some p" if "(if b then x else y) = Some p" "y = Some p \<Longrightarrow> y' = Some p" for b x y y'
    using that by (auto split: if_splits)
  show ?thesis
    using assms unfolding mmu_walk_def
    by (elim bind [OF _ mmu_step_read] leaf)
qed

lemma virt_loc_read: "virt_loc s True v = Some a \<Longrightarrow> virt_loc s False v = Some a"
  by (cases "mmu_walk s True (cr3 s) v") (auto simp: virt_loc_def dest: mmu_walk_read split: if_splits)

lemma store_list_slot:
  assumes sl: "slot_at s v n l W" and "hhdm_offset t = hhdm_offset s" "cr3 t = cr3 s"
    and "\<And>x. x \<notin> l ` {..<n} \<Longrightarrow> x \<notin> W \<Longrightarrow> mem t x = mem s x" and "k + length bs = n"
  shows "\<exists>m'. store_list (v + of_nat k) bs t = Some (t\<lparr>mem := m'\<rparr>) \<and> (\<forall>i<length bs. m' (l (k + i)) = bs ! i)
    \<and> (\<forall>x. x \<notin> l ` {k..<n} \<longrightarrow> m' x = mem t x)"
  using assms(2-)
proof (induction bs arbitrary: k t)
  case Nil
  then show ?case by (intro exI [of _ "mem t"]) simp
next
  case (Cons b bs)
  have k: "k < n" using Cons.prems(4) by simp
  define t1 where "t1 = t\<lparr>mem := (mem t)(l k := b)\<rparr>"
  have loc: "virt_loc t True (v + of_nat k) = Some (l k)"
    by (rule slot_loc [OF sl Cons.prems(1-3) k])
  have pre: "mem t1 x = mem s x" if "x \<notin> l ` {..<n}" "x \<notin> W" for x
    using that Cons.prems(3) [OF that] k by (auto simp: t1_def)
  have "\<exists>m'. store_list (v + of_nat (Suc k)) bs t1 = Some (t1\<lparr>mem := m'\<rparr>) \<and> (\<forall>i<length bs. m' (l (Suc k + i)) = bs ! i)
      \<and> (\<forall>x. x \<notin> l ` {Suc k..<n} \<longrightarrow> m' x = mem t1 x)"
    by (rule Cons.IH) (use Cons.prems pre in \<open>simp_all add: t1_def\<close>)
  then obtain m' where m': "store_list (v + of_nat (Suc k)) bs t1 = Some (t1\<lparr>mem := m'\<rparr>)"
    "\<forall>i<length bs. m' (l (Suc k + i)) = bs ! i" "\<forall>x. x \<notin> l ` {Suc k..<n} \<longrightarrow> m' x = mem t1 x"
    by (elim exE conjE)
  have "store_list (v + of_nat k) (b # bs) t = Some (t\<lparr>mem := m'\<rparr>)"
    using loc m'(1) by (simp add: store_byte_def t1_def algebra_simps)
  moreover have "{Suc k..<n} \<subseteq> {..<n}" by auto
  then have "l k \<notin> l ` {Suc k..<n}"
    using sl k inj_on_image_mem_iff [of l "{..<n}" k "{Suc k..<n}"] by (auto simp: slot_at_def)
  then have "m' (l (k + i)) = (b # bs) ! i" if "i < length (b # bs)" for i
    using m'(2,3) that by (cases i) (auto simp: t1_def)
  moreover have "m' x = mem t x" if "x \<notin> l ` {k..<n}" for x
  proof -
    have "x \<noteq> l k" "x \<notin> l ` {Suc k..<n}" using that k by auto
    then show ?thesis using m'(3) by (simp add: t1_def)
  qed
  ultimately show ?case by blast
qed

lemma load_bytes_slot:
  assumes "slot_at s v n l W" and "hhdm_offset t = hhdm_offset s" "cr3 t = cr3 s"
    and "\<And>x. x \<notin> l ` {..<n} \<Longrightarrow> x \<notin> W \<Longrightarrow> mem t x = mem s x" and "\<forall>i\<in>set is. i < n"
  shows "load_bytes t v is = Some (map (\<lambda>i. mem t (l i)) is)"
  using assms(5)
proof (induction "is")
  case (Cons i "is")
  then have "virt_loc t False (v + of_nat i) = Some (l i)"
    by (intro virt_loc_read slot_loc [OF assms(1-4)]) simp_all
  then show ?case using Cons by (simp add: load_byte_def)
qed simp

lemma le_word_bytes: "le_word (map (\<lambda>i. ucast (drop_bit (8 * i) x)) [0..<8]) = (x :: u64)"
proof -
  have "le_word (map (\<lambda>i. ucast (drop_bit (8 * i) x)) [0..<8]) = read64 (write64 0 x (\<lambda>_. 0)) 0"
    unfolding read64_def by (rule arg_cong [where f = le_word])
      (simp add: write64_def word_less_unat unat_of_nat_small del: upt_rec_numeral)
  then show ?thesis by (simp add: read64_write64_same)
qed

section \<open>The calls that return\<close>

text \<open>The \<open>n\<close> bytes at \<open>v\<close> can be read, whatever the bytes in \<open>W\<close> are.\<close>

definition readable :: "kernel \<Rightarrow> u64 \<Rightarrow> nat \<Rightarrow> u64 set \<Rightarrow> bool" where
  "readable s v n W \<longleftrightarrow>
     (\<forall>m. (\<forall>x. x \<notin> W \<longrightarrow> m x = mem s x) \<longrightarrow> (\<forall>i<n. virt_loc (s\<lparr>mem := m\<rparr>) False (v + of_nat i) \<noteq> None))"

definition screen_area :: "kernel \<Rightarrow> u64 set" where
  "screen_area s = {x. screen s x}"

lemma write_loop_output:
  assumes rd: "readable s v n W" and con: "console_ok s" and W: "screen_area s \<subseteq> W"
    and "hhdm_offset t = hhdm_offset s" "cr3 t = cr3 s" "g_fb (fb t) = g_fb (fb s)" and "\<And>x. x \<notin> W \<Longrightarrow> mem t x = mem s x"
    and "\<forall>i\<in>set is. i < n"
  shows "\<exists>t'. write_loop v is t = Some t' \<and> output_only t t'"
  using assms(4-)
proof (induction "is" arbitrary: t)
  case Nil
  then show ?case by (simp add: output_only_refl)
next
  case (Cons i "is")
  have scr: "screen t = screen s" using Cons.prems(3) by (simp add: screen_def fun_eq_iff)
  have "virt_loc (s\<lparr>mem := mem t\<rparr>) False (v + of_nat i) \<noteq> None"
    using rd Cons.prems by (simp add: readable_def)
  then have "virt_loc t False (v + of_nat i) \<noteq> None"
    using virt_loc_cong [of t "s\<lparr>mem := mem t\<rparr>"] Cons.prems(1,2) by simp
  then obtain c where c: "load_byte t (v + of_nat i) = Some c" by (auto simp: load_byte_def)
  define t1 where "t1 = put_char (scast c) 0xAAAAAA t"
  have o: "output_only t t1"
    unfolding t1_def by (rule put_char_output) (use con Cons.prems(3) in \<open>simp add: console_ok_def\<close>)
  have "mem t1 x = mem s x" if "x \<notin> W" for x
  proof -
    have "\<not> screen t x" using that W scr by (auto simp: screen_area_def)
    then show ?thesis using output_onlyD(4) [OF o] Cons.prems(4) [OF that] by simp
  qed
  moreover have "hhdm_offset t1 = hhdm_offset s" "cr3 t1 = cr3 s"
    using o Cons.prems by (auto simp: output_only_def)
  ultimately obtain t' where "write_loop v is t1 = Some t'" "output_only t1 t'"
    using Cons.IH [of t1] Cons.prems output_onlyD(1) [OF o] by auto
  then show ?case using c output_only_trans [OF o] by (simp add: t1_def)
qed

text \<open>The values of \<open>write\<close>, \<open>getpid\<close> and unknown calls.\<close>

definition sys_value :: "syscall_context_t \<Rightarrow> kernel \<Rightarrow> u64" where
  "sys_value ctx s =
     (if sc_rax ctx = 1 then if sc_rdi ctx = 1 then sc_rdx ctx else - 1
      else if sc_rax ctx = 39 then ucast (task_pid (mem s) (current_task s))
      else - 1)"

text \<open>An unknown call leaves its number in the text buffer; the console is used by it and by \<open>write\<close> to descriptor 1.\<close>

definition numbered_call :: "u64 \<Rightarrow> kernel \<Rightarrow> kernel" where
  "numbered_call nr s = (if nr = 1 \<or> nr = 39 then s else store_dec nr s)"

definition quiet_call :: "u64 \<Rightarrow> u64 \<Rightarrow> bool" where
  "quiet_call nr fd \<longleftrightarrow> nr = 39 \<or> nr = 1 \<and> fd \<noteq> 1"

lemma syscall_common_returns:
  assumes "load_syscall_context (mem s) p = ctx" and "sc_rax ctx \<noteq> 0" "sc_rax ctx \<noteq> 60" and con: "console_ok s"
    and "sc_rax ctx = 1 \<Longrightarrow> sc_rdi ctx = 1 \<Longrightarrow> readable s (sc_rsi ctx) (unat (sc_rdx ctx)) (screen_area s)"
    and "sc_rax ctx = 39 \<Longrightarrow> current_task s \<noteq> 0"
  shows "\<exists>u. syscall_common_handler H flags p s = Some (Sys_return (sys_value ctx s) (numbered_call (sc_rax ctx) u))
     \<and> output_only s u \<and> (quiet_call (sc_rax ctx) (sc_rdi ctx) \<longrightarrow> u = s)"
proof -
  consider (w) "sc_rax ctx = 1" | (p) "sc_rax ctx = 39" | (u) "sc_rax ctx \<noteq> 1" "sc_rax ctx \<noteq> 39" by blast
  then show ?thesis
  proof cases
    case w
    show ?thesis
    proof (cases "sc_rdi ctx = 1")
      case True
      have "\<exists>t'. write_loop (sc_rsi ctx) [0..<unat (sc_rdx ctx)] s = Some t' \<and> output_only s t'"
        by (rule write_loop_output [OF assms(5) [OF w True] con]) simp_all
      then show ?thesis
        using w True assms(1) by (auto simp: syscall_common_handler_def sys_write_def sys_value_def numbered_call_def quiet_call_def)
    next
      case False
      then show ?thesis
        using w assms(1) output_only_refl [of s] by (simp add: syscall_common_handler_def sys_write_def sys_value_def numbered_call_def)
    qed
  next
    case p
    then show ?thesis
      using assms(1,6) output_only_refl [of s] by (simp add: syscall_common_handler_def sys_getpid_def sys_value_def numbered_call_def)
  next
    case u
    have "output_only s (print ''\<newline>'' 0 (print_bytes (u64_to_dec_bytes (sc_rax ctx)) 0xAAAAAA (print ''unhandled syscall #'' 0xAAAAAA s)))"
      by (intro output_chain con output_only_refl)
    then show ?thesis
      using u assms(1-3) by (simp add: syscall_common_handler_def sys_unhandled_def sys_value_def numbered_call_def quiet_call_def del: bytes_Cons) blast
  qed
qed

text \<open>The 120 bytes of the kernel stack that hold the registers during a call.\<close>

definition kernel_frame :: "kernel \<Rightarrow> u64 set" where
  "kernel_frame s = {x. x - (rsp0 (tss s) - 120) < 120}"

definition call_value :: "cpu_context_t \<Rightarrow> kernel \<Rightarrow> u64" where
  "call_value r s =
     (if c_rax r = 1 then if c_rdi r = 1 then c_rdx r else - 1
      else if c_rax r = 39 then ucast (task_pid (mem s) (current_task s))
      else - 1)"

text \<open>
  C39.  A system call other than \<open>read\<close> and \<open>exit\<close> returns to the instruction behind it with all registers of the
  task unchanged, except the result in \<open>rax\<close> and the registers \<open>rcx\<close> and \<open>r11\<close> the processor itself overwrites;
  \<open>r12\<close>, which the entry code saves on the user stack, comes back as well.  \<open>write\<close> returns the number of
  bytes, or -1 for another descriptor than 1; \<open>getpid\<close> returns the process id; unknown calls return
  -1.  Memory changes only on the screen, in the frame on the kernel stack and in the eight bytes below the
  user stack pointer.  Of the rest of the kernel only two things change: the cursor of the console, unless
  nothing is printed, and, by an unknown call, the text buffer, which then holds the number of the call.
\<close>

theorem syscall_returns:
  assumes con: "console_ok s" and slot: "slot_at s (c_rsp r - 8) 8 l (screen_area s \<union> kernel_frame s)"
    and apart: "screen_area s \<inter> kernel_frame s = {}" and nr: "c_rax r \<noteq> 0" "c_rax r \<noteq> 60"
    and buf: "c_rax r = 1 \<and> c_rdi r = 1 \<longrightarrow>
      readable s (c_rsi r) (unat (c_rdx r)) (screen_area s \<union> kernel_frame s \<union> l ` {..<8})"
    and task: "c_rax r = 39 \<longrightarrow> current_task s \<noteq> 0
      \<and> (\<forall>i<40. current_task s + i \<notin> screen_area s \<union> kernel_frame s \<union> l ` {..<8})"
  shows "\<exists>s' b m. syscall_handler H (syscall_insn H s r) s
        = Some (Sys_enter (r\<lparr>c_rax := call_value r s, c_rcx := c_rip r, c_r11 := c_rflags r, c_cs := 0x23, c_ss := 0x1B\<rparr>) s')
    \<and> s' = s\<lparr>fb := b, mem := m,
         syscall_buf := (if c_rax r = 1 \<or> c_rax r = 39 then syscall_buf s else dec_text (c_rax r) (syscall_buf s))\<rparr>
    \<and> g_fb b = g_fb (fb s) \<and> (c_rax r = 39 \<or> c_rax r = 1 \<and> c_rdi r \<noteq> 1 \<longrightarrow> b = fb s)
    \<and> (\<forall>x. x \<notin> screen_area s \<union> kernel_frame s \<union> l ` {..<8} \<longrightarrow> m x = mem s x)"
proof -
  define u where "u = c_rsp r - 8"
  define q where "q = syscall_insn H s r"
  define sp where "sp = rsp0 (tss s)"
  define bs where "bs = map (\<lambda>i. ucast (drop_bit (8 * i) (c_r12 r)) :: u8) [0..<8]"
  have len: "length bs = 8" by (simp add: bs_def)
  obtain m1 where m1: "store64 u (c_r12 r) s = Some (s\<lparr>mem := m1\<rparr>)" "\<forall>i<8. m1 (l i) = bs ! i"
      "\<forall>x. x \<notin> l ` {..<8} \<longrightarrow> m1 x = mem s x"
    using store_list_slot [OF slot, of s 0 bs] len
    by (auto simp: store64_def u_def bs_def [symmetric] atLeast0LessThan)
  define t where "t = s\<lparr>mem := push_syscall sp q u m1\<rparr>"
  define ctx where "ctx = load_syscall_context (mem t) (sp - 120)"
  have ctx: "ctx = \<lparr>sc_rax = c_rax r, sc_rbx = c_rbx r, sc_rbp = c_rbp r, sc_rdi = c_rdi r, sc_rsi = c_rsi r, sc_rdx = c_rdx r,
      sc_rcx = c_rip r, sc_r8 = c_r8 r, sc_r9 = c_r9 r, sc_r10 = c_r10 r, sc_r11 = c_rflags r, sc_r12 = u,
      sc_r13 = c_r13 r, sc_r14 = c_r14 r, sc_r15 = c_r15 r\<rparr>"
    by (simp add: ctx_def t_def load_push_syscall q_def syscall_insn_def)
  have pushed: "mem t x = m1 x" if "x \<notin> kernel_frame s" for x
    using that push_syscall_outside [of x sp q u m1]
    by (simp add: t_def kernel_frame_def sp_def word_less_unat word_le_unat)
  have memt: "mem t x = mem s x" if "x \<notin> kernel_frame s" "x \<notin> l ` {..<8}" for x
    using pushed [OF that(1)] m1(3) that(2) by simp
  have scr: "screen t = screen s" "screen_area t = screen_area s"
    by (simp_all add: t_def screen_def screen_area_def fun_eq_iff)
  have rd: "readable t (c_rsi r) (unat (c_rdx r)) (screen_area t)" if "c_rax r = 1" "c_rdi r = 1"
    unfolding readable_def
  proof (intro allI impI)
    fix m i assume m: "\<forall>x. x \<notin> screen_area t \<longrightarrow> m x = mem t x" and i: "i < unat (c_rdx r)"
    have "\<forall>x. x \<notin> screen_area s \<union> kernel_frame s \<union> l ` {..<8} \<longrightarrow> m x = mem s x"
      using m memt scr by auto
    then have "virt_loc (s\<lparr>mem := m\<rparr>) False (c_rsi r + of_nat i) \<noteq> None"
      using buf that i by (simp add: readable_def)
    then show "virt_loc (t\<lparr>mem := m\<rparr>) False (c_rsi r + of_nat i) \<noteq> None"
      by (simp add: t_def)
  qed
  have "console_ok t" and cur: "current_task t = current_task s" using con by (simp_all add: t_def console_ok_def)
  then have "\<exists>o'. syscall_common_handler H (c_rflags q) (sp - 120) t = Some (Sys_return (sys_value ctx t) (numbered_call (sc_rax ctx) o'))
      \<and> output_only t o' \<and> (quiet_call (sc_rax ctx) (sc_rdi ctx) \<longrightarrow> o' = t)"
    using nr rd task by (intro syscall_common_returns) (simp_all add: ctx_def [symmetric], simp_all add: ctx)
  then obtain o' where o': "syscall_common_handler H (c_rflags q) (sp - 120) t = Some (Sys_return (sys_value ctx t) (numbered_call (c_rax r) o'))"
      "output_only t o'" "quiet_call (c_rax r) (c_rdi r) \<longrightarrow> o' = t"
    by (auto simp: ctx)
  define s' where "s' = numbered_call (c_rax r) o'"
  have same: "mem s' = mem o'" "cr3 s' = cr3 o'" "hhdm_offset s' = hhdm_offset o'" by (simp_all add: s'_def numbered_call_def)
  have "task_pid (mem t) (current_task s) = task_pid (mem s) (current_task s)" if "c_rax r = 39"
    by (rule same_task_fields) (use that task memt in \<open>simp add: same_task_def\<close>)
  then have ret: "sys_value ctx t = call_value r s"
    by (simp add: sys_value_def call_value_def ctx cur)
  have frame: "mem s' x = mem t x" if "x \<in> kernel_frame s" for x
    using output_onlyD(4) [OF o'(2)] that apart scr by (auto simp: screen_area_def same)
  have ctx': "load_syscall_context (mem s') (sp - 120) = ctx"
    unfolding ctx_def
    by (rule load_syscall_context_cong) (rule frame, simp add: kernel_frame_def sp_def)
  have mem': "mem s' x = mem s x" if "x \<notin> screen_area s" "x \<notin> kernel_frame s" "x \<notin> l ` {..<8}" for x
    using output_onlyD(4) [OF o'(2)] memt that scr by (simp add: screen_area_def same)
  have "load_bytes s' u [0..<8] = Some (map (\<lambda>i. mem s' (l i)) [0..<8])"
    unfolding u_def by (rule load_bytes_slot [OF slot]) (use o'(2) mem' in \<open>auto simp: output_only_def t_def same\<close>)
  moreover have "mem s' (l i) = bs ! i" if "i < 8" for i
  proof -
    have "l i \<notin> screen_area s" "l i \<notin> kernel_frame s" using slot that by (auto simp: slot_at_def)
    then show ?thesis using output_onlyD(4) [OF o'(2)] pushed m1(2) that scr by (simp add: screen_area_def same)
  qed
  ultimately have "load_bytes s' u [0..<8] = Some bs"
    using len by (simp add: list_eq_iff_nth_eq)
  then have r12: "load64 s' u = Some (c_r12 r)" by (simp add: load64_def bs_def le_word_bytes)
  define r' where "r' = r\<lparr>c_rax := call_value r s, c_rcx := c_rip r, c_r11 := c_rflags r, c_cs := 0x23, c_ss := 0x1B\<rparr>"
  have pop: "pop_syscall (mem s') (sp - 120) (call_value r s) (c_r12 r) = r'"
    by (rule cpu_context_t.equality) (simp_all add: pop_syscall_def Let_def ctx' ctx u_def r'_def)
  have q: "c_rsp q - 8 = u" "c_r12 q = c_r12 r" by (simp_all add: q_def syscall_insn_def u_def)
  have "sc_r12 (load_syscall_context (mem s') (sp - 120)) = u" by (simp add: ctx' ctx)
  then have call: "syscall_handler H q s = Some (Sys_enter r' s')"
    using o'(1) r12 pop by (simp add: syscall_handler_def Let_def q m1(1) ret s'_def [symmetric] sp_def [symmetric] t_def [symmetric])
  obtain b m where out: "o' = s\<lparr>fb := b, mem := m\<rparr>" "g_fb b = g_fb (fb s)" using o'(2) by (auto simp: output_only_def t_def)
  have "s' = s\<lparr>fb := b, mem := m, syscall_buf := (if c_rax r = 1 \<or> c_rax r = 39 then syscall_buf s else dec_text (c_rax r) (syscall_buf s))\<rparr>"
    by (simp add: s'_def numbered_call_def store_dec_def out(1))
  moreover have "b = fb s" if "c_rax r = 39 \<or> c_rax r = 1 \<and> c_rdi r \<noteq> 1"
  proof -
    have "o' = t" using o'(3) that by (simp add: quiet_call_def)
    then have "fb o' = fb t" by simp
    then show ?thesis by (simp add: out(1) t_def)
  qed
  ultimately show ?thesis
    using call out(2) mem' same(1) by (intro exI [of _ s'] exI [of _ b] exI [of _ m]) (simp add: q_def r'_def out(1))
qed

text \<open>
  The running task of the example, as process 7 and with a page of user stack at 0x7FFFFFFF7000, mapped to the frame at 0x20000
  through tables in the frames from 0x10000 on.
\<close>

definition example_stack :: memory where
  "example_stack =
     write32 0x101C 7 (write64 0xFFFF8000000107F8 0x11007 (write64 0xFFFF800000011FF8 0x12007
       (write64 0xFFFF800000012FF8 0x13007 (write64 0xFFFF800000013FB8 0x20007 example_tasks))))"

definition example_user :: kernel where
  "example_user = example_running\<lparr>mem := example_stack, cr3 := 0x10000\<rparr>"

lemma example_stack_walk:
  assumes "read64 m 0xFFFF8000000107F8 = 0x11007" "read64 m 0xFFFF800000011FF8 = 0x12007"
    "read64 m 0xFFFF800000012FF8 = 0x13007" "read64 m 0xFFFF800000013FB8 = 0x20007" and "i < 8"
  shows "virt_loc (example_user\<lparr>mem := m\<rparr>) True (0x7FFFFFFF7FF8 + of_nat i) = Some (0xFFFF800000020FF8 + of_nat i)"
proof -
  have "list_all (\<lambda>i. virt_loc (example_user\<lparr>mem := m\<rparr>) True (0x7FFFFFFF7FF8 + of_nat i) = Some (0xFFFF800000020FF8 + of_nat i))
      [0, 1, 2, 3, 4, 5, 6, 7]"
    using assms(1-4)
    by (simp add: virt_loc_def mmu_walk_def mmu_step_def example_user_def example_running_def example_kernel_def
        table_frame_def phys_to_virt_def PML4_INDEX_def PDP_INDEX_def PD_INDEX_def PT_INDEX_def)
  moreover have "i \<in> set [0, 1, 2, 3, 4, 5, 6, 7]" using assms(5) by simp presburger
  ultimately show ?thesis by (simp only: list_all_iff)
qed

lemma example_user_apart:
  assumes "x - a < n" and "regions_disjoint 0xFFFF800000020FF8 8 a n" and "regions_disjoint 0x10FF88 120 a n"
  shows "x \<notin> (\<lambda>i. 0xFFFF800000020FF8 + of_nat i) ` {..<8 :: nat}" and "x \<notin> kernel_frame example_user"
proof -
  have x: "8 \<le> x - 0xFFFF800000020FF8" "120 \<le> x - 0x10FF88"
    using regions_disjointD [OF assms(2,1)] regions_disjointD [OF assms(3,1)] by simp_all
  have "unat (of_nat i :: u64) < 8" if "i < 8" for i using that by (simp add: unat_of_nat_small)
  then show "x \<notin> (\<lambda>i. 0xFFFF800000020FF8 + of_nat i) ` {..<8 :: nat}"
    using x(1) by (fastforce simp: word_le_unat)
  show "x \<notin> kernel_frame example_user"
    using x(2) by (simp add: kernel_frame_def example_user_def example_running_def word_less_unat word_le_unat)
qed

lemma example_slot:
  "slot_at example_user 0x7FFFFFFF7FF8 8 (\<lambda>i. 0xFFFF800000020FF8 + of_nat i)
     (screen_area example_user \<union> kernel_frame example_user)"
proof -
  have scr: "screen_area example_user = {}"
    by (simp add: screen_area_def screen_def example_user_def example_running_def example_kernel_def)
  have inj: "inj_on (\<lambda>i. 0xFFFF800000020FF8 + of_nat i :: u64) {..<8}"
    by (rule inj_onI, subst (asm) add_left_cancel) (simp add: word_unat_eq_iff unat_of_nat_small)
  have "0xFFFF800000020FF8 + of_nat i \<notin> kernel_frame example_user" if "i < 8" for i :: nat
  proof -
    have "regions_disjoint 0x10FF88 120 0xFFFF800000020FF8 8" "(of_nat i :: u64) < 8"
      using that by (simp_all add: regions_disjoint_def word_less_unat unat_of_nat_small)
    then show ?thesis
      using regions_disjointD [of "0x10FF88" 120 "0xFFFF800000020FF8" 8 "of_nat i"]
      by (simp add: kernel_frame_def example_user_def example_running_def linorder_not_less)
  qed
  moreover have "virt_loc (example_user\<lparr>mem := m\<rparr>) True (0x7FFFFFFF7FF8 + of_nat i) = Some (0xFFFF800000020FF8 + of_nat i)"
    if m: "\<forall>x. x \<notin> (\<lambda>i. 0xFFFF800000020FF8 + of_nat i) ` {..<8 :: nat} \<longrightarrow> x \<notin> kernel_frame example_user
      \<longrightarrow> m x = example_stack x" and i: "i < 8" for m i
  proof -
    have "read64 m a = read64 example_stack a"
      if "regions_disjoint 0xFFFF800000020FF8 8 a 8" "regions_disjoint 0x10FF88 120 a 8" for a
      using example_user_apart [OF _ that] m by (intro read64_cong) simp
    then show ?thesis
      by (intro example_stack_walk i)
        (simp_all add: regions_disjoint_def example_stack_def read64_write64_same read64_write64_other read64_write32_other)
  qed
  moreover have "mem example_user = example_stack" by (simp add: example_user_def)
  ultimately show ?thesis
    using inj by (auto simp: slot_at_def scr)
qed

theorem syscall_returns_witness:
  "slot_at example_user 0x7FFFFFFF7FF8 8 (\<lambda>i. 0xFFFF800000020FF8 + of_nat i)
       (screen_area example_user \<union> kernel_frame example_user)
    \<and> task_pid (mem example_user) 0x1000 = 7
    \<and> (\<exists>s'. syscall_handler example_hardware (syscall_insn example_hardware example_user (example_context\<lparr>c_rax := 39\<rparr>)) example_user
          = Some (Sys_enter (example_context\<lparr>c_rax := 7, c_rcx := 0x400000, c_r11 := 0x202\<rparr>) s'))"
proof -
  have fb: "console_ok example_user" "screen_area example_user = {}" "current_task example_user = 0x1000"
    by (simp_all add: console_ok_def screen_area_def screen_def example_user_def example_running_def example_kernel_def)
  have pid: "task_pid (mem example_user) 0x1000 = 7"
    by (simp add: example_user_def example_stack_def task_pid_def read32_write32_same)
  have apart: "0x1000 + i \<notin> kernel_frame example_user \<union> (\<lambda>i. 0xFFFF800000020FF8 + of_nat i) ` {..<8 :: nat}"
    if "i < 40" for i :: u64
    using example_user_apart [of "0x1000 + i" "0x1000" 40] that by (simp add: regions_disjoint_def)
  have "\<exists>s'. syscall_handler example_hardware (syscall_insn example_hardware example_user (example_context\<lparr>c_rax := 39\<rparr>)) example_user
          = Some (Sys_enter (example_context\<lparr>c_rax := 7, c_rcx := 0x400000, c_r11 := 0x202\<rparr>) s')"
    using syscall_returns [of example_user "example_context\<lparr>c_rax := 39\<rparr>" "\<lambda>i. 0xFFFF800000020FF8 + of_nat i" example_hardware]
      example_slot fb pid apart
    by (auto simp: example_context_def call_value_def)
  then show ?thesis using example_slot pid by blast
qed

end
