(* ===== verification/Cpio.thy ===== *)
theory Cpio
  imports Serial Klib_String
begin

text \<open>
  The initial RAM disk, \<open>kernel/fs/cpio/cpio.c\<close>: a linear search in an archive of the format
  \<open>newc\<close> that lies in memory.  The result of \<open>cpio_lookup\<close> is the address of the data, 0 for
  \<open>NULL\<close>, with the size it stores through \<open>out_size\<close>, when it does.
\<close>

section \<open>Headers\<close>

text \<open>Each field is the address of its characters.\<close>

record cpio_header =
  c_magic :: u64
  c_ino :: u64
  c_mode :: u64
  c_uid :: u64
  c_gid :: u64
  c_nlink :: u64
  c_mtime :: u64
  c_filesize :: u64
  c_maj :: u64
  c_min :: u64
  c_rmaj :: u64
  c_rmin :: u64
  c_namesize :: u64
  c_chksum :: u64

definition cpio_header_at :: "u64 \<Rightarrow> cpio_header" where
  "cpio_header_at p = \<lparr>c_magic = p, c_ino = p + 6, c_mode = p + 14, c_uid = p + 22, c_gid = p + 30, c_nlink = p + 38,
     c_mtime = p + 46, c_filesize = p + 54, c_maj = p + 62, c_min = p + 70, c_rmaj = p + 78, c_rmin = p + 86,
     c_namesize = p + 94, c_chksum = p + 102\<rparr>"

abbreviation (input) sizeof_cpio_header :: u64 where "sizeof_cpio_header \<equiv> 110"

section \<open>Numbers\<close>

definition hex_digit_value :: "u8 \<Rightarrow> u32 option" where
  "hex_digit_value c =
     (if of_char CHR ''0'' \<le> c \<and> c \<le> of_char CHR ''9'' then Some (ucast c - of_char CHR ''0'')
      else if of_char CHR ''a'' \<le> c \<and> c \<le> of_char CHR ''f'' then Some (ucast c - of_char CHR ''a'' + 10)
      else if of_char CHR ''A'' \<le> c \<and> c \<le> of_char CHR ''F'' then Some (ucast c - of_char CHR ''A'' + 10)
      else None)"

fun cpio_parse_loop :: "memory \<Rightarrow> u64 \<Rightarrow> nat list \<Rightarrow> u32 \<Rightarrow> u32" where
  "cpio_parse_loop m field [] result = result"
| "cpio_parse_loop m field (i # is) result =
     (case hex_digit_value (m (field + of_nat i)) of None \<Rightarrow> result
      | Some digit \<Rightarrow> cpio_parse_loop m field is (push_bit 4 result OR digit))"

definition cpio_parse_hex :: "memory \<Rightarrow> u64 \<Rightarrow> nat \<Rightarrow> u32" where
  "cpio_parse_hex m field len = cpio_parse_loop m field [0..<len] 0"

section \<open>The search\<close>

text \<open>
  \<open>(sizeof(cpio_header) + namesize + 3) & ~3\<close> is computed on 64 bits, \<open>(filesize + 3) & ~3\<close> on 32.
\<close>

definition cpio_data_offset :: "u32 \<Rightarrow> u64" where
  "cpio_data_offset namesize = (sizeof_cpio_header + ucast namesize + 3) AND NOT 3"

definition cpio_data_size :: "u32 \<Rightarrow> u64" where
  "cpio_data_size filesize = ucast ((filesize + 3) AND NOT 3)"

text \<open>
  The path is a string in the memory \<open>pm\<close> (a literal for every caller).  The loop need not end: an
  archive may lead it back to an entry it has seen.
\<close>

partial_function (option) cpio_loop ::
  "memory \<Rightarrow> u64 \<Rightarrow> u64 \<Rightarrow> 'a machine_scheme \<Rightarrow> ((u64 \<times> u64 option) \<times> 'a machine_scheme) option" where
  "cpio_loop pm path ptr s =
     (let hdr = cpio_header_at ptr in
      if strncmp (mem s) (c_magic hdr) (lit ''070701'') 0 6 \<noteq> 0
      then Some ((0, None), serial_log (bytes ''[cpio_lookup] bad magic\<newline>'') s)
      else
        let namesize = cpio_parse_hex (mem s) (c_namesize hdr) 8;
            filesize = cpio_parse_hex (mem s) (c_filesize hdr) 8;
            name = ptr + sizeof_cpio_header
        in Option.bind (strcmp (mem s) name (lit ''TRAILER!!!'') 0) (\<lambda>trailer.
           if trailer = 0 then Some ((0, None), s)
           else
             let data = ptr + cpio_data_offset namesize
             in Option.bind (strcmp (mem s) name pm path) (\<lambda>found.
                if found = 0 then Some ((data, Some (ucast filesize)), s)
                else cpio_loop pm path (ptr + (cpio_data_offset namesize + cpio_data_size filesize)) s)))"

text \<open>\<open>module\<close> is \<open>module->address\<close>, \<open>None\<close> for a null module.\<close>

definition cpio_lookup ::
  "u64 option \<Rightarrow> memory \<Rightarrow> u64 \<Rightarrow> 'a machine_scheme \<Rightarrow> ((u64 \<times> u64 option) \<times> 'a machine_scheme) option" where
  "cpio_lookup module pm path s =
     (case module of None \<Rightarrow> Some ((0, None), s) | Some ptr \<Rightarrow> cpio_loop pm path ptr s)"

end
