(* ===== verification/Cpio_Properties.thy ===== *)
theory Cpio_Properties
  imports Cpio Example_State
begin

text \<open>
  The search in the initial RAM disk finds what an archive of the format \<open>newc\<close> contains.  \<open>newc_entry\<close> is the
  format as its documentation gives it: the magic number, thirteen fields of eight hexadecimal digits, the name with a
  final NUL, and the data, name and data filled up to a multiple of four bytes.  \<open>holds\<close> says that the memory has
  given bytes from an address on.
\<close>

section \<open>Bytes in memory\<close>

primrec holds :: "memory \<Rightarrow> u64 \<Rightarrow> u8 list \<Rightarrow> bool" where
  "holds m p [] \<longleftrightarrow> True"
| "holds m p (b # bs) \<longleftrightarrow> m p = b \<and> holds m (p + 1) bs"

lemma holds_append: "holds m p (xs @ ys) \<longleftrightarrow> holds m p xs \<and> holds m (p + of_nat (length xs)) ys"
  by (induction xs arbitrary: p) (simp_all add: algebra_simps)

lemma holds_nth: "holds m p bs \<Longrightarrow> i < length bs \<Longrightarrow> m (p + of_nat i) = bs ! i"
  by (induction bs arbitrary: p i) (auto simp: nth_Cons add.assoc [symmetric] split: nat.splits)

lemma holds_cstr: "holds m p (xs @ [0]) \<Longrightarrow> 0 \<notin> set xs \<Longrightarrow> cstr m p xs"
  by (induction xs arbitrary: p) simp_all

lemma holds_store_bytes: "length bs < 18446744073709551616 \<Longrightarrow> holds (store_bytes p bs m) p bs"
proof (induction bs arbitrary: p m)
  case (Cons b bs)
  then have "store_bytes (p + 1) bs (m(p := b)) p = b"
    by (subst store_bytes_apply) (simp_all add: unsigned_minus_1_eq_mask mask_eq_exp_minus_1)
  then show ?case using Cons by simp
qed simp

lemma strncmp_holds:
  "holds m1 a xs \<Longrightarrow> holds m2 b ys \<Longrightarrow> length xs = length ys \<Longrightarrow> length xs = unat n \<Longrightarrow> 0 \<notin> set ys
     \<Longrightarrow> strncmp m1 a m2 b n = 0 \<longleftrightarrow> xs = ys"
proof (induction xs arbitrary: a b ys n)
  case (Cons x xs)
  then obtain y zs where ys: "ys = y # zs" by (cases ys) auto
  have len: "unat n = Suc (length xs)" using Cons.prems(4) by simp
  have "n \<noteq> 0" using len by auto
  then have n: "n \<noteq> 0" "unat (n - 1) = length xs" using len by (simp_all add: unat_dec_small)
  have xy: "m1 a = x" "m2 b = y" "y \<noteq> 0" using Cons.prems(1,2,5) by (simp_all add: ys)
  show ?case
  proof (cases "x = y")
    case True
    have "strncmp m1 (a + 1) m2 (b + 1) (n - 1) = 0 \<longleftrightarrow> xs = zs"
      by (rule Cons.IH) (use Cons.prems n(2) in \<open>simp_all add: ys\<close>)
    then show ?thesis using xy n(1) True by (subst strncmp.simps) (simp add: ys)
  next
    case False
    then show ?thesis using xy n(1) by (subst strncmp.simps) (auto simp: ys unsigned_word_eqI)
  qed
qed (simp add: strncmp.simps unat_zero_iff eq_commute [of 0])

section \<open>Numbers of eight hexadecimal digits\<close>

definition hex_field :: "nat \<Rightarrow> u8 list" where
  "hex_field n = map (\<lambda>i. hex_digit (of_nat (n div 16 ^ (7 - i) mod 16))) [0..<8]"

lemma length_hex_field [simp]: "length (hex_field n) = 8"
  by (simp add: hex_field_def)

lemma hex_digit_value_digit:
  assumes "d < 16"
  shows "hex_digit_value (hex_digit (of_nat d)) = Some (of_nat d)"
proof -
  have "list_all (\<lambda>d. hex_digit_value (hex_digit (of_nat d)) = Some (of_nat d)) [0..<16]"
    by (simp add: upt_rec hex_digit_def hex_digit_value_def)
  then show ?thesis using assms by (simp add: list_all_iff del: upt_rec_numeral)
qed

lemma append_digit:
  assumes "d < 16"
  shows "push_bit 4 (of_nat q :: u32) OR of_nat d = of_nat (16 * q + d)"
proof -
  have d: "(of_nat d :: u32) = take_bit 4 (of_nat d)" using assms by (simp add: take_bit_of_nat take_bit_nat_eq_self)
  have "push_bit 4 (of_nat q :: u32) + of_nat d = push_bit 4 (of_nat q) OR of_nat d"
  proof (rule disjunctive_add)
    fix n
    have "n < 4" if "bit (of_nat d :: u32) n" using that d by (metis bit_take_bit_iff)
    then show "\<not> bit (push_bit 4 (of_nat q :: u32)) n \<or> \<not> bit (of_nat d :: u32) n"
      by (metis bit_push_bit_iff not_le)
  qed
  then show ?thesis by (simp add: push_bit_eq_mult mult.commute)
qed

lemma align4: "(w :: 'a :: len word) AND NOT 3 = of_nat (unat w div 4 * 4)"
proof -
  have m: "(3 :: 'a word) = mask 2" by (simp add: mask_eq_exp_minus_1)
  have "w AND NOT (mask 2) = push_bit 2 (drop_bit 2 w)"
  proof (rule bit_word_eqI)
    fix n assume "n < LENGTH('a)"
    moreover have "n < 2 \<or> (\<exists>k. n = 2 + k)" by (metis le_Suc_ex not_le)
    ultimately show "bit (w AND NOT (mask 2)) n \<longleftrightarrow> bit (push_bit 2 (drop_bit 2 w)) n"
      by (auto simp: bit_and_iff bit_not_iff bit_mask_iff bit_push_bit_iff bit_drop_bit_eq)
  qed
  also have "drop_bit 2 w = of_nat (drop_bit 2 (unat w))" by (simp add: unat_drop_bit_eq [symmetric] del: drop_bit_of_nat)
  finally show ?thesis by (simp add: m push_bit_of_nat push_bit_eq_mult drop_bit_eq_div)
qed

lemma cpio_parse_hex_field:
  assumes "holds m p (hex_field n)" and "n < 2 ^ 32"
  shows "cpio_parse_hex m p 8 = of_nat n"
proof -
  have one: "cpio_parse_loop m p (i # is) (of_nat q) = cpio_parse_loop m p is (of_nat (16 * q + d))"
    if "m (p + of_nat i) = hex_digit (of_nat d)" "d < 16" for i "is" q d
    using that by (simp add: hex_digit_value_digit append_digit)
  have digits: "m (p + of_nat i) = hex_digit (of_nat (n div 16 ^ (7 - i) mod 16))" if "i < 8" for i
    using holds_nth [OF assms(1), of i] that by (simp add: hex_field_def del: upt_rec_numeral)
  have "cpio_parse_loop m p [i..<8] (of_nat (n div 16 ^ (8 - i))) = of_nat n" if "i \<le> 8" for i
    using that
  proof (induction i rule: inc_induct)
    case (step k)
    have "16 * (n div 16 ^ (8 - k)) + n div 16 ^ (7 - k) mod 16 = n div 16 ^ (8 - Suc k)"
    proof -
      have "n div 16 ^ (8 - k) = n div 16 ^ (7 - k) div 16"
        using step.hyps by (simp add: div_mult2_eq [symmetric] power_Suc2 [symmetric] Suc_diff_le [symmetric] del: power_Suc)
      then show ?thesis by simp
    qed
    then show ?case
      using step one [OF digits [OF step.hyps(2)], of "[Suc k..<8]" "n div 16 ^ (8 - k)"]
      by (simp add: upt_conv_Cons del: upt_rec_numeral cpio_parse_loop.simps)
  qed simp
  from this [of 0] show ?thesis using assms(2) by (simp add: cpio_parse_hex_def del: upt_rec_numeral)
qed

section \<open>Archives\<close>

text \<open>
  A file of an archive: its name, its data, and the bytes of the fields the kernel does not read, six fields before the
  file size, four between the file size and the name size, and the checksum.
\<close>

record cpio_file =
  f_name :: "u8 list"
  f_data :: "u8 list"
  f_attributes :: "u8 list"
  f_devices :: "u8 list"
  f_checksum :: "u8 list"

definition padding :: "nat \<Rightarrow> u8 list" where
  "padding n = replicate ((4 - n mod 4) mod 4) 0"

definition newc_name :: "cpio_file \<Rightarrow> u8 list" where
  "newc_name f = f_name f @ [0] @ padding (111 + length (f_name f))"

definition newc_header :: "cpio_file \<Rightarrow> u8 list" where
  "newc_header f = bytes ''070701'' @ f_attributes f @ hex_field (length (f_data f)) @ f_devices f
     @ hex_field (length (f_name f) + 1) @ f_checksum f"

definition newc_entry :: "cpio_file \<Rightarrow> u8 list" where
  "newc_entry f = newc_header f @ newc_name f @ f_data f @ padding (length (f_data f))"

definition trailer :: cpio_file where
  "trailer = \<lparr>f_name = bytes ''TRAILER!!!'', f_data = [], f_attributes = replicate 48 48, f_devices = replicate 32 48,
     f_checksum = replicate 8 48\<rparr>"

definition well_formed :: "cpio_file \<Rightarrow> bool" where
  "well_formed f \<longleftrightarrow> length (f_attributes f) = 48 \<and> length (f_devices f) = 32 \<and> length (f_checksum f) = 8
     \<and> 0 \<notin> set (f_name f) \<and> length (f_name f) < 4294967295 \<and> length (f_data f) < 4294967293"

lemma padded: "n + (4 - n mod 4) mod 4 = (n + 3) div 4 * (4 :: nat)"
proof -
  define q r where "q = n div 4" and "r = n mod 4"
  have n: "n = 4 * q + r" and "r < 4" by (simp_all add: q_def r_def)
  then consider "r = 0" | "r = 1" | "r = 2" | "r = 3" by linarith
  then have "4 * q + r + (4 - r) mod 4 = (4 * q + r + 3) div 4 * 4" by cases simp_all
  then show ?thesis by (simp only: n [symmetric]) (simp only: r_def)
qed

lemma data_offset:
  assumes "n < 4294967295"
  shows "cpio_data_offset (of_nat (n + 1)) = of_nat (111 + n + length (padding (111 + n)))"
proof -
  have u: "unat (of_nat (n + 1) :: u32) = n + 1" using assms by (simp add: unat_of_nat del: of_nat_add of_nat_Suc)
  have "unat (110 + ucast (of_nat (n + 1) :: u32) + 3 :: u64) = 114 + n"
    using assms u unat_add_small [of "110 + ucast (of_nat (n + 1) :: u32)" 3]
      unat_add_small [of 110 "ucast (of_nat (n + 1) :: u32)"]
    by (simp del: of_nat_add of_nat_Suc)
  then show ?thesis
    using padded [of "111 + n"] by (simp only: cpio_data_offset_def align4 padding_def length_replicate) (simp add: add.commute)
qed

lemma data_size:
  assumes "n < 4294967293"
  shows "cpio_data_size (of_nat n) = of_nat (n + length (padding n))"
proof -
  have "unat (of_nat n + 3 :: u32) = n + 3"
    using assms by (simp add: unat_word_ariths unat_of_nat)
  moreover have "(n + 3) div 4 * 4 < 4294967296" using assms div_times_less_eq_dividend [of "n + 3" 4] by linarith
  ultimately show ?thesis
    using padded [of n]
    by (simp only: cpio_data_size_def align4 padding_def length_replicate) (simp add: unat_of_nat word_eq_unat del: of_nat_mult)
qed

lemma length_newc_header: "well_formed f \<Longrightarrow> length (newc_header f) = 110"
  by (simp add: newc_header_def well_formed_def)

lemma magic_literal: "holds (lit ''070701'') 0 (bytes ''070701'')"
  by (simp add: lit_def)

lemma cpio_loop_entry:
  assumes h: "holds (mem s) p (newc_entry f)" and w: "well_formed f" and nm: "cstr pm path nm"
  shows "cpio_loop pm path p s =
    (if f_name f = bytes ''TRAILER!!!'' then Some ((0, None), s)
     else if f_name f = nm
     then Some ((p + of_nat (length (newc_header f @ newc_name f)), Some (of_nat (length (f_data f)))), s)
     else cpio_loop pm path (p + of_nat (length (newc_entry f))) s)"
proof -
  let ?m = "mem s"
  have hd: "holds ?m p (newc_header f)" and name: "holds ?m (p + 110) (f_name f @ [0])"
    using h length_newc_header [OF w] by (simp_all add: newc_entry_def newc_name_def holds_append)
  have magic: "strncmp ?m (c_magic (cpio_header_at p)) (lit ''070701'') 0 6 = 0"
    using hd by (subst strncmp_holds [OF _ magic_literal, of _ _ "bytes ''070701''"])
      (simp_all add: newc_header_def cpio_header_at_def)
  have "holds ?m (p + 54) (hex_field (length (f_data f)))" "holds ?m (p + 94) (hex_field (length (f_name f) + 1))"
    using hd w by (simp_all add: newc_header_def holds_append well_formed_def add.assoc)
  then have sizes: "cpio_parse_hex ?m (c_filesize (cpio_header_at p)) 8 = of_nat (length (f_data f))"
      "cpio_parse_hex ?m (c_namesize (cpio_header_at p)) 8 = of_nat (length (f_name f) + 1)"
    using w by (simp_all add: cpio_header_at_def cpio_parse_hex_field well_formed_def del: of_nat_add of_nat_Suc)
  have c: "cstr ?m (p + 110) (f_name f)" "0 \<notin> set (f_name f)"
    using holds_cstr [OF name] w by (simp_all add: well_formed_def)
  have t: "cstr (lit ''TRAILER!!!'') 0 (bytes ''TRAILER!!!'')" by (rule cstr_lit) simp_all
  have cmp: "strcmp ?m (p + 110) (lit ''TRAILER!!!'') 0 = Some (cmp_bytes (f_name f) (bytes ''TRAILER!!!''))"
      "strcmp ?m (p + 110) pm path = Some (cmp_bytes (f_name f) nm)"
    by (rule strcmp_cstr [OF c(1) t], rule strcmp_cstr [OF c(1) nm])
  have eq: "cmp_bytes (f_name f) (bytes ''TRAILER!!!'') = 0 \<longleftrightarrow> f_name f = bytes ''TRAILER!!!''"
      "cmp_bytes (f_name f) nm = 0 \<longleftrightarrow> f_name f = nm"
    using c(2) cstr_no_zero [OF nm] cstr_no_zero [OF t] cmp_bytes_zero by blast+
  have off: "cpio_data_offset (of_nat (length (f_name f) + 1)) = of_nat (length (newc_header f @ newc_name f))"
    using w length_newc_header [OF w] by (subst data_offset) (simp_all add: well_formed_def newc_name_def)
  have size: "cpio_data_size (of_nat (length (f_data f))) = of_nat (length (f_data f @ padding (length (f_data f))))"
    using w by (subst data_size) (simp_all add: well_formed_def)
  have all: "of_nat (length (newc_header f @ newc_name f)) + of_nat (length (f_data f @ padding (length (f_data f))))
      = (of_nat (length (newc_entry f)) :: u64)"
    by (simp add: newc_entry_def)
  have cut: "ucast (of_nat (length (f_data f)) :: u32) = (of_nat (length (f_data f)) :: u64)"
    using w by (simp add: word_eq_unat unat_of_nat well_formed_def)
  show ?thesis
    by (subst cpio_loop.simps) (simp only: Let_def magic sizes cmp eq off size all cut Option.bind.simps
        simp_thms if_True if_False not_True_eq_False not_False_eq_True)
qed

text \<open>What follows the last file and makes the search end without a result.\<close>

datatype ending = Trailer | Damaged "u8 list"

fun ending_bytes :: "ending \<Rightarrow> u8 list" where
  "ending_bytes Trailer = newc_entry trailer"
| "ending_bytes (Damaged bs) = bs"

fun ending_ok :: "ending \<Rightarrow> bool" where
  "ending_ok Trailer \<longleftrightarrow> True"
| "ending_ok (Damaged bs) \<longleftrightarrow> length bs = 6 \<and> bs \<noteq> bytes ''070701''"

fun ending_log :: "ending \<Rightarrow> 'a machine_scheme \<Rightarrow> 'a machine_scheme" where
  "ending_log Trailer s = s"
| "ending_log (Damaged bs) s = serial_log (bytes ''[cpio_lookup] bad magic\<newline>'') s"

lemma cpio_loop_ending:
  assumes "holds (mem s) p (ending_bytes z)" and "ending_ok z" and "cstr pm path nm"
  shows "cpio_loop pm path p s = Some ((0, None), ending_log z s)"
proof (cases z)
  case Trailer
  then show ?thesis
    using cpio_loop_entry [OF _ _ assms(3), of s p trailer] assms(1) by (simp add: trailer_def well_formed_def)
next
  case (Damaged bs)
  then have "strncmp (mem s) (c_magic (cpio_header_at p)) (lit ''070701'') 0 6 \<noteq> 0"
    using assms by (subst strncmp_holds [OF _ magic_literal, of _ _ bs]) (simp_all add: cpio_header_at_def)
  then show ?thesis by (subst cpio_loop.simps) (simp add: Damaged Let_def)
qed

text \<open>
  C40.  In an archive of well-formed files, none with the name of the trailer, \<open>cpio_lookup\<close> returns the first file with
  the given name: its size, and an address from which on the memory holds its data.  Without such a file it
  returns \<open>NULL\<close> at the trailer, and also where the archive stops being one, then with a message.  It always returns.
\<close>

theorem cpio_lookup_correct:
  assumes "holds (mem s) p (concat (map newc_entry fs) @ ending_bytes z)" and "ending_ok z"
    and "\<forall>f\<in>set fs. well_formed f \<and> f_name f \<noteq> bytes ''TRAILER!!!''" and "cstr pm path nm"
  shows "case find (\<lambda>f. f_name f = nm) fs of
      None \<Rightarrow> cpio_lookup (Some p) pm path s = Some ((0, None), ending_log z s)
    | Some f \<Rightarrow> \<exists>a. cpio_lookup (Some p) pm path s = Some ((a, Some (of_nat (length (f_data f)))), s)
        \<and> holds (mem s) a (f_data f)"
  using assms(1,3)
proof (induction fs arbitrary: p)
  case Nil
  then show ?case using cpio_loop_ending [OF _ assms(2,4)] by (simp add: cpio_lookup_def)
next
  case (Cons f fs)
  have entry: "holds (mem s) p (newc_entry f)" using Cons.prems(1) by (simp add: holds_append)
  then have data: "holds (mem s) (p + of_nat (length (newc_header f @ newc_name f))) (f_data f)"
    by (simp add: newc_entry_def holds_append algebra_simps)
  have step: "cpio_lookup (Some p) pm path s =
      (if f_name f = nm
       then Some ((p + of_nat (length (newc_header f @ newc_name f)), Some (of_nat (length (f_data f)))), s)
       else cpio_lookup (Some (p + of_nat (length (newc_entry f)))) pm path s)"
    using cpio_loop_entry [OF entry _ assms(4)] Cons.prems(2) by (simp add: cpio_lookup_def)
  show ?case
  proof (cases "f_name f = nm")
    case True
    then show ?thesis using data by (simp add: step)
  next
    case False
    then show ?thesis
      using Cons.IH [of "p + of_nat (length (newc_entry f))"] Cons.prems
      by (simp add: step holds_append split: option.splits)
  qed
qed

text \<open>An archive with the files \<open>a.elf\<close> and \<open>b.txt\<close>.\<close>

definition example_files :: "cpio_file list" where
  "example_files =
     [trailer\<lparr>f_name := bytes ''a.elf'', f_data := [1, 2, 3]\<rparr>, trailer\<lparr>f_name := bytes ''b.txt'', f_data := [4, 5, 6, 7, 8]\<rparr>]"

definition example_archive :: kernel where
  "example_archive = example_kernel\<lparr>mem := store_bytes 0xFFFF800000100000
     (concat (map newc_entry example_files) @ newc_entry trailer) (\<lambda>_. 0)\<rparr>"

theorem cpio_lookup_correct_witness:
  "(\<exists>a. cpio_lookup (Some 0xFFFF800000100000) (lit ''b.txt'') 0 example_archive = Some ((a, Some 5), example_archive)
      \<and> holds (mem example_archive) a [4, 5, 6, 7, 8])
   \<and> cpio_lookup (Some 0xFFFF800000100000) (lit ''c'') 0 example_archive = Some ((0, None), example_archive)"
proof -
  have len: "length (concat (map newc_entry example_files) @ newc_entry trailer) < 18446744073709551616"
    by (simp add: example_files_def newc_entry_def newc_header_def newc_name_def padding_def trailer_def)
  have m: "holds (mem example_archive) 0xFFFF800000100000 (concat (map newc_entry example_files) @ ending_bytes Trailer)"
    using holds_store_bytes [OF len] by (simp add: example_archive_def)
  have w: "\<forall>f\<in>set example_files. well_formed f \<and> f_name f \<noteq> bytes ''TRAILER!!!''"
    by (simp add: example_files_def trailer_def well_formed_def)
  have l: "cstr (lit ''b.txt'') 0 (bytes ''b.txt'')" "cstr (lit ''c'') 0 (bytes ''c'')"
    by (rule cstr_lit; simp)+
  show ?thesis
    using cpio_lookup_correct [OF m _ w l(1)] cpio_lookup_correct [OF m _ w l(2)]
    by (simp add: example_files_def trailer_def)
qed

end
