(* ===== verification/Vmm_Frames.thy ===== *)
theory Vmm_Frames
  imports Vmm_View
begin

text \<open>
  Mapping pages for a task leaves the contents of memory alone: \<open>vmm_map_for_pml4\<close> and
  \<open>vmm_map_range_for_pml4\<close> store only into the tables of that address space, into frames that were
  free, and into the bitmap.  \<open>frames_kept\<close> says so in a form that composes.
\<close>

text \<open>
  The tables below the entries \<open>I\<close> of the root, and the root itself.  With all entries these are all tables; with the
  lower 256 they are those a task does not share with the kernel.
\<close>

definition root_tables :: "nat set \<Rightarrow> nat \<Rightarrow> 'a pmm_state_scheme \<Rightarrow> nat set" where
  "root_tables I root s = {n. \<exists>p. path p \<and> set (take 1 p) \<subseteq> I \<and> table_at (ptabs s) root p = Some n}"

lemma root_tables_mono: "I \<subseteq> J \<Longrightarrow> root_tables I root s \<subseteq> root_tables J root s"
  by (auto simp: root_tables_def)

lemma root_tables_all: "n \<in> root_tables UNIV root s \<longleftrightarrow> (\<exists>p. path p \<and> table_at (ptabs s) root p = Some n)"
  by (simp add: root_tables_def)

text \<open>Only the bitmap, frames not in use and tables below the entries \<open>I\<close> have changed.\<close>

definition frames_kept :: "nat set \<Rightarrow> nat \<Rightarrow> 'a pmm_state_scheme \<Rightarrow> 'a pmm_state_scheme \<Rightarrow> bool" where
  "frames_kept I root s s' \<longleftrightarrow>
     hhdm_offset s' = hhdm_offset s \<and> pmm_bitmap_frames s' = pmm_bitmap_frames s \<and> pmm_bitmap s' = pmm_bitmap s
     \<and> (\<forall>n. pmm_owned s n \<longrightarrow> pmm_owned s' n)
     \<and> (\<forall>J. root_tables J root s' \<subseteq> root_tables J root s \<union> {n. \<not> pmm_owned s n})
     \<and> (\<forall>a. pmm_owned s (frame_of s a) \<longrightarrow> frame_of s a \<notin> root_tables I root s \<longrightarrow> mem s' a = mem s a)"

lemma frames_kept_refl [simp]: "frames_kept I root s s"
  by (auto simp: frames_kept_def)

lemma frames_kept_trans:
  assumes "frames_kept I root s t" and "frames_kept I root t u"
  shows "frames_kept I root s u"
proof -
  have "frame_of t = frame_of s" using assms(1) by (simp add: frames_kept_def frame_of_def fun_eq_iff)
  then show ?thesis using assms unfolding frames_kept_def by (fastforce dest: subsetD)
qed

lemma frames_kept_mono: "frames_kept I root s s' \<Longrightarrow> I \<subseteq> J \<Longrightarrow> frames_kept J root s s'"
  using root_tables_mono [of I J root s] unfolding frames_kept_def by blast

lemma frames_kept_cong:
  assumes "ptabs s' = ptabs s" "pmm_owned s' = pmm_owned s" "hhdm_offset s' = hhdm_offset s" "mem s' = mem s"
    "pmm_bitmap_frames s' = pmm_bitmap_frames s" "pmm_bitmap s' = pmm_bitmap s"
  shows "frames_kept I root t s' = frames_kept I root t s" "frames_kept I root s' t = frames_kept I root s t"
  using assms by (simp_all add: frames_kept_def root_tables_def frame_of_def)

lemma frames_kept_invlpg: "frames_kept I root t (invlpg a s) = frames_kept I root t s"
proof (rule frames_kept_cong(1))
  show "mem (invlpg a s) = mem s" "pmm_bitmap_frames (invlpg a s) = pmm_bitmap_frames s"
    "pmm_bitmap (invlpg a s) = pmm_bitmap s" by (simp_all add: invlpg_def)
qed simp_all

lemma frames_kept_log [simp]: "frames_kept I root s (serial_log str s)"
proof -
  have "pmm_bitmap_frames (serial_log str s) = pmm_bitmap_frames s" "pmm_bitmap (serial_log str s) = pmm_bitmap s"
    by (simp_all add: serial_log_def)
  then show ?thesis by (simp add: frames_kept_def root_tables_def frame_of_def)
qed

text \<open>An address in a frame that is in use and holds no table of the address space.\<close>

definition held :: "nat set \<Rightarrow> nat \<Rightarrow> 'a pmm_state_scheme \<Rightarrow> u64 \<Rightarrow> bool" where
  "held I root s a \<longleftrightarrow> pmm_owned s (frame_of s a) \<and> frame_of s a \<notin> root_tables I root s"

lemma frames_kept_held:
  assumes "frames_kept I root s s'" and "held I root s a"
  shows "held I root s' a" "mem s' a = mem s a"
proof -
  have "frame_of s' a = frame_of s a" using assms(1) by (simp add: frames_kept_def frame_of_def)
  then show "held I root s' a" "mem s' a = mem s a" using assms by (auto simp: frames_kept_def held_def)
qed

lemma put_entry_frame:
  assumes "pmm_ok d s" and "pmm_owned s n" and "i < 512" and "frame_of s a \<noteq> n"
  shows "mem (put_entry n i e s) a = mem s a"
proof -
  have n: "n < 4503599627370496" using assms(2) frames_bound [OF assms(1)] by (simp add: pmm_owned_def)
  have "\<not> a - eaddr s n i < 8"
  proof
    assume "a - eaddr s n i < 8"
    from eaddr_frame [OF n assms(3) this, of s] show False using assms(4) by simp
  qed
  then show ?thesis by (simp add: put_entry_def store_entry_def write64_outside)
qed

lemma page_fresh_frame:
  assumes "page_fresh d s f t" and "pmm_ok d s" and "pmm_owned s (frame_of s a)"
  shows "mem t a = mem s a"
proof -
  have "\<not> in_bitmap s a" using owned_not_bitmap [OF assms(2) refl] assms(3) by (simp add: pmm_owned_def)
  moreover have "frame_of s a \<noteq> f" using page_fresh_owned(2) [OF assms(1,2)] assms(3) by auto
  ultimately show ?thesis using assms(1) by (simp add: page_fresh_def)
qed

lemma ensure_frames:
  assumes tree: "vmm_tree d root s" and p: "path p" "length p \<le> 2" "table_at (ptabs s) root p = Some n" "i < 512"
    and I: "set (take 1 p) \<subseteq> I" and fl: "table_flags fl" and call: "vmm_pages.ensure n i fl s = Some (b, u)"
  shows "frames_kept I root s u"
proof (cases "present (ptabs s n i)")
  case True
  then show ?thesis using call by (simp add: vmm_pages.ensure_def)
next
  case absent: False
  have t: "vmm_pages.tree d root s" and ok: "pmm_ok d s" and wf: "pt_wf (ptabs s) root (pmm_owned s)"
    using vmm_treeD [OF tree] by simp_all
  have n: "pmm_owned s n" "n \<in> root_tables I root s" using pt_wfD(1) [OF wf p(1,3)] p I by (auto simp: root_tables_def)
  obtain q v where q: "pmm_alloc_zeroed s = Some (q, v)"
    and cases: "q = 0 \<and> v = s \<or> (\<exists>f. q = of_nat (f * 4096) \<and> page_fresh d s f v)"
    using pmm_alloc_zeroed_page [OF ok] by blast
  show ?thesis
  proof (cases "q = 0")
    case True
    have "of_nat (f * 4096) \<noteq> (0 :: u64)" if "page_fresh d s f v" for f
    proof -
      have "unat (of_nat (f * 4096) :: u64) = f * 4096"
        by (rule unat_of_nat_small) (use page_fresh_owned(3) [OF that ok] in simp)
      then show ?thesis using that by (auto simp: page_fresh_def simp del: of_nat_mult)
    qed
    then have "v = s" using True cases by metis
    then show ?thesis using True call absent q by (simp add: vmm_pages.ensure_def)
  next
    case False
    then obtain f where fresh: "page_fresh d s f v" using cases by blast
    have u: "u = put_entry n i (q OR fl) v" "b" using call absent q False by (simp_all add: vmm_pages.ensure_def)
    obtain f' where l: "links (ptabs s) (ptabs u) root p n i f' (pmm_owned s)" and own: "pmm_owned u = (pmm_owned s)(f' := True)"
      using vmm_pages.ensure_links [OF t p _ _ _ absent, of fl] fl call u(2) by (auto simp: table_flags_def)
    have "m = f' \<or> m \<in> root_tables J root s" if "m \<in> root_tables J root u" for J m
      using that links_tables [OF wf l] by (auto simp: root_tables_def split: if_splits)
    moreover have "\<not> pmm_owned s f'" using l by (simp add: links_def)
    moreover have "mem u a = mem s a" if a: "pmm_owned s (frame_of s a)" "frame_of s a \<notin> root_tables I root s" for a
    proof -
      have v: "pmm_ok d v" "pmm_owned v n" "frame_of v a = frame_of s a" "pmm_owned v (frame_of s a)"
        using fresh page_fresh_owned(1) [OF fresh ok] n(1) page_fresh_fields(3) [OF fresh] a
        by (simp_all add: page_fresh_def frame_of_def)
      have "mem u a = mem v a" unfolding u by (rule put_entry_frame [OF v(1,2) p(4)]) (use v(3) a(2) n(2) in auto)
      also have "\<dots> = mem s a" by (rule page_fresh_frame [OF fresh ok a(1)])
      finally show ?thesis .
    qed
    moreover have "hhdm_offset u = hhdm_offset s" "pmm_bitmap_frames u = pmm_bitmap_frames s" "pmm_bitmap u = pmm_bitmap s"
      using page_fresh_fields(1-3) [OF fresh] by (simp_all add: u put_entry_def store_entry_def)
    ultimately show ?thesis using own by (auto simp: frames_kept_def)
  qed
qed

lemma put_leaf_frames:
  assumes tree: "vmm_tree d root s" and p: "path p" "2 \<le> length p" "table_at (ptabs s) root p = Some n" "i < 512"
    and I: "set (take 1 p) \<subseteq> I" and e: "length p = 2 \<Longrightarrow> \<not> present e \<or> huge e"
  shows "frames_kept I root s (put_entry n i e s)"
proof -
  let ?u = "put_entry n i e s"
  have ok: "pmm_ok d s" and wf: "pt_wf (ptabs s) root (pmm_owned s)" using vmm_treeD [OF tree] by simp_all
  have n: "pmm_owned s n" "n \<in> root_tables I root s" using pt_wfD(1) [OF wf p(1,3)] p I by (auto simp: root_tables_def)
  note l = stores_leaf_tables [OF wf vmm_pages.put_leaf(3) [OF vmm_treeD(4) [OF tree] p e]]
  have "root_tables J root ?u \<subseteq> root_tables J root s" for J
    using l by (auto simp: root_tables_def split: if_splits)
  moreover have "pmm_owned ?u = pmm_owned s" using vmm_pages.put [OF ok n(1) p(4), of e] by simp
  moreover have "hhdm_offset ?u = hhdm_offset s" "pmm_bitmap_frames ?u = pmm_bitmap_frames s" "pmm_bitmap ?u = pmm_bitmap s"
    by (simp_all add: put_entry_def store_entry_def)
  moreover have "mem ?u a = mem s a" if "frame_of s a \<notin> root_tables I root s" for a
    by (rule put_entry_frame [OF ok n(1) p(4)]) (use that n(2) in auto)
  ultimately show ?thesis by (auto simp: frames_kept_def)
qed

lemma user_level_frames:
  assumes tree: "vmm_tree d root s" and p: "path p" "length p \<le> 2" "table_at (ptabs s) root p = Some n" "i < 512"
    and I: "set (take 1 p) \<subseteq> I" and call: "user_level (eaddr s n i) ix s = Some (r, u)"
  shows "frames_kept I root s u"
proof -
  obtain b where "vmm_pages.ensure n i (PTE_PRESENT OR PTE_WRITE OR PTE_USER) s = Some (b, u)"
    using call by (auto simp: user_level_def ensure_user_table_ensure [OF tree] split: Option.bind_splits)
  moreover have "table_flags (PTE_PRESENT OR PTE_WRITE OR PTE_USER)"
    by (simp add: table_flags_def bit_or_iff bit_numeral_rec)
  ultimately show ?thesis using ensure_frames [OF tree p I] by blast
qed

lemma next_level_frames:
  assumes "w = Some (r, t)" and w: "level_outcome c d root p i s r t" and kept: "frames_kept I root s t"
    and p: "path p" "length p \<le> 2" "i < 512" and I: "set (take 1 p) \<subseteq> I" and call: "next_level w ix = Some (r', u)"
  shows "frames_kept I root s u"
proof (cases r)
  case None
  then show ?thesis using assms by (simp add: next_level_def)
next
  case (Some a)
  then obtain n where "table_at (ptabs t) root p = Some n" "a = eaddr t n i" "vmm_tree d root t"
    using w by (auto simp: level_outcome_def)
  then have "frames_kept I root t u"
    using user_level_frames [of d root t p n i I ix r' u] p I call Some assms(1) by (simp add: next_level_def)
  then show ?thesis by (rule frames_kept_trans [OF kept])
qed

lemma user_tables_frames:
  assumes tree: "vmm_tree d root s" and I: "fst (vpage_of virt) \<in> I" and call: "user_tables (pml4_ptr s root) virt s = Some (r, u)"
  shows "frames_kept I root s u"
proof -
  define i4 i3 i2 i1 where ix: "i4 = unat (PML4_INDEX virt)" "i3 = unat (PDP_INDEX virt)"
    "i2 = unat (PD_INDEX virt)" "i1 = unat (PT_INDEX virt)"
  have p: "path []" "path [i4]" "path [i4, i3]" by (simp_all add: path_def ix)
  note lt = indices_less [of virt, folded ix]
  have I4: "set (take 1 [i4]) \<subseteq> I" "set (take 1 [i4, i3]) \<subseteq> I" using I by (simp_all add: vpage_of_def ix)
  have e4: "pml4_ptr s root + 8 * PML4_INDEX virt = eaddr s root i4"
    using get_pml4e_eaddr [of s root virt] by (simp add: get_pml4e_def ix)
  obtain r1 s1 where w1: "user_level (eaddr s root i4) (PDP_INDEX virt) s = Some (r1, s1)"
    and o1: "level_outcome 1 d root [i4] i3 s r1 s1"
    using user_level_upper [OF tree p(1) _ table_at_Nil lt(1), of "PDP_INDEX virt"] by (auto simp: ix)
  have k1: "frames_kept I root s s1" by (rule user_level_frames [OF tree p(1) _ table_at_Nil lt(1) _ w1]) simp_all
  have t1: "vmm_tree d root s1" using o1 by (simp add: level_outcome_def)
  obtain r2 s2 where w2: "next_level (user_level (eaddr s root i4) (PDP_INDEX virt) s) (PD_INDEX virt) = Some (r2, s2)"
    and o2: "level_outcome 2 d root [i4, i3] i2 s r2 s2"
    using next_level_outcome [OF w1 o1 p(2) _ lt(2) vmm_tree_small [OF t1 p(2) _ _ lt(2)], of "PD_INDEX virt"]
    by (auto simp: ix numeral_2_eq_2)
  have k2: "frames_kept I root s s2" by (rule next_level_frames [OF w1 o1 k1 p(2) _ lt(2) I4(1) w2]) simp
  show ?thesis
    by (rule next_level_frames [OF w2 o2 k2 p(3) _ lt(3) I4(2)]) (use call in \<open>simp_all add: user_tables_def e4\<close>)
qed

lemma vmm_map_for_pml4_frames:
  assumes tree: "task_tree d root pml4 s" and small: "not_huge (page_view root s (vpage_of virt))"
    and I: "fst (vpage_of virt) \<in> I" and call: "vmm_map_for_pml4 pml4 virt phys flags s = Some (b, u)"
  shows "frames_kept I root s u"
proof (cases "page_aligned virt \<and> page_aligned phys")
  case False
  then show ?thesis using call by (auto simp: vmm_map_for_pml4_tables)
next
  case True
  define i4 i3 i2 i1 where ix: "i4 = unat (PML4_INDEX virt)" "i3 = unat (PDP_INDEX virt)"
    "i2 = unat (PD_INDEX virt)" "i1 = unat (PT_INDEX virt)"
  have vt: "vmm_tree d root s" "pml4 = pml4_ptr s root" using tree by (simp_all add: task_tree_def)
  have small': "\<And>e. translate (ptabs s) root (vpage_of virt) \<noteq> Some (Huge e)" using small by (simp add: not_huge_def)
  obtain r t where c: "user_tables pml4 virt s = Some (r, t)"
    and o: "level_outcome 3 d root [i4, i3, i2] i1 s r t"
    using user_tables_outcome [OF vt(1) small', folded ix] vt(2) by blast
  have k: "frames_kept I root s t" using user_tables_frames [OF vt(1) I] c vt(2) by blast
  have t: "vmm_tree d root t" using o by (simp add: level_outcome_def)
  show ?thesis
  proof (cases r)
    case None
    then show ?thesis using call c True k by (simp add: vmm_map_for_pml4_tables)
  next
    case (Some a)
    then obtain pt where pt: "table_at (ptabs t) root [i4, i3, i2] = Some pt" and a: "a = eaddr t pt i1"
      using o by (auto simp: level_outcome_def)
    have p: "path [i4, i3, i2]" "i1 < 512" using indices_less [of virt, folded ix] by (simp_all add: path_def)
    have I4: "i4 \<in> I" using I by (simp add: vpage_of_def ix)
    have "frames_kept I root t (put_entry pt i1 (user_entry phys flags) t)"
      by (rule put_leaf_frames [OF t, where p = "[i4, i3, i2]"]) (use I4 in \<open>simp_all add: pt p\<close>)
    then have "frames_kept I root s (invlpg virt (put_entry pt i1 (user_entry phys flags) t))"
      using frames_kept_trans [OF k] by (simp only: frames_kept_invlpg)
    then show ?thesis
      using call c True Some k
      by (auto simp: vmm_map_for_pml4_tables a store_entry_twice user_entry_def put_entry_def split: if_splits)
  qed
qed

lemma vmm_map_range_for_pml4_frames:
  assumes "task_tree d root pml4 s" and "page_aligned virt" and "page_aligned phys"
    and "\<forall>i\<in>set is. not_huge (page_view root s (page_at virt i)) \<and> fst (page_at virt i) \<in> I"
    and "vmm_map_range_for_pml4_loop pml4 virt phys flags is s = Some (b, u)"
  shows "frames_kept I root s u"
  using assms(1,4,5)
proof (induction "is" arbitrary: s)
  case (Cons i "is")
  let ?v = "virt + of_nat i * PAGE_SIZE" and ?p = "phys + of_nat i * PAGE_SIZE"
  have small: "not_huge (page_view root s (vpage_of ?v))" and I: "fst (vpage_of ?v) \<in> I"
    using Cons.prems(2) by (simp_all add: page_at_def)
  obtain c t where call: "vmm_map_for_pml4 pml4 ?v ?p flags s = Some (c, t)" and t: "task_tree d root pml4 t"
    and view: "if c then page_view root s (vpage_of ?v) = None \<and> frames_left s \<le> 3 + frames_left t
          \<and> page_view root t = (page_view root s)(vpage_of ?v := Some (Small (user_entry ?p flags)))
        else page_view root t = page_view root s \<and> (frames_left s < 3 \<or> page_view root s (vpage_of ?v) \<noteq> None)"
    using task_mapper.map1 [OF Cons.prems(1) page_aligned_add [OF assms(2)] page_aligned_add [OF assms(3)] small] by blast
  have k: "frames_kept I root s t" by (rule vmm_map_for_pml4_frames [OF Cons.prems(1) small I call])
  show ?case
  proof (cases c)
    case True
    then have "\<forall>j\<in>set is. not_huge (page_view root t (page_at virt j)) \<and> fst (page_at virt j) \<in> I"
      using view Cons.prems(2) by (auto simp: not_huge_def)
    then have "frames_kept I root t u" using Cons.IH [OF t] Cons.prems(3) call True by simp
    then show ?thesis by (rule frames_kept_trans [OF k])
  next
    case False
    then show ?thesis using Cons.prems(3) call k by simp
  qed
qed simp

section \<open>Changes elsewhere leave the address space alone\<close>

lemma tables_cong:
  assumes wf: "pt_wf T root owned"
    and same: "\<And>p n j. path p \<Longrightarrow> table_at T root p = Some n \<Longrightarrow> j < 512 \<Longrightarrow> T' n j = T n j"
  shows "path q \<Longrightarrow> table_at T' root q = table_at T root q"
    "(\<And>p n. path p \<Longrightarrow> table_at T root p = Some n \<Longrightarrow> owned' n) \<Longrightarrow> pt_wf T' root owned'"
    "vpage_ok v \<Longrightarrow> translate T' root v = translate T root v"
proof -
  show at: "table_at T' root q = table_at T root q" if "path q" for q
    using that
  proof (induction q rule: rev_induct)
    case (snoc i q)
    then have q: "path q" "i < 512" by (simp_all add: path_snoc)
    show ?case
    proof (cases "table_at T root q")
      case None
      then show ?thesis using snoc.IH [OF q(1)] by (simp add: table_at_snoc)
    next
      case (Some n)
      then show ?thesis using snoc.IH [OF q(1)] same [OF q(1) Some q(2)] by (simp add: table_at_snoc child_def)
    qed
  qed simp
  show "pt_wf T' root owned'" if "\<And>p n. path p \<Longrightarrow> table_at T root p = Some n \<Longrightarrow> owned' n"
    using wf that same unfolding pt_wf_def by (auto simp: at)
  show "translate T' root v = translate T root v" if "vpage_ok v"
  proof -
    obtain i4 i3 i2 i1 where v: "v = (i4, i3, i2, i1)" by (cases v)
    then have p: "path [i4, i3]" "path [i4, i3, i2]" "i2 < 512" "i1 < 512"
      using that by (simp_all add: vpage_ok_def path_def)
    show ?thesis
    proof (cases "table_at T root [i4, i3]")
      case None
      then show ?thesis by (simp add: translate_def v at p)
    next
      case (Some pd)
      have e: "T' pd i2 = T pd i2" by (rule same [OF p(1) Some p(3)])
      have "T' (unat (T pd i2) div 4096) i1 = T (unat (T pd i2) div 4096) i1" if "present (T pd i2)" "\<not> huge (T pd i2)"
      proof (rule same [OF p(2) _ p(4)])
        show "table_at T root [i4, i3, i2] = Some (unat (T pd i2) div 4096)"
          using that Some table_at_snoc [of T root "[i4, i3]" i2] by (simp add: child_def)
      qed
      then show ?thesis using Some e by (simp add: translate_def v at p)
    qed
  qed
qed

lemma tree_same_tables:
  assumes tree: "vmm_tree d root s" and ok: "pmm_ok d' s'" and off: "hhdm_offset s' = hhdm_offset s"
    and count: "pmm_bitmap_frames s' = pmm_bitmap_frames s"
    and own: "\<And>n. n \<in> root_tables UNIV root s \<Longrightarrow> pmm_owned s' n"
    and mem: "\<And>a. frame_of s a \<in> root_tables UNIV root s \<Longrightarrow> mem s' a = mem s a"
  shows "vmm_tree d' root s'" "root_tables I root s' = root_tables I root s" "page_view root s' = page_view root s"
proof -
  have wf: "pt_wf (ptabs s) root (pmm_owned s)" by (rule vmm_treeD(2) [OF tree])
  have same: "ptabs s' n j = ptabs s n j" if "path p" "table_at (ptabs s) root p = Some n" "j < 512" for p n j
  proof (rule ptabs_cong [OF _ that(3) off])
    have "pmm_owned s n" by (rule pt_wfD(1) [OF wf that(1,2)])
    then show "n < 4503599627370496" using frames_bound [OF vmm_treeD(1) [OF tree]] by (simp add: pmm_owned_def)
    fix a assume "frame_of s a = n"
    then show "mem s' a = mem s a" using mem that(1,2) by (auto simp: root_tables_def)
  qed
  have "pt_wf (ptabs s') root (pmm_owned s')"
    by (rule tables_cong(2) [OF wf same]) (use own in \<open>auto simp: root_tables_def\<close>)
  then show "vmm_tree d' root s'"
    using ok vmm_treeD(3) [OF tree] off count by (simp add: vmm_tree_def hhdm_ok_def)
  have "table_at (ptabs s') root q = table_at (ptabs s) root q" if "path q" for q
    by (rule tables_cong(1) [OF wf same that])
  then show "root_tables I root s' = root_tables I root s" by (auto simp: root_tables_def)
  have "translate (ptabs s') root v = translate (ptabs s) root v" if "vpage_ok v" for v
    by (rule tables_cong(3) [OF wf same that])
  then show "page_view root s' = page_view root s" by (auto simp: page_view_def fun_eq_iff)
qed

lemma pmm_ok_mem:
  assumes ok: "pmm_ok d s" and same: "\<And>a. in_bitmap s a \<Longrightarrow> m a = mem s a"
  shows "pmm_ok d (s\<lparr>mem := m\<rparr>)" "free_frames (s\<lparr>mem := m\<rparr>) = free_frames s" "pmm_owned (s\<lparr>mem := m\<rparr>) = pmm_owned s"
proof -
  have F: "frames s \<le> 2 ^ 52" and inv: "pmm_inv d s" and lay: "pmm_layout s"
    using ok by (simp_all add: pmm_ok_def pmm_inv_def pmm_wf_def)
  have test: "pmm_test_frame (s\<lparr>mem := m\<rparr>) g = pmm_test_frame s g" if "unat g < frames s" for g
    by (rule outside_bitmap_test [OF F same that])
  note cong = pmm_inv_cong [of s "s\<lparr>mem := m\<rparr>", OF test]
  show free: "free_frames (s\<lparr>mem := m\<rparr>) = free_frames s" using cong(2) F by simp
  have "pmm_layout (s\<lparr>mem := m\<rparr>)" by (rule pmm_layout_cong [OF lay test]) (use F in simp_all)
  then show "pmm_ok d (s\<lparr>mem := m\<rparr>)" using cong(1) F inv by (simp add: pmm_ok_def)
  show "pmm_owned (s\<lparr>mem := m\<rparr>) = pmm_owned s"
    by (simp add: pmm_owned_def fun_eq_iff free bitmap_frame_list_def bitmap_phys_def)
qed

lemma free_owned_run:
  assumes ok: "pmm_ok d s" and own: "\<forall>n\<in>{r..<r + c}. pmm_owned s n" and "0 < r" and "0 < c"
  defines "t \<equiv> pmm_free_frames (of_nat (r * 4096)) (of_nat c) s"
  shows "pmm_ok d t" "free_frames t = free_frames s \<union> {r..<r + c}" "hhdm_offset t = hhdm_offset s"
    "pmm_bitmap_frames t = pmm_bitmap_frames s" "pmm_owned t n \<longleftrightarrow> pmm_owned s n \<and> n \<notin> {r..<r + c}"
    "\<not> in_bitmap s a \<Longrightarrow> mem t a = mem s a" "pmm_bitmap t = pmm_bitmap s"
proof -
  have F: "frames s \<le> 4503599627370496" by (rule pmm_ok_frames [OF ok])
  have "pmm_owned s (r + c - 1)" by (rule bspec [OF own]) (use assms(4) in simp)
  then have le: "r + c \<le> frames s" using assms(4) by (simp add: pmm_owned_def) linarith
  have "unat (of_nat (r * 4096) :: u64) = r * 4096" "unat (of_nat c :: u64) = c"
    by (rule unat_of_nat_small, use le F assms(3,4) in linarith)+
  then have freed: "frames_freed s {r..<r + c} t"
    using pmm_free_frames_freed [of s "of_nat (r * 4096)" "of_nat c"] F le by (simp add: t_def min_def)
  have X: "{r..<r + c} \<subseteq> {..<frames s}" "0 \<notin> {r..<r + c}" using le assms(3) by auto
  have "used_in s {r..<r + c} = {r..<r + c}"
    using own X(1) by (auto simp: used_in_def pmm_owned_def free_frames_def)
  then show free: "free_frames t = free_frames s \<union> {r..<r + c}"
    using frames_freed_free_frames [OF _ freed X(1)] F by simp
  note fields = frames_freed_fields [OF freed]
  have "pmm_layout t"
  proof (rule pmm_layout_mono)
    show lay: "pmm_layout s" using ok by (simp add: pmm_ok_def)
    fix n assume n: "n \<in> set (bitmap_frame_list s)" and test: "pmm_test_frame s (of_nat n)"
    have "n \<notin> {r..<r + c}" using own n by (auto simp: pmm_owned_def)
    moreover have "unat (of_nat n :: u64) = n"
      using bitmap_frame_list_less [OF lay n] F by (simp add: unat_of_nat_small)
    ultimately show "pmm_test_frame t (of_nat n)" using test by (simp add: fields)
  qed (simp_all add: fields)
  moreover have "pmm_inv d t" by (rule frames_freed_inv [OF _ freed X]) (use ok in \<open>simp add: pmm_ok_def\<close>)
  ultimately show "pmm_ok d t" by (simp add: pmm_ok_def)
  show "hhdm_offset t = hhdm_offset s" "pmm_bitmap_frames t = pmm_bitmap_frames s" "pmm_bitmap t = pmm_bitmap s"
    by (simp_all add: fields)
  have "bitmap_frame_list t = bitmap_frame_list s" by (simp add: bitmap_frame_list_def bitmap_phys_def fields)
  then show "pmm_owned t n \<longleftrightarrow> pmm_owned s n \<and> n \<notin> {r..<r + c}" by (auto simp: pmm_owned_def free fields)
  show "\<not> in_bitmap s a \<Longrightarrow> mem t a = mem s a" by (rule fields)
qed

end
