(* ===== verification/Elf_Properties.thy ===== *)
theory Elf_Properties
  imports Usermode Vmm_Frames Vmm_Properties
begin

text \<open>
  What \<open>load_elf\<close> puts into the address space of a task: the allocator, \<open>memcpy\<close> and
  \<open>vmm_map_range_for_pml4\<close> together make a segment of the file appear at its virtual address.
\<close>

section \<open>The frames of a segment\<close>

text \<open>Why the allocator refuses \<open>n\<close> frames.\<close>

definition no_run :: "'a pmm_state_scheme \<Rightarrow> nat \<Rightarrow> bool" where
  "no_run s n \<longleftrightarrow> n = 0 \<or> frames_left s < n \<or> (\<forall>r. \<not> {r..<r + n} \<subseteq> free_frames s)"

lemma free_run_iff: "0 < n \<Longrightarrow> free_run s (\<lambda>_. True) n r \<longleftrightarrow> {r..<r + n} \<subseteq> free_frames s"
proof
  assume n: "0 < n" and sub: "{r..<r + n} \<subseteq> free_frames s"
  have "r + n - 1 \<in> free_frames s" by (rule subsetD [OF sub]) (use n in simp)
  then have "r + n \<le> frames s" using n by (simp add: free_frames_def) linarith
  then show "free_run s (\<lambda>_. True) n r" using sub by (auto simp: free_run_def free_frames_def)
qed (rule free_run_subset)

lemma alloc_run:
  assumes ok: "pmm_ok d s"
  shows "\<exists>p s'. pmm_alloc_frames_zeroed count s = Some (p, s') \<and> pmm_ok d s'
     \<and> (p = 0 \<and> s' = s \<and> no_run s (unat count)
        \<or> (\<exists>r. p = of_nat (r * 4096) \<and> p \<noteq> 0 \<and> 0 < r \<and> count \<noteq> 0 \<and> frames_left s = frames_left s' + unat count
             \<and> {r..<r + unat count} \<subseteq> free_frames s
             \<and> free_frames s' = free_frames s - {r..<r + unat count} \<and> hhdm_offset s' = hhdm_offset s
             \<and> pmm_bitmap s' = pmm_bitmap s \<and> pmm_bitmap_frames s' = pmm_bitmap_frames s
             \<and> (\<forall>a. \<not> in_bitmap s a \<longrightarrow> mem s' a =
                   (if frame_of s a \<in> {r..<r + unat count} then 0 else mem s a))))"
proof -
  have wf: "pmm_wf s" using ok by (simp add: pmm_ok_def pmm_inv_def)
  obtain p s' where call: "pmm_alloc_frames_zeroed count s = Some (p, s')"
    and out: "zeroed_outcome s (\<lambda>_. True) count p s'"
    using pmm_alloc_frames_zeroed_outcome [OF wf] by blast
  show ?thesis
  proof (cases "count \<noteq> 0 \<and> count \<le> pmm_free_frames_count s \<and> (\<exists>r. free_run s (\<lambda>_. True) (unat count) r)")
    case True
    note out [unfolded zeroed_outcome_def if_P [OF True]]
    then obtain r t where r: "0 < r" "free_run s (\<lambda>_. True) (unat count) r" "p = of_nat (r * 4096)"
      "run_taken s (unat count) r t" "s' = zero_frames r (unat count) t" by blast
    have "p \<noteq> 0"
      unfolding r(3) by (rule run_address(1) [OF wf r(2)]) (use True in \<open>simp add: unat_gt_0\<close>)
    moreover have "hhdm_offset s' = hhdm_offset s" "pmm_bitmap s' = pmm_bitmap s" "pmm_bitmap_frames s' = pmm_bitmap_frames s"
      by (simp_all add: r(5) zero_frames_def run_taken_fields [OF r(4)])
    moreover have "mem s' a = (if frame_of s a \<in> {r..<r + unat count} then 0 else mem s a)" if "\<not> in_bitmap s a" for a
      unfolding r(5) by (subst zero_frames_mem [OF r(4) that]) simp
    moreover have "frames_left s = frames_left s' + unat count"
    proof -
      have "pmm_free_frames_count s' = pmm_free_frames_count s - count"
        by (simp add: r(5) zero_frames_def run_taken_fields [OF r(4)])
      then show ?thesis using True by (simp add: frames_left_def unat_diff_small word_le_unat)
    qed
    moreover note zero_frames_ok [OF ok r(2,4)]
    ultimately show ?thesis using True r free_run_subset [OF r(2)] call by blast
  next
    case False
    then have "p = 0 \<and> s' = s" using out unfolding zeroed_outcome_def if_not_P [OF False] by blast
    moreover have "no_run s (unat count)"
      using False free_run_iff [of "unat count" s] by (auto simp: no_run_def frames_left_def word_le_unat unat_gt_0)
    ultimately show ?thesis using ok call by blast
  qed
qed

lemma frame_of_phys: "x < 18446744073709551616 \<Longrightarrow> frame_of s (of_nat x + hhdm_offset s) = x div 4096"
  by (simp add: frame_of_def unat_of_nat_small)

lemma segment_pages:
  fixes vaddr memsz :: u64
  assumes "unat memsz + 8192 \<le> 18446744073709551616"
  defines "ps \<equiv> vaddr AND NOT (PAGE_SIZE - 1)"
  defines "n \<equiv> (memsz + (vaddr - ps) + PAGE_SIZE - 1) div PAGE_SIZE"
  shows "page_aligned ps" "unat (vaddr - ps) < 4096" "unat (vaddr - ps) + unat memsz \<le> unat n * 4096"
    "unat n \<le> 4503599627370496"
proof -
  have ps: "ps = (vaddr div 4096) * 4096" unfolding ps_def using and_not_4095 [of vaddr] by simp
  then show "page_aligned ps" unfolding page_aligned_multiple by auto
  have "vaddr - ps = vaddr mod 4096" unfolding ps by (simp add: minus_div_mult_eq_mod)
  then have po: "unat (vaddr - ps) = unat vaddr mod 4096" by (simp add: unat_mod_u64)
  then show lt: "unat (vaddr - ps) < 4096" by simp
  define po where "po = unat (vaddr - ps)"
  define x where "x = memsz + (vaddr - ps) + 4095"
  have "unat x = unat memsz + po + 4095"
    using assms(1) lt unat_add_small [of memsz "vaddr - ps"] unat_add_small [of "memsz + (vaddr - ps)" 4095]
    by (simp add: po_def x_def)
  moreover have "n = x div 4096" by (simp add: n_def x_def add.commute [of _ 4095])
  ultimately have n: "unat n = (unat memsz + po + 4095) div 4096" by (simp add: unat_div_u64)
  show "unat (vaddr - ps) + unat memsz \<le> unat n * 4096"
    unfolding n po_def [symmetric] by linarith
  show "unat n \<le> 4503599627370496"
    unfolding n using assms(1) lt by (simp add: po_def)
qed

section \<open>Bytes of an address space\<close>

text \<open>The byte a task finds at an address of a small page, read through the direct map.\<close>

definition page_byte :: "nat \<Rightarrow> 'a pmm_state_scheme \<Rightarrow> u64 \<Rightarrow> u8 option" where
  "page_byte root s v =
     (case page_view root s (vpage_of v) of
        Some (Small e) \<Rightarrow> Some (mem s (phys_to_virt s (table_frame e + (v AND 0xFFF))))
      | _ \<Rightarrow> None)"

text \<open>Where the kernel finds that byte.\<close>

definition page_addr :: "nat \<Rightarrow> 'a pmm_state_scheme \<Rightarrow> u64 \<Rightarrow> u64 option" where
  "page_addr root s v =
     (case page_view root s (vpage_of v) of
        Some (Small e) \<Rightarrow> Some (phys_to_virt s (table_frame e + (v AND 0xFFF)))
      | _ \<Rightarrow> None)"

lemma page_byte_addr: "page_byte root s v = map_option (mem s) (page_addr root s v)"
  by (simp add: page_byte_def page_addr_def split: option.splits leaf.splits)

lemma frame_bits: "(0xFFFFFFFFFF000 :: u64) = push_bit 12 (mask 40)"
  by (simp add: mask_eq_exp_minus_1)

lemma table_frame_user_entry:
  assumes f: "f < 2 ^ 40" and fl: "flags AND 0xFFFFFFFFFF000 = 0"
  shows "table_frame (user_entry (of_nat (f * 4096)) flags) = of_nat (f * 4096)"
proof -
  define g where "g = (of_nat f :: u64)"
  have "take_bit 40 g = g" using f by (simp add: g_def take_bit_of_nat take_bit_nat_eq_self)
  then have g: "k < 40" if "bit g k" for k using that by (metis bit_take_bit_iff)
  have p: "(of_nat (f * 4096) :: u64) = push_bit 12 g" by (simp add: g_def push_bit_eq_mult mult.commute)
  have fl': "\<not> bit flags k" if "12 \<le> k" "k < 52" for k
  proof -
    have "bit (push_bit 12 (mask 40) :: u64) k" using that by (simp add: bit_push_bit_iff bit_mask_iff) linarith
    then show ?thesis using fl unfolding frame_bits by (metis bit_0_eq bit_and_iff bot_apply bot_bool_def)
  qed
  define c where "c = NOT (push_bit 63 (1 :: u64))"
  have c: "bit c k \<longleftrightarrow> k \<noteq> 63" if "k < 64" for k
    unfolding c_def bit_not_iff bit_push_bit_iff using that by (auto simp: bit_1_iff)
  show ?thesis
    unfolding table_frame_def user_entry_def leaf_entry_def p frame_bits c_def [symmetric]
  proof (rule bit_word_eqI)
    fix k assume "k < LENGTH(64)"
    moreover have "12 \<le> k \<Longrightarrow> k - 12 < 40 \<longleftrightarrow> k < 52" by linarith
    ultimately show "bit (((push_bit 12 g OR flags AND NOT 1 OR 1) AND c) AND push_bit 12 (mask 40)) k = bit (push_bit 12 g) k"
      using c [of k] g [of "k - 12"] fl' [of k]
      by (auto simp: bit_and_iff bit_or_iff bit_not_iff bit_push_bit_iff bit_mask_iff bit_1_iff)
  qed
qed

lemma segment_flags_low: "segment_flags pf AND 0xFFFFFFFFFF000 = 0"
  by (simp add: segment_flags_def Let_def)

lemma vpage_of_offset:
  assumes ps: "page_aligned ps"
  shows "vpage_of (ps + of_nat k) = page_at ps (k div 4096)" "(ps + of_nat k) AND 0xFFF = of_nat (k mod 4096)"
proof -
  define j off where "j = k div 4096" and "off = k mod 4096"
  let ?page = "ps + of_nat j * PAGE_SIZE"
  have al: "page_aligned ?page" by (rule page_aligned_add [OF ps])
  have o: "(of_nat off :: u64) < 4096" by (simp add: off_def word_less_unat unat_of_nat_small)
  have "k = j * 4096 + off" by (simp add: j_def off_def)
  then have a: "ps + of_nat k = ?page + of_nat off" by simp
  show "vpage_of (ps + of_nat k) = page_at ps (k div 4096)"
    unfolding a page_at_def j_def [symmetric] by (rule vpage_of_drop) (rule aligned_plus_offset(2) [OF al o])
  show "(ps + of_nat k) AND 0xFFF = of_nat (k mod 4096)"
    unfolding a off_def [symmetric] by (rule aligned_plus_offset(3) [OF al o])
qed

lemma page_addr_range:
  assumes added: "range_added ps (of_nat (r * 4096)) (\<lambda>p. user_entry p flags) 0 n m (page_view root s)"
    and ps: "page_aligned ps" and k: "k < n * 4096" and r: "r + n \<le> 2 ^ 40" and fl: "flags AND 0xFFFFFFFFFF000 = 0"
  shows "page_addr root s (ps + of_nat k) = Some (of_nat (r * 4096 + k) + hhdm_offset s)"
    "\<exists>f. page_view root s (vpage_of (ps + of_nat k)) = Some (Small (user_entry (of_nat (f * 4096)) flags))"
proof -
  define j off where "j = k div 4096" and "off = k mod 4096"
  have kj: "k = j * 4096 + off" by (simp add: j_def off_def)
  have j: "j < n" using k by (simp add: j_def less_mult_imp_div_less)
  note v = vpage_of_offset(1) [OF ps, of k, folded j_def] and low = vpage_of_offset(2) [OF ps, of k, folded off_def]
  have "of_nat (r * 4096) + of_nat j * PAGE_SIZE = (of_nat ((r + j) * 4096) :: u64)" by (simp add: algebra_simps)
  then have view: "page_view root s (page_at ps j) = Some (Small (user_entry (of_nat ((r + j) * 4096)) flags))"
    using added j unfolding range_added_def by (metis le0)
  have tf: "table_frame (user_entry (of_nat ((r + j) * 4096)) flags) = of_nat ((r + j) * 4096)"
    by (rule table_frame_user_entry [OF _ fl]) (use r j in simp)
  have sum: "of_nat ((r + j) * 4096) + of_nat off = (of_nat (r * 4096 + k) :: u64)" by (simp add: kj algebra_simps)
  show "page_addr root s (ps + of_nat k) = Some (of_nat (r * 4096 + k) + hhdm_offset s)"
    unfolding page_addr_def v view low by (simp only: option.case leaf.case tf sum phys_to_virt_def)
  show "\<exists>f. page_view root s (vpage_of (ps + of_nat k)) = Some (Small (user_entry (of_nat (f * 4096)) flags))"
    unfolding v view by blast
qed

lemma segment_entry:
  "bit (user_entry (of_nat (f * 4096)) (segment_flags pf)) 2"
  "bit (user_entry (of_nat (f * 4096)) (segment_flags pf)) 1 \<longleftrightarrow> pf AND PF_W \<noteq> 0"
proof -
  have "bit (user_entry (of_nat (f * 4096)) fl) k \<longleftrightarrow> bit fl k" if "k < 12" "k \<noteq> 0" for fl k
  proof -
    have "page_aligned (of_nat f * PAGE_SIZE)" unfolding page_aligned_multiple by blast
    then have "\<not> bit (of_nat (f * 4096) :: u64) k" using aligned_low_bit [OF _ that(1)] by simp
    then show ?thesis
      using that unfolding user_entry_def leaf_entry_def
      by (simp add: bit_and_iff bit_or_iff bit_not_iff bit_push_bit_iff bit_1_iff del: of_nat_mult push_bit_of_1)
  qed
  from this [of 2] this [of 1] show "bit (user_entry (of_nat (f * 4096)) (segment_flags pf)) 2"
    "bit (user_entry (of_nat (f * 4096)) (segment_flags pf)) 1 \<longleftrightarrow> pf AND PF_W \<noteq> 0"
    by (simp_all add: segment_flags_def Let_def bit_or_iff bit_numeral_rec del: of_nat_mult)
qed

section \<open>Copying the segment\<close>

lemma free_not_bitmap:
  assumes "pmm_ok d s" and "n \<in> free_frames s"
  shows "n \<notin> set (bitmap_frame_list s)" "n < frames s"
  using assms by (auto simp: free_frames_def pmm_ok_def pmm_layout_def list_all_iff)

lemma bitmap_not_free:
  assumes "pmm_ok d s" and "in_bitmap s a"
  shows "frame_of s a \<notin> free_frames s"
  using in_bitmap_frame(1) [of s a] free_not_bitmap(1) [OF assms(1)] assms by (auto simp: pmm_ok_def pmm_inv_def)

text \<open>The state after the allocation of the run of \<open>n\<close> frames from \<open>r\<close> on.\<close>

definition run_allocated :: "nat \<Rightarrow> 'a vmm_state_scheme \<Rightarrow> nat \<Rightarrow> nat \<Rightarrow> 'a vmm_state_scheme \<Rightarrow> bool" where
  "run_allocated d s r n s1 \<longleftrightarrow>
     {r..<r + n} \<subseteq> free_frames s \<and> frames_left s = frames_left s1 + n \<and> pmm_ok d s1 \<and> free_frames s1 = free_frames s - {r..<r + n}
     \<and> hhdm_offset s1 = hhdm_offset s \<and> pmm_bitmap s1 = pmm_bitmap s \<and> pmm_bitmap_frames s1 = pmm_bitmap_frames s
     \<and> (\<forall>a. \<not> in_bitmap s a \<longrightarrow> mem s1 a = (if frame_of s a \<in> {r..<r + n} then 0 else mem s a))"

lemma run_allocated_bitmap:
  assumes "run_allocated d s r n s1"
  shows "in_bitmap s1 = in_bitmap s" "frame_of s1 = frame_of s" "bitmap_frame_list s1 = bitmap_frame_list s"
  using assms
  by (simp_all add: run_allocated_def in_bitmap_def frame_of_def bitmap_frame_list_def bitmap_phys_def fun_eq_iff)

lemma run_allocated_owned:
  assumes ok: "pmm_ok d s" and run: "run_allocated d s r n s1"
  shows "pmm_owned s1 k \<longleftrightarrow> pmm_owned s k \<or> k \<in> {r..<r + n}"
proof -
  have "pmm_owned s1 k \<longleftrightarrow> k < frames s \<and> (k \<notin> free_frames s \<or> k \<in> {r..<r + n}) \<and> k \<notin> set (bitmap_frame_list s)"
    using run run_allocated_bitmap(3) [OF run] by (auto simp: pmm_owned_def run_allocated_def)
  moreover have "k < frames s" "k \<notin> set (bitmap_frame_list s)" if "k \<in> {r..<r + n}"
    using that run free_not_bitmap [OF ok, of k] by (auto simp: run_allocated_def)
  ultimately show ?thesis by (auto simp: pmm_owned_def)
qed

lemma run_end:
  assumes "pmm_ok d s" and "run_allocated d s r n s1" and "0 < n"
  shows "r + n \<le> frames s"
proof -
  have "r + n - 1 \<in> free_frames s"
    by (rule subsetD [of "{r..<r + n}"]) (use assms(2,3) in \<open>auto simp: run_allocated_def\<close>)
  then show ?thesis using free_not_bitmap(2) [OF assms(1)] by fastforce
qed

text \<open>Filling a part of the run from memory that was in use before.\<close>

definition filled :: "u64 \<Rightarrow> u64 \<Rightarrow> u64 \<Rightarrow> nat \<Rightarrow> 'a vmm_state_scheme \<Rightarrow> 'a vmm_state_scheme" where
  "filled po src filesz r s1 = s1\<lparr>mem := memcpy (phys_to_virt s1 (of_nat (r * 4096)) + po) src filesz (mem s1)\<rparr>"

lemma filled_frame:
  assumes ok: "pmm_ok d s" and run: "run_allocated d s r n s1" and fit: "unat po + unat filesz \<le> n * 4096"
    and a: "in_region (phys_to_virt s1 (of_nat (r * 4096)) + po) filesz a"
  shows "frame_of s a \<in> {r..<r + n}"
proof -
  define i where "i = unat (a - (phys_to_virt s1 (of_nat (r * 4096)) + po))"
  have i: "i < unat filesz" using a by (simp add: i_def word_less_unat)
  then have "0 < n" using fit by (cases n) auto
  then have F: "r + n \<le> 4503599627370496" using run_end [OF ok run] pmm_ok_frames [OF ok] by simp
  have off: "hhdm_offset s1 = hhdm_offset s" using run by (simp add: run_allocated_def)
  have "a = of_nat (r * 4096 + (unat po + i)) + hhdm_offset s"
    by (simp add: i_def phys_to_virt_def off)
  moreover have "r * 4096 + (unat po + i) < 18446744073709551616"
    using i fit F by linarith
  ultimately have f: "frame_of s a = (r * 4096 + (unat po + i)) div 4096" by (simp only: frame_of_phys)
  have "unat po + i < n * 4096" using i fit by linarith
  then have "(unat po + i) div 4096 < n" by (rule less_mult_imp_div_less)
  moreover have "(r * 4096 + (unat po + i)) div 4096 = r + (unat po + i) div 4096" by simp
  ultimately show ?thesis using f by simp
qed

definition stays :: "'a pmm_state_scheme \<Rightarrow> u64 \<Rightarrow> u64 \<Rightarrow> bool" where
  "stays s src n \<longleftrightarrow> (\<forall>i<n. \<not> in_bitmap s (src + i) \<and> frame_of s (src + i) \<notin> free_frames s)"

lemma filled_mem:
  assumes ok: "pmm_ok d s" and run: "run_allocated d s r n s1" and fit: "unat po + unat filesz \<le> n * 4096"
    and src: "stays s src filesz"
  defines "dest \<equiv> phys_to_virt s1 (of_nat (r * 4096)) + po"
  shows "mem (filled po src filesz r s1) a = (if in_region dest filesz a then mem s (src + (a - dest)) else mem s1 a)"
proof -
  have apart: "\<not> in_region dest filesz (src + i)" if "i < filesz" for i
    using filled_frame [OF ok run fit, of "src + i"] that src run
    by (auto simp: stays_def run_allocated_def dest_def)
  have "mem s1 (src + i) = mem s (src + i)" if "i < filesz" for i
    using src run that by (auto simp: stays_def run_allocated_def)
  then show ?thesis
    unfolding filled_def dest_def [symmetric] by (simp add: memcpy_apply [OF apart])
qed

lemma filled_tree:
  assumes tree: "vmm_tree d root s" and run: "run_allocated d s r n s1" and fit: "unat po + unat filesz \<le> n * 4096"
    and src: "stays s src filesz"
  defines "s2 \<equiv> filled po src filesz r s1"
  shows "vmm_tree d root s2" "root_tables I root s2 = root_tables I root s" "page_view root s2 = page_view root s"
    "hhdm_offset s2 = hhdm_offset s" "pmm_bitmap_frames s2 = pmm_bitmap_frames s" "pmm_owned s2 = pmm_owned s1"
    "free_frames s2 = free_frames s1" "root_tables I root s \<inter> {r..<r + n} = {}"
proof -
  let ?dest = "phys_to_virt s1 (of_nat (r * 4096)) + po"
  have ok: "pmm_ok d s" and ok1: "pmm_ok d s1" using vmm_treeD(1) [OF tree] run by (simp_all add: run_allocated_def)
  note fill = filled_mem [OF ok run fit src, folded s2_def]
  have s2: "s2 = s1\<lparr>mem := mem s2\<rparr>" by (simp add: s2_def filled_def)
  have "\<not> in_region ?dest filesz a" if "in_bitmap s1 a" for a
    using filled_frame [OF ok run fit, of a] bitmap_not_free [OF ok, of a] that run
    by (auto simp: run_allocated_def run_allocated_bitmap(1) [OF run])
  then have "mem s2 a = mem s1 a" if "in_bitmap s1 a" for a using that by (simp add: fill)
  note mem = pmm_ok_mem [OF ok1 this, folded s2]
  show "pmm_owned s2 = pmm_owned s1" "free_frames s2 = free_frames s1" using mem(2,3) by simp_all
  show off: "hhdm_offset s2 = hhdm_offset s" and cnt: "pmm_bitmap_frames s2 = pmm_bitmap_frames s"
    using run by (simp_all add: s2_def filled_def run_allocated_def)
  have own: "pmm_owned s k" if "k \<in> root_tables UNIV root s" for k
    using that pt_wfD(1) [OF vmm_treeD(2) [OF tree]] by (auto simp: root_tables_def)
  then have apart: "root_tables UNIV root s \<inter> {r..<r + n} = {}"
    using run by (auto simp: run_allocated_def pmm_owned_def)
  then show "root_tables I root s \<inter> {r..<r + n} = {}" using root_tables_mono [of I UNIV root s] by blast
  have "mem s2 a = mem s a" if "frame_of s a \<in> root_tables UNIV root s" for a
  proof -
    have "\<not> in_bitmap s a" by (rule owned_not_bitmap [OF ok refl]) (use own [OF that] in \<open>simp add: pmm_owned_def\<close>)
    moreover have "frame_of s a \<notin> {r..<r + n}" using that apart by auto
    ultimately show ?thesis
      using filled_frame [OF ok run fit, of a] run by (auto simp: fill run_allocated_def)
  qed
  moreover have "pmm_owned s2 k" if "k \<in> root_tables UNIV root s" for k
    using own [OF that] run_allocated_owned [OF ok run] by (simp add: mem(3))
  ultimately show "vmm_tree d root s2" "root_tables I root s2 = root_tables I root s" "page_view root s2 = page_view root s"
    using tree_same_tables [OF tree mem(1) off cnt] by blast+
qed

lemma filled_kept:
  assumes tree: "vmm_tree d root s" and run: "run_allocated d s r n s1" and fit: "unat po + unat filesz \<le> n * 4096"
    and src: "stays s src filesz"
  shows "frames_kept I root s (filled po src filesz r s1)"
proof -
  let ?s2 = "filled po src filesz r s1"
  have ok: "pmm_ok d s" by (rule vmm_treeD(1) [OF tree])
  note fill = filled_tree [OF tree run fit src]
  have "mem ?s2 a = mem s a" if own: "pmm_owned s (frame_of s a)" for a
  proof -
    have "\<not> in_bitmap s a" by (rule owned_not_bitmap [OF ok refl]) (use own in \<open>simp add: pmm_owned_def\<close>)
    moreover have "frame_of s a \<notin> {r..<r + n}" using own run by (auto simp: run_allocated_def pmm_owned_def)
    ultimately show ?thesis
      using filled_frame [OF ok run fit, of a] run by (auto simp: filled_mem [OF ok run fit src] run_allocated_def)
  qed
  moreover have "pmm_bitmap ?s2 = pmm_bitmap s" using run by (simp add: filled_def run_allocated_def)
  ultimately show ?thesis
    using fill run_allocated_owned [OF ok run] by (auto simp: frames_kept_def)
qed

lemma segment_released:
  assumes tree: "vmm_tree d root u" and own: "\<forall>k\<in>{r..<r + c}. pmm_owned u k"
    and apart: "root_tables UNIV root u \<inter> {r..<r + c} = {}" and pos: "0 < r" "0 < c"
  defines "t \<equiv> pmm_free_frames (of_nat (r * 4096)) (of_nat c) u"
  shows "vmm_tree d root t" "page_view root t = page_view root u" "{r..<r + c} \<subseteq> free_frames t"
    "hhdm_offset t = hhdm_offset u" "root_tables I root t = root_tables I root u" "pmm_bitmap_frames t = pmm_bitmap_frames u"
    "pmm_owned t k \<longleftrightarrow> pmm_owned u k \<and> k \<notin> {r..<r + c}" "\<not> in_bitmap u a \<Longrightarrow> mem t a = mem u a"
    "pmm_bitmap t = pmm_bitmap u"
proof -
  have ok: "pmm_ok d u" by (rule vmm_treeD(1) [OF tree])
  note free = free_owned_run [OF ok own pos, folded t_def]
  have tab: "pmm_owned u k" if "k \<in> root_tables UNIV root u" for k
    using that pt_wfD(1) [OF vmm_treeD(2) [OF tree]] by (auto simp: root_tables_def)
  have "mem t a = mem u a" if "frame_of u a \<in> root_tables UNIV root u" for a
    by (rule free(6), rule owned_not_bitmap [OF ok refl]) (use tab [OF that] in \<open>simp add: pmm_owned_def\<close>)
  moreover have "pmm_owned t k" if "k \<in> root_tables UNIV root u" for k
    using tab [OF that] that apart by (auto simp: free(5))
  ultimately show "vmm_tree d root t" "page_view root t = page_view root u" "root_tables I root t = root_tables I root u"
    using tree_same_tables [OF tree free(1,3,4)] by blast+
  show "{r..<r + c} \<subseteq> free_frames t" "hhdm_offset t = hhdm_offset u" "pmm_bitmap_frames t = pmm_bitmap_frames u"
    "pmm_owned t k \<longleftrightarrow> pmm_owned u k \<and> k \<notin> {r..<r + c}" "\<not> in_bitmap u a \<Longrightarrow> mem t a = mem u a"
    "pmm_bitmap t = pmm_bitmap u"
    by (simp_all add: free)
qed

section \<open>Loading a segment\<close>

definition segment_start :: "Elf64_Phdr \<Rightarrow> u64" where
  "segment_start ph = p_vaddr ph AND NOT (PAGE_SIZE - 1)"

definition segment_count :: "Elf64_Phdr \<Rightarrow> u64" where
  "segment_count ph = (p_memsz ph + (p_vaddr ph - segment_start ph) + PAGE_SIZE - 1) div PAGE_SIZE"

text \<open>
  The segment is in place: every byte of it is readable for the task, holds what the file has there and
  0 behind the part of the file, and is writable exactly when the header says so.
\<close>

definition segment_loaded :: "nat \<Rightarrow> 'a vmm_state_scheme \<Rightarrow> Elf64_Phdr \<Rightarrow> (nat \<Rightarrow> u8) \<Rightarrow> bool" where
  "segment_loaded root s ph content \<longleftrightarrow>
     (\<forall>i<unat (p_memsz ph).
        page_byte root s (p_vaddr ph + of_nat i) = Some (if i < unat (p_filesz ph) then content i else 0)
        \<and> (\<exists>e. page_view root s (vpage_of (p_vaddr ph + of_nat i)) = Some (Small e)
             \<and> bit e 2 \<and> \<not> bit e 63 \<and> (bit e 1 \<longleftrightarrow> p_flags ph AND PF_W \<noteq> 0)))"

text \<open>Its bytes lie in frames that are in use and hold no page table, none of them in \<open>P\<close>.\<close>

definition segment_backed :: "nat set \<Rightarrow> nat set \<Rightarrow> nat \<Rightarrow> 'a vmm_state_scheme \<Rightarrow> Elf64_Phdr \<Rightarrow> bool" where
  "segment_backed P I root s ph \<longleftrightarrow>
     (\<forall>i<unat (p_memsz ph). \<exists>a. page_addr root s (p_vaddr ph + of_nat i) = Some a \<and> held I root s a \<and> frame_of s a \<notin> P)"

lemma segment_kept:
  assumes load: "segment_loaded root s ph content" and backed: "segment_backed P I root s ph" and off: "hhdm_offset t = hhdm_offset s"
    and kept: "\<And>a. held I root s a \<Longrightarrow> frame_of s a \<notin> P \<Longrightarrow> held J root t a \<and> mem t a = mem s a"
    and view: "\<And>i. i < unat (p_memsz ph) \<Longrightarrow>
      page_view root t (vpage_of (p_vaddr ph + of_nat i)) = page_view root s (vpage_of (p_vaddr ph + of_nat i))"
  shows "segment_loaded root t ph content" "segment_backed P J root t ph"
proof -
  have fr: "frame_of t = frame_of s" by (simp add: frame_of_def off fun_eq_iff)
  have addr: "page_addr root t (p_vaddr ph + of_nat i) = page_addr root s (p_vaddr ph + of_nat i)" if "i < unat (p_memsz ph)" for i
    unfolding page_addr_def view [OF that] phys_to_virt_def off ..
  then show "segment_backed P J root t ph"
    using backed kept unfolding segment_backed_def fr by metis
  have "page_byte root t (p_vaddr ph + of_nat i) = page_byte root s (p_vaddr ph + of_nat i)" if i: "i < unat (p_memsz ph)" for i
  proof -
    obtain a where "page_addr root s (p_vaddr ph + of_nat i) = Some a" "held I root s a" "frame_of s a \<notin> P"
      using backed i unfolding segment_backed_def by blast
    then show ?thesis using kept by (simp add: page_byte_addr addr [OF i])
  qed
  then show "segment_loaded root t ph content"
    using load view unfolding segment_loaded_def by simp
qed

lemma mapped_segment:
  fixes ph :: Elf64_Phdr and elf_data :: u64
  defines "ps \<equiv> segment_start ph" and "n \<equiv> unat (segment_count ph)" and "po \<equiv> p_vaddr ph - segment_start ph"
    and "src \<equiv> elf_data + p_offset ph"
  assumes tree: "vmm_tree d root s" and run: "run_allocated d s r n s1" and low: "frames s \<le> 2 ^ 40"
    and memsz: "unat (p_memsz ph) + 8192 \<le> 18446744073709551616" and filesz: "p_filesz ph \<le> p_memsz ph"
    and src: "stays s src (p_filesz ph)" and P: "\<forall>k\<in>P. pmm_owned s k"
    and kept: "frames_kept I root (filled po src (p_filesz ph) r s1) s3"
    and added: "range_added ps (of_nat (r * 4096)) (\<lambda>p. user_entry p (segment_flags (p_flags ph))) 0 n
      (page_view root s) (page_view root s3)"
  shows "segment_loaded root s3 ph (\<lambda>i. mem s (src + of_nat i))" "segment_backed P I root s3 ph"
proof -
  have "page_byte root s3 (p_vaddr ph + of_nat i) = Some (if i < unat (p_filesz ph) then mem s (src + of_nat i) else 0)
      \<and> (\<exists>a. page_addr root s3 (p_vaddr ph + of_nat i) = Some a \<and> held I root s3 a \<and> frame_of s3 a \<notin> P)
      \<and> (\<exists>e. page_view root s3 (vpage_of (p_vaddr ph + of_nat i)) = Some (Small e)
             \<and> bit e 2 \<and> \<not> bit e 63 \<and> (bit e 1 \<longleftrightarrow> p_flags ph AND PF_W \<noteq> 0))"
    if i: "i < unat (p_memsz ph)" for i
  proof -
    let ?s2 = "filled po src (p_filesz ph) r s1"
    note pages = segment_pages [OF memsz, where vaddr = "p_vaddr ph", folded segment_start_def, folded segment_count_def]
    have fit: "unat po + unat (p_filesz ph) \<le> n * 4096"
      using pages(3) filesz by (simp add: po_def n_def word_le_unat)
    have ok: "pmm_ok d s" by (rule vmm_treeD(1) [OF tree])
    note fill = filled_tree [OF tree run fit src]
    define k where "k = unat po + i"
    have k: "k < n * 4096" using pages(3) i by (simp add: k_def po_def n_def)
    then have last: "r + n \<le> frames s" by (intro run_end [OF ok run]) (cases n; simp)
    define a where "a = of_nat (r * 4096 + k) + hhdm_offset s"
    have off: "hhdm_offset s3 = hhdm_offset s" using kept fill(4) by (simp add: frames_kept_def)
    have v: "p_vaddr ph + of_nat i = ps + of_nat k" by (simp add: k_def po_def ps_def)
    note byte = page_addr_range [OF added pages(1) [folded ps_def] k _ segment_flags_low]
    have b: "page_addr root s3 (p_vaddr ph + of_nat i) = Some a"
      unfolding v a_def using byte(1) last low off by simp
    have "r * 4096 + k < 18446744073709551616" using k last low by simp
    then have "frame_of s a = r + k div 4096" unfolding a_def by (simp add: frame_of_phys del: of_nat_add)
    then have fa: "frame_of s a \<in> {r..<r + n}" using less_mult_imp_div_less [OF k] by simp
    moreover have fa3: "frame_of s3 a \<notin> P"
      using fa P run by (auto simp: frame_of_def off run_allocated_def pmm_owned_def)
    moreover have fa2: "frame_of ?s2 a = frame_of s a" by (simp add: frame_of_def fill(4))
    ultimately have "held I root ?s2 a"
      using run_allocated_owned [OF ok run] fill(8) [of I] unfolding held_def fa2 fill(2,6) by auto
    note h3 = frames_kept_held [OF kept this]
    have m1: "mem s1 a = 0"
    proof -
      have "\<not> in_bitmap s a" using bitmap_not_free [OF ok, of a] fa run by (auto simp: run_allocated_def)
      then show ?thesis using fa run by (simp add: run_allocated_def)
    qed
    have "a - (phys_to_virt s1 (of_nat (r * 4096)) + po) = of_nat i"
      using run by (simp add: a_def k_def phys_to_virt_def run_allocated_def)
    moreover have "(of_nat i :: u64) < p_filesz ph \<longleftrightarrow> i < unat (p_filesz ph)"
      using i memsz by (simp add: word_less_unat unat_of_nat_small)
    ultimately have "mem ?s2 a = (if i < unat (p_filesz ph) then mem s (src + of_nat i) else 0)"
      unfolding filled_mem [OF ok run fit src] m1 by simp
    moreover obtain f where "page_view root s3 (vpage_of (p_vaddr ph + of_nat i))
        = Some (Small (user_entry (of_nat (f * 4096)) (segment_flags (p_flags ph))))"
      unfolding v using byte(2) last low by auto
    ultimately show ?thesis
      unfolding page_byte_addr b using h3 fa3 segment_entry [of f "p_flags ph"] user_entry_bits(2) by auto
  qed
  then show "segment_loaded root s3 ph (\<lambda>i. mem s (src + of_nat i))" "segment_backed P I root s3 ph"
    unfolding segment_loaded_def segment_backed_def by blast+
qed

lemma segment_abandoned:
  assumes tree: "vmm_tree d root s" and run: "run_allocated d s r (unat n) s1" and pos: "0 < r" "n \<noteq> 0"
    and fit: "unat po + unat filesz \<le> unat n * 4096" and src: "stays s src filesz"
    and kept: "frames_kept I root (filled po src filesz r s1) s3" and tree3: "task_tree d root pml4 s3"
    and t: "t = pmm_free_frames (of_nat (r * 4096)) n (serial_log str s3)"
  shows "task_tree d root pml4 t" "page_view root t = page_view root s3" "{r..<r + unat n} \<subseteq> free_frames t"
    "frames_kept I root s t"
proof -
  let ?s2 = "filled po src filesz r s1" and ?u = "serial_log str s3"
  have ok: "pmm_ok d s" by (rule vmm_treeD(1) [OF tree])
  note fill = filled_tree [OF tree run fit src]
  have "\<forall>k\<in>{r..<r + unat n}. pmm_owned ?s2 k \<and> k \<notin> root_tables UNIV root ?s2"
    using run_allocated_owned [OF ok run] fill(8) [of UNIV] by (auto simp: fill(2,6))
  moreover have "root_tables UNIV root s3 \<subseteq> root_tables UNIV root ?s2 \<union> {k. \<not> pmm_owned ?s2 k}"
    "\<forall>k. pmm_owned ?s2 k \<longrightarrow> pmm_owned s3 k"
    using kept unfolding frames_kept_def by blast+
  moreover have "root_tables UNIV root ?u = root_tables UNIV root s3" by (simp add: root_tables_def)
  ultimately have own: "\<forall>k\<in>{r..<r + unat n}. pmm_owned ?u k" "root_tables UNIV root ?u \<inter> {r..<r + unat n} = {}"
    by auto
  have tu: "vmm_tree d root ?u" using tree3 by (simp add: task_tree_def)
  have p: "0 < unat n" using pos(2) by (simp add: unat_gt_0)
  have rt: "t = pmm_free_frames (of_nat (r * 4096)) (of_nat (unat n)) ?u" by (simp add: t)
  note rel = segment_released [OF tu own pos(1) p, folded rt]
  show "task_tree d root pml4 t" using rel(1,4) tree3 by (simp add: task_tree_def pml4_ptr_def)
  show "page_view root t = page_view root s3" using rel(2) by (simp add: page_view_def fun_eq_iff)
  show "{r..<r + unat n} \<subseteq> free_frames t" by (rule rel(3))
  have "frames_kept I root s s3" by (rule frames_kept_trans [OF filled_kept [OF tree run fit src] kept])
  then have su: "frames_kept I root s ?u" by (rule frames_kept_trans) simp
  have fr: "frame_of ?u = frame_of s" using su by (simp add: frames_kept_def frame_of_def fun_eq_iff)
  have apart: "k \<notin> {r..<r + unat n}" if "pmm_owned s k" for k using that run by (auto simp: run_allocated_def pmm_owned_def)
  have "mem t a = mem ?u a" if "pmm_owned ?u (frame_of s a)" for a
    by (rule rel(8), rule owned_not_bitmap [OF vmm_treeD(1) [OF tu] refl]) (use that fr in \<open>simp add: pmm_owned_def\<close>)
  moreover have "root_tables J root t \<subseteq> root_tables J root s \<union> {k. \<not> pmm_owned s k}" for J
    using su unfolding frames_kept_def rel(5) by blast
  moreover have "pmm_owned t k" if "pmm_owned s k" for k
    using su that apart [OF that] unfolding frames_kept_def rel(7) by blast
  moreover have "pmm_owned ?u (frame_of s a)" "mem ?u a = mem s a" if "pmm_owned s (frame_of s a)" "frame_of s a \<notin> root_tables I root s" for a
    using su that unfolding frames_kept_def by blast+
  moreover have "hhdm_offset t = hhdm_offset s" "pmm_bitmap_frames t = pmm_bitmap_frames s" "pmm_bitmap t = pmm_bitmap s"
    using su unfolding frames_kept_def rel(4,6,9) by blast+
  ultimately show "frames_kept I root s t" by (simp add: frames_kept_def)
qed

lemma load_segment_steps:
  assumes "load_phdr (mem s) phdr_i = ph"
  shows "load_segment elf_data pml4 phdr_i s = do {
     (phys, s1) \<leftarrow> pmm_alloc_frames_zeroed (segment_count ph) s;
     if phys = 0 then Some (False, serial_log (bytes ''Failed to alloc phys mem for ELF segment\<newline>'') s1)
     else
       let s2 = s1\<lparr>mem := memcpy (phys_to_virt s1 phys + (p_vaddr ph - segment_start ph)) (elf_data + p_offset ph) (p_filesz ph) (mem s1)\<rparr>
       in do {
         (ok, s3) \<leftarrow> vmm_map_range_for_pml4 pml4 (segment_start ph) phys (segment_count ph)
           (segment_flags (p_flags (load_phdr (mem s2) phdr_i))) s2;
         if ok then Some (True, s3)
         else Some (False, pmm_free_frames phys (segment_count ph) (serial_log (bytes ''Failed to map ELF segment\<newline>'') s3)) } }"
  unfolding load_segment_def Let_def assms segment_start_def [symmetric] segment_count_def [symmetric]
  by (auto intro!: bind_option_cong)

lemma task_range:
  assumes tree: "task_tree d root pml4 s" and al: "page_aligned virt" "page_aligned phys"
    and small: "\<forall>i<unat count. not_huge (page_view root s (page_at virt i)) \<and> fst (page_at virt i) \<in> I"
  shows "\<exists>b s' j. vmm_map_range_for_pml4 pml4 virt phys count flags s = Some (b, s') \<and> task_tree d root pml4 s'
     \<and> j \<le> unat count \<and> (b \<longleftrightarrow> j = unat count) \<and> frames_kept I root s s'
     \<and> range_added virt phys (\<lambda>p. user_entry p flags) 0 j (page_view root s) (page_view root s')
     \<and> (\<not> b \<longrightarrow> frames_left s < 3 * Suc j \<or> page_view root s' (page_at virt j) \<noteq> None)
     \<and> (b \<longrightarrow> frames_left s \<le> 3 * unat count + frames_left s')"
proof -
  obtain b s' j where out: "vmm_map_range_for_pml4_loop pml4 virt phys flags [0..<unat count] s = Some (b, s')"
    "task_tree d root pml4 s'" "j \<le> unat count" "b \<longleftrightarrow> j = unat count"
    "range_added virt phys (\<lambda>p. user_entry p flags) 0 j (page_view root s) (page_view root s')"
    "\<not> b \<longrightarrow> frames_left s < 3 * Suc j \<or> page_view root s' (page_at virt j) \<noteq> None"
    using task_mapper.range_loop_outcome [OF tree al, of 0 "unat count" flags] small
    unfolding vmm_map_range_task_mapper by auto
  moreover have "frames_kept I root s s'"
    by (rule vmm_map_range_for_pml4_frames [OF tree al _ out(1)]) (use small in simp)
  moreover have "frames_left s \<le> 3 * unat count + frames_left s'" if b
    using task_mapper.range_loop_room [OF tree al, of "[0..<unat count]" flags s'] small out(1) that
    unfolding vmm_map_range_task_mapper by simp
  ultimately show ?thesis unfolding vmm_map_range_for_pml4_def by blast
qed

text \<open>
  \<open>load_elf\<close> loads a segment whose file part is no longer than the segment, for a task without 2 MiB pages there, from
  memory that is in use: the loop body always returns and keeps the page tables a well-formed tree.  On success
  the segment is placed.  On failure either nothing has changed, or
  the pages before the one that failed stay mapped although their frames are free again.
\<close>

definition segment_page_set :: "Elf64_Phdr \<Rightarrow> vpage set" where
  "segment_page_set ph = page_at (segment_start ph) ` {..<unat (segment_count ph)}"

definition segment_placed :: "nat set \<Rightarrow> nat set \<Rightarrow> nat \<Rightarrow> 'a vmm_state_scheme \<Rightarrow> Elf64_Phdr \<Rightarrow> (nat \<Rightarrow> u8) \<Rightarrow> 'a vmm_state_scheme \<Rightarrow> bool" where
  "segment_placed P I root s ph content s' \<longleftrightarrow>
     segment_loaded root s' ph content \<and> segment_backed P I root s' ph
     \<and> (\<forall>v\<in>segment_page_set ph. page_view root s v = None \<and> (\<exists>e. page_view root s' v = Some (Small e)))
     \<and> (\<forall>v. v \<notin> segment_page_set ph \<longrightarrow> page_view root s' v = page_view root s v)
     \<and> frames_left s \<le> 4 * unat (segment_count ph) + frames_left s'"

definition segment_failed :: "nat \<Rightarrow> 'a vmm_state_scheme \<Rightarrow> Elf64_Phdr \<Rightarrow> 'a vmm_state_scheme \<Rightarrow> bool" where
  "segment_failed root s ph s' \<longleftrightarrow>
     page_view root s' = page_view root s \<and> free_frames s' = free_frames s \<and> no_run s (unat (segment_count ph))
     \<or> (\<exists>r j. j < unat (segment_count ph) \<and> {r..<r + unat (segment_count ph)} \<subseteq> free_frames s'
          \<and> (frames_left s < unat (segment_count ph) + 3 * Suc j \<or> page_view root s' (page_at (segment_start ph) j) \<noteq> None)
          \<and> range_added (segment_start ph) (of_nat (r * 4096)) (\<lambda>p. user_entry p (segment_flags (p_flags ph))) 0 j
              (page_view root s) (page_view root s'))"

lemma load_segment_outcome:
  assumes tree: "task_tree d root pml4 s" and low: "frames s \<le> 2 ^ 40"
    and memsz: "unat (p_memsz ph) + 8192 \<le> 18446744073709551616" and filesz: "p_filesz ph \<le> p_memsz ph"
    and src: "stays s (elf_data + p_offset ph) (p_filesz ph)" and P: "\<forall>k\<in>P. pmm_owned s k"
    and small: "\<forall>v\<in>segment_page_set ph. not_huge (page_view root s v) \<and> fst v \<in> I"
    and hdr: "\<forall>t. frames_kept I root s t \<longrightarrow> load_phdr (mem t) phdr_i = ph"
  shows "\<exists>b s'. load_segment elf_data pml4 phdr_i s = Some (b, s') \<and> task_tree d root pml4 s' \<and> frames_kept I root s s'
     \<and> (if b then segment_placed P I root s ph (\<lambda>i. mem s (elf_data + p_offset ph + of_nat i)) s'
        else segment_failed root s ph s')"
proof -
  define ps po n where "ps = segment_start ph" and "po = p_vaddr ph - segment_start ph" and "n = segment_count ph"
  define fl where "fl = segment_flags (p_flags ph)"
  have "load_phdr (mem s) phdr_i = ph" using hdr by simp
  note load_steps = load_segment_steps [OF this]
  have vt: "vmm_tree d root s" and pml4: "pml4 = pml4_ptr s root" using tree by (simp_all add: task_tree_def)
  have ok: "pmm_ok d s" by (rule vmm_treeD(1) [OF vt])
  note pages = segment_pages [OF memsz, where vaddr = "p_vaddr ph", folded segment_start_def, folded segment_count_def]
  obtain p s1 where call: "pmm_alloc_frames_zeroed n s = Some (p, s1)"
    and cases: "p = 0 \<and> s1 = s \<and> no_run s (unat n) \<or> (\<exists>r. p = of_nat (r * 4096) \<and> p \<noteq> 0 \<and> 0 < r \<and> n \<noteq> 0 \<and> run_allocated d s r (unat n) s1)"
    using alloc_run [OF ok, of n] unfolding run_allocated_def by blast
  show ?thesis
  proof (cases "p = 0")
    case True
    then have "s1 = s" "no_run s (unat n)" using cases by blast+
    moreover from this have "load_segment elf_data pml4 phdr_i s = Some (False, serial_log (bytes ''Failed to alloc phys mem for ELF segment\<newline>'') s)"
      using call True by (simp add: load_steps n_def)
    ultimately show ?thesis
      using tree
      by (auto intro!: exI [of _ False] simp: segment_failed_def task_tree_def page_view_def fun_eq_iff pml4_ptr_def n_def)
  next
    case False
    then obtain r where p: "p = of_nat (r * 4096)" and r: "0 < r" "n \<noteq> 0" and run: "run_allocated d s r (unat n) s1"
      using cases by blast
    let ?s2 = "filled po (elf_data + p_offset ph) (p_filesz ph) r s1"
    have fit: "unat po + unat (p_filesz ph) \<le> unat n * 4096"
      using pages(3) filesz by (simp add: po_def n_def word_le_unat)
    note fill = filled_tree [OF vt run fit src]
    have tree2: "task_tree d root pml4 ?s2" using fill(1,4) pml4 by (simp add: task_tree_def pml4_ptr_def)
    have al: "page_aligned ps" "page_aligned p"
      using pages(1) by (simp_all add: ps_def p page_aligned_multiple) blast
    have small': "\<forall>i<unat n. not_huge (page_view root ?s2 (page_at ps i)) \<and> fst (page_at ps i) \<in> I"
      unfolding fill(3) by (intro allI impI bspec [OF small]) (simp add: segment_page_set_def ps_def n_def)
    obtain b s3 j where m: "vmm_map_range_for_pml4 pml4 ps p n fl ?s2 = Some (b, s3)" and t3: "task_tree d root pml4 s3"
      and j: "j \<le> unat n" "b \<longleftrightarrow> j = unat n" and kept: "frames_kept I root ?s2 s3"
      and added: "range_added ps p (\<lambda>p. user_entry p fl) 0 j (page_view root s) (page_view root s3)"
      and reason: "\<not> b \<longrightarrow> frames_left ?s2 < 3 * Suc j \<or> page_view root s3 (page_at ps j) \<noteq> None"
      and room: "b \<longrightarrow> frames_left ?s2 \<le> 3 * unat n + frames_left s3"
      using task_range [OF tree2 al small', of fl] unfolding fill(3) by blast
    have "load_phdr (mem ?s2) phdr_i = ph" using hdr filled_kept [OF vt run fit src] by blast
    then have steps: "load_segment elf_data pml4 phdr_i s = (if b then Some (True, s3)
        else Some (False, pmm_free_frames p n (serial_log (bytes ''Failed to map ELF segment\<newline>'') s3)))"
      using call False m by (simp add: load_steps filled_def n_def ps_def po_def fl_def p)
    have left: "frames_left ?s2 + unat n = frames_left s" using run by (simp add: run_allocated_def filled_def frames_left_def)
    show ?thesis
    proof (cases b)
      case True
      have "segment_loaded root s3 ph (\<lambda>i. mem s (elf_data + p_offset ph + of_nat i))" "segment_backed P I root s3 ph"
        using mapped_segment [OF vt run [unfolded n_def] low memsz filesz src P] kept added True j p
        by (simp_all add: ps_def po_def n_def fl_def)
      then have "segment_placed P I root s ph (\<lambda>i. mem s (elf_data + p_offset ph + of_nat i)) s3"
        using True added j room left unfolding segment_placed_def segment_page_set_def range_added_def ps_def n_def
        by (auto simp: atLeast0LessThan)
      then show ?thesis
        using steps True t3 frames_kept_trans [OF filled_kept [OF vt run fit src] kept] by auto
    next
      case False
      have why: "frames_left s < unat n + 3 * Suc j \<or> page_view root s3 (page_at ps j) \<noteq> None"
        using left reason False by auto
      define t where "t = pmm_free_frames p n (serial_log (bytes ''Failed to map ELF segment\<newline>'') s3)"
      note gone = segment_abandoned [OF vt run r fit src kept t3 t_def [unfolded p]]
      have "\<exists>r j. j < unat n \<and> {r..<r + unat n} \<subseteq> free_frames t
          \<and> (frames_left s < unat n + 3 * Suc j \<or> page_view root t (page_at ps j) \<noteq> None)
          \<and> range_added ps (of_nat (r * 4096)) (\<lambda>p. user_entry p fl) 0 j (page_view root s) (page_view root t)"
        using j False gone(3) why added unfolding gone(2) p by (metis le_neq_implies_less)
      moreover have "load_segment elf_data pml4 phdr_i s = Some (False, t)" using steps False by (simp add: t_def)
      ultimately show ?thesis using gone(1,4) unfolding n_def ps_def fl_def segment_failed_def
        by (intro exI [of _ False] exI [of _ t]) (simp only: if_False simp_thms)
    qed
  qed
qed

end
