(* ===== verification/Elf_File.thy ===== *)
theory Elf_File
  imports Elf_Properties
begin

text \<open>
  The whole of \<open>load_elf\<close>: the file stays readable while its segments are loaded one by one, and a segment
  loaded once stays in place while the next ones are loaded.
\<close>

section \<open>Reading the file\<close>

text \<open>The file lies in frames that are in use and hold no table of the address space.\<close>

definition file_held :: "nat set \<Rightarrow> nat \<Rightarrow> 'a pmm_state_scheme \<Rightarrow> u64 \<Rightarrow> u64 \<Rightarrow> bool" where
  "file_held I root s file_addr len \<longleftrightarrow> (\<forall>x < len. held I root s (file_addr + x))"

definition same_file :: "u64 \<Rightarrow> u64 \<Rightarrow> memory \<Rightarrow> memory \<Rightarrow> bool" where
  "same_file file_addr len m m' \<longleftrightarrow> (\<forall>x < len. m' (file_addr + x) = m (file_addr + x))"

lemma file_kept:
  assumes "frames_kept I root s t" and "file_held I root s file_addr len"
  shows "file_held I root t file_addr len" "same_file file_addr len (mem s) (mem t)"
  using assms frames_kept_held [OF assms(1)] by (auto simp: file_held_def same_file_def)

lemma same_file_part:
  assumes same: "same_file p len m m'" and part: "unat off + n \<le> unat len" and i: "unat i < n"
  shows "m' (p + off + i) = m (p + off + i)"
proof -
  have "unat (off + i) = unat off + unat i"
    using part i unsigned_less [of len, where 'a = nat] by (intro unat_add_small) simp
  then have "off + i < len" using part i by (simp add: word_less_nat_alt)
  then show ?thesis using same by (simp add: same_file_def add.assoc)
qed

lemma same_file_reads:
  assumes "same_file p len m m'"
  shows "unat off + 8 \<le> unat len \<Longrightarrow> read64 m' (p + off) = read64 m (p + off)"
    "unat off + 4 \<le> unat len \<Longrightarrow> read32 m' (p + off) = read32 m (p + off)"
    "unat off + 2 \<le> unat len \<Longrightarrow> read16 m' (p + off) = read16 m (p + off)"
  by (intro read64_cong read32_cong read16_cong same_file_part [OF assms]; simp add: word_less_nat_alt)+

lemma same_file_shift:
  assumes "same_file p len m m'" and "unat off + n \<le> unat len" and "n < 18446744073709551616"
  shows "same_file (p + off) (of_nat n) m m'"
  unfolding same_file_def
proof (intro allI impI)
  fix x :: u64 assume "x < of_nat n"
  then have "unat x < n" using assms(3) by (simp add: word_less_nat_alt unat_of_nat_small)
  then show "m' (p + off + x) = m (p + off + x)" by (rule same_file_part [OF assms(1,2)])
qed

lemma same_file_ehdr:
  assumes same: "same_file p len m m'" and len: "64 \<le> unat len"
  shows "load_ehdr m' p = load_ehdr m p"
proof -
  have "m' (p + of_nat i) = m (p + of_nat i)" if "i < 16" for i
    using same_file_part [OF same, of 0 16 "of_nat i"] len that by (simp add: unat_of_nat_small)
  then have "read_bytes m' p 16 = read_bytes m p 16" by (simp add: read_bytes_def)
  then show ?thesis
    using len by (simp add: load_ehdr_def same_file_reads [OF same])
qed

lemma same_file_phdr:
  assumes same: "same_file p len m m'" and len: "56 \<le> unat len"
  shows "load_phdr m' p = load_phdr m p"
proof -
  have "read32 m' (p + 0) = read32 m (p + 0)" by (rule same_file_reads(2) [OF same]) (use len in simp)
  then show ?thesis using len by (simp add: load_phdr_def same_file_reads [OF same])
qed

section \<open>The program headers\<close>

definition file_phdr :: "memory \<Rightarrow> u64 \<Rightarrow> nat \<Rightarrow> Elf64_Phdr" where
  "file_phdr m file_addr k = load_phdr m (file_addr + e_phoff (load_ehdr m file_addr) + of_nat k * sizeof_phdr)"

definition load_headers_from :: "memory \<Rightarrow> u64 \<Rightarrow> nat \<Rightarrow> Elf64_Phdr list" where
  "load_headers_from m file_addr k =
     filter (\<lambda>ph. p_type ph = 1) (map (file_phdr m file_addr) [k..<unat (e_phnum (load_ehdr m file_addr))])"

text \<open>The headers of the segments to load, in the order of the file.\<close>

definition load_headers :: "memory \<Rightarrow> u64 \<Rightarrow> Elf64_Phdr list" where
  "load_headers m file_addr = load_headers_from m file_addr 0"

text \<open>The tables and the segments lie inside a file of \<open>len\<close> bytes.\<close>

definition elf_fits :: "memory \<Rightarrow> u64 \<Rightarrow> u64 \<Rightarrow> bool" where
  "elf_fits m file_addr len \<longleftrightarrow>
     64 \<le> unat len
     \<and> unat (e_phoff (load_ehdr m file_addr)) + 56 * unat (e_phnum (load_ehdr m file_addr)) \<le> unat len"

definition header_ok :: "u64 \<Rightarrow> Elf64_Phdr \<Rightarrow> bool" where
  "header_ok len ph \<longleftrightarrow>
     unat (p_memsz ph) + 8192 \<le> 18446744073709551616 \<and> p_filesz ph \<le> p_memsz ph
     \<and> unat (p_offset ph) + unat (p_filesz ph) \<le> unat len"

lemma same_file_header:
  assumes same: "same_file p len m m'" and fits: "elf_fits m p len" and k: "k < unat (e_phnum (load_ehdr m p))"
  shows "file_phdr m' p k = file_phdr m p k"
proof -
  have e: "load_ehdr m' p = load_ehdr m p" by (rule same_file_ehdr [OF same]) (use fits in \<open>simp add: elf_fits_def\<close>)
  define off where "off = e_phoff (load_ehdr m p) + of_nat k * 56"
  have le: "unat (e_phoff (load_ehdr m p)) + k * 56 + 56 \<le> unat len" using fits k by (simp add: elf_fits_def)
  have "unat (of_nat (k * 56) :: u64) = k * 56"
    by (rule unat_of_nat_small) (use le unsigned_less [of len, where 'a = nat] in simp)
  then have "unat off = unat (e_phoff (load_ehdr m p)) + k * 56"
    using le unsigned_less [of len, where 'a = nat] unat_add_small [of "e_phoff (load_ehdr m p)" "of_nat (k * 56)"]
    by (simp add: off_def)
  then have "same_file (p + off) (of_nat 56) m m'" using le by (intro same_file_shift [OF same]) simp_all
  then have "load_phdr m' (p + off) = load_phdr m (p + off)" by (rule same_file_phdr) simp
  then show ?thesis by (simp add: file_phdr_def e off_def add.assoc)
qed

lemma same_file_headers:
  assumes "same_file p len m m'" and "elf_fits m p len"
  shows "load_headers_from m' p k = load_headers_from m p k" "load_ehdr m' p = load_ehdr m p" "elf_fits m' p len"
proof -
  show e: "load_ehdr m' p = load_ehdr m p" by (rule same_file_ehdr [OF assms(1)]) (use assms(2) in \<open>simp add: elf_fits_def\<close>)
  show "load_headers_from m' p k = load_headers_from m p k"
    unfolding load_headers_from_def e by (intro arg_cong [of _ _ "filter _"] map_cong) (auto intro: same_file_header [OF assms])
  show "elf_fits m' p len" using assms(2) by (simp add: elf_fits_def e)
qed

section \<open>Loading the segments one by one\<close>

fun disjoint_segments :: "Elf64_Phdr list \<Rightarrow> bool" where
  "disjoint_segments [] = True"
| "disjoint_segments (ph # phs) \<longleftrightarrow>
     segment_page_set ph \<inter> \<Union> (segment_page_set ` set phs) = {} \<and> disjoint_segments phs"

text \<open>All segments are in place at once, on pages that were free before; nothing else is mapped anew.\<close>

definition segments_placed :: "nat set \<Rightarrow> nat set \<Rightarrow> nat \<Rightarrow> 'a vmm_state_scheme \<Rightarrow> u64 \<Rightarrow> Elf64_Phdr list \<Rightarrow> 'a vmm_state_scheme \<Rightarrow> bool" where
  "segments_placed P I root s file_addr phs s' \<longleftrightarrow>
     (\<forall>ph\<in>set phs. segment_loaded root s' ph (\<lambda>i. mem s (file_addr + p_offset ph + of_nat i)) \<and> segment_backed P I root s' ph
        \<and> (\<forall>v\<in>segment_page_set ph. page_view root s v = None))
     \<and> disjoint_segments phs
     \<and> (\<forall>v. v \<notin> \<Union> (segment_page_set ` set phs) \<longrightarrow> page_view root s' v = page_view root s v)
     \<and> frames_left s \<le> 4 * (\<Sum>ph\<leftarrow>phs. unat (segment_count ph)) + frames_left s'"

lemma segment_byte_page:
  assumes "header_ok len ph" and i: "i < unat (p_memsz ph)"
  shows "vpage_of (p_vaddr ph + of_nat i) \<in> segment_page_set ph"
proof -
  have memsz: "unat (p_memsz ph) + 8192 \<le> 18446744073709551616" using assms(1) by (simp add: header_ok_def)
  note pages = segment_pages [OF memsz, where vaddr = "p_vaddr ph", folded segment_start_def, folded segment_count_def]
  define k where "k = unat (p_vaddr ph - segment_start ph) + i"
  have "k < unat (segment_count ph) * 4096" using pages(3) i by (simp add: k_def)
  then have "k div 4096 < unat (segment_count ph)" by (rule less_mult_imp_div_less)
  moreover have "vpage_of (segment_start ph + of_nat k) = page_at (segment_start ph) (k div 4096)"
    by (rule vpage_of_offset(1) [OF pages(1)])
  moreover have "segment_start ph + of_nat k = p_vaddr ph + of_nat i" by (simp add: k_def)
  ultimately show ?thesis by (auto simp: segment_page_set_def)
qed

lemma segment_content:
  assumes "same_file p len m m'" and "header_ok len ph"
  shows "segment_loaded root s ph (\<lambda>i. m' (p + p_offset ph + of_nat i)) = segment_loaded root s ph (\<lambda>i. m (p + p_offset ph + of_nat i))"
proof -
  have "m' (p + p_offset ph + of_nat i) = m (p + p_offset ph + of_nat i)" if "i < unat (p_filesz ph)" for i
    by (rule same_file_part [OF assms(1), where n = "unat (p_filesz ph)"])
      (use assms(2) that unsigned_less [of "p_filesz ph", where 'a = nat] in \<open>simp_all add: header_ok_def unat_of_nat_small\<close>)
  then show ?thesis by (auto simp: segment_loaded_def)
qed

lemma segments_placed_Cons:
  assumes first: "segment_placed P I root s ph (\<lambda>i. mem s (p + p_offset ph + of_nat i)) t" and kept: "frames_kept I root s t"
    and rest: "segments_placed P I root t p phs u" and kept': "frames_kept I root t u"
    and ok: "\<forall>q\<in>set (ph # phs). header_ok len q" and held: "file_held I root s p len"
  shows "segments_placed P I root s p (ph # phs) u"
proof -
  have free: "page_view root s v = None" "page_view root t v \<noteq> None" if "v \<in> segment_page_set ph" for v
    using first that by (auto simp: segment_placed_def)
  have other: "page_view root t v = page_view root s v" if "v \<notin> segment_page_set ph" for v
    using first that unfolding segment_placed_def by blast
  have free': "page_view root t v = None" if "q \<in> set phs" "v \<in> segment_page_set q" for q v
    using rest that by (auto simp: segments_placed_def)
  have apart: "segment_page_set ph \<inter> \<Union> (segment_page_set ` set phs) = {}" using free(2) free' by blast
  have "page_view root u v = page_view root t v" if "v \<in> segment_page_set ph" for v
    using rest that apart unfolding segments_placed_def by blast
  moreover have "vpage_of (p_vaddr ph + of_nat i) \<in> segment_page_set ph" if "i < unat (p_memsz ph)" for i
    by (rule segment_byte_page [OF _ that]) (use ok in auto)
  moreover have "segment_loaded root t ph (\<lambda>i. mem s (p + p_offset ph + of_nat i))" "segment_backed P I root t ph"
    using first unfolding segment_placed_def by blast+
  ultimately have head: "segment_loaded root u ph (\<lambda>i. mem s (p + p_offset ph + of_nat i))" "segment_backed P I root u ph"
    using segment_kept [of root t ph _ P I u I] frames_kept_held [OF kept'] kept' unfolding frames_kept_def by blast+
  note same = file_kept(2) [OF kept held]
  have tail: "segment_loaded root u q (\<lambda>i. mem s (p + p_offset q + of_nat i))" if "q \<in> set phs" for q
    using segment_content [OF same, of q root u] rest ok that by (simp add: segments_placed_def)
  have "page_view root s v = None" if "q \<in> set phs" "v \<in> segment_page_set q" for q v
    using free' [OF that] other [of v] free(1) [of v] by (cases "v \<in> segment_page_set ph") auto
  moreover have "page_view root u v = page_view root s v" if "v \<notin> \<Union> (segment_page_set ` set (ph # phs))" for v
  proof -
    have "page_view root u v = page_view root t v" using rest that unfolding segments_placed_def by (simp del: split_paired_All)
    then show ?thesis using other [of v] that by simp
  qed
  moreover have "frames_left s \<le> 4 * (\<Sum>ph\<leftarrow>ph # phs. unat (segment_count ph)) + frames_left u"
    using first rest unfolding segment_placed_def segments_placed_def by simp
  ultimately show ?thesis
    using head tail free(1) apart rest unfolding segments_placed_def by (auto simp del: Union_iff)
qed

lemma stays_held:
  assumes ok: "pmm_ok d s" and held: "file_held I root s p len" and ph: "header_ok len ph"
  shows "stays s (p + p_offset ph) (p_filesz ph)"
  unfolding stays_def
proof (intro allI impI)
  fix i assume "i < p_filesz ph"
  then have i: "unat i < unat (p_filesz ph)" by (simp add: word_less_nat_alt)
  have le: "unat (p_offset ph) + unat (p_filesz ph) \<le> unat len" using ph by (simp add: header_ok_def)
  then have "unat (p_offset ph + i) = unat (p_offset ph) + unat i"
    using i unsigned_less [of len, where 'a = nat] by (intro unat_add_small) simp
  then have "p_offset ph + i < len" using le i by (simp add: word_less_nat_alt)
  then have "pmm_owned s (frame_of s (p + p_offset ph + i))" using held by (simp add: file_held_def held_def add.assoc)
  then show "\<not> in_bitmap s (p + p_offset ph + i) \<and> frame_of s (p + p_offset ph + i) \<notin> free_frames s"
    using owned_not_bitmap [OF ok refl] by (auto simp: pmm_owned_def)
qed

text \<open>The first segments are in place, and the next one has failed.\<close>

definition segments_failed :: "nat \<Rightarrow> nat set \<Rightarrow> nat set \<Rightarrow> nat \<Rightarrow> 'a vmm_state_scheme \<Rightarrow> u64 \<Rightarrow> Elf64_Phdr list \<Rightarrow> 'a vmm_state_scheme \<Rightarrow> bool" where
  "segments_failed d P I root s file_addr phs s' \<longleftrightarrow>
     (\<exists>done_phs ph rest t. phs = done_phs @ ph # rest \<and> segments_placed P I root s file_addr done_phs t \<and> frames_kept I root s t
        \<and> vmm_tree d root t        \<and> segment_failed root t ph s' \<and> frames_kept I root t s')"

lemma segments_placed_Nil: "segments_placed P I root s p [] s"
  by (simp add: segments_placed_def)

lemma segments_failed_first:
  "vmm_tree d root s \<Longrightarrow> segment_failed root s ph s' \<Longrightarrow> frames_kept I root s s' \<Longrightarrow> segments_failed d P I root s p (ph # phs) s'"
  unfolding segments_failed_def using segments_placed_Nil frames_kept_refl by (metis append_Nil)

lemma segments_failed_Cons:
  assumes "segment_placed P I root s ph (\<lambda>i. mem s (p + p_offset ph + of_nat i)) t" and "frames_kept I root s t"
    and "segments_failed d P I root t p phs u" and ok: "\<forall>q\<in>set (ph # phs). header_ok len q" and "file_held I root s p len"
  shows "segments_failed d P I root s p (ph # phs) u"
proof -
  obtain before q rest w where w: "vmm_tree d root w" and phs: "phs = before @ q # rest" and placed: "segments_placed P I root t p before w" "frames_kept I root t w"
    and failed: "segment_failed root w q u" "frames_kept I root w u"
    using assms(3) unfolding segments_failed_def by blast
  have "segments_placed P I root s p (ph # before) w"
    by (rule segments_placed_Cons [OF assms(1,2) placed _ assms(5)]) (use ok phs in auto)
  moreover have "frames_kept I root s w" by (rule frames_kept_trans [OF assms(2) placed(2)])
  ultimately show ?thesis using failed phs w unfolding segments_failed_def by (metis append_Cons)
qed

lemma load_headers_Cons:
  assumes "k < unat (e_phnum (load_ehdr m p))"
  shows "load_headers_from m p k =
    (if p_type (file_phdr m p k) = 1 then file_phdr m p k # load_headers_from m p (Suc k) else load_headers_from m p (Suc k))"
  using assms by (simp add: load_headers_from_def upt_conv_Cons)

lemma load_elf_loop_unfold:
  assumes "k \<le> unat (e_phnum (load_ehdr (mem s) p))"
  shows "load_elf_loop p pml4 (p + e_phoff (load_ehdr (mem s) p)) (of_nat k) s =
     (if k < unat (e_phnum (load_ehdr (mem s) p))
      then if p_type (file_phdr (mem s) p k) \<noteq> 1
           then load_elf_loop p pml4 (p + e_phoff (load_ehdr (mem s) p)) (of_nat (Suc k)) s
           else Option.bind (load_segment p pml4 (p + e_phoff (load_ehdr (mem s) p) + of_nat k * sizeof_phdr) s)
             (\<lambda>(ok, t). if ok then load_elf_loop p pml4 (p + e_phoff (load_ehdr (mem s) p)) (of_nat (Suc k)) t else Some (False, t))
      else Some (True, s))"
proof -
  have "k < 65536" using assms unsigned_less [of "e_phnum (load_ehdr (mem s) p)", where 'a = nat] by simp
  then have "unat (of_nat k :: u16) = k" by (simp add: unat_of_nat)
  then have "(of_nat k :: u16) < e_phnum (load_ehdr (mem s) p) \<longleftrightarrow> k < unat (e_phnum (load_ehdr (mem s) p))"
    and "(ucast (of_nat k :: u16) :: u64) = of_nat k"
    by (simp_all add: word_less_nat_alt) (metis of_nat_unat)
  moreover have suc: "of_nat (Suc k) = (of_nat k :: u16) + 1" by simp
  ultimately show ?thesis
    unfolding suc by (subst load_elf_loop.simps) (simp add: file_phdr_def Let_def)
qed

lemma load_elf_loop_outcome:
  assumes "task_tree d root pml4 s" and "frames s \<le> 2 ^ 40" and "file_held I root s p len" and "elf_fits (mem s) p len"
    and "\<forall>ph\<in>set (load_headers_from (mem s) p k). header_ok len ph \<and> (\<forall>v\<in>segment_page_set ph. not_huge (page_view root s v) \<and> fst v \<in> I)"
    and "k \<le> unat (e_phnum (load_ehdr (mem s) p))" and "\<forall>n\<in>P. pmm_owned s n"
  shows "\<exists>b s'. load_elf_loop p pml4 (p + e_phoff (load_ehdr (mem s) p)) (of_nat k) s = Some (b, s')
     \<and> task_tree d root pml4 s' \<and> frames_kept I root s s'
     \<and> (if b then segments_placed P I root s p (load_headers_from (mem s) p k) s'
        else segments_failed d P I root s p (load_headers_from (mem s) p k) s')"
  using assms
proof (induction "unat (e_phnum (load_ehdr (mem s) p)) - k" arbitrary: k s)
  case 0
  then have k: "k = unat (e_phnum (load_ehdr (mem s) p))" by simp
  have "load_headers_from (mem s) p k = []" by (simp add: k load_headers_from_def)
  then show ?case
    using 0 load_elf_loop_unfold [of k s p pml4] by (auto intro!: exI [of _ True] simp: k segments_placed_Nil)
next
  case (Suc l)
  let ?n = "unat (e_phnum (load_ehdr (mem s) p))" and ?ph = "file_phdr (mem s) p k"
  have k: "k < ?n" "l = ?n - Suc k" "Suc k \<le> ?n" using Suc.hyps(2) by auto
  note loop = load_elf_loop_unfold [OF Suc.prems(6), of pml4]
  note hdrs = load_headers_Cons [OF k(1)]
  show ?case
  proof (cases "p_type ?ph = 1")
    case False
    then have hd: "load_headers_from (mem s) p k = load_headers_from (mem s) p (Suc k)" by (simp add: hdrs)
    have "load_elf_loop p pml4 (p + e_phoff (load_ehdr (mem s) p)) (of_nat k) s =
        load_elf_loop p pml4 (p + e_phoff (load_ehdr (mem s) p)) (of_nat (Suc k)) s"
      using loop False k(1) by (simp del: of_nat_Suc)
    then show ?thesis
      using Suc.hyps(1) [OF k(2) Suc.prems(1-4) Suc.prems(5) [unfolded hd] k(3) Suc.prems(7)] unfolding hd by simp
  next
    case True
    have ph: "header_ok len ?ph" "\<forall>v\<in>segment_page_set ?ph. not_huge (page_view root s v) \<and> fst v \<in> I"
      and all: "\<forall>q\<in>set (?ph # load_headers_from (mem s) p (Suc k)). header_ok len q"
      using Suc.prems(5) True by (simp_all add: hdrs)
    have ok: "pmm_ok d s" using Suc.prems(1) by (auto simp: task_tree_def dest: vmm_treeD(1))
    let ?a = "p + e_phoff (load_ehdr (mem s) p) + of_nat k * sizeof_phdr"
    have hdr: "\<forall>t. frames_kept I root s t \<longrightarrow> load_phdr (mem t) ?a = ?ph"
    proof (intro allI impI)
      fix t assume "frames_kept I root s t"
      note same = file_kept(2) [OF this Suc.prems(3)]
      show "load_phdr (mem t) ?a = ?ph"
        using same_file_header [OF same Suc.prems(4) k(1)] unfolding file_phdr_def same_file_headers(2) [OF same Suc.prems(4)] .
    qed
    obtain b t where seg: "load_segment p pml4 ?a s = Some (b, t)" and t: "task_tree d root pml4 t" "frames_kept I root s t"
      and out: "if b then segment_placed P I root s ?ph (\<lambda>i. mem s (p + p_offset ?ph + of_nat i)) t else segment_failed root s ?ph t"
      using load_segment_outcome [OF Suc.prems(1,2) _ _ stays_held [OF ok Suc.prems(3) ph(1)] Suc.prems(7) ph(2) hdr] ph(1)
      unfolding header_ok_def by blast
    show ?thesis
    proof (cases b)
      case False
      then show ?thesis using loop seg t out True k(1) segments_failed_first [of d root s] Suc.prems(1) [unfolded task_tree_def]
        by (auto intro!: exI [of _ False] simp: hdrs simp del: of_nat_Suc)
    next
      case placed: True
      note file_t = file_kept [OF t(2) Suc.prems(3)]
      note same = same_file_headers [OF file_t(2) Suc.prems(4)]
      have P: "\<forall>n\<in>P. pmm_owned t n" using t(2) Suc.prems(7) by (simp add: frames_kept_def)
      have low: "frames t \<le> 2 ^ 40" using t(2) Suc.prems(2) by (simp add: frames_kept_def)
      have view: "not_huge (page_view root t v)" if "not_huge (page_view root s v)" for v
        using out that placed by (cases "v \<in> segment_page_set ?ph") (auto simp: segment_placed_def not_huge_def simp del: split_paired_All)
      have rest: "\<forall>ph\<in>set (load_headers_from (mem t) p (Suc k)). header_ok len ph \<and> (\<forall>v\<in>segment_page_set ph. not_huge (page_view root t v) \<and> fst v \<in> I)"
        using Suc.prems(5) True view by (simp add: same hdrs)
      have l: "l = unat (e_phnum (load_ehdr (mem t) p)) - Suc k" and le: "Suc k \<le> unat (e_phnum (load_ehdr (mem t) p))"
        using k by (simp_all add: same)
      obtain c u where c: "load_elf_loop p pml4 (p + e_phoff (load_ehdr (mem s) p)) (of_nat (Suc k)) t = Some (c, u)"
        "task_tree d root pml4 u" "frames_kept I root t u"
        "if c then segments_placed P I root t p (load_headers_from (mem s) p (Suc k)) u
         else segments_failed d P I root t p (load_headers_from (mem s) p (Suc k)) u"
        using Suc.hyps(1) [OF l t(1) low file_t(1) same(3) rest le P] unfolding same by blast
      have "load_elf_loop p pml4 (p + e_phoff (load_ehdr (mem s) p)) (of_nat k) s = Some (c, u)"
        using loop seg placed True k(1) c(1) by (simp del: of_nat_Suc)
      moreover have "frames_kept I root s u" by (rule frames_kept_trans [OF t(2) c(3)])
      moreover have "if c then segments_placed P I root s p (load_headers_from (mem s) p k) u
          else segments_failed d P I root s p (load_headers_from (mem s) p k) u"
        using segments_placed_Cons [OF _ t(2) _ c(3) all Suc.prems(3)] segments_failed_Cons [OF _ t(2) _ all Suc.prems(3)]
          out placed c(4) True by (simp add: hdrs)
      ultimately show ?thesis using c(2) by blast
    qed
  qed
qed

lemma load_elf_outcome:
  assumes tree: "task_tree d root pml4 s" and low: "frames s \<le> 2 ^ 40"
    and held: "file_held I root s elf_data len" and fits: "elf_fits (mem s) elf_data len"
    and hdrs: "\<forall>ph\<in>set (load_headers (mem s) elf_data). header_ok len ph \<and> (\<forall>v\<in>segment_page_set ph. not_huge (page_view root s v) \<and> fst v \<in> I)"
    and P: "P = {n. pmm_owned s n}"
  shows "\<exists>b entry s'. load_elf elf_data pml4 s = Some ((b, entry), s') \<and> task_tree d root pml4 s' \<and> frames_kept I root s s'
     \<and> (if elf_valid (mem s) elf_data
        then entry = Some (e_entry (load_ehdr (mem s) elf_data))
          \<and> (if b then segments_placed P I root s elf_data (load_headers (mem s) elf_data) s'
             else segments_failed d P I root s elf_data (load_headers (mem s) elf_data) s')
        else \<not> b \<and> entry = None \<and> page_view root s' = page_view root s \<and> free_frames s' = free_frames s)"
proof (cases "elf_valid (mem s) elf_data")
  case False
  have "task_tree d root pml4 (serial_log (bytes ''Invalid ELF header\<newline>'') s)"
    using tree by (simp add: task_tree_def pml4_ptr_def)
  then show ?thesis using False by (auto simp: load_elf_def page_view_def fun_eq_iff)
next
  case True
  obtain b s' where "load_elf_loop elf_data pml4 (elf_data + e_phoff (load_ehdr (mem s) elf_data)) 0 s = Some (b, s')"
    "task_tree d root pml4 s'" "frames_kept I root s s'"
    "if b then segments_placed P I root s elf_data (load_headers (mem s) elf_data) s'
     else segments_failed d P I root s elf_data (load_headers (mem s) elf_data) s'"
    using load_elf_loop_outcome [OF tree low held fits, of 0 P] hdrs P by (auto simp: load_headers_def)
  then show ?thesis using True by (simp add: load_elf_def Let_def)
qed


text \<open>
  The address space of the examples with a file of 178 bytes at 0xFFFF800000000100, in frame 0: a header, a
  program header of type 4 and one of type \<open>PT_LOAD\<close>, and the two bytes of its segment.
\<close>

definition example_file :: "u8 list" where
  "example_file = [
     127, 69, 76, 70, 2, 1, 1, 0, 0, 0, 0, 0, 0, 0, 0, 0, 2, 0, 62, 0, 1, 0, 0, 0, 176, 0, 64, 0, 0, 0, 0, 0,
     64, 0, 0, 0, 0, 0, 0, 0, 0, 0, 0, 0, 0, 0, 0, 0, 0, 0, 0, 0, 64, 0, 56, 0, 2, 0, 0, 0, 0, 0, 0, 0, 4, 0,
     0, 0, 4, 0, 0, 0, 0, 0, 0, 0, 0, 0, 0, 0, 0, 0, 0, 0, 0, 0, 0, 0, 0, 0, 0, 0, 0, 0, 0, 0, 0, 0, 0, 0, 0,
     0, 0, 0, 0, 0, 0, 0, 0, 0, 0, 0, 8, 0, 0, 0, 0, 0, 0, 0, 1, 0, 0, 0, 5, 0, 0, 0, 176, 0, 0, 0, 0, 0, 0,
     0, 176, 0, 64, 0, 0, 0, 0, 0, 176, 0, 64, 0, 0, 0, 0, 0, 2, 0, 0, 0, 0, 0, 0, 0, 3, 0, 0, 0, 0, 0, 0, 0,
     0, 16, 0, 0, 0, 0, 0, 0, 15, 5]"

definition example_elf :: vmm_state where
  "example_elf = example_vmm\<lparr>mem := (\<lambda>a. if a - 0xFFFF800000000100 < 178
     then example_file ! unat (a - 0xFFFF800000000100) else mem example_vmm a)\<rparr>"

definition example_phdr :: Elf64_Phdr where
  "example_phdr = \<lparr>p_type = 1, p_flags = 5, p_offset = 0xB0, p_vaddr = 0x4000B0, p_paddr = 0x4000B0,
     p_filesz = 2, p_memsz = 3, p_align = 0x1000\<rparr>"

lemma example_file_frame:
  assumes "a - 0xFFFF800000000100 < (178 :: u64)"
  shows "frame_of example_vmm a = 0"
proof -
  define x where "x = a - 0xFFFF800000000100"
  have "unat x < 178" using assms by (simp add: x_def word_less_nat_alt)
  then have sum: "unat (x + 0x100) = unat x + 256" by (subst unat_add_small) simp_all
  have a: "a - 0xFFFF800000000000 = x + 0x100" by (simp add: x_def)
  show ?thesis unfolding frame_of_def example_vmm_fields a sum using \<open>unat x < 178\<close> by simp
qed

lemma example_elf_header:
  "elf_valid (mem example_elf) 0xFFFF800000000100" "e_phoff (load_ehdr (mem example_elf) 0xFFFF800000000100) = 64"
  "e_phnum (load_ehdr (mem example_elf) 0xFFFF800000000100) = 2" "e_entry (load_ehdr (mem example_elf) 0xFFFF800000000100) = 0x4000B0"
  by (simp_all add: elf_valid_def memcmp_def lit_def read_bytes_def load_ehdr_def read64_def read16_def le_word_def
      example_elf_def example_file_def upt_rec)

lemma example_elf_headers: "load_headers (mem example_elf) 0xFFFF800000000100 = [example_phdr]"
  by (simp add: load_headers_def load_headers_from_def file_phdr_def example_elf_header upt_rec)
    (simp add: load_phdr_def example_phdr_def read64_def read32_def le_word_def example_elf_def example_file_def upt_rec)

lemma example_elf_tree:
  "vmm_tree 0 2 example_elf" "page_view 2 example_elf v = None" "free_frames example_elf = {3..<16}"
  "held UNIV 2 example_elf a \<longleftrightarrow> frame_of example_vmm a = 0"
proof -
  have "table_at (ptabs example_vmm) 2 p = (if p = [] then Some 2 else None)" if "path p" for p
    using that
    by (induction p rule: rev_induct) (auto simp: path_snoc table_at_snoc child_def example_vmm_tabs)
  then have tab: "root_tables UNIV 2 example_vmm = {2}" by (auto simp: root_tables_def path_def split: if_splits intro: exI [of _ "[]"])
  have "mem example_elf a = mem example_vmm a" if "in_bitmap example_vmm a" for a
  proof -
    have "unat (a - 0xFFFF800000001000) < 2"
      using that by (simp add: in_bitmap_def example_vmm_def word_less_nat_alt)
    then have "a - 0xFFFF800000001000 = 0 \<or> a - 0xFFFF800000001000 = 1" by (auto simp: word_unat_eq_iff)
    then have "a = 0xFFFF800000001000 \<or> a = 0xFFFF800000001001" by (auto simp: diff_eq_eq)
    then show ?thesis by (auto simp: example_elf_def)
  qed
  then have ok: "pmm_ok 0 example_elf" "pmm_owned example_elf = pmm_owned example_vmm"
      "free_frames example_elf = free_frames example_vmm"
    using pmm_ok_mem [OF example_vmm_ok, of "mem example_elf"] by (simp_all add: example_elf_def)
  have own: "pmm_owned example_elf k" if "k \<in> root_tables UNIV 2 example_vmm" for k
    using that pt_wfD(1) [OF vmm_treeD(2) [OF example_vmm_tree]] ok(2) by (auto simp: root_tables_def)
  have same: "mem example_elf a = mem example_vmm a" if "frame_of example_vmm a \<in> root_tables UNIV 2 example_vmm" for a
    using that example_file_frame [of a] by (auto simp: tab example_elf_def)
  have f: "hhdm_offset example_elf = hhdm_offset example_vmm" "pmm_bitmap_frames example_elf = pmm_bitmap_frames example_vmm"
    by (simp_all add: example_elf_def)
  show "vmm_tree 0 2 example_elf" "page_view 2 example_elf v = None" "free_frames example_elf = {3..<16}"
    using tree_same_tables(1,3) [OF example_vmm_tree ok(1) f own same] example_vmm_empty example_vmm_free ok(3) by simp_all
  have tab': "root_tables UNIV 2 example_elf = {2}" using tree_same_tables(2) [OF example_vmm_tree ok(1) f own same] tab by simp
  have bits: "bitmap_frame_list example_vmm = [1]"
    by (simp add: bitmap_frame_list_def bitmap_phys_def) (simp add: example_vmm_def upt_rec)
  define n where "n = frame_of example_vmm a"
  have n: "frame_of example_elf a = n" unfolding n_def frame_of_def f(1) ..
  have sixteen: "frames example_vmm = 16" by (simp add: example_vmm_fields)
  show "held UNIV 2 example_elf a \<longleftrightarrow> frame_of example_vmm a = 0"
    unfolding held_def ok(2) n tab' pmm_owned_def example_vmm_free bits n_def [symmetric] sixteen by auto
qed


end
