(* ===== verification/Task_Space.thy ===== *)
theory Task_Space
  imports Elf_File Context_Switch
begin

text \<open>
  The address space of a new task.  \<open>task_create_from_elf\<close> allocates an empty top-level table and copies the upper
  half of the kernel's into it: the task gets a tree of tables of its own whose upper half is the kernel's.
\<close>

section \<open>Which frames a step writes\<close>

text \<open>Of the frames in use, only those in \<open>G\<close> have been written.\<close>

definition touches :: "nat set \<Rightarrow> 'a pmm_state_scheme \<Rightarrow> 'a pmm_state_scheme \<Rightarrow> bool" where
  "touches G s s' \<longleftrightarrow>
     hhdm_offset s' = hhdm_offset s \<and> pmm_bitmap_frames s' = pmm_bitmap_frames s \<and> pmm_bitmap s' = pmm_bitmap s
     \<and> (\<forall>n. pmm_owned s n \<longrightarrow> pmm_owned s' n)
     \<and> (\<forall>a. pmm_owned s (frame_of s a) \<longrightarrow> frame_of s a \<notin> G \<longrightarrow> mem s' a = mem s a)"

lemma touches_frame_of: "touches G s s' \<Longrightarrow> frame_of s' = frame_of s"
  by (simp add: touches_def frame_of_def fun_eq_iff)

lemma touches_trans:
  assumes "touches G s t" and "touches H t u" and "\<And>n. n \<in> G \<union> H \<Longrightarrow> pmm_owned s n \<Longrightarrow> n \<in> K"
  shows "touches K s u"
  using assms touches_frame_of [OF assms(1)] unfolding touches_def by (metis UnCI)

lemma frames_kept_touches: "frames_kept I root s s' \<Longrightarrow> touches (root_tables I root s) s s'"
  by (simp add: frames_kept_def touches_def)

lemma page_fresh_touches:
  assumes "page_fresh d s f s'" and "pmm_ok d s"
  shows "touches {} s s'"
  using page_fresh_fields [OF assms(1)] page_fresh_owned(1) [OF assms] page_fresh_frame [OF assms] by (simp add: touches_def)

lemma run_allocated_touches:
  assumes "pmm_ok d s" and "run_allocated d s r n s1"
  shows "touches {} s s1"
proof -
  have "mem s1 a = mem s a" if "pmm_owned s (frame_of s a)" for a
  proof -
    have "\<not> in_bitmap s a" by (rule owned_not_bitmap [OF assms(1) refl]) (use that in \<open>simp add: pmm_owned_def\<close>)
    then show ?thesis using that assms(2) by (auto simp: run_allocated_def pmm_owned_def)
  qed
  then show ?thesis using assms run_allocated_owned [OF assms] by (auto simp: touches_def run_allocated_def)
qed

text \<open>A tree none of whose tables is written stays as it is.\<close>

lemma touches_tree:
  assumes tree: "vmm_tree d root s" and touch: "touches G s s'" and ok: "pmm_ok d' s'" and apart: "root_tables UNIV root s \<inter> G = {}"
  shows "vmm_tree d' root s'" "page_view root s' = page_view root s" "root_tables I root s' = root_tables I root s"
proof -
  have own: "pmm_owned s n" if "n \<in> root_tables UNIV root s" for n
    using that pt_wfD(1) [OF vmm_treeD(2) [OF tree]] by (auto simp: root_tables_def)
  have f: "hhdm_offset s' = hhdm_offset s" "pmm_bitmap_frames s' = pmm_bitmap_frames s" using touch by (simp_all add: touches_def)
  have own': "pmm_owned s' n" if "n \<in> root_tables UNIV root s" for n using own [OF that] touch by (simp add: touches_def)
  have mem: "mem s' a = mem s a" if "frame_of s a \<in> root_tables UNIV root s" for a
    using own [OF that] that touch apart by (auto simp: touches_def)
  show "vmm_tree d' root s'" "page_view root s' = page_view root s" "root_tables I root s' = root_tables I root s"
    using tree_same_tables [OF tree ok f own' mem] by blast+
qed

text \<open>Writing into frames in use.\<close>

lemma touches_write:
  assumes ok: "pmm_ok d s" and own: "\<forall>n\<in>G. pmm_owned s n" and m: "\<forall>a. frame_of s a \<notin> G \<longrightarrow> m a = mem s a"
  shows "touches G s (s\<lparr>mem := m\<rparr>)" "pmm_ok d (s\<lparr>mem := m\<rparr>)" "free_frames (s\<lparr>mem := m\<rparr>) = free_frames s"
    "pmm_owned (s\<lparr>mem := m\<rparr>) = pmm_owned s"
proof -
  have "m a = mem s a" if "in_bitmap s a" for a
  proof (rule m [rule_format])
    show "frame_of s a \<notin> G" using own owned_not_bitmap [OF ok refl, of a] that by (auto simp: pmm_owned_def)
  qed
  note keep = pmm_ok_mem [OF ok this]
  show "pmm_ok d (s\<lparr>mem := m\<rparr>)" "free_frames (s\<lparr>mem := m\<rparr>) = free_frames s" "pmm_owned (s\<lparr>mem := m\<rparr>) = pmm_owned s"
    using keep by blast+
  then show "touches G s (s\<lparr>mem := m\<rparr>)" using m by (simp add: touches_def)
qed

section \<open>Sharing the upper half of a tree\<close>

text \<open>The new table \<open>f\<close> has the upper half of the table \<open>kroot\<close> and an empty lower half.\<close>

definition shares_upper :: "tables \<Rightarrow> nat \<Rightarrow> (nat \<Rightarrow> bool) \<Rightarrow> tables \<Rightarrow> nat \<Rightarrow> bool" where
  "shares_upper T kroot owned T' f \<longleftrightarrow>
     \<not> owned f \<and> (\<forall>n j. owned n \<longrightarrow> j < 512 \<longrightarrow> T' n j = T n j)
     \<and> (\<forall>j<256. T' f j = 0) \<and> (\<forall>j. 256 \<le> j \<longrightarrow> j < 512 \<longrightarrow> T' f j = T kroot j)"

lemma shares_upperD:
  assumes "shares_upper T kroot owned T' f"
  shows "\<not> owned f" "owned n \<Longrightarrow> j < 512 \<Longrightarrow> T' n j = T n j" "j < 256 \<Longrightarrow> T' f j = 0"
    "256 \<le> j \<Longrightarrow> j < 512 \<Longrightarrow> T' f j = T kroot j"
  using assms by (simp_all add: shares_upper_def)

lemma shared_tables:
  assumes wf: "pt_wf T kroot owned" and sh: "shares_upper T kroot owned T' f"
  shows "path p \<Longrightarrow> table_at T' f p = (if p = [] then Some f else if hd p < 256 then None else table_at T kroot p)"
proof (induction p rule: rev_induct)
  case (snoc i p)
  then have p: "path p" "i < 512" by (simp_all add: path_snoc)
  show ?case
  proof (cases "p = []")
    case True
    then show ?thesis using p shares_upperD(3,4) [OF sh, of i] by (simp add: table_at_def child_def present_def)
  next
    case False
    have "child T' n i = child T n i" if "table_at T kroot p = Some n" for n
      using pt_wfD(1) [OF wf p(1) that] shares_upperD(2) [OF sh, of n i] p(2) by (simp add: child_def)
    then show ?thesis
      using snoc.IH [OF p(1)] False by (cases "table_at T kroot p") (auto simp: table_at_snoc hd_append)
  qed
qed simp

lemma shared_tree:
  assumes wf: "pt_wf T kroot owned" and sh: "shares_upper T kroot owned T' f"
  shows "pt_wf T' f (owned(f := True))"
    "vpage_ok v \<Longrightarrow> translate T' f v = (if fst v < 256 then None else translate T kroot v)"
proof -
  note at = shared_tables [OF assms] and f = shares_upperD(1) [OF sh] and same = shares_upperD(2) [OF sh]
    and low = shares_upperD(3) [OF sh] and high = shares_upperD(4) [OF sh]
  have not_f: "table_at T kroot p \<noteq> Some f" if "path p" for p using pt_wfD(1) [OF wf that] f by auto
  show "pt_wf T' f (owned(f := True))"
    unfolding pt_wf_def
  proof (intro conjI allI impI)
    fix p n assume "path p" "table_at T' f p = Some n"
    then show "(owned(f := True)) n" using at [of p] pt_wfD(1) [OF wf, of p n] by (auto split: if_splits)
  next
    fix p q n assume pq: "path p" "path q" "table_at T' f p = Some n" "table_at T' f q = Some n"
    then show "p = q"
      using at [of p] at [of q] not_f pt_wfD(2) [OF wf, of p n q] by (auto split: if_splits)
  next
    fix p n i assume p: "path p" "length p \<le> 1" "i < 512" "table_at T' f p = Some n" "present (T' n i)"
    show "\<not> huge (T' n i)"
    proof (cases "p = []")
      case True
      then have n: "n = f" using p(4) by simp
      then have "256 \<le> i" using low [of i] p(5) by (cases "i < 256") (simp_all add: present_def)
      then show ?thesis using n high [of i] p(3,5) pt_wfD(3) [OF wf, of "[]" kroot i] by (simp add: path_def)
    next
      case False
      then have "table_at T kroot p = Some n" using at [OF p(1)] p(4) by (auto split: if_splits)
      then show ?thesis using pt_wfD(1,3) [OF wf p(1)] same p by auto
    qed
  qed
  show "translate T' f v = (if fst v < 256 then None else translate T kroot v)" if "vpage_ok v"
  proof -
    obtain i4 i3 i2 i1 where v: "v = (i4, i3, i2, i1)" by (cases v)
    then have p: "path [i4, i3]" "path [i4, i3, i2]" "i2 < 512" "i1 < 512" using that by (simp_all add: vpage_ok_def path_def)
    have "T' n i = T n i" if "table_at T kroot q = Some n" "path q" "i < 512" for n i q
      using pt_wfD(1) [OF wf that(2,1)] same that(3) by blast
    then show ?thesis
      unfolding v translate_table using at [OF p(1)] at [OF p(2)] p by (auto split: option.splits)
  qed
qed

section \<open>The new top-level table\<close>

definition copied_half :: "nat \<Rightarrow> nat \<Rightarrow> nat \<Rightarrow> 'a pmm_state_scheme \<Rightarrow> memory" where
  "copied_half f kroot k t =
     fold (\<lambda>i m. write64 (pml4_ptr t f + 8 * of_nat i) (read64 m (pml4_ptr t kroot + 8 * of_nat i)) m) [256..<k] (mem t)"

lemma copied_half_Suc:
  "256 \<le> n \<Longrightarrow> copied_half f kroot (Suc n) t =
     write64 (pml4_ptr t f + 8 * of_nat n) (read64 (copied_half f kroot n t) (pml4_ptr t kroot + 8 * of_nat n)) (copied_half f kroot n t)"
  by (simp add: copied_half_def)

lemma copied_half_entries:
  assumes f: "f < 4503599627370496" and k: "kroot < 4503599627370496" "kroot \<noteq> f" and n: "256 \<le> n" "n \<le> 512"
  shows "(\<forall>a. frame_of t a \<noteq> f \<longrightarrow> copied_half f kroot n t a = mem t a)
     \<and> (\<forall>j<512. ptabs (t\<lparr>mem := copied_half f kroot n t\<rparr>) f j = (if 256 \<le> j \<and> j < n then ptabs t kroot j else ptabs t f j))"
  using n
proof (induction n rule: dec_induct)
  case base
  have "t\<lparr>mem := mem t\<rparr> = t" by simp
  then show ?case by (auto simp: copied_half_def)
next
  case (step n)
  let ?m = "copied_half f kroot n t"
  let ?u = "t\<lparr>mem := ?m\<rparr>"
  have n: "n < 512" "256 \<le> n" using step.hyps step.prems by simp_all
  have IH: "?m a = mem t a" if "frame_of t a \<noteq> f" for a using step.IH n that by simp
  have IH': "ptabs ?u f j = (if 256 \<le> j \<and> j < n then ptabs t kroot j else ptabs t f j)" if "j < 512" for j
    using step.IH n that by simp
  have src: "ptabs ?u kroot n = ptabs t kroot n"
    by (rule ptabs_cong [OF k(1) n(1)]) (use IH k(2) in auto)
  have ptr: "pml4_ptr t r + 8 * of_nat n = eaddr ?u r n" for r by (simp add: pml4_ptr_def eaddr_def)
  have "read64 ?m (eaddr ?u kroot n) = ptabs t kroot n"
    using src by (simp add: ptabs_def load_entry_def)
  moreover have "copied_half f kroot (Suc n) t = write64 (eaddr ?u f n) (read64 ?m (eaddr ?u kroot n)) ?m"
    unfolding copied_half_Suc [OF n(2)] ptr ..
  ultimately have eq: "t\<lparr>mem := copied_half f kroot (Suc n) t\<rparr> = put_entry f n (ptabs t kroot n) ?u"
    by (simp add: put_entry_def store_entry_def)
  have "copied_half f kroot (Suc n) t a = mem t a" if a: "frame_of t a \<noteq> f" for a
  proof -
    have "\<not> a - eaddr ?u f n < 8"
    proof
      assume "a - eaddr ?u f n < 8"
      from eaddr_frame [OF f n(1) this, of ?u] show False using a by (simp add: frame_of_def)
    qed
    then have "mem (put_entry f n (ptabs t kroot n) ?u) a = ?m a"
      by (simp add: put_entry_def store_entry_def write64_outside)
    then show ?thesis using arg_cong [OF eq, of mem] IH [OF a] by simp
  qed
  moreover have "ptabs (t\<lparr>mem := copied_half f kroot (Suc n) t\<rparr>) f j =
      (if 256 \<le> j \<and> j < Suc n then ptabs t kroot j else ptabs t f j)" if "j < 512" for j
    unfolding eq put_entry_tabs [OF f n(1) f that] IH' [OF that] using n by auto
  ultimately show ?case by blast
qed

lemma copy_kernel_half_copied: "copy_kernel_half (pml4_ptr t f) (pml4_ptr t kroot) (mem t) = copied_half f kroot 512 t"
  unfolding copy_kernel_half_def copied_half_def ..

text \<open>
  The address space of a new task: nothing is mapped in the lower half, the upper half is the kernel's, and only
  the new table is private.
\<close>

lemma new_space:
  assumes tree: "vmm_tree d kroot s" and fresh: "page_fresh d s f t"
  defines "u \<equiv> t\<lparr>mem := copy_kernel_half (pml4_ptr t f) (pml4_ptr t kroot) (mem t)\<rparr>"
  shows "vmm_tree d f u" "page_view f u v = (if fst v < 256 then None else page_view kroot s v)"
    "root_tables {..<256} f u = {f}" "root_tables UNIV f u \<subseteq> insert f (root_tables UNIV kroot s)"
    "touches {} s u" "pmm_owned u = (pmm_owned s)(f := True)" "free_frames u = free_frames s - {f}"
    "frames_left s = Suc (frames_left u)"
proof -
  have ok: "pmm_ok d s" and wf: "pt_wf (ptabs s) kroot (pmm_owned s)" using vmm_treeD [OF tree] by simp_all
  note own = page_fresh_owned [OF fresh ok] and tabs = page_fresh_tabs [OF fresh ok] and fields = page_fresh_fields [OF fresh]
  have kroot: "pmm_owned s kroot" by (rule pt_wfD(1) [OF wf, of "[]"]) (simp_all add: path_def)
  then have k: "kroot < 4503599627370496" "kroot \<noteq> f" using frames_bound [OF ok] own(2) by (auto simp: pmm_owned_def)
  have copy: "(\<forall>a. frame_of t a \<noteq> f \<longrightarrow> mem u a = mem t a)
      \<and> (\<forall>j<512. ptabs u f j = (if 256 \<le> j \<and> j < 512 then ptabs t kroot j else ptabs t f j))"
    using copied_half_entries [OF own(3) k, of 512 t] by (simp add: u_def copy_kernel_half_copied)
  have ok_t: "pmm_ok d t" using fresh by (simp add: page_fresh_def)
  have own_f: "\<forall>n\<in>{f}. pmm_owned t n" using own(1) by simp
  have u: "u = t\<lparr>mem := mem u\<rparr>" by (simp add: u_def)
  have keep: "\<forall>a. frame_of t a \<notin> {f} \<longrightarrow> mem u a = mem t a" using copy by simp
  note w = touches_write [OF ok_t own_f keep, folded u]
  show po: "pmm_owned u = (pmm_owned s)(f := True)" using w(4) own(1) by simp
  show "free_frames u = free_frames s - {f}" using w(3) fresh by (simp add: page_fresh_def)
  show t0: "touches {} s u"
    by (rule touches_trans [OF page_fresh_touches [OF fresh ok] w(1)]) (use own(2) in auto)
  show "frames_left s = Suc (frames_left u)"
    using page_fresh_left [OF fresh ok] by (simp add: u_def frames_left_def)
  have sh: "shares_upper (ptabs s) kroot (pmm_owned s) (ptabs u) f"
  proof -
    have "ptabs u n j = ptabs s n j" if "pmm_owned s n" "j < 512" for n j
    proof (rule ptabs_cong [OF _ that(2)])
      show "n < 4503599627370496" using that(1) frames_bound [OF ok] by (simp add: pmm_owned_def)
      show "hhdm_offset u = hhdm_offset s" using t0 by (simp add: touches_def)
      show "mem u a = mem s a" if "frame_of s a = n" for a
        using t0 that \<open>pmm_owned s n\<close> by (auto simp: touches_def)
    qed
    moreover have "ptabs u f j = (if 256 \<le> j then ptabs s kroot j else 0)" if "j < 512" for j
      using copy that tabs(1) [OF that] tabs(2) [OF that kroot] by simp
    ultimately show ?thesis using own(2) by (auto simp: shares_upper_def)
  qed
  note shared = shared_tree [OF wf sh] and at = shared_tables [OF wf sh]
  show "vmm_tree d f u"
    using w(2) shared(1) po vmm_treeD(3) [OF tree] t0 by (simp add: vmm_tree_def hhdm_ok_def touches_def)
  show "page_view f u v = (if fst v < 256 then None else page_view kroot s v)"
    using shared(2) [of v] by (simp add: page_view_def)
  show "root_tables {..<256} f u = {f}"
  proof (intro equalityI subsetI)
    fix n assume "n \<in> root_tables {..<256} f u"
    then obtain p where p: "path p" "set (take 1 p) \<subseteq> {..<256}" "table_at (ptabs u) f p = Some n"
      by (auto simp: root_tables_def)
    have "p = [] \<or> hd p < 256" using p(2) by (cases p) simp_all
    then show "n \<in> {f}" using at [OF p(1)] p(3) by (auto split: if_splits)
  next
    fix n assume "n \<in> {f}"
    then show "n \<in> root_tables {..<256} f u" by (auto simp: root_tables_def path_def intro!: exI [of _ "[]"])
  qed
  show "root_tables UNIV f u \<subseteq> insert f (root_tables UNIV kroot s)"
    unfolding root_tables_def using at by (auto split: if_splits)
qed

end
