(* ===== verification/Elf_Success.thy ===== *)
theory Elf_Success
  imports Task_Space
begin

text \<open>
  When \<open>load_elf\<close> succeeds: a large enough run of free frames still has the runs the segments need after the
  frames for the earlier segments and for page tables are gone.
\<close>

section \<open>Runs that survive\<close>

lemma run_survives:
  assumes sub: "{r..<r + L} \<subseteq> A" and B: "B \<subseteq> A" "finite A" and count: "card A \<le> card B + M"
    and L: "Suc M * n \<le> L" and n: "0 < n"
  shows "\<exists>q. {q..<q + n} \<subseteq> (B :: nat set)"
proof (rule ccontr)
  assume "\<nexists>q. {q..<q + n} \<subseteq> B"
  then have "\<forall>k. \<exists>x. x \<in> {r + k * n..<r + k * n + n} \<and> x \<notin> B" by blast
  then obtain g where g: "\<And>k. g k \<in> {r + k * n..<r + k * n + n}" "\<And>k. g k \<notin> B" by metis
  have "(g k - r) div n = k" for k
  proof -
    have "g k - r = k * n + (g k - r - k * n)" "g k - r - k * n < n" using g(1) [of k] by auto
    then show ?thesis using n by (metis add.commute div_less div_mult_self1 add_0 less_not_refl)
  qed
  then have inj: "inj_on g {..M}" by (metis inj_onI)
  have "g k \<in> A - B" if "k \<le> M" for k
  proof -
    have "k * n + n \<le> Suc M * n" using that by (metis add.commute mult_Suc mult_le_mono1 Suc_le_mono)
    then have "k * n + n \<le> L" using L by (rule le_trans)
    then have "g k \<in> {r..<r + L}" using g(1) [of k] by simp
    then show ?thesis using sub g(2) by blast
  qed
  then have "g ` {..M} \<subseteq> A - B" by blast
  then have "card (g ` {..M}) \<le> card (A - B)" by (rule card_mono [OF finite_Diff [OF B(2)]])
  moreover have "card (A - B) = card A - card B" using B by (simp add: card_Diff_subset finite_subset)
  ultimately show False using inj count by (simp add: card_image)
qed

lemma touches_free:
  assumes "touches G s t" and ok: "pmm_ok d t"
  shows "free_frames t \<subseteq> free_frames s"
proof
  fix n assume n: "n \<in> free_frames t"
  have "bitmap_frame_list t = bitmap_frame_list s"
    using assms(1) by (simp add: touches_def bitmap_frame_list_def bitmap_phys_def)
  then have "n < frames s" "n \<notin> set (bitmap_frame_list s)"
    using free_not_bitmap [OF ok n] assms(1) by (simp_all add: touches_def)
  moreover have "\<not> pmm_owned s n" using n assms(1) by (auto simp: touches_def pmm_owned_def)
  ultimately show "n \<in> free_frames s" by (auto simp: pmm_owned_def)
qed

lemma run_after:
  assumes ok: "pmm_ok d s" "pmm_ok d t" and touch: "touches G s t" and run: "{r..<r + L} \<subseteq> free_frames s"
    and left: "frames_left s \<le> M + frames_left t" and L: "Suc M * n \<le> L" and n: "0 < n"
  shows "\<exists>q. {q..<q + n} \<subseteq> free_frames t"
proof -
  have "card (free_frames s) \<le> card (free_frames t) + M"
    using ok left by (simp add: pmm_ok_def pmm_inv_def frames_left_def)
  then show ?thesis using run_survives [OF run touches_free [OF touch ok(2)] finite_free_frames _ L n] by blast
qed

section \<open>Pages of the lower half\<close>

text \<open>Below 2^48 the four indices are the digits of the page number in base 512.\<close>

lemma index_digit: "unat (drop_bit k a AND 0x1FF :: u64) = unat a div 2 ^ k mod 512"
proof -
  have "(0x1FF :: u64) = mask 9" by (simp add: mask_eq_exp_minus_1)
  then have "unat (drop_bit k a AND 0x1FF) = unat (take_bit 9 (drop_bit k a))" by (simp add: take_bit_eq_mask)
  also have "\<dots> = take_bit 9 (drop_bit k (take_bit 64 (unat a)))" by (simp only: unsigned_take_bit_eq unsigned_drop_bit_eq) simp
  also have "take_bit 64 (unat a) = unat a" using unsigned_less [of a, where 'a = nat] by (simp add: take_bit_nat_eq_self)
  finally show ?thesis by (simp add: take_bit_eq_mod drop_bit_eq_div)
qed

definition page_digits :: "nat \<Rightarrow> vpage" where
  "page_digits x = (x div 512 div 512 div 512, x div 512 div 512 mod 512, x div 512 mod 512, x mod 512)"

lemma page_digits_inj: "page_digits x = page_digits y \<Longrightarrow> x = y"
  unfolding page_digits_def prod.inject by (metis div_mult_mod_eq)

lemma vpage_of_digits:
  assumes "unat a < 2 ^ 48"
  shows "vpage_of a = page_digits (unat a div 4096)"
proof -
  have "unat a div 2 ^ 39 < 512" using assms by simp
  then show ?thesis
    by (simp add: vpage_of_def page_digits_def PML4_INDEX_def PDP_INDEX_def PD_INDEX_def PT_INDEX_def index_digit
        div_mult2_eq [symmetric])
qed

lemma page_at_digits:
  assumes "unat virt + n * 4096 \<le> 2 ^ 47" and "i < n"
  shows "page_at virt i = page_digits (unat virt div 4096 + i)" "fst (page_at virt i) < 256"
proof -
  have le: "unat virt + (i * 4096 + 4096) \<le> 2 ^ 47" using assms by simp
  have "unat (of_nat (i * 4096) :: u64) = i * 4096" by (rule unat_of_nat_small) (use le in simp)
  then have u: "unat (virt + of_nat i * PAGE_SIZE) = unat virt + i * 4096"
    using le unat_add_small [of virt "of_nat (i * 4096)"] by simp
  then show p: "page_at virt i = page_digits (unat virt div 4096 + i)"
    unfolding page_at_def using vpage_of_digits [of "virt + of_nat i * PAGE_SIZE"] le by (simp add: add.commute)
  have "unat virt div 4096 + i < 2 ^ 35" using le by simp
  then show "fst (page_at virt i) < 256" unfolding p page_digits_def by simp
qed

section \<open>Loading succeeds\<close>

text \<open>The segment is not empty and lies below the stack of the task.\<close>

definition segment_low :: "Elf64_Phdr \<Rightarrow> bool" where
  "segment_low ph \<longleftrightarrow> 0 < unat (segment_count ph)
     \<and> unat (segment_start ph) + unat (segment_count ph) * 4096 \<le> 0x7FFFFFFF0000"

lemma segment_low_pages:
  assumes "segment_low ph"
  shows "inj_on (page_at (segment_start ph)) {..<unat (segment_count ph)}" "v \<in> segment_page_set ph \<Longrightarrow> fst v < 256"
    "v \<in> segment_page_set ph \<Longrightarrow> \<exists>x<0x7FFFFFFF0. v = page_digits x"
proof -
  have le: "unat (segment_start ph) + unat (segment_count ph) * 4096 \<le> 2 ^ 47" using assms by (simp add: segment_low_def)
  note digits = page_at_digits [OF le]
  show "inj_on (page_at (segment_start ph)) {..<unat (segment_count ph)}"
  proof (rule inj_onI)
    fix i j assume "i \<in> {..<unat (segment_count ph)}" "j \<in> {..<unat (segment_count ph)}"
      "page_at (segment_start ph) i = page_at (segment_start ph) j"
    then have "page_digits (unat (segment_start ph) div 4096 + i) = page_digits (unat (segment_start ph) div 4096 + j)"
      by (simp add: digits(1))
    then show "i = j" using page_digits_inj by fastforce
  qed
  show "fst v < 256" "\<exists>x<0x7FFFFFFF0. v = page_digits x" if v: "v \<in> segment_page_set ph"
  proof -
    obtain i where i: "i < unat (segment_count ph)" "v = page_at (segment_start ph) i" using v by (auto simp: segment_page_set_def)
    then show "fst v < 256" using digits(2) by simp
    have "unat (segment_start ph) + (i * 4096 + 4096) \<le> 0x7FFFFFFF0000" using assms i(1) by (simp add: segment_low_def)
    then have "unat (segment_start ph) div 4096 + i < 0x7FFFFFFF0" by simp
    then show "\<exists>x<0x7FFFFFFF0. v = page_digits x" using i digits(1) by blast
  qed
qed

lemma disjoint_segments_middle:
  "disjoint_segments (xs @ y # ys) \<Longrightarrow> segment_page_set y \<inter> \<Union> (segment_page_set ` set xs) = {}"
  by (induction xs) auto

definition pages_needed :: "Elf64_Phdr list \<Rightarrow> nat" where
  "pages_needed phs = (\<Sum>ph\<leftarrow>phs. unat (segment_count ph))"

text \<open>A run of \<open>L\<close> free frames that the counter knows of.\<close>

definition free_run_of :: "nat \<Rightarrow> 'a pmm_state_scheme \<Rightarrow> bool" where
  "free_run_of L s \<longleftrightarrow> L \<le> frames_left s \<and> (\<exists>r. {r..<r + L} \<subseteq> free_frames s)"

lemma segments_do_not_fail:
  assumes ok: "pmm_ok d s" and room: "free_run_of L s" and L: "(4 * pages_needed phs + 1) * pages_needed phs \<le> L"
    and low: "\<forall>ph\<in>set phs. segment_low ph \<and> (\<forall>v\<in>segment_page_set ph. page_view root s v = None)"
    and disj: "disjoint_segments phs" 
  shows "\<not> segments_failed d P I root s p phs s'"
proof
  assume "segments_failed d P I root s p phs s'"
  then obtain ready ph rest t where phs: "phs = ready @ ph # rest" and placed: "segments_placed P I root s p ready t"
    and kept: "frames_kept I root s t" and tree: "vmm_tree d root t" and failed: "segment_failed root t ph s'"
    unfolding segments_failed_def by blast
  define n K where "n = unat (segment_count ph)" and "K = pages_needed ready"
  have ph: "segment_low ph" and none: "\<forall>v\<in>segment_page_set ph. page_view root s v = None" using low phs by auto
  have n: "0 < n" using ph by (simp add: segment_low_def n_def)
  have N: "K + n \<le> pages_needed phs" by (simp add: phs pages_needed_def K_def n_def)
  have "(4 * K + 1) * n \<le> (4 * pages_needed phs + 1) * pages_needed phs" by (rule mult_le_mono) (use N in simp_all)
  then have Ln: "Suc (4 * K) * n \<le> L" using L by simp
  have "5 * pages_needed phs \<le> (4 * pages_needed phs + 1) * pages_needed phs" using N n by (intro mult_le_mono1) simp
  then have "5 * pages_needed phs \<le> L" using L by (rule le_trans)
  then have L5: "5 * (K + n) \<le> L" using mult_le_mono2 [OF N, of 5] by simp
  have left: "frames_left s \<le> 4 * K + frames_left t" using placed by (simp add: segments_placed_def K_def pages_needed_def)
  then have many: "n + 3 * Suc j \<le> frames_left t" if "j < n" for j
    using that L5 room unfolding free_run_of_def by simp
  obtain r where r: "{r..<r + L} \<subseteq> free_frames s" using room by (auto simp: free_run_of_def)
  have "\<exists>q. {q..<q + n} \<subseteq> free_frames t"
    by (rule run_after [OF ok vmm_treeD(1) [OF tree] frames_kept_touches [OF kept] r left Ln n])
  then have run: "\<not> no_run t n" using n many [of 0] unfolding no_run_def by auto
  have view: "page_view root t v = None" if "v \<in> segment_page_set ph" for v
  proof -
    have "v \<notin> \<Union> (segment_page_set ` set ready)" using disjoint_segments_middle disj that unfolding phs by blast
    then have "page_view root t v = page_view root s v" using placed unfolding segments_placed_def by blast
    then show ?thesis using none that by simp
  qed
  have "page_view root s' (page_at (segment_start ph) j) = None"
    if j: "j < n" and "range_added (segment_start ph) q e 0 j (page_view root t) (page_view root s')" for j q e
  proof -
    have "page_at (segment_start ph) j \<notin> page_at (segment_start ph) ` {0..<j}"
      using segment_low_pages(1) [OF ph] j unfolding n_def by (auto dest: inj_onD)
    then have "page_view root s' (page_at (segment_start ph) j) = page_view root t (page_at (segment_start ph) j)"
      using that unfolding range_added_def by blast
    then show ?thesis using view j by (simp add: segment_page_set_def n_def)
  qed
  then show False using failed run many unfolding segment_failed_def n_def [symmetric] by (metis not_le)
qed

end
