(* ===== verification/Task_Creation.thy ===== *)
theory Task_Creation
  imports Elf_Success
begin

text \<open>
  \<open>task_create_from_elf\<close> as a whole: with enough memory it builds a task whose address space has the segments of the
  file, a stack and the kernel's upper half, and whose saved context starts the program.
\<close>

section \<open>Allocations that succeed\<close>

lemma alloc_page:
  assumes ok: "pmm_ok d s" and left: "0 < frames_left s"
  shows "\<exists>f t. pmm_alloc_zeroed s = Some (of_nat (f * 4096), t) \<and> page_fresh d s f t"
  using pmm_alloc_zeroed_page [OF ok] none_left [OF ok] left by auto

lemma alloc_frames:
  assumes ok: "pmm_ok d s" and n: "0 < unat count" "unat count \<le> frames_left s" and run: "{q..<q + unat count} \<subseteq> free_frames s"
  shows "\<exists>r t. pmm_alloc_frames_zeroed count s = Some (of_nat (r * 4096), t) \<and> run_allocated d s r (unat count) t"
proof -
  have "\<not> no_run s (unat count)" using n run by (auto simp: no_run_def)
  then show ?thesis using alloc_run [OF ok, of count] unfolding run_allocated_def by blast
qed

section \<open>Writing inside a run of frames\<close>

text \<open>The address where the frames from \<open>f\<close> on start.\<close>

definition frame_base :: "'a pmm_state_scheme \<Rightarrow> nat \<Rightarrow> u64" where
  "frame_base s f = of_nat (f * 4096) + hhdm_offset s"

lemma frame_of_base:
  assumes "f + n \<le> 4503599627370496" and "unat (a - frame_base s f) < n * 4096"
  shows "frame_of s a \<in> {f..<f + n}"
proof -
  define x where "x = unat (a - frame_base s f)"
  have "a = of_nat (f * 4096 + x) + hhdm_offset s" by (simp add: x_def frame_base_def)
  moreover have "f * 4096 + x < 18446744073709551616" using assms by (simp add: x_def)
  ultimately have "frame_of s a = (f * 4096 + x) div 4096" by (simp only: frame_of_phys)
  moreover have "x div 4096 < n" using assms(2) by (simp add: x_def less_mult_imp_div_less)
  ultimately show ?thesis by simp
qed

lemma frame_offset:
  assumes "f + n \<le> 4503599627370496" and "frame_of s a \<notin> {f..<f + n}" and "unat off + unat k \<le> n * 4096"
  shows "k \<le> a - (frame_base s f + off)"
proof (rule ccontr)
  define y where "y = a - (frame_base s f + off)"
  assume "\<not> k \<le> a - (frame_base s f + off)"
  then have y: "unat y < unat k" by (simp add: y_def word_le_unat)
  have "a - frame_base s f = off + y" by (simp add: y_def)
  moreover have "unat (off + y) \<le> unat off + unat y" by (simp add: unat_word_ariths)
  ultimately have "unat (a - frame_base s f) < n * 4096" using y assms(3) by simp
  then show False using frame_of_base [OF assms(1)] assms(2) by blast
qed

lemma in_frames_write:
  assumes "f + n \<le> 4503599627370496" and "frame_of s a \<notin> {f..<f + n}"
  shows "unat off + 8 \<le> n * 4096 \<Longrightarrow> write64 (frame_base s f + off) v m a = m a"
    "unat off + 4 \<le> n * 4096 \<Longrightarrow> write32 (frame_base s f + off) w m a = m a"
    "unat off + unat k \<le> n * 4096 \<Longrightarrow> memset (frame_base s f + off) c k m a = m a"
  using frame_offset [OF assms, of off 8] frame_offset [OF assms, of off 4] frame_offset [OF assms, of off k]
  by (auto simp: write64_outside write32_outside memset_apply word_le_unat word_less_unat)

lemma task_setters_frame:
  assumes "f < 4503599627370496" and "frame_of s a \<noteq> f"
  shows "set_ctx (frame_base s f) v m a = m a" "set_pml4_phys (frame_base s f) v m a = m a"
    "set_kernel_stack (frame_base s f) v m a = m a" "set_pid (frame_base s f) w m a = m a"
proof -
  have f: "f + 1 \<le> 4503599627370496" "frame_of s a \<notin> {f..<f + 1}" using assms by auto
  note wr = in_frames_write [OF f]
  show "set_ctx (frame_base s f) v m a = m a" "set_pml4_phys (frame_base s f) v m a = m a"
    "set_kernel_stack (frame_base s f) v m a = m a" "set_pid (frame_base s f) w m a = m a"
    using wr(1) [of 0 v m] by (simp_all add: task_setters wr)
qed

section \<open>The first context\<close>

text \<open>What the first switch to the task pops: the program's entry in ring 3 with interrupts enabled.\<close>

definition first_context :: "u64 \<Rightarrow> cpu_context_t" where
  "first_context entry = \<lparr>c_r15 = 0, c_r14 = 0, c_r13 = 0, c_r12 = 0, c_r11 = 0, c_r10 = 0, c_r9 = 0, c_r8 = 0, c_rbp = 0,
     c_rdi = 0, c_rsi = 0, c_rdx = 0, c_rcx = 0, c_rbx = 0, c_rax = 0, c_rip = entry, c_cs = 0x23, c_rflags = 0x202,
     c_rsp = USER_STACK_VADDR + USER_STACK_PAGES * 4096, c_ss = 0x1B\<rparr>"

lemma read64_cleared:
  assumes "k \<le> 152"
  shows "read64 (memset p 0 160 m) (p + k) = 0"
proof -
  have "memset p 0 160 m (p + k + i) = 0" if "i < 8" for i
  proof -
    have "k + i < 160" using assms that by (simp add: word_less_unat word_le_unat unat_add_small)
    then show ?thesis by (simp add: memset_apply add.assoc)
  qed
  then have "read64 (memset p 0 160 m) (p + k) = read64 (\<lambda>_. 0) (p + k)" by (intro read64_cong) simp
  also have "\<dots> = 0" by (simp add: read64_def le_word_def upt_rec)
  finally show ?thesis .
qed

lemma load_init_context: "load_context (init_context p entry m) p = first_context entry"
  using read64_write64_other [of p "p + 120"] read64_write64_other [of p "p + 128"] read64_write64_other [of p "p + 136"]
    read64_write64_other [of p "p + 144"] read64_write64_other [of p "p + 152"] read64_cleared [of 0 p m]
  by (simp add: load_context_def init_context_def first_context_def Let_def read64_write64_same read64_write64_other read64_cleared)

lemma init_context_frame:
  assumes "f + n \<le> 4503599627370496" and "frame_of s a \<notin> {f..<f + n}" and "unat off + 160 \<le> n * 4096"
  shows "init_context (frame_base s f + off) entry m a = m a"
proof -
  note off = frame_offset [OF assms(1,2), of off 160]
  have le: "160 \<le> a - (frame_base s f + off)" using off assms(3) by simp
  have "8 \<le> a - (frame_base s f + off + k)" if "k \<le> 152" for k
  proof -
    define y where "y = a - (frame_base s f + off)"
    have "unat (y - k) = unat y - unat k" using le that by (simp add: y_def unat_diff_small word_le_unat)
    moreover have "unat (a - (frame_base s f + off + k)) = unat (y - k)" by (simp add: y_def algebra_simps)
    moreover have "160 \<le> unat y" "unat k \<le> 152" using le that by (simp_all add: y_def word_le_unat)
    ultimately show ?thesis unfolding word_le_unat by simp
  qed
  then show ?thesis
    using le by (simp add: init_context_def Let_def write64_outside memset_apply word_le_unat word_less_unat)
qed

section \<open>Growing an address space\<close>

lemma tables_owned: "vmm_tree d root s \<Longrightarrow> root_tables I root s \<subseteq> {n. pmm_owned s n}"
  using pt_wfD(1) [OF vmm_treeD(2)] by (auto simp: root_tables_def)

text \<open>
  Of the frames in use only those in \<open>F\<close> and the tables below the entries \<open>I\<close> have been written, and new tables are
  frames that were free.
\<close>

definition grows :: "nat set \<Rightarrow> nat set \<Rightarrow> nat \<Rightarrow> 'a pmm_state_scheme \<Rightarrow> 'a pmm_state_scheme \<Rightarrow> bool" where
  "grows F I root s s' \<longleftrightarrow> touches (F \<union> root_tables I root s) s s'
     \<and> (\<forall>J. root_tables J root s' \<subseteq> root_tables J root s \<union> {n. \<not> pmm_owned s n})"

lemma grows_trans:
  assumes st: "grows F I root s t" and tu: "grows G I root t u" and F: "\<forall>n\<in>G. pmm_owned s n \<longrightarrow> n \<in> F"
  shows "grows F I root s u"
proof -
  note s = st [unfolded grows_def] and t = tu [unfolded grows_def]
  have own: "pmm_owned s n \<Longrightarrow> pmm_owned t n" for n using s by (simp add: touches_def)
  have "touches (F \<union> root_tables I root s) s u"
    by (rule touches_trans [OF conjunct1 [OF s] conjunct1 [OF t]]) (use F s in auto)
  moreover have "root_tables J root u \<subseteq> root_tables J root s \<union> {n. \<not> pmm_owned s n}" for J
    using s t own by fast
  ultimately show ?thesis unfolding grows_def by blast
qed

lemma grows_frames_kept: "frames_kept I root s t \<Longrightarrow> grows {} I root s t"
  using frames_kept_touches unfolding grows_def frames_kept_def by (metis Un_empty_left)

lemma grows_elsewhere:
  assumes "vmm_tree d root s" and "touches G s s'" and "pmm_ok d' s'" and "root_tables UNIV root s \<inter> G = {}"
  shows "grows G I root s s'"
proof -
  have "touches (G \<union> root_tables I root s) s s'" using assms(2) unfolding touches_def by blast
  then show ?thesis using touches_tree(3) [OF assms] unfolding grows_def by blast
qed

text \<open>What is in use and no table keeps its contents and stays so.\<close>

lemma grows_held:
  assumes "grows F I root s t" and "held I root s a" and "frame_of s a \<notin> F"
  shows "held I root t a \<and> mem t a = mem s a"
proof -
  have "frame_of t a = frame_of s a" using touches_frame_of assms(1) unfolding grows_def by metis
  then show ?thesis using assms unfolding grows_def held_def touches_def by auto
qed

section \<open>The steps of \<open>task_create_from_elf\<close>\<close>

definition numbered :: "u64 \<Rightarrow> kernel \<Rightarrow> kernel" where
  "numbered task s = s\<lparr>mem := set_pid task (next_pid s) (mem s), next_pid := next_pid s + 1\<rparr>"

definition with_space :: "u64 \<Rightarrow> u64 \<Rightarrow> kernel \<Rightarrow> kernel" where
  "with_space task phys s = s\<lparr>mem := set_pml4_phys task phys
     (copy_kernel_half (phys_to_virt s phys) (phys_to_virt s (kernel_pml4_phys s)) (mem s))\<rparr>"

definition with_context :: "u64 \<Rightarrow> u64 \<Rightarrow> u64 \<Rightarrow> kernel \<Rightarrow> kernel" where
  "with_context task phys entry s =
     (let ctx = phys_to_virt s phys + 0xFF60
      in s\<lparr>mem := set_ctx task ctx (init_context ctx entry (set_kernel_stack task (phys_to_virt s phys) (mem s)))\<rparr>)"

lemma task_create_steps:
  assumes "pmm_alloc_zeroed s = Some (p1, s1)" and "task = phys_to_virt s1 p1"
    and "pmm_alloc_zeroed (numbered task s1) = Some (p2, s2)"
    and "load_elf elf_data (phys_to_virt s2 p2) (with_space task p2 s2) = Some ((True, Some entry), s3)"
    and "pmm_alloc_frames_zeroed 8 s3 = Some (p3, s4)"
    and "vmm_map_range_for_pml4 (phys_to_virt s2 p2) 0x7FFFFFFF0000 p3 8 (PTE_PRESENT OR PTE_WRITE OR PTE_USER OR PTE_NX) s4 = Some (b, s5)"
    and "pmm_alloc_frames_zeroed 16 s5 = Some (p4, s6)"
  shows "task_create_from_elf elf_data s = Some (task, with_context task p4 entry s6)"
proof -
  have "(16 * 4096 div 4096 :: u64) = 16" by (simp add: word_unat_eq_iff unat_div_u64)
  then show ?thesis
    using assms unfolding task_create_from_elf_def
    by (simp only:) (simp add: numbered_def with_space_def with_context_def Let_def task_kernel_stack_def
        set_kernel_stack_def read64_write64_same add.commute)
qed

lemma observers_next_pid [simp]:
  "pmm_owned (s\<lparr>next_pid := x\<rparr>) = pmm_owned s" "free_frames (s\<lparr>next_pid := x\<rparr>) = free_frames s"
  "pmm_ok d (s\<lparr>next_pid := x\<rparr>) = pmm_ok d s" "frames_left (s\<lparr>next_pid := x\<rparr>) = frames_left s"
  "frame_of (s\<lparr>next_pid := x\<rparr>) = frame_of s" "touches G s (s\<lparr>next_pid := x\<rparr>)"
  "touches G t (s\<lparr>next_pid := x\<rparr>) = touches G t s"
proof -
  have test: "pmm_test_frame (s\<lparr>next_pid := x\<rparr>) = pmm_test_frame s" by (simp add: pmm_test_frame_def bitmap_byte_def fun_eq_iff)
  show fr: "free_frames (s\<lparr>next_pid := x\<rparr>) = free_frames s" by (simp add: free_frames_def test)
  have bl: "bitmap_frame_list (s\<lparr>next_pid := x\<rparr>) = bitmap_frame_list s" by (simp add: bitmap_frame_list_def bitmap_phys_def)
  show own: "pmm_owned (s\<lparr>next_pid := x\<rparr>) = pmm_owned s" by (simp add: pmm_owned_def fr bl fun_eq_iff)
  show "pmm_ok d (s\<lparr>next_pid := x\<rparr>) = pmm_ok d s"
    by (simp add: pmm_ok_def pmm_inv_def pmm_wf_def pmm_layout_def fr bl test bitmap_phys_def)
  show "frames_left (s\<lparr>next_pid := x\<rparr>) = frames_left s" by (simp add: frames_left_def)
  show "frame_of (s\<lparr>next_pid := x\<rparr>) = frame_of s" by (simp add: frame_of_def fun_eq_iff)
  show "touches G s (s\<lparr>next_pid := x\<rparr>)" "touches G t (s\<lparr>next_pid := x\<rparr>) = touches G t s"
    by (simp_all add: touches_def own)
qed

lemma more_field_updates:
  "task_pid (set_pid t w m) t = w" "task_state (set_pid t w m) t = task_state m t" "task_next (set_pid t w m) t = task_next m t"
  "task_pml4_phys (set_pml4_phys t v m) t = v" "task_pid (set_pml4_phys t v m) t = task_pid m t"
  "task_state (set_pml4_phys t v m) t = task_state m t" "task_next (set_pml4_phys t v m) t = task_next m t"
  "task_kernel_stack (set_kernel_stack t v m) t = v" "task_pid (set_kernel_stack t v m) t = task_pid m t"
  "task_state (set_kernel_stack t v m) t = task_state m t" "task_next (set_kernel_stack t v m) t = task_next m t"
  "task_pml4_phys (set_kernel_stack t v m) t = task_pml4_phys m t"
  by (simp_all add: task_fields task_setters read64_write64_same read32_write32_same read64_write64_other
      read64_write32_other read32_write64_other read32_write32_other)

lemma frame_task:
  assumes "f < 4503599627370496" and "i < 40"
  shows "frame_of s (frame_base s f + i) = f"
proof -
  have "frame_of s (frame_base s f + i) \<in> {f..<f + 1}"
    by (rule frame_of_base) (use assms in \<open>simp_all add: word_less_unat\<close>)
  then show ?thesis by simp
qed

lemma kept_task:
  assumes "f < 4503599627370496" and "\<forall>a. frame_of s a = f \<longrightarrow> m a = m' a"
  shows "same_task m m' (frame_base s f)"
  using assms(2) frame_task [OF assms(1), of _ s] unfolding same_task_def by blast

lemma cleared_task:
  assumes "same_task m (\<lambda>_. 0) t"
  shows "task_state m t = state_code TASK_READY" "task_next m t = 0"
  using same_task_fields [OF assms] by (simp_all add: task_fields state_code_def read64_def read32_def le_word_def upt_rec)

section \<open>The task and its empty address space\<close>

definition task_opened :: "nat \<Rightarrow> nat \<Rightarrow> kernel \<Rightarrow> nat \<Rightarrow> nat \<Rightarrow> kernel \<Rightarrow> bool" where
  "task_opened d kroot s f g w \<longleftrightarrow>
     0 < f \<and> f \<noteq> g \<and> pmm_owned w = (pmm_owned s)(f := True, g := True) \<and> \<not> pmm_owned s f \<and> \<not> pmm_owned s g
     \<and> frames_left s = 2 + frames_left w \<and> touches {} s w \<and> vmm_tree d g w
     \<and> (\<forall>v. page_view g w v = (if fst v < 256 then None else page_view kroot s v))
     \<and> root_tables {..<256} g w = {g} \<and> f \<notin> root_tables UNIV g w
     \<and> task_pid (mem w) (frame_base s f) = next_pid s \<and> task_pml4_phys (mem w) (frame_base s f) = of_nat (g * 4096)
     \<and> task_state (mem w) (frame_base s f) = state_code TASK_READY \<and> task_next (mem w) (frame_base s f) = 0"

lemma task_openedD:
  assumes "task_opened d kroot s f g w"
  shows "0 < f" "f \<noteq> g" "pmm_owned w = (pmm_owned s)(f := True, g := True)" "\<not> pmm_owned s f" "\<not> pmm_owned s g"
    "frames_left s = 2 + frames_left w" "touches {} s w" "vmm_tree d g w"
    "\<forall>v. page_view g w v = (if fst v < 256 then None else page_view kroot s v)"
    "root_tables {..<256} g w = {g}" "f \<notin> root_tables UNIV g w"
  using assms unfolding task_opened_def by blast+

lemma alloc_numbered:
  assumes tree: "kernel_tree d kroot s" and left: "0 < frames_left s"
  shows "\<exists>f t. pmm_alloc_zeroed s = Some (of_nat (f * 4096), t) \<and> hhdm_offset t = hhdm_offset s
     \<and> (let n = numbered (frame_base s f) t in
          0 < f \<and> pmm_owned n = (pmm_owned s)(f := True) \<and> \<not> pmm_owned s f \<and> frames_left s = Suc (frames_left n) \<and> touches {} s n
          \<and> kernel_tree d kroot n \<and> page_view kroot n = page_view kroot s \<and> root_tables UNIV kroot n = root_tables UNIV kroot s
          \<and> task_pid (mem n) (frame_base s f) = next_pid s
          \<and> task_state (mem n) (frame_base s f) = state_code TASK_READY \<and> task_next (mem n) (frame_base s f) = 0)"
proof -
  have vt: "vmm_tree d kroot s" and kr: "kernel_pml4_phys s = of_nat (kroot * 4096)" using tree by (simp_all add: kernel_tree_def)
  note ok = vmm_treeD(1) [OF vt]
  obtain f t where al: "pmm_alloc_zeroed s = Some (of_nat (f * 4096), t)" and fresh: "page_fresh d s f t"
    using alloc_page [OF ok left] by blast
  note own = page_fresh_owned [OF fresh ok] and fields = page_fresh_fields [OF fresh]
  have ext: "next_pid t = next_pid s" "kernel_pml4_phys t = kernel_pml4_phys s" using fresh by (auto simp: page_fresh_def)
  have base: "frame_base s f = frame_base t f" by (simp add: frame_base_def fields)
  define task where "task = frame_base t f"
  define m where "m = set_pid task (next_pid t) (mem t)"
  have okt: "pmm_ok d t" using fresh by (simp add: page_fresh_def)
  have f: "\<forall>k\<in>{f}. pmm_owned t k" using own(1) by simp
  have "\<forall>a. frame_of t a \<notin> {f} \<longrightarrow> m a = mem t a" using task_setters_frame(4) [OF own(3), of t] by (simp add: m_def task_def)
  note w = touches_write [OF okt f this]
  define n where "n = numbered task t"
  have n: "n = t\<lparr>mem := m\<rparr>\<lparr>next_pid := next_pid t + 1\<rparr>" by (simp add: n_def numbered_def m_def)
  have tn: "touches {} s n" unfolding n observers_next_pid
    by (rule touches_trans [OF page_fresh_touches [OF fresh ok] w(1)]) (use own in simp)
  have okn: "pmm_ok d n" using w(2) by (simp add: n)
  note kt = touches_tree [OF vt tn okn]
  have ktree: "kernel_tree d kroot n" using kt(1) kr ext by (simp add: kernel_tree_def n)
  have zero: "same_task (mem t) (\<lambda>_. 0) task" unfolding task_def
  proof (rule kept_task [OF own(3)], intro allI impI)
    fix a assume "frame_of t a = f"
    then have a: "frame_of s a = f" by (simp add: frame_of_def fields)
    have "\<not> in_bitmap s a" using bitmap_not_free [OF ok, of a] fresh a by (auto simp: page_fresh_def)
    then show "mem t a = 0" using fresh a by (simp add: page_fresh_def)
  qed
  have "task_pid (mem n) task = next_pid s \<and> task_state (mem n) task = state_code TASK_READY \<and> task_next (mem n) task = 0"
    using cleared_task [OF zero] by (simp add: n m_def more_field_updates ext)
  moreover have "frames_left s = Suc (frames_left n)" using page_fresh_left [OF fresh ok] by (simp add: n frames_left_def)
  moreover have "pmm_owned n = (pmm_owned s)(f := True)" using w(4) own(1) by (simp add: n)
  moreover have "0 < f" using fresh by (simp add: page_fresh_def)
  ultimately show ?thesis
    using al fields own(2) tn ktree kt(2) kt(3) [where I = UNIV] unfolding base
    by (intro exI [of _ f] exI [of _ t]) (simp add: Let_def task_def n_def base)
qed

lemma open_task:
  assumes tree: "kernel_tree d kroot s" and left: "1 < frames_left s"
  shows "\<exists>f g s1 s2 w. pmm_alloc_zeroed s = Some (of_nat (f * 4096), s1) \<and> frame_base s f = phys_to_virt s1 (of_nat (f * 4096))
     \<and> pmm_alloc_zeroed (numbered (frame_base s f) s1) = Some (of_nat (g * 4096), s2)
     \<and> w = with_space (frame_base s f) (of_nat (g * 4096)) s2 \<and> phys_to_virt s2 (of_nat (g * 4096)) = pml4_ptr w g
     \<and> task_opened d kroot s f g w"
proof -
  obtain f s1 n where al: "pmm_alloc_zeroed s = Some (of_nat (f * 4096), s1)" "hhdm_offset s1 = hhdm_offset s"
    and n: "n = numbered (frame_base s f) s1" and f: "0 < f" "pmm_owned n = (pmm_owned s)(f := True)" "\<not> pmm_owned s f"
      "frames_left s = Suc (frames_left n)" "touches {} s n" "kernel_tree d kroot n"
      "page_view kroot n = page_view kroot s" "root_tables UNIV kroot n = root_tables UNIV kroot s"
    and fields: "task_pid (mem n) (frame_base s f) = next_pid s"
      "task_state (mem n) (frame_base s f) = state_code TASK_READY" "task_next (mem n) (frame_base s f) = 0"
    using alloc_numbered [OF tree] left unfolding Let_def by fastforce
  have vt: "vmm_tree d kroot n" "kernel_pml4_phys n = of_nat (kroot * 4096)" using f(6) by (simp_all add: kernel_tree_def)
  note ok = vmm_treeD(1) [OF vt(1)]
  obtain g s2 where al2: "pmm_alloc_zeroed n = Some (of_nat (g * 4096), s2)" and fresh: "page_fresh d n g s2"
    using alloc_page [OF ok] left f(4) by fastforce
  define u where "u = s2\<lparr>mem := copy_kernel_half (pml4_ptr s2 g) (pml4_ptr s2 kroot) (mem s2)\<rparr>"
  note sp = new_space [OF vt(1) fresh, folded u_def]
  define w where "w = with_space (frame_base s f) (of_nat (g * 4096)) s2"
  have off: "hhdm_offset u = hhdm_offset s" "hhdm_offset s2 = hhdm_offset s" "hhdm_offset n = hhdm_offset s"
    using sp(5) f(5) page_fresh_fields [OF fresh] by (simp_all add: touches_def)
  have base: "frame_base s f = frame_base u f" by (simp add: frame_base_def off)
  have "kernel_pml4_phys s2 = of_nat (kroot * 4096)" using fresh vt(2) by (auto simp: page_fresh_def)
  then have w: "w = u\<lparr>mem := set_pml4_phys (frame_base u f) (of_nat (g * 4096)) (mem u)\<rparr>"
    unfolding w_def with_space_def u_def by (simp add: phys_to_virt_def pml4_ptr_def frame_base_def off)
  have "pmm_owned n f" using f(2) by simp
  then have fb: "f < 4503599627370496" using frames_bound [OF ok] unfolding pmm_owned_def by blast
  have fg: "f \<noteq> g" using page_fresh_owned(2) [OF fresh ok] f(2) by auto
  have own_f: "\<forall>k\<in>{f}. pmm_owned u k" using sp(6) f(2) by simp
  have keep: "\<forall>a. frame_of u a \<notin> {f} \<longrightarrow> set_pml4_phys (frame_base u f) (of_nat (g * 4096)) (mem u) a = mem u a"
    using task_setters_frame(2) [OF fb, of u] by simp
  note tw = touches_write [OF vmm_treeD(1) [OF sp(1)] own_f keep, folded w]
  have notab: "f \<notin> root_tables UNIV g u" using sp(4) f(2,3,8) fg tables_owned tree unfolding kernel_tree_def by blast
  then have apart: "root_tables UNIV g u \<inter> {f} = {}" by blast
  note gt = touches_tree [OF sp(1) tw(1,2) apart]
  have "mem u a = mem n a" if "frame_of n a = f" for a using sp(5) f(2) that unfolding touches_def by simp
  then have same: "same_task (mem u) (mem n) (frame_base n f)" by (intro kept_task [OF fb]) simp
  have basen: "frame_base n f = frame_base u f" by (simp add: frame_base_def off)
  have tf: "task_pid (mem w) (frame_base s f) = next_pid s" "task_pml4_phys (mem w) (frame_base s f) = of_nat (g * 4096)"
      "task_state (mem w) (frame_base s f) = state_code TASK_READY" "task_next (mem w) (frame_base s f) = 0"
    using fields same_task_fields [OF same] unfolding w base basen by (simp_all add: more_field_updates)
  have tou: "touches {} s w"
    by (rule touches_trans [OF touches_trans [OF f(5) sp(5), of "{}"] tw(1)]) (use f(3) in auto)
  have "pmm_owned w = (pmm_owned s)(f := True, g := True)" using tw(4) sp(6) f(2) by simp
  moreover have "\<not> pmm_owned s g" using page_fresh_owned(2) [OF fresh ok] f(2) fg by simp
  moreover have "frames_left s = 2 + frames_left w" using f(4) sp(8) by (simp add: w frames_left_def)
  moreover have "\<forall>v. page_view g w v = (if fst v < 256 then None else page_view kroot s v)" using gt(2) sp(2) f(7) by simp
  ultimately have op: "task_opened d kroot s f g w"
    unfolding task_opened_def using f(1,3) fg tou gt(1) gt(3) [where I = UNIV] gt(3) [where I = "{..<256}"] sp(3) notab tf by auto
  have "phys_to_virt s2 (of_nat (g * 4096)) = pml4_ptr w g" "frame_base s f = phys_to_virt s1 (of_nat (f * 4096))"
    by (simp_all add: w pml4_ptr_def phys_to_virt_def off frame_base_def al(2))
  then show ?thesis using al(1) al2 op unfolding n w_def by blast
qed

section \<open>Loading the file\<close>

lemma same_file_valid:
  assumes "same_file p len m m'" and "elf_fits m p len"
  shows "elf_valid m' p = elf_valid m p"
proof -
  have "m' (p + 0 + i) = m (p + 0 + i)" if "unat i < 4" for i
    by (rule same_file_part [OF assms(1), where n = 4]) (use assms(2) that in \<open>simp_all add: elf_fits_def\<close>)
  then have "m' (p + i) = m (p + i)" if "unat i < 4" for i using that by simp
  from this [of 0] this [of 1] this [of 2] this [of 3]
  have "memcmp m' p (lit (CHR 0x7F # ''ELF'')) 0 4 = memcmp m p (lit (CHR 0x7F # ''ELF'')) 0 4"
    by (simp add: memcmp_def upt_rec)
  then show ?thesis using same_file_headers(2) [OF assms] by (simp add: elf_valid_def Let_def)
qed

lemma touches_file:
  assumes "touches {} s w" and "\<forall>x<len. pmm_owned s (frame_of s (p + x))"
  shows "same_file p len (mem s) (mem w)"
  using assms unfolding same_file_def touches_def by blast

lemma elf_loaded:
  assumes ok: "pmm_ok d s" and op: "task_opened d kroot s f g w" and low: "frames s \<le> 2 ^ 40"
    and own: "\<forall>x<len. pmm_owned s (frame_of s (elf_data + x))" and valid: "elf_valid (mem s) elf_data"
    and fits: "elf_fits (mem s) elf_data len" and phs: "phs = load_headers (mem s) elf_data"
    and hdrs: "\<forall>ph\<in>set phs. header_ok len ph \<and> segment_low ph" and disj: "disjoint_segments phs"
    and room: "free_run_of L s" and L: "3 * ((4 * pages_needed phs + 1) * pages_needed phs + 1) \<le> L"
  shows "\<exists>x. load_elf elf_data (pml4_ptr w g) w = Some ((True, Some (e_entry (load_ehdr (mem s) elf_data))), x)
     \<and> task_tree d g (pml4_ptr w g) x \<and> frames_kept {..<256} g w x \<and> segments_placed {n. pmm_owned w n} {..<256} g w elf_data phs x"
proof -
  note o = task_openedD [OF op] and tou = task_openedD(7) [OF op] and vt = task_openedD(8) [OF op]
  note view = spec [OF o(9)]
  have same: "same_file elf_data len (mem s) (mem w)" by (rule touches_file [OF tou own])
  note hd = same_file_headers [OF same fits]
  have lh: "load_headers (mem w) elf_data = phs" by (simp add: load_headers_def hd(1) phs)
  have fr: "frame_of w = frame_of s" by (rule touches_frame_of [OF tou])
  have held: "file_held {..<256} g w elf_data len"
    unfolding file_held_def held_def fr o(10) using own o(3,5) by auto
  have tree: "task_tree d g (pml4_ptr w g) w" using vt by (simp add: task_tree_def)
  have none: "page_view g w v = None \<and> fst v < 256" if "ph \<in> set phs" "v \<in> segment_page_set ph" for ph v
    using segment_low_pages(2) [of ph v] hdrs that view by simp
  then have hdrs': "\<forall>ph\<in>set (load_headers (mem w) elf_data). header_ok len ph
      \<and> (\<forall>v\<in>segment_page_set ph. not_huge (page_view g w v) \<and> fst v \<in> {..<256})"
    using hdrs unfolding lh not_huge_def by auto
  have "frames w \<le> 2 ^ 40" using low tou by (simp add: touches_def)
  then obtain b x where load: "load_elf elf_data (pml4_ptr w g) w = Some ((b, Some (e_entry (load_ehdr (mem s) elf_data))), x)"
      "task_tree d g (pml4_ptr w g) x" "frames_kept {..<256} g w x"
    and res: "if b then segments_placed {n. pmm_owned w n} {..<256} g w elf_data phs x
        else segments_failed d {n. pmm_owned w n} {..<256} g w elf_data phs x"
    using load_elf_outcome [OF tree _ held hd(3) hdrs' refl] same_file_valid [OF same fits] valid unfolding hd(2) lh by auto
  define K where "K = (4 * pages_needed phs + 1) * pages_needed phs + 1"
  obtain r where r: "{r..<r + L} \<subseteq> free_frames s" using room by (auto simp: free_run_of_def)
  have "\<exists>q. {q..<q + K} \<subseteq> free_frames w"
    by (rule run_after [OF ok vmm_treeD(1) [OF vt] tou r, of 2]) (use o(6) L in \<open>simp_all add: K_def\<close>)
  moreover have "3 * K \<le> L" "0 < K" using L unfolding K_def by simp_all
  then have "K \<le> frames_left w" using room o(6) unfolding free_run_of_def by linarith
  ultimately have "free_run_of K w" by (simp add: free_run_of_def)
  then have "\<not> segments_failed d {n. pmm_owned w n} {..<256} g w elf_data phs x"
    by (rule segments_do_not_fail [OF vmm_treeD(1) [OF vt]]) (use hdrs none disj in \<open>auto simp: K_def\<close>)
  then show ?thesis using load res by (cases b) auto
qed

section \<open>The user stack\<close>

text \<open>The 32 KiB from 0x7FFFFFFF0000 on read as zeroes, writable for the task, in frames that are in use and not in \<open>P\<close>.\<close>

definition stack_backed :: "nat set \<Rightarrow> nat set \<Rightarrow> nat \<Rightarrow> 'a vmm_state_scheme \<Rightarrow> bool" where
  "stack_backed P I root s \<longleftrightarrow>
     (\<forall>k<0x8000. (\<exists>a. page_addr root s (0x7FFFFFFF0000 + of_nat k) = Some a \<and> held I root s a \<and> frame_of s a \<notin> P \<and> mem s a = 0)
        \<and> (\<exists>e. page_view root s (vpage_of (0x7FFFFFFF0000 + of_nat k)) = Some (Small e) \<and> bit e 1 \<and> bit e 2))"

definition stack_pages :: "vpage set" where
  "stack_pages = page_at 0x7FFFFFFF0000 ` {..<8}"

lemma stack_page_digits:
  assumes "i < 8"
  shows "page_at 0x7FFFFFFF0000 i = page_digits (0x7FFFFFFF0 + i)" "fst (page_at 0x7FFFFFFF0000 i) < 256"
  using page_at_digits [of "0x7FFFFFFF0000" 8 i] assms by simp_all

lemma stack_entry:
  "bit (user_entry (of_nat (f * 4096)) (PTE_PRESENT OR PTE_WRITE OR PTE_USER OR PTE_NX)) 1"
  "bit (user_entry (of_nat (f * 4096)) (PTE_PRESENT OR PTE_WRITE OR PTE_USER OR PTE_NX)) 2"
  by (simp_all add: user_entry_def leaf_entry_def bit_and_iff bit_or_iff bit_not_iff bit_push_bit_iff bit_1_iff bit_numeral_rec
      del: of_nat_mult push_bit_of_1)

lemma stack_mapped:
  assumes tree: "task_tree d g pml4 x" and low: "frames x \<le> 2 ^ 40" and none: "\<forall>v\<in>stack_pages. page_view g x v = None"
    and run: "{q..<q + 8} \<subseteq> free_frames x" and left: "32 \<le> frames_left x"
  shows "\<exists>r y z. pmm_alloc_frames_zeroed 8 x = Some (of_nat (r * 4096), y)
     \<and> vmm_map_range_for_pml4 pml4 0x7FFFFFFF0000 (of_nat (r * 4096)) 8 (PTE_PRESENT OR PTE_WRITE OR PTE_USER OR PTE_NX) y = Some (True, z)
     \<and> task_tree d g pml4 z \<and> grows {} {..<256} g x z \<and> (\<forall>v. v \<notin> stack_pages \<longrightarrow> page_view g z v = page_view g x v)
     \<and> stack_backed {n. pmm_owned x n} {..<256} g z \<and> frames_left x \<le> 32 + frames_left z"
proof -
  let ?flags = "PTE_PRESENT OR PTE_WRITE OR PTE_USER OR PTE_NX"
  have vt: "vmm_tree d g x" and ptr: "pml4 = pml4_ptr x g" using tree by (simp_all add: task_tree_def)
  note ok = vmm_treeD(1) [OF vt]
  obtain r y where al: "pmm_alloc_frames_zeroed 8 x = Some (of_nat (r * 4096), y)" and ra: "run_allocated d x r 8 y"
    using alloc_frames [OF ok, of 8 q] run left by auto
  have oky: "pmm_ok d y" using ra by (simp add: run_allocated_def)
  note txy = run_allocated_touches [OF ok ra] and bm = run_allocated_bitmap [OF ra] and own = run_allocated_owned [OF ok ra]
  note xy = touches_tree [OF vt txy oky Int_empty_right]
  have treey: "task_tree d g pml4 y" using xy(1) ptr txy by (simp add: task_tree_def pml4_ptr_def touches_def)
  have view: "page_view g y (page_at 0x7FFFFFFF0000 i) = None" if "i < 8" for i
    using none that xy(2) by (simp add: stack_pages_def)
  have vp: "page_aligned 0x7FFFFFFF0000" and pp: "page_aligned (of_nat (r * 4096))"
    unfolding page_aligned_multiple by (rule exI [of _ 34359738352], simp) (rule exI [of _ "of_nat r"], simp)
  have small: "\<forall>i<unat (8 :: u64). not_huge (page_view g y (page_at 0x7FFFFFFF0000 i)) \<and> fst (page_at 0x7FFFFFFF0000 i) \<in> {..<256}"
    using view stack_page_digits(2) by (simp add: not_huge_def)
  obtain b z j where map: "vmm_map_range_for_pml4 pml4 0x7FFFFFFF0000 (of_nat (r * 4096)) 8 ?flags y = Some (b, z)"
      "task_tree d g pml4 z" "j \<le> unat (8 :: u64)" "b \<longleftrightarrow> j = unat (8 :: u64)" "frames_kept {..<256} g y z"
    and added: "range_added 0x7FFFFFFF0000 (of_nat (r * 4096)) (\<lambda>p. user_entry p ?flags) 0 j (page_view g y) (page_view g z)"
    and fail: "\<not> b \<longrightarrow> frames_left y < 3 * Suc j \<or> page_view g z (page_at 0x7FFFFFFF0000 j) \<noteq> None"
    and cost: "b \<longrightarrow> frames_left y \<le> 3 * unat (8 :: u64) + frames_left z"
    using task_range [OF treey vp pp small, of ?flags] by blast
  have ly: "frames_left x = frames_left y + 8" using ra by (simp add: run_allocated_def)
  have b
  proof (rule ccontr)
    assume "\<not> b"
    then have j: "j < 8" using map(3,4) by simp
    then have "page_at 0x7FFFFFFF0000 j \<notin> page_at 0x7FFFFFFF0000 ` {0..<j}"
      using stack_page_digits(1) page_digits_inj by fastforce
    then have "page_view g z (page_at 0x7FFFFFFF0000 j) = None" using added view [OF j] unfolding range_added_def by metis
    then show False using fail \<open>\<not> b\<close> j ly left by simp
  qed
  then have j: "j = 8" using map(4) by simp
  have r8: "r + 8 \<le> 2 ^ 40" using run_end [OF ok ra] low by simp
  have fl: "?flags AND 0xFFFFFFFFFF000 = (0 :: u64)" by simp
  have zoff: "hhdm_offset z = hhdm_offset x" "frame_of z = frame_of x"
    using map(5) txy by (simp_all add: frames_kept_def touches_def frame_of_def fun_eq_iff)
  have stack: "stack_backed {n. pmm_owned x n} {..<256} g z" unfolding stack_backed_def
  proof (intro allI impI conjI)
    fix k :: nat assume "k < 0x8000"
    then have k: "k < 8 * 4096" by simp
    note pa = page_addr_range [OF added [unfolded j] vp k r8 fl]
    define a where "a = of_nat (r * 4096 + k) + hhdm_offset x"
    have "k div 4096 < 8" using k by simp
    then have fa: "frame_of x a \<in> {r..<r + 8}" unfolding a_def using r8 k by (subst frame_of_phys) simp_all
    then have free: "frame_of x a \<in> free_frames x" using ra unfolding run_allocated_def by blast
    then have "\<not> in_bitmap x a" using bitmap_not_free [OF ok] by blast
    then have zero: "mem y a = 0" using ra fa unfolding run_allocated_def by simp
    have nown: "\<not> pmm_owned x (frame_of x a)" using free by (simp add: pmm_owned_def)
    have "root_tables {..<256} g y \<subseteq> {n. pmm_owned x n}"
      unfolding xy(3) by (rule tables_owned [OF vt])
    then have "held {..<256} g y a" using nown fa own unfolding held_def bm(2) by blast
    note hz = frames_kept_held [OF map(5) this]
    have "page_addr g z (0x7FFFFFFF0000 + of_nat k) = Some a" unfolding a_def pa(1) zoff ..
    then show "\<exists>a. page_addr g z (0x7FFFFFFF0000 + of_nat k) = Some a \<and> held {..<256} g z a
        \<and> frame_of z a \<notin> {n. pmm_owned x n} \<and> mem z a = 0"
      using hz zero nown unfolding zoff by simp
    show "\<exists>e. page_view g z (vpage_of (0x7FFFFFFF0000 + of_nat k)) = Some (Small e) \<and> bit e 1 \<and> bit e 2"
      using pa(2) stack_entry by metis
  qed
  have "grows {} {..<256} g x y" by (rule grows_elsewhere [OF vt txy oky]) simp
  then have gr: "grows {} {..<256} g x z" by (rule grows_trans [OF _ grows_frames_kept [OF map(5)]]) simp
  have "stack_pages = page_at 0x7FFFFFFF0000 ` {0..<8}" by (simp add: stack_pages_def atLeast0LessThan)
  then have keep: "page_view g z v = page_view g x v" if "v \<notin> stack_pages" for v
    using added that xy(2) unfolding j range_added_def by metis
  have "frames_left x \<le> 32 + frames_left z" using cost \<open>b\<close> ly by simp
  moreover have "vmm_map_range_for_pml4 pml4 0x7FFFFFFF0000 (of_nat (r * 4096)) 8 ?flags y = Some (True, z)" using map(1) \<open>b\<close> by (simp only:)
  ultimately show ?thesis using al map(2) gr stack by (intro exI conjI allI impI) (assumption | erule keep)+
qed

section \<open>The kernel stack and the first context\<close>

text \<open>The task at \<open>task\<close> is complete: its first context lies at the top of its kernel stack and starts the program.\<close>

definition task_complete :: "memory \<Rightarrow> u64 \<Rightarrow> u32 \<Rightarrow> u64 \<Rightarrow> u64 \<Rightarrow> bool" where
  "task_complete m task pid phys entry \<longleftrightarrow>
     task_pid m task = pid \<and> task_pml4_phys m task = phys \<and> task_state m task = state_code TASK_READY \<and> task_next m task = 0
     \<and> task_ctx m task = task_kernel_stack m task + 0xFF60 \<and> load_context m (task_ctx m task) = first_context entry"

lemma context_stored:
  assumes f: "f < 4503599627370496" and q: "q + 16 \<le> 4503599627370496" and fq: "f \<notin> {q..<q + 16}"
    and ctx: "ctx = frame_base s q + 0xFF60"
    and m': "m' = set_ctx (frame_base s f) ctx (init_context ctx entry (set_kernel_stack (frame_base s f) (frame_base s q) m))"
  shows "frame_of s a \<notin> insert f {q..<q + 16} \<Longrightarrow> m' a = m a"
    "task_state m (frame_base s f) = state_code TASK_READY \<Longrightarrow> task_next m (frame_base s f) = 0
     \<Longrightarrow> task_complete m' (frame_base s f) (task_pid m (frame_base s f)) (task_pml4_phys m (frame_base s f)) entry"
proof -
  let ?t = "frame_base s f"
  have out: "init_context ctx entry m1 a = m1 a" if "frame_of s a \<notin> {q..<q + 16}" for m1 a
    unfolding ctx by (rule init_context_frame [OF q that]) simp
  show "m' a = m a" if "frame_of s a \<notin> insert f {q..<q + 16}"
    using that task_setters_frame [OF f, of s a] out [of a] by (simp add: m')
  define m1 where "m1 = set_kernel_stack ?t (frame_base s q) m"
  have "same_task (init_context ctx entry m1) m1 ?t" by (rule kept_task [OF f]) (use out fq in simp)
  note same = same_task_fields [OF this]
  have "load_context m' ctx = load_context (init_context ctx entry m1) ctx"
  proof (rule load_context_cong)
    fix i :: u64 assume i: "i < 160"
    have "unat (0xFF60 + i) = 0xFF60 + unat i" using i by (simp add: word_less_unat unat_add_small)
    then have "frame_of s (ctx + i) \<in> {q..<q + 16}"
      using i by (intro frame_of_base [OF q]) (simp add: ctx word_less_unat add.assoc)
    then have "frame_of s (ctx + i) \<noteq> f" using fq by blast
    then show "m' (ctx + i) = init_context ctx entry m1 (ctx + i)"
      using task_setters_frame(1) [OF f] by (simp add: m' m1_def)
  qed
  moreover assume "task_state m ?t = state_code TASK_READY" "task_next m ?t = 0"
  ultimately show "task_complete m' ?t (task_pid m ?t) (task_pml4_phys m ?t) entry"
    unfolding task_complete_def m' m1_def [symmetric]
    by (simp add: same) (simp add: m1_def more_field_updates load_init_context ctx m')
qed

lemma task_finished:
  assumes tree: "task_tree d g pml4 z" and run: "{h..<h + 16} \<subseteq> free_frames z" and left: "16 \<le> frames_left z"
    and f: "pmm_owned z f" "f \<notin> root_tables UNIV g z"
    and ready: "task_state (mem z) (frame_base z f) = state_code TASK_READY" "task_next (mem z) (frame_base z f) = 0"
  shows "\<exists>p y. pmm_alloc_frames_zeroed 16 z = Some (p, y)
     \<and> (let s' = with_context (frame_base z f) p entry y in vmm_tree d g s' \<and> page_view g s' = page_view g z \<and> grows {f} {..<256} g z s'
          \<and> task_complete (mem s') (frame_base z f) (task_pid (mem z) (frame_base z f)) (task_pml4_phys (mem z) (frame_base z f)) entry)"
proof -
  have vt: "vmm_tree d g z" using tree by (simp add: task_tree_def)
  note ok = vmm_treeD(1) [OF vt]
  obtain q y where al: "pmm_alloc_frames_zeroed 16 z = Some (of_nat (q * 4096), y)" and ra: "run_allocated d z q 16 y"
    using alloc_frames [OF ok, of 16 h] run left by auto
  have oky: "pmm_ok d y" and off: "hhdm_offset y = hhdm_offset z" using ra by (simp_all add: run_allocated_def)
  note tzy = run_allocated_touches [OF ok ra] and own = run_allocated_owned [OF ok ra]
  have q: "q + 16 \<le> 4503599627370496" using run_end [OF ok ra] pmm_ok_frames [OF ok] by simp
  have fb: "f < 4503599627370496" using f(1) frames_bound [OF ok] unfolding pmm_owned_def by blast
  have unown: "\<not> pmm_owned z n" if "n \<in> {q..<q + 16}" for n
    using that ra unfolding run_allocated_def pmm_owned_def by blast
  then have fq: "f \<notin> {q..<q + 16}" using f(1) by blast
  have base: "frame_base z f = frame_base y f" by (simp add: frame_base_def off)
  define ctx where "ctx = frame_base y q + 0xFF60"
  define m' where "m' = set_ctx (frame_base y f) ctx (init_context ctx entry (set_kernel_stack (frame_base y f) (frame_base y q) (mem y)))"
  have s': "with_context (frame_base z f) (of_nat (q * 4096)) entry y = y\<lparr>mem := m'\<rparr>"
    unfolding with_context_def base m'_def ctx_def Let_def by (simp add: phys_to_virt_def frame_base_def)
  note st = context_stored [OF fb q fq ctx_def m'_def]
  define G where "G = insert f {q..<q + 16}"
  have Gown: "\<forall>n\<in>G. pmm_owned y n" using own f(1) by (auto simp: G_def)
  have "\<forall>a. frame_of y a \<notin> G \<longrightarrow> m' a = mem y a" using st(1) unfolding G_def by blast
  note w = touches_write [OF oky Gown this]
  have tou: "touches {f} z (y\<lparr>mem := m'\<rparr>)"
    by (rule touches_trans [OF tzy w(1)]) (use unown in \<open>auto simp: G_def\<close>)
  have apart: "root_tables UNIV g z \<inter> {f} = {}" using f(2) by blast
  note tr = touches_tree [OF vt tou w(2) apart] and gr = grows_elsewhere [OF vt tou w(2) apart]
  have "mem y a = mem z a" if "frame_of z a = f" for a using tzy that f(1) unfolding touches_def by simp
  then have "same_task (mem y) (mem z) (frame_base z f)" by (intro kept_task [OF fb]) simp
  note same = same_task_fields [OF this, unfolded base]
  have "task_complete m' (frame_base z f) (task_pid (mem z) (frame_base z f)) (task_pml4_phys (mem z) (frame_base z f)) entry"
    using st(2) ready same unfolding base by simp
  then show ?thesis
    using al tr(1,2) gr unfolding Let_def by (intro exI [of _ "of_nat (q * 4096)"] exI [of _ y]) (simp add: s' del: of_nat_mult)
qed

section \<open>The whole task\<close>

lemma grows_mono: "grows F I root s t \<Longrightarrow> F \<subseteq> G \<Longrightarrow> grows G I root s t"
  unfolding grows_def touches_def by blast

lemma stack_kept:
  assumes stack: "stack_backed P I root s" and gr: "grows F I root s t" and F: "F \<subseteq> P" and view: "page_view root t = page_view root s"
  shows "stack_backed P I root t"
proof -
  have off: "hhdm_offset t = hhdm_offset s" and fr: "frame_of t = frame_of s"
    using gr touches_frame_of unfolding grows_def touches_def by blast+
  have addr: "page_addr root t = page_addr root s" unfolding page_addr_def view phys_to_virt_def off ..
  have "held I root t a \<and> mem t a = mem s a" if "held I root s a" "frame_of s a \<notin> P" for a
    using grows_held [OF gr that(1)] that(2) F by blast
  then show ?thesis using stack unfolding stack_backed_def addr view fr by metis
qed

lemma segments_kept:
  assumes "segments_placed P I root w p phs x" and "grows F I root x t" and "F \<subseteq> P" and "\<forall>ph\<in>set phs. header_ok len ph"
    and "\<forall>ph\<in>set phs. \<forall>v\<in>segment_page_set ph. page_view root t v = page_view root x v" and "ph \<in> set phs"
  shows "segment_loaded root t ph (\<lambda>i. mem w (p + p_offset ph + of_nat i))"
proof (rule segment_kept(1) [where J = I])
  show "segment_loaded root x ph (\<lambda>i. mem w (p + p_offset ph + of_nat i))" "segment_backed P I root x ph"
    using assms(1,6) unfolding segments_placed_def by blast+
  show "hhdm_offset t = hhdm_offset x" using assms(2) unfolding grows_def touches_def by blast
  show "held I root t a \<and> mem t a = mem x a" if "held I root x a" "frame_of x a \<notin> P" for a
    using grows_held [OF assms(2) that(1)] that(2) assms(3) by blast
  show "page_view root t (vpage_of (p_vaddr ph + of_nat i)) = page_view root x (vpage_of (p_vaddr ph + of_nat i))"
    if "i < unat (p_memsz ph)" for i
    using segment_byte_page [of len ph i] that assms(4,5,6) by blast
qed

lemma frame_base_nonzero:
  assumes "hhdm_ok s" and "f < frames s"
  shows "frame_base s f \<noteq> 0"
proof -
  have le: "0 < unat (hhdm_offset s)" "unat (hhdm_offset s) + f * 4096 < 18446744073709551616" using assms by (auto simp: hhdm_ok_def)
  then have "unat (of_nat (f * 4096) :: u64) = f * 4096" by (intro unat_of_nat_small) simp
  then have "unat (frame_base s f) = f * 4096 + unat (hhdm_offset s)"
    using le unfolding frame_base_def by (subst unat_add_small) simp_all
  then show ?thesis using le(1) by auto
qed

lemma stack_apart:
  assumes "segment_low ph" and "v \<in> segment_page_set ph"
  shows "v \<notin> stack_pages"
proof
  assume "v \<in> stack_pages"
  then obtain i where "i < 8" "v = page_digits (0x7FFFFFFF0 + i)" using stack_page_digits(1) by (auto simp: stack_pages_def)
  moreover obtain x where "x < 0x7FFFFFFF0" "v = page_digits x" using segment_low_pages(3) [OF assms] by blast
  ultimately show False using page_digits_inj [of x "0x7FFFFFFF0 + i"] by simp
qed

text \<open>The steps after the task and its address space are there.\<close>

lemma task_completed:
  assumes ok: "pmm_ok d s" and op: "task_opened d kroot s f g w" and low: "frames s \<le> 2 ^ 40"
    and load: "load_elf elf_data (pml4_ptr w g) w = Some ((True, Some entry), x)" "task_tree d g (pml4_ptr w g) x"
      "frames_kept {..<256} g w x" "segments_placed P {..<256} g w elf_data phs x"
    and segs: "\<forall>ph\<in>set phs. segment_low ph" and room: "free_run_of L s"
    and L: "Suc (4 * pages_needed phs + 2) * 8 \<le> L" "Suc (4 * pages_needed phs + 34) * 16 \<le> L" "4 * pages_needed phs + 50 \<le> L"
  shows "\<exists>p3 y z p4 u. pmm_alloc_frames_zeroed 8 x = Some (p3, y)
     \<and> vmm_map_range_for_pml4 (pml4_ptr w g) 0x7FFFFFFF0000 p3 8 (PTE_PRESENT OR PTE_WRITE OR PTE_USER OR PTE_NX) y = Some (True, z)
     \<and> pmm_alloc_frames_zeroed 16 z = Some (p4, u) \<and> grows {} {..<256} g x z
     \<and> (\<forall>v. v \<notin> stack_pages \<longrightarrow> page_view g z v = page_view g x v) \<and> stack_backed {n. pmm_owned x n} {..<256} g z
     \<and> (let s' = with_context (frame_base s f) p4 entry u in
          vmm_tree d g s' \<and> page_view g s' = page_view g z \<and> grows {f} {..<256} g z s'
          \<and> task_complete (mem s') (frame_base s f) (next_pid s) (of_nat (g * 4096)) entry)"
proof -
  note o = task_openedD [OF op]
  obtain q where q: "{q..<q + L} \<subseteq> free_frames s" and left: "L \<le> frames_left s" using room by (auto simp: free_run_of_def)
  have okx: "pmm_ok d x" using load(2) vmm_treeD(1) by (auto simp: task_tree_def)
  have lx: "frames_left s \<le> (4 * pages_needed phs + 2) + frames_left x"
    using load(4) o(6) by (simp add: segments_placed_def pages_needed_def)
  have wx: "grows {} {..<256} g w x" by (rule grows_frames_kept [OF load(3)])
  have sx: "touches {} s x"
    by (rule touches_trans [OF o(7) frames_kept_touches [OF load(3)]]) (use o(5,10) in auto)
  obtain h where h: "{h..<h + 8} \<subseteq> free_frames x" using run_after [OF ok okx sx q lx L(1)] by auto
  have lowx: "frames x \<le> 2 ^ 40" using low sx by (simp add: touches_def)
  have none: "\<forall>v\<in>stack_pages. page_view g x v = None"
  proof
    fix v assume v: "v \<in> stack_pages"
    then have "v \<notin> \<Union> (segment_page_set ` set phs)" using stack_apart segs by blast
    then have "page_view g x v = page_view g w v" using load(4) unfolding segments_placed_def by blast
    moreover have "fst v < 256" using v stack_page_digits(2) by (auto simp: stack_pages_def)
    ultimately show "page_view g x v = None" using spec [OF o(9), of v] by simp
  qed
  have "32 \<le> frames_left x" using lx left L(3) by linarith
  then obtain r y z where st: "pmm_alloc_frames_zeroed 8 x = Some (of_nat (r * 4096), y)"
      "vmm_map_range_for_pml4 (pml4_ptr w g) 0x7FFFFFFF0000 (of_nat (r * 4096)) 8 (PTE_PRESENT OR PTE_WRITE OR PTE_USER OR PTE_NX) y = Some (True, z)"
      "task_tree d g (pml4_ptr w g) z" "grows {} {..<256} g x z" "\<forall>v. v \<notin> stack_pages \<longrightarrow> page_view g z v = page_view g x v"
      "stack_backed {n. pmm_owned x n} {..<256} g z" "frames_left x \<le> 32 + frames_left z"
    using stack_mapped [OF load(2) lowx none h] by blast
  have wz: "grows {} {..<256} g w z" by (rule grows_trans [OF wx st(4)]) simp
  have sz: "touches {} s z" by (rule touches_trans [OF o(7) wz [unfolded grows_def, THEN conjunct1]]) (use o(5,10) in auto)
  have okz: "pmm_ok d z" using st(3) vmm_treeD(1) by (auto simp: task_tree_def)
  have lz: "frames_left s \<le> (4 * pages_needed phs + 34) + frames_left z" using lx st(7) by simp
  obtain k where k: "{k..<k + 16} \<subseteq> free_frames z" using run_after [OF ok okz sz q lz L(2)] by auto
  have l16: "16 \<le> frames_left z" using lz left L(3) by linarith
  have fw: "pmm_owned w f" using o(3) by simp
  have fz: "pmm_owned z f" "f \<notin> root_tables UNIV g z" using wz fw o(11) unfolding grows_def touches_def by blast+
  have fb: "f < 4503599627370496" using fw frames_bound [OF vmm_treeD(1) [OF o(8)]] unfolding pmm_owned_def by blast
  have off: "frame_base z f = frame_base s f" "frame_base w f = frame_base s f" using sz o(7) by (simp_all add: frame_base_def touches_def)
  have "mem z a = mem w a" if "frame_of w a = f" for a
    using grows_held [OF wz, of a] fw o(2,10) that by (simp add: held_def)
  then have "same_task (mem z) (mem w) (frame_base w f)" by (intro kept_task [OF fb]) simp
  note same = same_task_fields [OF this, unfolded off(2)]
  have fields: "task_pid (mem z) (frame_base s f) = next_pid s" "task_pml4_phys (mem z) (frame_base s f) = of_nat (g * 4096)"
      "task_state (mem z) (frame_base s f) = state_code TASK_READY" "task_next (mem z) (frame_base s f) = 0"
    using op same unfolding task_opened_def by auto
  obtain p4 u where fin: "pmm_alloc_frames_zeroed 16 z = Some (p4, u)"
    "let s' = with_context (frame_base s f) p4 entry u in
       vmm_tree d g s' \<and> page_view g s' = page_view g z \<and> grows {f} {..<256} g z s'
       \<and> task_complete (mem s') (frame_base s f) (next_pid s) (of_nat (g * 4096)) entry"
    using task_finished [OF st(3) k l16 fz, of entry, unfolded off fields(1,2), OF fields(3,4)] by (elim exE conjE)
  show ?thesis by (intro exI conjI) (rule st(1,2,4,5,6) fin)+
qed

text \<open>
  \<open>task_create_from_elf\<close> on a valid file in memory in use, with not empty segments below the stack on pages of their
  own and none longer in the file than in memory, succeeds if a large enough run of frames is free; the
  bound is generous, for page tables and for runs cut by other allocations.  It writes to no frame that was in use,
  so the kernel's address space stays as it is.  The task gets an address space with the segments of the file,
  32 KiB of zeroed stack, the upper half of the kernel's and nothing else, and is ready: its first
  context, on its kernel stack, starts the program in ring 3.
\<close>

lemma task_created:
  assumes ktree: "kernel_tree d kroot s" and low: "frames s \<le> 2 ^ 40"
    and own: "\<forall>x<len. pmm_owned s (frame_of s (elf_data + x))" and valid: "elf_valid (mem s) elf_data"
    and fits: "elf_fits (mem s) elf_data len" and phs: "phs = load_headers (mem s) elf_data"
    and hdrs: "\<forall>ph\<in>set phs. header_ok len ph \<and> segment_low ph" and disj: "disjoint_segments phs"
    and room: "free_run_of ((12 * pages_needed phs + 35) * (pages_needed phs + 16)) s"
  shows "\<exists>task g s'. task_create_from_elf elf_data s = Some (task, s') \<and> task \<noteq> 0 \<and> touches {} s s'
     \<and> vmm_tree d kroot s' \<and> page_view kroot s' = page_view kroot s \<and> vmm_tree d g s'
     \<and> (\<forall>ph\<in>set phs. segment_loaded g s' ph (\<lambda>i. mem s (elf_data + p_offset ph + of_nat i)))
     \<and> stack_backed {n. pmm_owned s n} {..<256} g s'
     \<and> (\<forall>v. v \<notin> \<Union> (segment_page_set ` set phs) \<union> stack_pages \<longrightarrow>
           page_view g s' v = (if fst v < 256 then None else page_view kroot s v))
     \<and> task_complete (mem s') task (next_pid s) (of_nat (g * 4096)) (e_entry (load_ehdr (mem s) elf_data))"
proof -
  define N L where "N = pages_needed phs" and "L = (12 * N + 35) * (N + 16)"
  have L: "3 * ((4 * N + 1) * N + 1) \<le> L" "Suc (4 * N + 2) * 8 \<le> L" "Suc (4 * N + 34) * 16 \<le> L" "4 * N + 50 \<le> L"
    by (simp_all add: L_def algebra_simps)
  have room': "free_run_of L s" and left: "L \<le> frames_left s" using room by (simp_all add: L_def N_def free_run_of_def)
  obtain q where q: "{q..<q + L} \<subseteq> free_frames s" using room' by (auto simp: free_run_of_def)
  have vt: "vmm_tree d kroot s" using ktree by (simp add: kernel_tree_def)
  note ok = vmm_treeD(1) [OF vt]
  obtain f g s1 s2 w where open1: "pmm_alloc_zeroed s = Some (of_nat (f * 4096), s1)" "frame_base s f = phys_to_virt s1 (of_nat (f * 4096))"
      "pmm_alloc_zeroed (numbered (frame_base s f) s1) = Some (of_nat (g * 4096), s2)"
      "w = with_space (frame_base s f) (of_nat (g * 4096)) s2" "phys_to_virt s2 (of_nat (g * 4096)) = pml4_ptr w g"
    and op: "task_opened d kroot s f g w"
    using open_task [OF ktree] left L(4) by fastforce
  note o = task_openedD [OF op]
  have L0: "3 * ((4 * pages_needed phs + 1) * pages_needed phs + 1) \<le> L" using L(1) by (simp add: N_def)
  define entry where "entry = e_entry (load_ehdr (mem s) elf_data)"
  obtain x where load: "load_elf elf_data (pml4_ptr w g) w = Some ((True, Some entry), x)" "task_tree d g (pml4_ptr w g) x"
      "frames_kept {..<256} g w x" and placed: "segments_placed {n. pmm_owned w n} {..<256} g w elf_data phs x"
    using elf_loaded [OF ok op low own valid fits phs hdrs disj room' L0] unfolding entry_def [symmetric] by blast
  have segs: "\<forall>ph\<in>set phs. segment_low ph" "\<forall>ph\<in>set phs. header_ok len ph" using hdrs by blast+
  obtain p3 y z p4 u s' where st: "pmm_alloc_frames_zeroed 8 x = Some (p3, y)"
      "vmm_map_range_for_pml4 (pml4_ptr w g) 0x7FFFFFFF0000 p3 8 (PTE_PRESENT OR PTE_WRITE OR PTE_USER OR PTE_NX) y = Some (True, z)"
      "pmm_alloc_frames_zeroed 16 z = Some (p4, u)" "grows {} {..<256} g x z" "\<forall>v. v \<notin> stack_pages \<longrightarrow> page_view g z v = page_view g x v"
      "stack_backed {n. pmm_owned x n} {..<256} g z"
    and s': "s' = with_context (frame_base s f) p4 entry u" "vmm_tree d g s'" "page_view g s' = page_view g z" "grows {f} {..<256} g z s'"
      "task_complete (mem s') (frame_base s f) (next_pid s) (of_nat (g * 4096)) entry"
    using task_completed [OF ok op low load placed segs(1) room' L(2-4) [unfolded N_def]] unfolding Let_def by blast
  have call: "task_create_from_elf elf_data s = Some (frame_base s f, s')"
    unfolding s'(1) using open1(5) load(1) st(2)
    by (intro task_create_steps [OF open1(1,2,3) _ st(1) _ st(3)]) (simp_all only: open1(4))
  have wx: "grows {} {..<256} g w x" by (rule grows_frames_kept [OF load(3)])
  have fw: "pmm_owned w f" using o(3) by simp
  have xs: "grows {f} {..<256} g x s'" by (rule grows_trans [OF grows_mono [OF st(4)] s'(4)]) simp_all
  have ws: "grows {f} {..<256} g w s'" by (rule grows_trans [OF grows_mono [OF wx] xs]) simp_all
  have tou: "touches {} s s'"
    by (rule touches_trans [OF o(7) ws [unfolded grows_def, THEN conjunct1]]) (use o(4,5,10) in auto)
  note kt = touches_tree [OF vt tou vmm_treeD(1) [OF s'(2)] Int_empty_right]
  have view: "page_view g s' v = page_view g x v" if "v \<notin> stack_pages" for v
    unfolding s'(3) by (rule mp [OF spec [OF st(5)] that])
  have seg: "segment_loaded g s' ph (\<lambda>i. mem s (elf_data + p_offset ph + of_nat i))" if "ph \<in> set phs" for ph
  proof -
    have "segment_loaded g s' ph (\<lambda>i. mem w (elf_data + p_offset ph + of_nat i))"
      by (rule segments_kept [OF placed xs _ segs(2) _ that]) (use fw view stack_apart segs(1) in auto)
    then show ?thesis using segment_content [OF touches_file [OF o(7) own], of ph g s'] segs(2) that by simp
  qed
  have fx: "pmm_owned x f" using wx fw unfolding grows_def touches_def by blast
  have "stack_backed {n. pmm_owned x n} {..<256} g s'" by (rule stack_kept [OF st(6) s'(4) _ s'(3)]) (use fx in simp)
  moreover have "pmm_owned s n \<Longrightarrow> pmm_owned x n" for n using o(7) wx unfolding grows_def touches_def by blast
  ultimately have stack: "stack_backed {n. pmm_owned s n} {..<256} g s'" unfolding stack_backed_def by blast
  have rest: "page_view g s' v = (if fst v < 256 then None else page_view kroot s v)"
    if "v \<notin> \<Union> (segment_page_set ` set phs) \<union> stack_pages" for v
  proof -
    have "page_view g x v = page_view g w v" using placed that unfolding segments_placed_def by blast
    then show ?thesis using view [of v] that spec [OF o(9), of v] by simp
  qed
  have "f < frames s" using fw o(7) by (simp add: pmm_owned_def touches_def)
  then have nz: "frame_base s f \<noteq> 0" by (rule frame_base_nonzero [OF vmm_treeD(3) [OF vt]])
  show ?thesis
    by (intro exI conjI ballI allI impI) (rule call nz tou kt(1,2) s'(2) stack s'(5) [unfolded entry_def] | erule seg rest)+
qed

end
