(* ===== verification/Kernelshell.thy ===== *)
theory Kernelshell
  imports Kernel
begin

text \<open>
  The shell in ring 0, \<open>kernel/shell_kspace/kernelshell.c\<close>.  \<open>launch_shell\<close> never returns; it is the
  state it starts with and one round of its loop, \<open>shell_round\<close>, between which the keyboard interrupt
  may add characters.
\<close>

record shell_state =
  cmd_buffer :: "u8 list"
  cmd_pos :: u32

text \<open>How a command ends: the shell goes on, an invalid opcode is raised, or the machine halts.\<close>

datatype 'a shell_outcome = Shell_goes_on 'a | Shell_ud2 'a | Shell_halted 'a

text \<open>A buffer as memory, for \<open>strcmp\<close>.\<close>

definition buffer_memory :: "u8 list \<Rightarrow> memory" where
  "buffer_memory b a = (if unat a < length b then b ! unat a else 0)"

definition cmd_is :: "u8 list \<Rightarrow> string \<Rightarrow> bool" where
  "cmd_is cmd word \<longleftrightarrow> strcmp (buffer_memory cmd) 0 (lit word) 0 = Some 0"

definition cmd_text :: "u8 list \<Rightarrow> u8 list" where
  "cmd_text cmd = takeWhile (\<lambda>c. c \<noteq> 0) cmd"

definition execute_command :: "hardware \<Rightarrow> u8 list \<Rightarrow> kernel \<Rightarrow> kernel shell_outcome option" where
  "execute_command H cmd s =
     (if cmd ! 0 = 0 then Some (Shell_goes_on s)
      else if cmd_is cmd ''help''
      then Some (Shell_goes_on (print ''Available commands: help, clear, about, time, panic, halt\<newline>'' 0x00FF00 s))
      else if cmd_is cmd ''clear''
      then do { (b, m) \<leftarrow> fb_clear (fb s, mem s); Some (Shell_goes_on (s\<lparr>fb := b, mem := m\<rparr>)) }
      else if cmd_is cmd ''about''
      then Some (Shell_goes_on (print ''Estella shell (Ring 0)\<newline>'' 0x00BFFF s))
      else if cmd_is cmd ''time''
      then do {
        (time, s) \<leftarrow> time_get_current H s;
        let s = print ''time (UTC): '' 0xFFAA00 s;
            s = print_bytes (cmd_text time) 0xFFFFFF s
        in Some (Shell_goes_on (print ''\<newline>'' 0 s))
      }
      else if cmd_is cmd ''panic''
      then Some (Shell_ud2 (print ''Triggering kernel panic...\<newline>'' 0xFF0000 s))
      else if cmd_is cmd ''halt''
      then Some (Shell_halted (print ''Halting system...\<newline>'' 0x00FFFF s))
      else
        let s = print ''Unknown command: '' 0xAA0000 s;
            s = print_bytes (cmd_text cmd) 0xAAAAAA s
        in Some (Shell_goes_on (print ''\<newline>'' 0 s)))"

definition launch_shell :: "kernel \<Rightarrow> kernel" where
  "launch_shell s =
     (let s = print ''Welcome to Estella kernel shell \<newline>'' 0x7FFFD4 s;
          s = print ''Type 'help' for commands.\<newline>\<newline>'' 0x7FFFD4 s
      in print ''sh> '' 0x7FFFD4 s)"

definition shell_line :: "hardware \<Rightarrow> shell_state \<Rightarrow> kernel \<Rightarrow> (shell_state \<times> kernel) shell_outcome option" where
  "shell_line H sh s =
     (let sh = sh\<lparr>cmd_buffer := (cmd_buffer sh)[unat (cmd_pos sh) := 0]\<rparr>;
          s = put_char 10 0xAAAAAA s
      in do {
        r \<leftarrow> execute_command H (cmd_buffer sh) s;
        Some (case r of
                Shell_goes_on s \<Rightarrow> Shell_goes_on (sh\<lparr>cmd_pos := 0\<rparr>, print ''sh> '' 0x7FFFD4 s)
              | Shell_ud2 s \<Rightarrow> Shell_ud2 (sh, s)
              | Shell_halted s \<Rightarrow> Shell_halted (sh, s))
      })"

definition shell_round :: "hardware \<Rightarrow> shell_state \<Rightarrow> kernel \<Rightarrow> (shell_state \<times> kernel) shell_outcome option" where
  "shell_round H sh s =
     (if keyboard_has_data (kbd s)
      then let (c, k) = keyboard_get_char (kbd s); s = s\<lparr>kbd := k\<rparr>
           in if c = 10 then shell_line H sh s
              else if c = 8
              then Some (Shell_goes_on
                     (if cmd_pos sh > 0 then (sh\<lparr>cmd_pos := cmd_pos sh - 1\<rparr>, put_char 8 0xAAAAAA s) else (sh, s)))
              else if c \<ge> of_char CHR '' '' \<and> c \<le> of_char CHR ''~''
              then Some (Shell_goes_on
                     (if (ucast (cmd_pos sh) :: u64) < 256 - 1
                      then (sh\<lparr>cmd_buffer := (cmd_buffer sh)[unat (cmd_pos sh) := c], cmd_pos := cmd_pos sh + 1\<rparr>,
                            put_char (scast c) 0xAAAAAA s)
                      else (sh, s)))
              else Some (Shell_goes_on (sh, s))
      else Some (Shell_goes_on (sh, s)))"

end
