(* ===== verification/Boot.thy ===== *)
theory Boot
  imports Syscalls Cpio Kernelshell
begin

text \<open>
  The entry of the kernel, \<open>kernel/arch/x86_64/boot/main.c\<close>: the checks on what the boot loader provides,
  the initialisation of every component in order, the self tests of the memory managers, and the
  first three tasks.

  What the boot loader provides is the record \<open>boot_info\<close>.  Strings in memory are their bytes.
\<close>

record boot_info =
  base_revision_supported :: bool
  framebuffers :: "limine_framebuffer list option"
  hhdm_response :: "u64 option"
  memmap_response :: "limine_memmap_entry list option"
  module_response :: "u64 option list option"
  rsdp_response :: "u64 option"
  firmware_type :: "u64 option"
  bootloader_info :: "(u8 list \<times> u8 list) option"
  date_at_boot :: "u64 option"

text \<open>How \<open>EstellaEntry\<close> ends: it halts or it enters the first task.\<close>

datatype boot_outcome = Boot_halt kernel | Boot_enter cpu_context_t kernel

abbreviation (input) COL_TITLE :: u32 where "COL_TITLE \<equiv> 0x88DDFF"
abbreviation (input) COL_VERSION :: u32 where "COL_VERSION \<equiv> 0xAADD88"
abbreviation (input) COL_LABEL :: u32 where "COL_LABEL \<equiv> 0xCCCCCC"
abbreviation (input) COL_VALUE :: u32 where "COL_VALUE \<equiv> 0xD0FFD0"
abbreviation (input) COL_SUCCESS_INIT :: u32 where "COL_SUCCESS_INIT \<equiv> 0x7FFFD4"
abbreviation (input) COL_SECTION_TITLE :: u32 where "COL_SECTION_TITLE \<equiv> 0x00D4FF"
abbreviation (input) COL_USED :: u32 where "COL_USED \<equiv> 0xFFAA00"
abbreviation (input) COL_FREE :: u32 where "COL_FREE \<equiv> 0x00FF88"

section \<open>System information\<close>

definition firmware_name :: "u64 \<Rightarrow> string" where
  "firmware_name t = (if t = 0 then ''BIOS'' else if t = 1 then ''EFI32'' else if t = 2 then ''EFI64''
                      else if t = 3 then ''SBI'' else ''Unknown'')"

text \<open>The buffer of 64 bytes that holds name, blank and version, cut off when they are longer.\<close>

fun append_bounded :: "nat \<Rightarrow> u8 list \<Rightarrow> u8 list \<Rightarrow> u8 list" where
  "append_bounded limit [] acc = acc"
| "append_bounded limit (c # cs) acc =
     (if length acc + 1 < limit then append_bounded limit cs (acc @ [c]) else acc)"

definition bootloader_str :: "u8 list \<Rightarrow> u8 list \<Rightarrow> u8 list" where
  "bootloader_str name version =
     (let acc = append_bounded 64 name [];
          acc = (if length acc + 1 < 64 then acc @ [of_char CHR '' ''] else acc)
      in append_bounded 64 version acc)"

text \<open>One channel of a blended pixel.\<close>

definition blend_channel :: "nat \<Rightarrow> u32 \<Rightarrow> u32 \<Rightarrow> u8 \<Rightarrow> u8" where
  "blend_channel shift pixel bg a =
     ucast ((drop_bit shift pixel AND 0xFF) * ucast a div 255 + (drop_bit shift bg AND 0xFF) * (255 - ucast a) div 255)"

definition blend_pixel :: "u32 \<Rightarrow> u32 \<Rightarrow> u32" where
  "blend_pixel pixel bg =
     (let a = (ucast (drop_bit 24 pixel AND 0xFF) :: u8);
          r = blend_channel 16 pixel bg a; g = blend_channel 8 pixel bg a; b = blend_channel 0 pixel bg a
      in push_bit 16 (ucast r) OR push_bit 8 (ucast g) OR ucast b)"

definition draw_logo :: "limine_framebuffer \<Rightarrow> u64 \<Rightarrow> memory \<Rightarrow> memory" where
  "draw_logo f logo m =
     (let logo_x = (ucast (fb_width f - 447 - 750) :: u32); logo_y = (7 :: u32);
          stride = (ucast (fb_pitch f div 4) :: u32)
      in fold (\<lambda>y m. fold (\<lambda>x m.
            let pixel = read32 m (logo + 4 * ucast (of_nat y * 447 + of_nat x :: u32));
                at = fb_address f + 4 * ucast ((logo_y + of_nat y) * stride + (logo_x + of_nat x));
                a = drop_bit 24 pixel AND 0xFF
            in if a = 0 then m
               else if a = 0xFF then write32 at (pixel AND 0x00FFFFFF) m
               else write32 at (blend_pixel pixel (read32 m at)) m)
          [0..<447] m) [0..<126] m)"

definition print_system_info :: "boot_info \<Rightarrow> limine_framebuffer \<Rightarrow> u64 \<Rightarrow> kernel \<Rightarrow> kernel" where
  "print_system_info B f logo s =
     (let s = print ''SonnaOS Estella v0.9.0-dev (x86_64 UEFI)\<newline>'' COL_VERSION s;
          s = print ''Development on: https://github.com/aprentxdev/SonnaOS\<newline>'' COL_VERSION s;
          s = (case firmware_type B of None \<Rightarrow> s
               | Some t \<Rightarrow>
                   let fw = firmware_name t;
                       s = print ''Firmware: '' COL_LABEL s;
                       s = print fw COL_VALUE s;
                       s = print ''\<newline>'' 0 s;
                       s = puts ''Firmware: '' s;
                       s = puts fw s
                   in puts ''\<newline>'' s);
          s = (case bootloader_info B of None \<Rightarrow> s
               | Some (name, version) \<Rightarrow>
                   let str = bootloader_str name version;
                       s = print ''Bootloader: '' COL_LABEL s;
                       s = print_bytes str COL_VALUE s;
                       s = print ''\<newline>'' 0 s;
                       s = puts ''Bootloader: '' s;
                       s = serial_log str s
                   in puts ''\<newline>'' s)
      in if logo = 0 then s else s\<lparr>mem := draw_logo f logo (mem s)\<rparr>)"

definition mib :: "u64 \<Rightarrow> u64" where
  "mib n = n * PAGE_SIZE div 1024 div 1024"

definition memory_row :: "string \<Rightarrow> string \<Rightarrow> u64 \<Rightarrow> u32 \<Rightarrow> kernel \<Rightarrow> kernel" where
  "memory_row label tail n color s =
     (let s = print label COL_LABEL s;
          s = print_number (mib n) color s;
          s = print '' MiB ('' color s;
          s = print_number n color s
      in print tail color s)"

definition memory_log :: "string \<Rightarrow> u64 \<Rightarrow> kernel \<Rightarrow> kernel" where
  "memory_log label n s =
     (let s = puts label s;
          s = serial_log (u64_to_dec_bytes (mib n)) s;
          s = puts '' MiB ('' s
      in serial_log (u64_to_dec_bytes n) s)"

definition print_memory_info :: "kernel \<Rightarrow> kernel" where
  "print_memory_info s =
     (let total = pmm_get_total_frames s; usable = pmm_get_usable_frames s;
          free = pmm_get_free_frames s; used = pmm_get_used_frames s;
          s = print ''Memory Overview\<newline>'' COL_SECTION_TITLE s;
          s = memory_row ''> Total   '' '' pages)\<newline>'' total COL_VALUE s;
          s = memory_row ''> Usable  '' '' pages)\<newline>'' usable COL_VALUE s;
          s = memory_row ''> Used    '' '' pages)\<newline>'' used COL_USED s;
          s = memory_row ''> Free    '' '' pages)\<newline>\<newline>'' free COL_FREE s;
          s = memory_log ''Memory: total '' total s;
          s = memory_log '' pages), usable '' usable s;
          s = memory_log '' pages), free '' free s
      in puts '' pages)\<newline>'' s)"

section \<open>Self tests\<close>

definition pmm_fail :: "kernel \<Rightarrow> bool \<times> kernel" where
  "pmm_fail s = (False, puts ''PMM tests FAILED\<newline>'' s)"

definition vmm_fail :: "kernel \<Rightarrow> bool \<times> kernel" where
  "vmm_fail s = (False, puts ''VMM tests FAILED\<newline>'' s)"

abbreviation (input) TEST_VADDR :: u64 where "TEST_VADDR \<equiv> 0xFFFF900000000000"
abbreviation (input) TEST_VALUE :: u64 where "TEST_VALUE \<equiv> 0xDEADBEEFCAFEBABE"
abbreviation (input) PTE_KERNEL_RW :: u64 where "PTE_KERNEL_RW \<equiv> PTE_PRESENT OR PTE_WRITE"

text \<open>
  The result is \<open>True\<close> for 0.  The store to \<open>vaddr\<close> and the load from it go through the page tables:
  a page fault is \<open>None\<close>.
\<close>

definition pmm_tests :: "kernel \<Rightarrow> (bool \<times> kernel) option" where
  "pmm_tests s = do {
     (p1, s) \<leftarrow> pmm_alloc s;
     if p1 = 0 then Some (pmm_fail s) else let s = pmm_free p1 s in do {
     (p2, s) \<leftarrow> pmm_alloc_frames 4 s;
     if p2 = 0 then Some (pmm_fail s) else let s = pmm_free_frames p2 4 s in do {
     (p3, s) \<leftarrow> pmm_alloc_frames_aligned 4 (PAGE_SIZE * 4) s;
     if p3 = 0 \<or> p3 mod (PAGE_SIZE * 4) \<noteq> 0 then Some (pmm_fail s) else let s = pmm_free_frames p3 4 s in do {
     (p4, s) \<leftarrow> pmm_alloc_zeroed s;
     if p4 = 0 then Some (pmm_fail s)
     else if read64 (mem s) (phys_to_virt s p4) \<noteq> 0 then Some (pmm_fail s)
     else Some (True, pmm_free p4 s)
   }}}}"

definition vmm_tests :: "kernel \<Rightarrow> (bool \<times> kernel) option" where
  "vmm_tests s = do {
     (phys, s) \<leftarrow> pmm_alloc s;
     if phys = 0 then Some (vmm_fail s) else do {
     (ok, s) \<leftarrow> vmm_map TEST_VADDR phys PTE_KERNEL_RW s;
     if \<not> ok then Some (vmm_fail (pmm_free phys s)) else do {
     p \<leftarrow> mmu_walk s True (cr3 s) TEST_VADDR;
     let s = s\<lparr>mem := write64 (phys_to_virt s p) TEST_VALUE (mem s)\<rparr> in do {
     p \<leftarrow> mmu_walk s False (cr3 s) TEST_VADDR;
     if read64 (mem s) (phys_to_virt s p) \<noteq> TEST_VALUE then Some (vmm_fail (snd (vmm_unmap TEST_VADDR s)))
     else let s = snd (vmm_unmap TEST_VADDR s) in Some (True, pmm_free phys s)
   }}}}"

definition memorymanagers_tests :: "kernel \<Rightarrow> (bool \<times> kernel) option" where
  "memorymanagers_tests s = do {
     (ok, s) \<leftarrow> pmm_tests s;
     if \<not> ok then Some (False, s) else vmm_tests s
   }"

section \<open>The entry\<close>

definition boot_font :: "memory \<Rightarrow> u64 \<Rightarrow> u64 \<Rightarrow> font_t" where
  "boot_font m fontfile psf2 =
     (let h = load_psf2_header m psf2
      in \<lparr>is_psf2 = True, font_hdr = psf2, glyphs = fontfile + ucast (psf2_headersize h), font_width = psf2_width h,
          font_height = psf2_height h, line_height = psf2_height h + 1, glyph_count = psf2_length h\<rparr>)"

definition create_task :: "u64 option \<Rightarrow> string \<Rightarrow> string \<Rightarrow> kernel \<Rightarrow> (u64 \<times> kernel) option" where
  "create_task initrd file msg s = do {
     ((elf, _), s) \<leftarrow> cpio_lookup initrd (lit file) 0 s;
     (t, s) \<leftarrow> task_create_from_elf elf s;
     Some (t, print msg COL_TITLE s)
   }"

definition queue_task :: "u64 \<Rightarrow> string \<Rightarrow> kernel \<Rightarrow> kernel option" where
  "queue_task t msg s = do { s \<leftarrow> scheduler_add_task t s; Some (print msg COL_TITLE s) }"

text \<open>The font and the console come first; \<open>None\<close> inside the pair is \<open>hcf\<close>.\<close>

definition boot_console :: "u64 option \<Rightarrow> limine_framebuffer \<Rightarrow> kernel \<Rightarrow> (bool \<times> kernel) option" where
  "boot_console initrd f s = do {
     ((fontfile, sz), s) \<leftarrow> cpio_lookup initrd (lit ''fonts/spleen-12x24.psfu'') 0 s;
     let psf2 = load_psf2_font (mem s) fontfile (case sz of None \<Rightarrow> 0 | Some n \<Rightarrow> n) in
     if psf2 = 0 then Some (False, puts ''failed to load font?\<newline>'' s)
     else let font = boot_font (mem s) fontfile psf2
          in Some (True, s\<lparr>fb := fbtext_init (Some f) (Some font) (fb s)\<rparr>)
   }"

definition boot_init ::
  "image \<Rightarrow> hardware \<Rightarrow> boot_info \<Rightarrow> limine_memmap_entry list \<Rightarrow> u64 \<Rightarrow> u64 \<Rightarrow> kernel \<Rightarrow> kernel option" where
  "boot_init I H B memmap hhdm rsdp s =
     (let s = print ''GDT with TSS initialized;'' COL_SUCCESS_INIT (gdt_init I s);
          s = print '' IDT initialized;'' COL_SUCCESS_INIT (idt_init I s);
          s = print '' Syscalls initialized;'' COL_SUCCESS_INIT (syscalls_init I H s)
      in do {
        s \<leftarrow> pmm_init memmap hhdm s;
        let s = print '' PMM initialized;'' COL_SUCCESS_INIT s;
            s = print '' VMM initialized;'' COL_SUCCESS_INIT (vmm_init (cr3 s) s)
        in do {
        s \<leftarrow> apic_init H rsdp s;
        let s = print '' TSC & APIC initialized;'' COL_SUCCESS_INIT s;
            s = print '' RTC initialized;'' COL_SUCCESS_INIT (time_init H (date_at_boot B) s);
            s = print '' PS/2 keyboard driver initialized\<newline>'' COL_SUCCESS_INIT (keyboard_init s)
        in do {
        (ok, s) \<leftarrow> memorymanagers_tests s;
        let s = (if ok then print ''VMM & PMM tests ok\<newline>\<newline>'' COL_SUCCESS_INIT s else s)
        in Some (dev_write Sti (print_memory_info s))
      }}})"

definition boot_tasks :: "u64 option \<Rightarrow> kernel \<Rightarrow> (cpu_context_t \<times> kernel) option" where
  "boot_tasks initrd s =
     (let s = print ''Scheduler initialized\<newline>'' COL_SUCCESS_INIT (scheduler_init s) in do {
      (t1, s) \<leftarrow> create_task initrd ''bin/task_a.elf'' ''TASK_A created! '' s;
      (t2, s) \<leftarrow> create_task initrd ''bin/task_b.elf'' ''TASK_B created! '' s;
      (t3, s) \<leftarrow> create_task initrd ''bin/task_c.elf'' ''TASK_C created!\<newline>'' s;
      s \<leftarrow> queue_task t1 ''TASK_A in queue! '' s;
      s \<leftarrow> queue_task t2 ''TASK_B in queue! '' s;
      s \<leftarrow> queue_task t3 ''TASK_C in queue!\<newline>'' s;
      Some (task_enter t1 (print ''task_enter TASK_A\<newline>'' COL_TITLE s))
    })"

definition EstellaEntry :: "image \<Rightarrow> hardware \<Rightarrow> boot_info \<Rightarrow> kernel \<Rightarrow> boot_outcome option" where
  "EstellaEntry I H B s =
     (let s = serial_init s;
          s = puts ''EstellaEntry\<newline>'' s;
          s = puts ''SonnaOS Estella v0.9.0-dev (x86_64 UEFI)\<newline>'' s;
          s = puts ''Development on: https://github.com/aprentxdev/SonnaOS\<newline>'' s
      in if \<not> base_revision_supported B then Some (Boot_halt s)
         else case (framebuffers B, hhdm_response B, memmap_response B, module_response B, rsdp_response B) of
           (Some (f # _), Some hhdm, Some memmap, Some modules, Some rsdp) \<Rightarrow>
             let s = (if modules = [] then puts ''missing initrd\<newline>'' s else s)
             in (case modules of [] \<Rightarrow> None
                 | initrd # _ \<Rightarrow> do {
                     (ok, s) \<leftarrow> boot_console initrd f s;
                     if \<not> ok then Some (Boot_halt s) else do {
                     ((logofile, _), s) \<leftarrow> cpio_lookup initrd (lit ''assets/logo.raw'') 0 s;
                     let s = print ''\<newline>'' 0 (print_system_info B f logofile s) in do {
                     s \<leftarrow> boot_init I H B memmap hhdm rsdp s;
                     (r, s) \<leftarrow> boot_tasks initrd s;
                     Some (Boot_enter r s)
                   }}})
         | _ \<Rightarrow> Some (Boot_halt s))"

end
