(* ===== verification/Limine.thy ===== *)
theory Limine
  imports Boot
begin

text \<open>
  The boot protocol, as far as the kernel uses it: the requests \<open>boot/main.c\<close> places in its image
  for the boot loader, the structures of \<open>kernel/include/limine.h\<close> behind the answers, and
  \<open>boot_info_at\<close>, which reads the argument of \<open>EstellaEntry\<close> from memory.  The boot loader itself is not part of
  the sources; it fills in the \<open>response\<close> fields and clears the last word of \<open>limine_base_revision\<close>.  It
  keeps its answers in memory the allocator never hands out, so that reading them at once is the same as
  reading them where \<open>main.c\<close> does.
\<close>

section \<open>Requests\<close>

abbreviation LIMINE_COMMON_MAGIC :: "u64 list" where
  "LIMINE_COMMON_MAGIC \<equiv> [0xc7b1dd30df4c8b88, 0x0a82e883a194f07b]"

definition LIMINE_REQUESTS_START_MARKER :: "u64 list" where
  "LIMINE_REQUESTS_START_MARKER = [0xf6b8f4b39de7d1ae, 0xfab91a6940fcb9cf, 0x785c6ed015d3e316, 0x181e920a7852b9d9]"

definition LIMINE_REQUESTS_END_MARKER :: "u64 list" where
  "LIMINE_REQUESTS_END_MARKER = [0xadc0e0531bb10d03, 0x9572709f31764c62]"

definition LIMINE_BASE_REVISION :: "u64 \<Rightarrow> u64 list" where
  "LIMINE_BASE_REVISION n = [0xf9562b2d5c95a6c8, 0x6a7b384944536bdc, n]"

definition LIMINE_BASE_REVISION_SUPPORTED :: "u64 list \<Rightarrow> bool" where
  "LIMINE_BASE_REVISION_SUPPORTED var \<longleftrightarrow> var ! 2 = 0"

definition LIMINE_BOOTLOADER_INFO_REQUEST_ID :: "u64 list" where
  "LIMINE_BOOTLOADER_INFO_REQUEST_ID = LIMINE_COMMON_MAGIC @ [0xf55038d8e2a1202f, 0x279426fcf5f59740]"

definition LIMINE_FIRMWARE_TYPE_REQUEST_ID :: "u64 list" where
  "LIMINE_FIRMWARE_TYPE_REQUEST_ID = LIMINE_COMMON_MAGIC @ [0x8c2f75d90bef28a8, 0x7045a4688eac00c3]"

definition LIMINE_HHDM_REQUEST_ID :: "u64 list" where
  "LIMINE_HHDM_REQUEST_ID = LIMINE_COMMON_MAGIC @ [0x48dcf1cb8ad2b852, 0x63984e959a98244b]"

definition LIMINE_FRAMEBUFFER_REQUEST_ID :: "u64 list" where
  "LIMINE_FRAMEBUFFER_REQUEST_ID = LIMINE_COMMON_MAGIC @ [0x9d5827dcd881dd75, 0xa3148604f6fab11b]"

definition LIMINE_MEMMAP_REQUEST_ID :: "u64 list" where
  "LIMINE_MEMMAP_REQUEST_ID = LIMINE_COMMON_MAGIC @ [0x67cf3d9d378a806f, 0xe304acdfc50c3c62]"

definition LIMINE_MODULE_REQUEST_ID :: "u64 list" where
  "LIMINE_MODULE_REQUEST_ID = LIMINE_COMMON_MAGIC @ [0x3e7e279702be32af, 0xca1c4f3bd1280cee]"

definition LIMINE_RSDP_REQUEST_ID :: "u64 list" where
  "LIMINE_RSDP_REQUEST_ID = LIMINE_COMMON_MAGIC @ [0xc5e77b6b397e7b43, 0x27637845accdcf3c]"

definition LIMINE_DATE_AT_BOOT_REQUEST_ID :: "u64 list" where
  "LIMINE_DATE_AT_BOOT_REQUEST_ID = LIMINE_COMMON_MAGIC @ [0x502746e184c088aa, 0xfbc5ec83e6327893]"

text \<open>The fields every request has; in the image the response is a null pointer.\<close>

record limine_request =
  req_id :: "u64 list"
  req_revision :: u64
  req_response :: u64

definition framebuffer_request :: limine_request where
  "framebuffer_request = \<lparr>req_id = LIMINE_FRAMEBUFFER_REQUEST_ID, req_revision = 0, req_response = 0\<rparr>"

definition bootloader_info_request :: limine_request where
  "bootloader_info_request = \<lparr>req_id = LIMINE_BOOTLOADER_INFO_REQUEST_ID, req_revision = 0, req_response = 0\<rparr>"

definition firmware_type_request :: limine_request where
  "firmware_type_request = \<lparr>req_id = LIMINE_FIRMWARE_TYPE_REQUEST_ID, req_revision = 0, req_response = 0\<rparr>"

definition memmap_request :: limine_request where
  "memmap_request = \<lparr>req_id = LIMINE_MEMMAP_REQUEST_ID, req_revision = 0, req_response = 0\<rparr>"

definition module_request :: limine_request where
  "module_request = \<lparr>req_id = LIMINE_MODULE_REQUEST_ID, req_revision = 0, req_response = 0\<rparr>"

definition hhdm_request :: limine_request where
  "hhdm_request = \<lparr>req_id = LIMINE_HHDM_REQUEST_ID, req_revision = 0, req_response = 0\<rparr>"

definition rsdp_request :: limine_request where
  "rsdp_request = \<lparr>req_id = LIMINE_RSDP_REQUEST_ID, req_revision = 0, req_response = 0\<rparr>"

definition date_at_boot_request :: limine_request where
  "date_at_boot_request = \<lparr>req_id = LIMINE_DATE_AT_BOOT_REQUEST_ID, req_revision = 0, req_response = 0\<rparr>"

definition limine_base_revision :: "u64 list" where
  "limine_base_revision = LIMINE_BASE_REVISION 4"

definition limine_requests_start_marker :: "u64 list" where
  "limine_requests_start_marker = LIMINE_REQUESTS_START_MARKER"

definition limine_requests_end_marker :: "u64 list" where
  "limine_requests_end_marker = LIMINE_REQUESTS_END_MARKER"

text \<open>A request takes 48 bytes: four words of the id, the revision and the response.\<close>

definition read_words :: "memory \<Rightarrow> u64 \<Rightarrow> nat \<Rightarrow> u64 list" where
  "read_words m p n = map (\<lambda>i. read64 m (p + 8 * of_nat i)) [0..<n]"

definition request_at :: "memory \<Rightarrow> u64 \<Rightarrow> limine_request" where
  "request_at m p = \<lparr>req_id = read_words m p 4, req_revision = read64 m (p + 32), req_response = read64 m (p + 40)\<rparr>"

section \<open>Responses\<close>

record limine_file =
  file_revision :: u64
  file_address :: u64
  file_size :: u64
  file_path :: u64
  file_string :: u64
  file_media_type :: u32
  file_unused :: u32
  file_tftp_ip :: u32
  file_tftp_port :: u32
  file_partition_index :: u32
  file_mbr_disk_id :: u32
  file_gpt_disk_uuid :: "u8 list"
  file_gpt_part_uuid :: "u8 list"
  file_part_uuid :: "u8 list"

definition load_limine_file :: "memory \<Rightarrow> u64 \<Rightarrow> limine_file" where
  "load_limine_file m p =
     \<lparr>file_revision = read64 m p, file_address = read64 m (p + 8), file_size = read64 m (p + 16),
      file_path = read64 m (p + 24), file_string = read64 m (p + 32), file_media_type = read32 m (p + 40),
      file_unused = read32 m (p + 44), file_tftp_ip = read32 m (p + 48), file_tftp_port = read32 m (p + 52),
      file_partition_index = read32 m (p + 56), file_mbr_disk_id = read32 m (p + 60),
      file_gpt_disk_uuid = read_bytes m (p + 64) 16, file_gpt_part_uuid = read_bytes m (p + 80) 16,
      file_part_uuid = read_bytes m (p + 96) 16\<rparr>"

definition load_framebuffer :: "memory \<Rightarrow> u64 \<Rightarrow> limine_framebuffer" where
  "load_framebuffer m p =
     \<lparr>fb_address = read64 m p, fb_width = read64 m (p + 8), fb_height = read64 m (p + 16), fb_pitch = read64 m (p + 24)\<rparr>"

definition load_memmap_entry :: "memory \<Rightarrow> u64 \<Rightarrow> limine_memmap_entry" where
  "load_memmap_entry m p = \<lparr>entry_base = read64 m p, entry_length = read64 m (p + 8), entry_type = read64 m (p + 16)\<rparr>"

text \<open>
  The responses of the framebuffer, memory map and module requests have the same shape: behind the
  revision a count and a pointer to that many pointers.
\<close>

definition response_pointers :: "memory \<Rightarrow> u64 \<Rightarrow> u64 list" where
  "response_pointers m r = read_words m (read64 m (r + 16)) (unat (read64 m (r + 8)))"

definition framebuffer_response :: "memory \<Rightarrow> u64 \<Rightarrow> limine_framebuffer list" where
  "framebuffer_response m r = map (load_framebuffer m) (response_pointers m r)"

definition memmap_entries :: "memory \<Rightarrow> u64 \<Rightarrow> limine_memmap_entry list" where
  "memmap_entries m r = map (load_memmap_entry m) (response_pointers m r)"

definition module_files :: "memory \<Rightarrow> u64 \<Rightarrow> u64 option list" where
  "module_files m r =
     map (\<lambda>p. if p = 0 then None else Some (file_address (load_limine_file m p))) (response_pointers m r)"

text \<open>The other responses the kernel reads hold one word, or two strings, behind the revision.\<close>

definition response_word :: "memory \<Rightarrow> u64 \<Rightarrow> u64" where
  "response_word m r = read64 m (r + 8)"

definition string_at :: "memory \<Rightarrow> u64 \<Rightarrow> u8 list option" where
  "string_at m p = map_option (\<lambda>n. read_bytes m p (unat n)) (strlen_loop m p 0)"

definition bootloader_names :: "memory \<Rightarrow> u64 \<Rightarrow> (u8 list \<times> u8 list) option" where
  "bootloader_names m r = do {
     name \<leftarrow> string_at m (read64 m (r + 8));
     version \<leftarrow> string_at m (read64 m (r + 16));
     Some (name, version) }"

text \<open>The addresses of the requests in the image.\<close>

record request_addresses =
  at_base_revision :: u64
  at_framebuffer :: u64
  at_bootloader_info :: u64
  at_firmware_type :: u64
  at_memmap :: u64
  at_module :: u64
  at_hhdm :: u64
  at_rsdp :: u64
  at_date :: u64

definition response_of :: "(memory \<Rightarrow> u64 \<Rightarrow> 'b) \<Rightarrow> memory \<Rightarrow> u64 \<Rightarrow> 'b option" where
  "response_of f m p = (let r = req_response (request_at m p) in if r = 0 then None else Some (f m r))"

text \<open>The result is \<open>None\<close> when a name of the boot loader has no end.\<close>

definition boot_info_at :: "request_addresses \<Rightarrow> memory \<Rightarrow> boot_info option" where
  "boot_info_at R m = do {
     info \<leftarrow> (case response_of bootloader_names m (at_bootloader_info R) of
               None \<Rightarrow> Some None | Some names \<Rightarrow> map_option Some names);
     Some \<lparr>base_revision_supported = LIMINE_BASE_REVISION_SUPPORTED (read_words m (at_base_revision R) 3),
           framebuffers = response_of framebuffer_response m (at_framebuffer R),
           hhdm_response = response_of response_word m (at_hhdm R),
           memmap_response = response_of memmap_entries m (at_memmap R),
           module_response = response_of module_files m (at_module R),
           rsdp_response = response_of response_word m (at_rsdp R),
           firmware_type = response_of response_word m (at_firmware_type R),
           bootloader_info = info,
           date_at_boot = response_of response_word m (at_date R)\<rparr> }"

definition kernel_start :: "image \<Rightarrow> hardware \<Rightarrow> request_addresses \<Rightarrow> kernel \<Rightarrow> boot_outcome option" where
  "kernel_start I H R s = do { B \<leftarrow> boot_info_at R (mem s); EstellaEntry I H B s }"

section \<open>Reading back\<close>

text \<open>The image as the linker lays it out, read back, gives the requests; the loader can tell them apart.\<close>

fun write_words :: "u64 \<Rightarrow> u64 list \<Rightarrow> memory \<Rightarrow> memory" where
  "write_words p [] m = m"
| "write_words p (w # ws) m = write64 p w (write_words (p + 8) ws m)"

definition request_words :: "limine_request \<Rightarrow> u64 list" where
  "request_words q = req_id q @ [req_revision q, req_response q]"

lemma request_ids_distinct:
  "distinct (map req_id [framebuffer_request, bootloader_info_request, firmware_type_request, memmap_request,
     module_request, hhdm_request, rsdp_request, date_at_boot_request])"
  by (simp add: framebuffer_request_def bootloader_info_request_def firmware_type_request_def memmap_request_def
      module_request_def hhdm_request_def rsdp_request_def date_at_boot_request_def
      LIMINE_BOOTLOADER_INFO_REQUEST_ID_def LIMINE_FIRMWARE_TYPE_REQUEST_ID_def LIMINE_HHDM_REQUEST_ID_def
      LIMINE_FRAMEBUFFER_REQUEST_ID_def LIMINE_MEMMAP_REQUEST_ID_def LIMINE_MODULE_REQUEST_ID_def
      LIMINE_RSDP_REQUEST_ID_def LIMINE_DATE_AT_BOOT_REQUEST_ID_def)

lemma request_at_written:
  assumes "length (req_id q) = 4"
  shows "request_at (write_words p (request_words q) m) p = q"
proof -
  obtain a b c d where "req_id q = [a, b, c, d]"
    using assms by (auto simp: length_Suc_conv numeral_eq_Suc)
  then show ?thesis
    by (simp add: request_words_def request_at_def read_words_def upt_rec read64_write64_same read64_write64_other add.commute [of p])
qed

text \<open>A loader that knows none of the requests leaves the kernel halting behind its greeting.\<close>

lemma unanswered_halts:
  assumes "boot_info_at R (mem s) = Some B" and "req_response (request_at (mem s) (at_framebuffer R)) = 0"
  shows "\<exists>s'. kernel_start I H R s = Some (Boot_halt s')"
proof -
  have "framebuffers B = None" using assms by (auto simp: boot_info_at_def response_of_def split: Option.bind_splits)
  then show ?thesis using assms(1) by (simp add: kernel_start_def EstellaEntry_def Let_def)
qed

end
