(* ===== verification/Apic_Properties.thy ===== *)
theory Apic_Properties
  imports Apic
begin

text \<open>
  What the I/O APIC holds after the driver has written to it.  The device has two windows: the low
  byte of a write to the index register selects a register, and a write to the data window sets it.
  \<open>ioapic_after\<close> computes the registers from the trace of accesses, so the lemmas say what a pin
  does and in which order its entry changes.
\<close>

section \<open>The registers behind the two windows\<close>

type_synonym ioapic_regs = "u32 \<times> (u32 \<Rightarrow> u32)"

definition ioapic_step :: "u64 \<Rightarrow> dev_event \<Rightarrow> ioapic_regs \<Rightarrow> ioapic_regs" where
  "ioapic_step base e r =
     (case e of
        Mmio_write32 a v \<Rightarrow>
          if a = base then (v AND 0xFF, snd r)
          else if a = base + 16 then (fst r, (snd r)(fst r := v))
          else r
      | _ \<Rightarrow> r)"

definition ioapic_after :: "u64 \<Rightarrow> ioapic_regs \<Rightarrow> dev_event list \<Rightarrow> ioapic_regs" where
  "ioapic_after base r log = fold (ioapic_step base) log r"

text \<open>A read of the data window returns the selected register.\<close>

definition ioapic_answers :: "hardware \<Rightarrow> u64 \<Rightarrow> ioapic_regs \<Rightarrow> bool" where
  "ioapic_answers H base r \<longleftrightarrow>
     (\<forall>log. hw_read H log (Mmio_read32 (base + 16)) = ucast (snd (ioapic_after base r log) (fst (ioapic_after base r log))))"

lemma ioapic_after_append [simp]: "ioapic_after base r (log @ es) = fold (ioapic_step base) es (ioapic_after base r log)"
  by (simp add: ioapic_after_def)

lemma low_byte_id:
  fixes reg :: u32
  assumes "reg < 0x100"
  shows "reg AND 0xFF = reg"
proof -
  have m: "(0xFF :: u32) = mask 8" by (simp add: mask_eq_exp_minus_1)
  have "unat reg < 2 ^ 8" using assms by (simp add: word_less_nat_alt)
  then have "unat (take_bit 8 reg) = unat reg" by (simp only: unsigned_take_bit_eq take_bit_nat_eq_self)
  then have "take_bit 8 reg = reg" by (simp only: word_unat_eq_iff)
  then show ?thesis unfolding m by (simp only: take_bit_eq_mask)
qed

text \<open>Writing and reading a register through the windows.\<close>

definition window_write :: "u64 \<Rightarrow> u32 \<Rightarrow> u32 \<Rightarrow> dev_event list" where
  "window_write base reg val = [Mmio_write32 base reg, Mmio_write32 (base + 16) val]"

lemma ioapic_write_log:
  assumes "mmio_base_va (ioapics s ! io) = base" and "base \<noteq> 0"
  shows "ioapic_write (Some io) reg val s = s\<lparr>io_log := io_log s @ window_write base reg val\<rparr>"
  using assms
  by (simp add: ioapic_write_def ioapic_write_internal_def mmio_write32_def dev_write_def window_write_def Let_def)

lemma ioapic_read_log:
  assumes "mmio_base_va (ioapics s ! io) = base" and "base \<noteq> 0" and "ioapic_answers H base r" and "reg < 0x100"
  shows "ioapic_read H (Some io) reg s =
    (snd (ioapic_after base r (io_log s)) reg, s\<lparr>io_log := io_log s @ [Mmio_write32 base reg, Mmio_read32 (base + 16)]\<rparr>)"
proof -
  have "reg AND 0xFF = reg" by (rule low_byte_id [OF assms(4)])
  moreover have "(ucast (ucast v :: u64) :: u32) = v" for v :: u32
    by (rule bit_word_eqI) (simp add: bit_ucast_iff)
  ultimately show ?thesis
    using assms
    by (simp add: ioapic_read_def ioapic_read_internal_def mmio_write32_def mmio_read32_def dev_write_def dev_read_def
        ioapic_answers_def ioapic_step_def Let_def)
qed


section \<open>Which controller serves an interrupt\<close>

lemma gsi_in_range:
  fixes gsi b m :: u32
  assumes "b \<le> gsi" and "gsi < b + m + 1"
  shows "unat (gsi - b) \<le> unat m"
proof -
  have "unat (gsi - b) = unat gsi - unat b" using assms(1) by (simp add: unat_sub)
  moreover have "unat (b + m + 1) \<le> unat b + unat m + 1" by (simp add: unat_word_ariths)
  moreover have "unat gsi < unat (b + m + 1)" using assms(2) by (simp only: word_less_nat_alt)
  ultimately show ?thesis by linarith
qed

lemma ioapic_for_gsi_loop_sound:
  assumes "ioapic_for_gsi_loop s gsi is = Some (io, pin)"
  shows "io \<in> set is \<and> gsi = gsi_base (ioapics s ! io) + pin \<and> unat pin \<le> unat (max_redirection (ioapics s ! io))"
  using assms
proof (induction "is")
  case (Cons i "is")
  let ?b = "gsi_base (ioapics s ! i)" and ?m = "max_redirection (ioapics s ! i)"
  show ?case
  proof (cases "gsi \<ge> ?b \<and> gsi < ?b + ucast ?m + 1")
    case True
    then have "unat (gsi - ?b) \<le> unat (ucast ?m :: u32)" using gsi_in_range by blast
    moreover have "unat (ucast ?m :: u32) = unat ?m"
      using unsigned_less [of ?m, where 'a = nat] by (simp add: unsigned_ucast_eq take_bit_nat_eq_self)
    ultimately show ?thesis using True Cons.prems by (auto simp: Let_def)
  next
    case False
    then show ?thesis using Cons by (auto simp: Let_def split: if_splits)
  qed
qed simp

lemma ioapic_for_gsi_sound:
  assumes "ioapic_for_gsi s gsi = Some (io, pin)"
  shows "io < unat (ioapic_count s)" "gsi = gsi_base (ioapics s ! io) + pin" "unat pin \<le> unat (max_redirection (ioapics s ! io))"
  using ioapic_for_gsi_loop_sound [OF assms [unfolded ioapic_for_gsi_def]] by auto

lemma ioapic_log_route: "ioapic_for_gsi (s\<lparr>io_log := log\<rparr>) gsi = ioapic_for_gsi s gsi"
proof -
  have "ioapic_for_gsi_loop (s\<lparr>io_log := log\<rparr>) gsi is = ioapic_for_gsi_loop s gsi is" for "is"
    by (induction "is") (simp_all add: Let_def)
  then show ?thesis by (simp add: ioapic_for_gsi_def)
qed

section \<open>The entry of a pin\<close>

record redirection =
  rd_vector :: u8
  rd_mode :: u32
  rd_low :: bool
  rd_level :: bool
  rd_masked :: bool
  rd_destination :: u8

definition redirection_of :: "u32 \<Rightarrow> u32 \<Rightarrow> redirection" where
  "redirection_of lo hi = \<lparr>rd_vector = ucast lo, rd_mode = drop_bit 8 lo AND 7, rd_low = bit lo 13, rd_level = bit lo 15,
     rd_masked = bit lo 16, rd_destination = ucast (drop_bit 24 hi)\<rparr>"

definition pin_low :: "u32 \<Rightarrow> u32" where
  "pin_low pin = IOAPIC_REDIR_TBL_OFFSET + pin * 2"

definition pin_entry :: "(u32 \<Rightarrow> u32) \<Rightarrow> u32 \<Rightarrow> redirection" where
  "pin_entry R pin = redirection_of (R (pin_low pin)) (R (pin_low pin + 1))"

definition irq_low :: "u8 \<Rightarrow> u8 \<Rightarrow> bool \<Rightarrow> bool \<Rightarrow> u32" where
  "irq_low vector mode level low = ucast vector OR ucast mode OR (if level then IOREDTBL_TRIGGER_LEVEL else 0)
     OR (if low then IOREDTBL_POLARITY_LOW else 0)"

lemma irq_low_bit:
  assumes "n < 32"
  shows "bit (irq_low vector mode level low) n \<longleftrightarrow>
     n < 8 \<and> (bit vector n \<or> bit mode n) \<or> n = 15 \<and> level \<or> n = 13 \<and> low"
proof -
  have c: "(0x8000 :: u32) = push_bit 15 1" "(0x2000 :: u32) = push_bit 13 1" by simp_all
  show ?thesis
    using assms unfolding irq_low_def c
    by (auto simp: bit_or_iff bit_ucast_iff bit_push_bit_iff bit_1_iff simp del: push_bit_of_1 dest: bit_imp_le_length)
qed

lemma irq_entry:
  "redirection_of (irq_low vector mode level low) (push_bit 24 destination) =
     \<lparr>rd_vector = vector OR mode, rd_mode = 0, rd_low = low, rd_level = level, rd_masked = False,
      rd_destination = ucast destination\<rparr>"
proof -
  have "ucast (irq_low vector mode level low) = vector OR mode"
    by (rule bit_word_eqI) (auto simp: bit_ucast_iff irq_low_bit bit_or_iff)
  moreover have "drop_bit 8 (irq_low vector mode level low) AND 7 = 0"
  proof (rule bit_word_eqI)
    have m: "(7 :: u32) = mask 3" by (simp add: mask_eq_exp_minus_1)
    fix n assume "n < LENGTH(32)"
    then show "bit (drop_bit 8 (irq_low vector mode level low) AND 7) n = bit (0 :: u32) n"
      unfolding m by (auto simp: bit_and_iff bit_mask_iff bit_drop_bit_eq irq_low_bit)
  qed
  moreover have "(ucast (drop_bit 24 (push_bit 24 destination)) :: u8) = ucast destination"
    by (rule bit_word_eqI) (auto simp: bit_ucast_iff bit_drop_bit_eq bit_push_bit_iff)
  ultimately show ?thesis by (simp add: redirection_of_def irq_low_bit)
qed

section \<open>Programming a pin\<close>

lemma pin_registers:
  assumes "pin < 120"
  shows "pin_low pin AND 0xFF = pin_low pin" "(pin_low pin + 1) AND 0xFF = pin_low pin + 1" "pin_low pin < 0x100" "pin_low pin + 1 \<noteq> pin_low pin"
proof -
  have p: "unat pin < 120" using assms by (simp add: word_less_nat_alt)
  have "unat (pin_low pin) = 16 + 2 * unat pin"
    using p by (simp add: pin_low_def unat_word_ariths)
  then have "unat (pin_low pin) < 256" "unat (pin_low pin + 1) < 256"
    using p by (simp_all add: unat_word_ariths)
  then show lt: "pin_low pin < 0x100" and "(pin_low pin + 1) AND 0xFF = pin_low pin + 1"
    by (simp_all add: word_less_nat_alt low_byte_id)
  then show "pin_low pin AND 0xFF = pin_low pin" by (simp only: low_byte_id)
qed simp

definition set_irq_events :: "u64 \<Rightarrow> u32 \<Rightarrow> u32 \<Rightarrow> u32 \<Rightarrow> dev_event list" where
  "set_irq_events base pin lo hi =
     window_write base (pin_low pin) (lo OR IOREDTBL_MASKED) @ window_write base (pin_low pin + 1) hi
     @ window_write base (pin_low pin) lo"

lemma ioapic_set_irq_log:
  assumes "ioapic_for_gsi s irq = Some (io, pin)" and "mmio_base_va (ioapics s ! io) = base" and "base \<noteq> 0"
  shows "ioapic_set_irq irq vector level low mode destination s =
    s\<lparr>io_log := io_log s @ set_irq_events base pin (irq_low vector mode level low) (push_bit 24 destination)\<rparr>"
  using assms
  by (simp add: ioapic_set_irq_def ioapic_write_log set_irq_events_def irq_low_def pin_low_def Let_def)

lemma take_six: "take n [a, b, c, d, e, f] \<in> {[], [a], [a, b], [a, b, c], [a, b, c, d], [a, b, c, d, e], [a, b, c, d, e, f]}"
  by (cases "n < 6") (auto simp: less_Suc_eq numeral_eq_Suc)

text \<open>
  C28.  \<open>irq_set\<close> for an interrupt that an I/O APIC serves touches only the index and the data window of
  that controller.  Afterwards the pin delivers the vector to the destination with the trigger mode and
  the polarity asked for, unmasked and in fixed mode whatever mode was asked for, and all other registers are as before.  After
  every single access on the way the pin has its old entry, or is masked, or has the new entry: an
  interrupt never meets an entry that is half old and half new.
\<close>

theorem irq_set_programs_pin:
  assumes "ioapic_for_gsi s irq = Some (io, pin)" and "mmio_base_va (ioapics s ! io) = base" and "base \<noteq> 0" and "pin < 120"
  shows "\<exists>es. irq_set irq vector level low mode destination s = s\<lparr>io_log := io_log s @ es\<rparr>
     \<and> (\<forall>e\<in>set es. \<exists>a v. e = Mmio_write32 a v \<and> a \<in> {base, base + 16})
     \<and> (\<forall>r. let R = (\<lambda>n. snd (ioapic_after base r (io_log s @ take n es)));
               new = \<lparr>rd_vector = vector OR mode, rd_mode = 0, rd_low = low, rd_level = level, rd_masked = False,
                      rd_destination = ucast destination\<rparr>
           in pin_entry (R (length es)) pin = new
            \<and> (\<forall>n. pin_entry (R n) pin = pin_entry (R 0) pin \<or> rd_masked (pin_entry (R n) pin) \<or> pin_entry (R n) pin = new)
            \<and> (\<forall>n reg. reg \<notin> {pin_low pin, pin_low pin + 1} \<longrightarrow> R n reg = R 0 reg))"
proof -
  define lo hi where "lo = irq_low vector mode level low" and "hi = push_bit 24 destination"
  define es where "es = set_irq_events base pin lo hi"
  have call: "irq_set irq vector level low mode destination s = s\<lparr>io_log := io_log s @ es\<rparr>"
    using ioapic_set_irq_log [OF assms(1,2,3)] by (simp add: irq_set_def es_def lo_def hi_def)
  have six: "es = [Mmio_write32 base (pin_low pin), Mmio_write32 (base + 16) (lo OR IOREDTBL_MASKED),
      Mmio_write32 base (pin_low pin + 1), Mmio_write32 (base + 16) hi,
      Mmio_write32 base (pin_low pin), Mmio_write32 (base + 16) lo]"
    by (simp add: es_def set_irq_events_def window_write_def)
  note pin = pin_registers [OF assms(4)]
  have masked: "bit (lo OR IOREDTBL_MASKED) 16" "bit (0x10000 :: u32) 16"
    by (simp_all add: bit_or_iff bit_numeral_rec)
  note new = irq_entry [of vector mode level low destination, folded lo_def hi_def]
  have "pin_entry (snd (ioapic_after base r (io_log s @ es))) pin = redirection_of lo hi" for r
    by (simp add: six ioapic_step_def pin pin_entry_def)
  moreover have "pin_entry (snd (ioapic_after base r (io_log s @ take n es))) pin = pin_entry (snd (ioapic_after base r (io_log s))) pin
      \<or> rd_masked (pin_entry (snd (ioapic_after base r (io_log s @ take n es))) pin)
      \<or> pin_entry (snd (ioapic_after base r (io_log s @ take n es))) pin = redirection_of lo hi" for r n
    using take_six [of n, of "es ! 0" "es ! 1" "es ! 2" "es ! 3" "es ! 4" "es ! 5"]
    unfolding six
    by (auto simp: ioapic_step_def pin pin_entry_def masked redirection_of_def)
  moreover have "snd (ioapic_after base r (io_log s @ take n es)) reg = snd (ioapic_after base r (io_log s)) reg"
    if "reg \<notin> {pin_low pin, pin_low pin + 1}" for r n reg
    using take_six [of n, of "es ! 0" "es ! 1" "es ! 2" "es ! 3" "es ! 4" "es ! 5"] that
    unfolding six
    by (auto simp: ioapic_step_def pin)
  moreover have "\<forall>e\<in>set es. \<exists>a v. e = Mmio_write32 a v \<and> a \<in> {base, base + 16}" by (simp add: six)
  ultimately show ?thesis
    unfolding Let_def new by (intro exI [of _ es]) (simp add: call new)
qed

text \<open>The controller and the entry of the examples: pin 1 of a controller for 24 interrupts.\<close>

definition example_apic :: apic_state where
  "example_apic = \<lparr>mem = (\<lambda>_. 0), port_out = [], pmm_bitmap = 0, pmm_bitmap_bytes = 0, pmm_bitmap_frames = 0,
     pmm_total_frames_count = 0, pmm_usable_frames_count = 0, pmm_free_frames_count = 0, pmm_used_frames_count = 0,
     next_fit_hint = 0, hhdm_offset = 0xFFFF800000000000, kernel_pml4_phys = 0, invlpgs = [], io_log = [],
     lapic_ticks = 0, lapic_phys = 0, lapic_va = 0, x2apic_enabled = True,
     ioapics = [\<lparr>ioapic_id = 0, gsi_base = 0, mmio_base_va = 0xFFFF8000FEC00000, max_redirection = 23\<rparr>], ioapic_count = 1\<rparr>"

lemma example_apic_route: "ioapic_for_gsi example_apic 1 = Some (0, 1)"
  by (simp add: ioapic_for_gsi_def example_apic_def Let_def)

theorem irq_set_programs_pin_witness:
  "\<exists>es. irq_set 1 0x21 False False 0 0 example_apic = example_apic\<lparr>io_log := es\<rparr>
     \<and> pin_entry (snd (ioapic_after 0xFFFF8000FEC00000 (0, \<lambda>_. 0) es)) 1 =
         \<lparr>rd_vector = 0x21, rd_mode = 0, rd_low = False, rd_level = False, rd_masked = False, rd_destination = 0\<rparr>"
  using irq_set_programs_pin [OF example_apic_route, where base = "0xFFFF8000FEC00000" and vector = "0x21" and level = False
      and low = False and mode = 0 and destination = 0]
  by (auto simp: example_apic_def Let_def simp del: ioapic_after_append)

section \<open>Masking a pin\<close>

definition update_events :: "u64 \<Rightarrow> u32 \<Rightarrow> u32 \<Rightarrow> dev_event list" where
  "update_events base reg val = Mmio_write32 base reg # Mmio_read32 (base + 16) # window_write base reg val"

lemma update_events_after:
  assumes "reg AND 0xFF = reg"
  shows "ioapic_after base r (log @ update_events base reg val) = (reg, (snd (ioapic_after base r log))(reg := val))"
  by (simp add: update_events_def window_write_def ioapic_step_def assms)

lemma mask_bit: "(x :: u32) OR 0x10000 = set_bit 16 x" "(x :: u32) AND NOT 0x10000 = unset_bit 16 x"
proof -
  have c: "(0x10000 :: u32) = push_bit 16 1" by simp
  show "(x :: u32) OR 0x10000 = set_bit 16 x" unfolding c by (simp only: set_bit_eq_or)
  show "(x :: u32) AND NOT 0x10000 = unset_bit 16 x" unfolding c by (simp only: unset_bit_eq_and_not)
qed

lemma irq_mask_log:
  assumes "ioapic_for_gsi s irq = Some (io, pin)" and "mmio_base_va (ioapics s ! io) = base" and "base \<noteq> 0" and "pin < 120"
    and "ioapic_answers H base r"
  defines "v \<equiv> snd (ioapic_after base r (io_log s)) (pin_low pin)"
  shows "irq_mask H irq s = s\<lparr>io_log := io_log s @ update_events base (pin_low pin) (set_bit 16 v)\<rparr>"
    "irq_unmask H irq s = s\<lparr>io_log := io_log s @ update_events base (pin_low pin) (unset_bit 16 v)\<rparr>"
proof -
  note read = ioapic_read_log [OF assms(2,3,5), of "pin_low pin", folded v_def]
  have "irq_mask H irq s = s\<lparr>io_log := io_log s @ update_events base (pin_low pin) (v OR IOREDTBL_MASKED)\<rparr>"
    unfolding irq_mask_def ioapic_mask_irq_def assms(1) pin_low_def [symmetric] Let_def option.case prod.case
    using assms(2,3) by (simp add: read [OF pin_registers(3) [OF assms(4)]] ioapic_write_log update_events_def)
  then show "irq_mask H irq s = s\<lparr>io_log := io_log s @ update_events base (pin_low pin) (set_bit 16 v)\<rparr>"
    by (simp only: mask_bit)
  have "irq_unmask H irq s = s\<lparr>io_log := io_log s @ update_events base (pin_low pin) (v AND NOT IOREDTBL_MASKED)\<rparr>"
    unfolding irq_unmask_def ioapic_unmask_irq_def assms(1) pin_low_def [symmetric] Let_def option.case prod.case
    using assms(2,3) by (simp add: read [OF pin_registers(3) [OF assms(4)]] ioapic_write_log update_events_def)
  then show "irq_unmask H irq s = s\<lparr>io_log := io_log s @ update_events base (pin_low pin) (unset_bit 16 v)\<rparr>"
    by (simp only: mask_bit)
qed

text \<open>
  C29.  On hardware that reads back what was written, \<open>irq_mask\<close> sets the mask bit of the pin and
  \<open>irq_unmask\<close> clears it; neither changes another bit of any register or anything of the kernel's
  state, so masking and unmasking an active interrupt leaves the controller as it was.
\<close>

theorem irq_mask_unmask:
  assumes "ioapic_for_gsi s irq = Some (io, pin)" and "mmio_base_va (ioapics s ! io) = base" and "base \<noteq> 0" and "pin < 120"
    and "ioapic_answers H base r"
  shows "\<exists>es fs. irq_mask H irq s = s\<lparr>io_log := io_log s @ es\<rparr>
     \<and> irq_unmask H irq s = s\<lparr>io_log := io_log s @ fs\<rparr>
     \<and> irq_unmask H irq (irq_mask H irq s) = s\<lparr>io_log := io_log s @ es @ fs\<rparr>
     \<and> (let R = snd (ioapic_after base r (io_log s)); lo = pin_low pin
        in snd (ioapic_after base r (io_log s @ es)) = R(lo := set_bit 16 (R lo))
         \<and> snd (ioapic_after base r (io_log s @ fs)) = R(lo := unset_bit 16 (R lo))
         \<and> (\<not> rd_masked (pin_entry R pin) \<longrightarrow> snd (ioapic_after base r (io_log s @ es @ fs)) = R))"
proof -
  define R where "R = snd (ioapic_after base r (io_log s))"
  define es fs where "es = update_events base (pin_low pin) (set_bit 16 (R (pin_low pin)))"
    and "fs = update_events base (pin_low pin) (unset_bit 16 (R (pin_low pin)))"
  have mask: "irq_mask H irq s = s\<lparr>io_log := io_log s @ es\<rparr>" and unmask: "irq_unmask H irq s = s\<lparr>io_log := io_log s @ fs\<rparr>"
    using irq_mask_log [OF assms] by (simp_all only: es_def fs_def R_def)
  note after = update_events_after [OF pin_registers(1) [OF assms(4)], of base r]
  have after_es: "snd (ioapic_after base r (io_log s @ es)) = R(pin_low pin := set_bit 16 (R (pin_low pin)))"
    and after_fs: "snd (ioapic_after base r (io_log s @ fs)) = R(pin_low pin := unset_bit 16 (R (pin_low pin)))"
    by (simp_all only: es_def fs_def after snd_conv R_def)
  have cleared: "unset_bit 16 (set_bit 16 x) = unset_bit 16 x" for x :: u32
    by (rule bit_word_eqI) (auto simp: bit_unset_bit_iff bit_set_bit_iff)
  let ?t = "s\<lparr>io_log := io_log s @ es\<rparr>"
  have route: "ioapic_for_gsi ?t irq = Some (io, pin)" "mmio_base_va (ioapics ?t ! io) = base"
    using assms(1,2) by (simp_all add: ioapic_log_route)
  have both: "irq_unmask H irq (irq_mask H irq s) = s\<lparr>io_log := io_log s @ es @ fs\<rparr>"
    unfolding mask irq_mask_log(2) [OF route assms(3-5)]
    by (simp add: after_es cleared fs_def del: ioapic_after_append)
  have "snd (ioapic_after base r (io_log s @ es @ fs)) = R" if "\<not> rd_masked (pin_entry R pin)"
  proof -
    have "\<not> bit (R (pin_low pin)) 16" using that by (simp add: pin_entry_def redirection_of_def)
    then have "unset_bit 16 (R (pin_low pin)) = R (pin_low pin)"
      by (intro bit_word_eqI) (auto simp: bit_unset_bit_iff)
    then show ?thesis
      unfolding append_assoc [symmetric] fs_def after after_es snd_conv by simp
  qed
  then show ?thesis
    using mask unmask both after_es after_fs unfolding Let_def R_def [symmetric] by blast
qed

text \<open>A machine whose I/O APIC answers reads as described.\<close>

definition example_machine :: hardware where
  "example_machine = \<lparr>hw_read = (\<lambda>log e. let r = ioapic_after 0xFFFF8000FEC00000 (0, \<lambda>_. 0x21) log in ucast (snd r (fst r))),
     hw_cpuid = (\<lambda>_. (0, 0, 0, 0)), hw_key_irq = (\<lambda>_. False)\<rparr>"

lemma example_machine_answers: "ioapic_answers example_machine 0xFFFF8000FEC00000 (0, \<lambda>_. 0x21)"
  by (simp add: ioapic_answers_def example_machine_def Let_def)

theorem irq_mask_unmask_witness:
  "\<exists>log. irq_unmask example_machine 1 (irq_mask example_machine 1 example_apic) = example_apic\<lparr>io_log := log\<rparr>
     \<and> snd (ioapic_after 0xFFFF8000FEC00000 (0, \<lambda>_. 0x21) log) = (\<lambda>_. 0x21)"
proof -
  have s: "mmio_base_va (ioapics example_apic ! 0) = 0xFFFF8000FEC00000" "io_log example_apic = []"
    by (simp_all add: example_apic_def)
  have base: "(0xFFFF8000FEC00000 :: u64) \<noteq> 0" "(1 :: u32) < 120" by simp_all
  have "\<not> rd_masked (pin_entry (snd (ioapic_after 0xFFFF8000FEC00000 (0, \<lambda>_. 0x21) [])) 1)"
    by (simp add: pin_entry_def redirection_of_def ioapic_after_def bit_numeral_rec)
  moreover have "snd (ioapic_after 0xFFFF8000FEC00000 (0, \<lambda>_. 0x21) []) = (\<lambda>_. 0x21)" by (simp add: ioapic_after_def)
  ultimately show ?thesis
    using irq_mask_unmask [OF example_apic_route s(1) base example_machine_answers]
    unfolding s(2) append_Nil Let_def by metis
qed

end
