(* ===== verification/Exceptions.thy ===== *)
theory Exceptions
  imports Context_Switch
begin

text \<open>
  The entry code of exceptions in \<open>interrupts/isr.S\<close>: the stubs \<open>isr0\<close> to \<open>isr31\<close> and
  \<open>lapic_error_isr\<close>, the common part that gathers the arguments of \<open>exception_handler\<close> from the
  stack, and how the processor gets there through a gate.
\<close>

section \<open>The stubs\<close>

text \<open>The vectors of the two macros, and the words a stub pushes before it jumps to \<open>common\<close>.\<close>

definition EXCEPTION_NOERR :: "nat list" where
  "EXCEPTION_NOERR =
     [0, 1, 2, 3, 4, 5, 6, 7, 9, 15, 16, 18, 19, 20, 22, 23, 24, 25, 26, 27, 28, 29, 30, 31]"

definition EXCEPTION_ERR :: "nat list" where
  "EXCEPTION_ERR = [8, 10, 11, 12, 13, 14, 17, 21]"

definition isr_stub :: "nat \<Rightarrow> u64 list" where
  "isr_stub n =
     (if n \<in> set EXCEPTION_NOERR then [0, of_nat n] else if n \<in> set EXCEPTION_ERR then [of_nat n] else [])"

definition lapic_error_isr :: "u64 list" where
  "lapic_error_isr = [0, 0xFE]"

text \<open>Pushing words in turn, the stack pointer going down by eight.\<close>

fun push_words :: "u64 list \<Rightarrow> u64 \<times> memory \<Rightarrow> u64 \<times> memory" where
  "push_words [] st = st"
| "push_words (v # vs) (sp, m) = push_words vs (sp - 8, write64 (sp - 8) v m)"

definition push_regs :: "cpu_context_t \<Rightarrow> u64 list" where
  "push_regs r = [c_rax r, c_rbx r, c_rcx r, c_rdx r, c_rsi r, c_rdi r, c_rbp r, c_r8 r, c_r9 r, c_r10 r, c_r11 r,
     c_r12 r, c_r13 r, c_r14 r, c_r15 r]"

text \<open>
  \<open>common\<close>: the seventh argument is pushed again, just above the return address.  The handler does
  not return, so the code behind the call is never reached; \<open>cr2\<close> is what the handler reads from
  that register.
\<close>

definition isr_common :: "u64 \<Rightarrow> cpu_context_t \<Rightarrow> u64 \<Rightarrow> kernel \<Rightarrow> kernel" where
  "isr_common cr2 r sp s =
     (let (sp, m) = push_words (push_regs r) (sp, mem s);
          rdi = read64 m (sp + 120);
          rsi = read64 m (sp + 128);
          rdx = read64 m (sp + 136);
          rcx = read64 m (sp + 144);
          r8 = read64 m (sp + 152);
          r9 = read64 m (sp + 160);
          (sp, m) = push_words [read64 m (sp + 168)] (sp, m)
      in exception_handler cr2 rdi rsi rdx rcx r8 r9 (read64 m sp) (s\<lparr>mem := m\<rparr>))"

section \<open>The processor\<close>

text \<open>
  A gate with a stack number switches to that stack of the task state segment.  \<open>err\<close> is the error
  code, if the exception has one.
\<close>

definition exception_sp :: "idt_entry \<Rightarrow> cpu_context_t \<Rightarrow> kernel \<Rightarrow> u64" where
  "exception_sp g r s =
     (if ist g AND 7 = 0 then interrupt_sp r s
      else [ist1 (tss s), ist2 (tss s), ist3 (tss s), ist4 (tss s), ist5 (tss s), ist6 (tss s), ist7 (tss s)]
             ! (unat (ist g AND 7) - 1) AND NOT 0xF)"

definition cpu_pushes :: "cpu_context_t \<Rightarrow> u64 option \<Rightarrow> u64 list" where
  "cpu_pushes r err =
     [c_ss r, c_rsp r, c_rflags r, c_cs r, c_rip r] @ (case err of None \<Rightarrow> [] | Some e \<Rightarrow> [e])"

text \<open>An exception with vector \<open>n\<close>, up to the point where the handler halts.\<close>

definition take_exception :: "nat \<Rightarrow> u64 option \<Rightarrow> u64 \<Rightarrow> cpu_context_t \<Rightarrow> kernel \<Rightarrow> kernel" where
  "take_exception n err cr2 r s =
     (let sp = exception_sp (idt s ! n) r s;
          (sp, m) = push_words (cpu_pushes r err @ isr_stub n) (sp, mem s)
      in isr_common cr2 r sp (s\<lparr>mem := m\<rparr>))"

section \<open>What the handler is called with\<close>

lemma push_words_append: "push_words (us @ vs) st = push_words vs (push_words us st)"
  by (induction us st rule: push_words.induct) simp_all

lemma push_words_fold:
  "push_words vs (sp, m) =
     (sp - 8 * of_nat (length vs),
      fold (\<lambda>(k, v). write64 (sp - k) v) (map (\<lambda>i. (8 * (of_nat i + 1), vs ! i)) [0..<length vs]) m)"
proof (induction vs arbitrary: sp m)
  case (Cons v vs)
  have "map (\<lambda>i. (8 * (of_nat i + 1) :: u64, (v # vs) ! i)) [0..<length (v # vs)]
      = (8, v) # map (\<lambda>i. (8 * (of_nat i + 1) + 8, vs ! i)) [0..<length vs]"
    by (simp add: upt_conv_Cons map_Suc_upt [symmetric] algebra_simps del: upt_Suc)
  moreover have "sp - 8 - 8 * (of_nat i + 1) = sp - (8 * (of_nat i + 1) + 8)" for i
    by simp
  ultimately show ?case
    by (simp only: push_words.simps Cons.IH) (simp add: fold_map comp_def algebra_simps)
qed simp

lemma push_words_sp: "fst (push_words vs (sp, m)) = sp - 8 * of_nat (length vs)"
  by (simp only: push_words_fold fst_conv)

lemma push_words_snoc:
  "snd (push_words (vs @ [v]) (sp, m)) =
     write64 (sp - 8 * (of_nat (length vs) + 1)) v (snd (push_words vs (sp, m)))"
proof -
  have "map (\<lambda>i. (8 * (of_nat i + 1) :: u64, (vs @ [v]) ! i)) [0..<length vs]
      = map (\<lambda>i. (8 * (of_nat i + 1), vs ! i)) [0..<length vs]"
    by (simp add: nth_append)
  then show ?thesis by (simp add: push_words_fold del: map_eq_conv)
qed

lemma read64_push_words:
  assumes "i < length vs" and "length vs < 1000"
  shows "read64 (snd (push_words vs (sp, m))) (sp - 8 * (of_nat i + 1)) = vs ! i"
  using assms
proof (induction vs rule: rev_induct)
  case (snoc v vs)
  define a b :: u64 where "a = 8 * (of_nat (length vs) + 1)" and "b = 8 * (of_nat i + 1)"
  have u: "unat a = 8 * (length vs + 1)" "unat b = 8 * (i + 1)"
    using snoc.prems by (simp_all add: a_def b_def unat_word_ariths unat_of_nat)
  show ?case
  proof (cases "i = length vs")
    case True
    then show ?thesis by (simp add: push_words_snoc read64_write64_same)
  next
    case False
    then have "a \<noteq> b" using u by auto
    then have "8 \<le> a - b" "8 \<le> b - a" using u by (auto intro!: mult8_apart)
    then have "read64 (write64 (sp - a) v m') (sp - b) = read64 m' (sp - b)" for m'
      by (intro read64_write64_other) simp_all
    then show ?thesis using snoc False by (simp add: push_words_snoc a_def b_def nth_append)
  qed
qed simp

lemma push_words_outside:
  assumes "8 * of_nat (length vs) \<le> x - (sp - 8 * of_nat (length vs))" and "length vs < 1000"
  shows "snd (push_words vs (sp, m)) x = m x"
  unfolding push_words_fold snd_conv
proof (rule pushes_outside [OF _ assms(1)])
  have "8 \<le> 8 * (of_nat i + 1 :: u64)" "8 * (of_nat i + 1) \<le> (8 * of_nat (length vs) :: u64)" if "i < length vs" for i
    using that assms(2) by (simp_all add: word_le_nat_alt unat_word_ariths unat_of_nat)
  then show "\<forall>(k, v)\<in>set (map (\<lambda>i. (8 * (of_nat i + 1) :: u64, vs ! i)) [0..<length vs]). 8 \<le> k \<and> k \<le> 8 * of_nat (length vs)"
    by auto
qed


text \<open>
  The words on the stack when \<open>common\<close> has pushed the registers, for an exception whose error code the
  processor pushes exactly when the stub does not push a zero.
\<close>

lemma isr_common_args:
  assumes "length vs = 7"
  shows "\<exists>m. isr_common cr2 r (sp - 56) (s\<lparr>mem := snd (push_words vs (sp, mb))\<rparr>)
        = exception_handler cr2 (vs ! 6) (vs ! 5) (vs ! 4) (vs ! 3) (vs ! 2) (vs ! 1) (vs ! 0) (s\<lparr>mem := m\<rparr>)
      \<and> (\<forall>x. 184 \<le> x - (sp - 184) \<longrightarrow> m x = mb x)"
proof -
  define ws where "ws = vs @ push_regs r"
  define m1 where "m1 = snd (push_words ws (sp, mb))"
  have len: "length ws = 22" by (simp add: ws_def assms push_regs_def)
  define mv where "mv = snd (push_words vs (sp, mb))"
  have st: "push_words vs (sp, mb) = (sp - 56, mv)"
    using push_words_sp [of vs sp mb] assms by (simp add: mv_def prod_eq_iff)
  have "push_words ws (sp, mb) = (sp - 176, m1)"
    using push_words_sp [of ws sp mb] len by (simp add: m1_def prod_eq_iff)
  then have regs: "push_words (push_regs r) (sp - 56, mv) = (sp - 176, m1)"
    by (simp only: ws_def push_words_append st)
  have rd: "read64 m1 (sp - 8 * (of_nat i + 1)) = ws ! i" if "i < 22" for i
    unfolding m1_def by (rule read64_push_words) (use that len in simp_all)
  have ws: "ws ! i = vs ! i" if "i < 7" for i
    using that assms by (simp add: ws_def nth_append)
  have args: "read64 m1 (sp - 56) = vs ! 6" "read64 m1 (sp - 48) = vs ! 5" "read64 m1 (sp - 40) = vs ! 4"
    "read64 m1 (sp - 32) = vs ! 3" "read64 m1 (sp - 24) = vs ! 2" "read64 m1 (sp - 16) = vs ! 1" "read64 m1 (sp - 8) = vs ! 0"
    using rd [of 6] rd [of 5] rd [of 4] rd [of 3] rd [of 2] rd [of 1] rd [of 0] by (simp_all add: ws)
  have all: "write64 (sp - 184) (vs ! 0) m1 = snd (push_words (ws @ [vs ! 0]) (sp, mb))"
    by (simp add: push_words_snoc m1_def len)
  have "write64 (sp - 184) (vs ! 0) m1 x = mb x" if "184 \<le> x - (sp - 184)" for x
    unfolding all by (rule push_words_outside) (use that len in simp_all)
  then show ?thesis
    by (intro exI [of _ "write64 (sp - 184) (vs ! 0) m1"])
      (simp add: isr_common_def regs args read64_write64_same mv_def [symmetric])
qed

lemma take_exception_args:
  assumes "n < 32" and "(err = None) = (n \<in> set EXCEPTION_NOERR)"
  shows "\<exists>m. take_exception n err cr2 r s
        = exception_handler cr2 (of_nat n) (case err of None \<Rightarrow> 0 | Some e \<Rightarrow> e) (c_rip r) (c_cs r) (c_rflags r)
            (c_rsp r) (c_ss r) (s\<lparr>mem := m\<rparr>)
      \<and> (\<forall>x. 184 \<le> x - (exception_sp (idt s ! n) r s - 184) \<longrightarrow> m x = mem s x)"
proof -
  define sp where "sp = exception_sp (idt s ! n) r s"
  define vs where "vs = cpu_pushes r err @ isr_stub n"
  have "n \<in> set EXCEPTION_ERR" if "n \<notin> set EXCEPTION_NOERR"
    using assms(1) that by (simp add: EXCEPTION_NOERR_def EXCEPTION_ERR_def) presburger
  then have vs: "vs = [c_ss r, c_rsp r, c_rflags r, c_cs r, c_rip r, case err of None \<Rightarrow> 0 | Some e \<Rightarrow> e, of_nat n]"
    using assms(2) by (cases err) (simp_all add: vs_def cpu_pushes_def isr_stub_def)
  then have "take_exception n err cr2 r s = isr_common cr2 r (sp - 56) (s\<lparr>mem := snd (push_words vs (sp, mem s))\<rparr>)"
    using push_words_sp [of vs sp "mem s"]
    by (simp add: take_exception_def Let_def sp_def [symmetric] vs_def [symmetric] split_beta)
  then show ?thesis
    using isr_common_args [where vs = vs and mb = "mem s"] by (simp add: vs sp_def)
qed

end
