(* ===== verification/Descriptor_Properties.thy ===== *)
theory Descriptor_Properties
  imports Exceptions Syscalls Example_State
begin

text \<open>
  What the processor makes of the descriptor tables: the segments behind the selectors the kernel
  loads, the gates of the exceptions, and the ports ring 3 may use.
\<close>

section \<open>How the processor reads a segment descriptor\<close>

text \<open>The rings are the descriptor privilege levels; other kinds of descriptors are not used.\<close>

datatype segment = Code64 nat | Data nat | Tss u64 nat

definition segment_dpl :: "gdt_entry \<Rightarrow> nat" where
  "segment_dpl e = unat (drop_bit 5 (access e) AND 3)"

definition decode_segment :: "gdt_entry \<Rightarrow> gdt_entry \<Rightarrow> segment option" where
  "decode_segment e e2 =
     (let a = access e; g = granularity e
      in if \<not> bit a 7 then None
         else if bit a 4 \<and> bit a 3 then if bit g 5 \<and> \<not> bit g 6 then Some (Code64 (segment_dpl e)) else None
         else if bit a 4 then if bit a 1 then Some (Data (segment_dpl e)) else None
         else if a AND 0x1F = 9
         then Some (Tss (ucast (base_low e) OR push_bit 16 (ucast (base_mid e)) OR push_bit 24 (ucast (base_high e))
                OR push_bit 32 (ucast (limit_low e2)) OR push_bit 48 (ucast (base_low e2)))
              (unat (limit_low e)))
         else None)"

definition segment :: "kernel \<Rightarrow> u16 \<Rightarrow> segment option" where
  "segment s sel =
     (let i = unat (sel div 8)
      in if bit sel 2 \<or> i = 0 \<or> unat (gp_limit (gp s)) < 8 * i + 7 \<or> length (gdt s) \<le> i then None
         else decode_segment (gdt s ! i) (gdt s ! Suc i))"

text \<open>\<open>iretq\<close> and \<open>sysretq\<close> need a code and a data segment of the ring in the low bits of \<open>cs\<close>.\<close>

definition enters_ring :: "kernel \<Rightarrow> nat \<Rightarrow> u64 \<Rightarrow> u64 \<Rightarrow> bool" where
  "enters_ring s n cs ss \<longleftrightarrow>
     unat (cs AND 3) = n \<and> unat (ss AND 3) = n
     \<and> segment s (ucast cs) = Some (Code64 n) \<and> segment s (ucast ss) = Some (Data n)"

text \<open>The selectors \<open>syscall\<close> and \<open>sysretq\<close> take from \<open>IA32_STAR\<close>.\<close>

definition star_syscall :: "u64 \<Rightarrow> u64 \<times> u64" where
  "star_syscall star = (let cs = drop_bit 32 star AND 0xFFFC in (cs, cs + 8))"

definition star_sysret :: "u64 \<Rightarrow> u64 \<times> u64" where
  "star_sysret star = (let b = drop_bit 48 star in (b + 16 OR 3, b + 8 OR 3))"

lemma gdt_init_state:
  "gdt (gdt_init I s) = gdt_fill (img_tss I) (gdt s)" "gp (gdt_init I s) = \<lparr>gp_limit = 55, gp_base = img_gdt I\<rparr>"
  "seg_cs (gdt_init I s) = 0x08" "seg_ss (gdt_init I s) = 0x10" "seg_ds (gdt_init I s) = 0x10"
  "seg_es (gdt_init I s) = 0x10" "task_reg (gdt_init I s) = 0x28" "idt (gdt_init I s) = idt s"
  "tss (gdt_init I s) = (tss s)\<lparr>rsp0 := img_kernel_main_stack I + 65536, ist1 := img_ist1_stack I + 8192,
     ist2 := img_ist2_stack I + 8192, ist3 := img_ist3_stack I + 8192\<rparr>"
  by (simp_all add: gdt_init_def load_gdt_def serial_log_def Let_def)

lemma tss_base_join:
  fixes a :: u64
  shows "ucast (ucast (a AND 0xFFFF) :: u16) OR push_bit 16 (ucast (ucast (drop_bit 16 a AND 0xFF) :: u8))
    OR push_bit 24 (ucast (ucast (drop_bit 24 a AND 0xFF) :: u8))
    OR push_bit 32 (ucast (ucast (ucast (drop_bit 32 a) :: u32) :: u16))
    OR push_bit 48 (ucast (ucast (drop_bit 16 (ucast (drop_bit 32 a) :: u32)) :: u16)) = a"
proof (rule bit_word_eqI)
  have m: "(0xFFFF :: u64) = mask 16" "(0xFF :: u64) = mask 8" by (simp_all add: mask_eq_exp_minus_1)
  fix n assume n: "n < LENGTH(64)"
  consider "n < 16" | "16 \<le> n" "n < 24" | "24 \<le> n" "n < 32" | "32 \<le> n" "n < 48" | "48 \<le> n" by linarith
  then show "bit (ucast (ucast (a AND 0xFFFF) :: u16) OR push_bit 16 (ucast (ucast (drop_bit 16 a AND 0xFF) :: u8))
    OR push_bit 24 (ucast (ucast (drop_bit 24 a AND 0xFF) :: u8))
    OR push_bit 32 (ucast (ucast (ucast (drop_bit 32 a) :: u32) :: u16))
    OR push_bit 48 (ucast (ucast (drop_bit 16 (ucast (drop_bit 32 a) :: u32)) :: u16)) :: u64) n = bit a n"
    unfolding m using n
    by cases (simp_all add: bit_or_iff bit_and_iff bit_ucast_iff bit_push_bit_iff bit_drop_bit_eq bit_mask_iff not_le less_diff_conv2
        add.commute [of _ n])
qed

lemma gdt_init_segments:
  assumes "length (gdt s) = 7"
  shows "segment (gdt_init I s) 0x08 = Some (Code64 0)" "segment (gdt_init I s) 0x10 = Some (Data 0)"
    "segment (gdt_init I s) 0x1B = Some (Data 3)" "segment (gdt_init I s) 0x23 = Some (Code64 3)"
    "segment (gdt_init I s) 0x28 = Some (Tss (img_tss I) 103)"
  using tss_base_join [of "img_tss I"]
  by (simp_all add: segment_def gdt_init_state assms gdt_fill_def decode_segment_def segment_dpl_def flat_segment_def
      system_entry_halves_def tss_descriptor_def Let_def)

section \<open>Gates\<close>

definition gate_offset :: "idt_entry \<Rightarrow> u64" where
  "gate_offset g = ucast (offset_low g) OR push_bit 16 (ucast (offset_mid g)) OR push_bit 32 (ucast (offset_high g))"

text \<open>A present interrupt gate that only the kernel can call by \<open>int\<close>.\<close>

definition kernel_gate :: "idt_entry \<Rightarrow> bool" where
  "kernel_gate g \<longleftrightarrow> bit (type_attr g) 7 \<and> drop_bit 5 (type_attr g) AND 3 = 0 \<and> type_attr g AND 0x1F = 0xE"

lemma gate_offset_join:
  fixes a :: u64
  shows "ucast (ucast (a AND 0xFFFF) :: u16) OR push_bit 16 (ucast (ucast (drop_bit 16 a AND 0xFFFF) :: u16))
    OR push_bit 32 (ucast (ucast (drop_bit 32 a) :: u32)) = a"
proof (rule bit_word_eqI)
  have m: "(0xFFFF :: u64) = mask 16" by (simp add: mask_eq_exp_minus_1)
  fix n assume n: "n < LENGTH(64)"
  consider "n < 16" | "16 \<le> n" "n < 32" | "32 \<le> n" by linarith
  then show "bit (ucast (ucast (a AND 0xFFFF) :: u16) OR push_bit 16 (ucast (ucast (drop_bit 16 a AND 0xFFFF) :: u16))
    OR push_bit 32 (ucast (ucast (drop_bit 32 a) :: u32)) :: u64) n = bit a n"
    unfolding m using n
    by cases (simp_all add: bit_or_iff bit_and_iff bit_ucast_iff bit_push_bit_iff bit_drop_bit_eq bit_mask_iff not_le less_diff_conv2
        add.commute [of _ n])
qed

text \<open>The entry of a vector: the last gate set for it.\<close>

definition gate_entry :: "u64 \<Rightarrow> u8 \<Rightarrow> idt_entry" where
  "gate_entry addr stack = hd (idt_set_gate 0 addr stack [undefined])"

definition vector_gate :: "image \<Rightarrow> nat \<Rightarrow> u64 \<times> u8" where
  "vector_gate I n =
     (case map_of (rev (map (\<lambda>(v, h, k). (unat v, h, k)) (idt_gates I))) n of
        Some hk \<Rightarrow> hk | None \<Rightarrow> (img_isr I 0 + of_nat n * 16, 0))"

lemma idt_set_gate_nth:
  "n < length t \<Longrightarrow> idt_set_gate v h k t ! n = (if unat v = n then gate_entry h k else t ! n)"
  by (simp add: idt_set_gate_def gate_entry_def)

lemma idt_set_gate_length [simp]: "length (idt_set_gate v h k t) = length t"
  by (simp add: idt_set_gate_def)

lemma idt_fold_length [simp]: "length (fold (\<lambda>(v, h, k). idt_set_gate v h k) gs t) = length t"
  by (induction gs arbitrary: t) (auto split: prod.splits)

lemma idt_fold_nth:
  "n < length t \<Longrightarrow> fold (\<lambda>(v, h, k). idt_set_gate v h k) gs t ! n =
     (case map_of (rev (map (\<lambda>(v, h, k). (unat v, h, k)) gs)) n of Some (h, k) \<Rightarrow> gate_entry h k | None \<Rightarrow> t ! n)"
  by (induction gs rule: rev_induct) (auto simp: idt_set_gate_nth split: prod.splits)

lemma idt_default_nth:
  assumes "n < m" "m \<le> 256" "length t = 256"
  shows "fold (\<lambda>i. idt_set_gate (of_nat i) (a + of_nat i * 16) 0) [0..<m] t ! n = gate_entry (a + of_nat n * 16) 0"
    and "length (fold (\<lambda>i. idt_set_gate (of_nat i) (a + of_nat i * 16) 0) [0..<m] t) = 256"
proof -
  show len: "length (fold (\<lambda>i. idt_set_gate (of_nat i) (a + of_nat i * 16) 0) [0..<m] t) = 256" for m
    by (induction m) (simp_all add: assms(3))
  show "fold (\<lambda>i. idt_set_gate (of_nat i) (a + of_nat i * 16) 0) [0..<m] t ! n = gate_entry (a + of_nat n * 16) 0"
    using assms(1,2)
  proof (induction m)
    case (Suc m)
    have "unat (of_nat m :: u8) = m" using Suc.prems(2) by (simp add: unat_of_nat)
    then show ?case using Suc by (auto simp: idt_set_gate_nth len)
  qed simp
qed

lemma idt_fill_nth:
  assumes "n < 256" and "length t = 256"
  shows "idt_fill I t ! n = (case vector_gate I n of (h, k) \<Rightarrow> gate_entry h k)"
  using idt_default_nth [OF assms(1) _ assms(2), of "img_isr I 0"] assms(1)
  by (simp add: idt_fill_def idt_fold_nth vector_gate_def Let_def del: upt_rec_numeral split: option.splits)

lemma gate_entry_fields:
  "gate_offset (gate_entry h k) = h" "selector (gate_entry h k) = 0x08" "ist (gate_entry h k) = k"
  "kernel_gate (gate_entry h k)"
  using gate_offset_join [of h]
  by (simp_all add: gate_offset_def gate_entry_def idt_set_gate_def kernel_gate_def)

lemma vector_gate_exception:
  assumes "n < 32"
  shows "vector_gate I n = (img_isr I n, if n = 8 then 1 else if n = 2 then 2 else if n = 18 then 3 else 0)"
proof -
  have "list_all (\<lambda>n. vector_gate I n
      = (img_isr I n, if n = 8 then 1 else if n = 2 then 2 else if n = 18 then 3 else 0)) [0..<32]"
    by (simp add: vector_gate_def idt_gates_def Let_def upt_rec) (simp add: numeral_eq_Suc)
  then show ?thesis using assms by (simp add: list_all_iff del: upt_rec_numeral)
qed

lemma idt_init_state:
  "idt (idt_init I s) = idt_fill I (idt s)" "tss (idt_init I s) = tss s" "gp (idt_init I s) = gp s"
  "gdt (idt_init I s) = gdt s" "mem (idt_init I s) = mem s"
  by (simp_all add: idt_init_def serial_log_def Let_def)

section \<open>The selectors the kernel loads\<close>

text \<open>The selectors in the contexts with which a task first enters and re-enters ring 3.\<close>

lemma init_context_selectors:
  "c_cs (load_context (init_context p entry m) p) = 0x23" "c_ss (load_context (init_context p entry m) p) = 0x1B"
  using read64_write64_other [of "p + 128" "p + 136"] read64_write64_other [of "p + 128" "p + 144"]
    read64_write64_other [of "p + 128" "p + 152"]
  by (simp_all add: load_context_def init_context_def Let_def read64_write64_same read64_write64_other)

lemma push_frame_selectors:
  assumes "push_frame sp entry m = (sp', m')"
  shows "f_cs (load_frame m' sp') = 0x23" "f_ss (load_frame m' sp') = 0x1B"
  using assms
  by (auto simp: load_frame_def push_frame_def Let_def read64_write64_same read64_write64_other)

text \<open>
  C30.  After \<open>gdt_init\<close>, every selector the code loads refers to a descriptor of the right type: the
  segment registers of the kernel to segments of ring 0, the task register to the task state segment at
  the address of \<open>tss\<close>, the selectors in a new context, in the frame of \<open>runElf_ring3\<close> and after a system
  call to segments of ring 3.  The selectors that \<open>syscall\<close> and \<open>sysretq\<close> derive from \<open>IA32_STAR\<close> agree with
  those.
\<close>

theorem gdt_selectors_typed:
  assumes "length (gdt s) = 7" and "push_frame sp entry m = (sp', m')"
  shows "segment (gdt_init I s) (seg_cs (gdt_init I s)) = Some (Code64 0)
    \<and> segment (gdt_init I s) (seg_ss (gdt_init I s)) = Some (Data 0)
    \<and> segment (gdt_init I s) (seg_ds (gdt_init I s)) = Some (Data 0)
    \<and> segment (gdt_init I s) (seg_es (gdt_init I s)) = Some (Data 0)
    \<and> segment (gdt_init I s) (task_reg (gdt_init I s)) = Some (Tss (img_tss I) 103)
    \<and> enters_ring (gdt_init I s) 3 (c_cs (load_context (init_context p entry m) p))
        (c_ss (load_context (init_context p entry m) p))
    \<and> enters_ring (gdt_init I s) 3 (f_cs (load_frame m' sp')) (f_ss (load_frame m' sp'))
    \<and> enters_ring (gdt_init I s) 3 (c_cs (pop_syscall m p ret r12)) (c_ss (pop_syscall m p ret r12))
    \<and> star_sysret star_value = (c_cs (pop_syscall m p ret r12), c_ss (pop_syscall m p ret r12))
    \<and> enters_ring (gdt_init I s) 0 (fst (star_syscall star_value)) (snd (star_syscall star_value))"
  using gdt_init_segments [OF assms(1), of I] push_frame_selectors [OF assms(2)]
  by (simp add: gdt_init_state(3-7) enters_ring_def init_context_selectors pop_syscall_def star_sysret_def
      star_syscall_def star_value_def Let_def)

text \<open>A state in which the tables are still the zeroes of the data segment.\<close>

definition example_tables :: kernel where
  "example_tables = example_kernel\<lparr>gdt := replicate 7 (flat_segment 0 0),
     idt := replicate 256 \<lparr>offset_low = 0, selector = 0, ist = 0, type_attr = 0, offset_mid = 0, offset_high = 0, zero = 0\<rparr>\<rparr>"

theorem gdt_selectors_typed_witness:
  "length (gdt example_tables) = 7
    \<and> push_frame 0x9000 0x400000 (\<lambda>_. 0) = (0x8FD8, snd (push_frame 0x9000 0x400000 (\<lambda>_. 0)))
    \<and> segment (gdt_init example_image example_tables) (task_reg (gdt_init example_image example_tables))
        = Some (Tss 0xFFFFFFFF80010000 103)"
proof -
  have l: "length (gdt example_tables) = 7" by (simp add: example_tables_def)
  have p: "push_frame 0x9000 0x400000 (\<lambda>_. 0) = (0x8FD8, snd (push_frame 0x9000 0x400000 (\<lambda>_. 0)))"
    by (simp add: push_frame_def Let_def)
  show ?thesis
    using gdt_selectors_typed [OF l p, of example_image] l p by (simp add: example_image_def)
qed

section \<open>Exceptions reach the panic screen\<close>

text \<open>
  C31.  After the tables are set up, an exception with vector \<open>n\<close> below 32 arrives at the stub of that
  vector, in ring 0, through a gate that ring 3 cannot call; a double fault, a non-maskable interrupt and
  a machine check run on their own stacks.  \<open>exception_handler\<close> then gets the vector, the error code (0
  if the exception has none) and the registers of the interrupted code, and only the 184 bytes below
  the new stack pointer have changed.  The vectors with an error code are those Intel documents.
\<close>

theorem exception_delivery:
  assumes "n < 32" and "length (gdt s) = 7" and "length (idt s) = 256"
    and "(err = None) = (n \<notin> {8, 10, 11, 12, 13, 14, 17, 21})"
    and t_def: "t = idt_init I (gdt_init I s)"
  shows "gate_offset (idt t ! n) = img_isr I n \<and> kernel_gate (idt t ! n)
    \<and> segment t (selector (idt t ! n)) = Some (Code64 0)
    \<and> exception_sp (idt t ! n) r t =
        (if n = 8 then img_ist1_stack I + 8192 AND NOT 0xF
         else if n = 2 then img_ist2_stack I + 8192 AND NOT 0xF
         else if n = 18 then img_ist3_stack I + 8192 AND NOT 0xF
         else interrupt_sp r t)
    \<and> (\<exists>m. take_exception n err cr2 r t
          = exception_handler cr2 (of_nat n) (case err of None \<Rightarrow> 0 | Some e \<Rightarrow> e) (c_rip r) (c_cs r) (c_rflags r)
              (c_rsp r) (c_ss r) (t\<lparr>mem := m\<rparr>)
        \<and> (\<forall>x. 184 \<le> x - (exception_sp (idt t ! n) r t - 184) \<longrightarrow> m x = mem t x))"
proof -
  have g: "idt t ! n = gate_entry (img_isr I n) (if n = 8 then 1 else if n = 2 then 2 else if n = 18 then 3 else 0)"
    using assms(1,3) idt_fill_nth [of n "idt s" I] vector_gate_exception [of n I]
    by (simp add: t_def idt_init_state gdt_init_state)
  have "segment t 0x08 = segment (gdt_init I s) 0x08"
    by (simp add: t_def segment_def idt_init_state)
  then have cs: "segment t (selector (idt t ! n)) = Some (Code64 0)"
    using gdt_init_segments(1) [OF assms(2)] by (simp add: g gate_entry_fields)
  have sp: "exception_sp (idt t ! n) r t =
        (if n = 8 then img_ist1_stack I + 8192 AND NOT 0xF
         else if n = 2 then img_ist2_stack I + 8192 AND NOT 0xF
         else if n = 18 then img_ist3_stack I + 8192 AND NOT 0xF
         else interrupt_sp r t)"
    by (simp add: exception_sp_def g gate_entry_fields) (simp add: t_def idt_init_state gdt_init_state)
  have "(err = None) = (n \<in> set EXCEPTION_NOERR)"
    using assms(1,4) by (simp add: EXCEPTION_NOERR_def) presburger
  then show ?thesis
    using take_exception_args [OF assms(1), of err cr2 r t] cs sp by (simp add: g gate_entry_fields)
qed

definition example_fault :: cpu_context_t where
  "example_fault = \<lparr>c_r15 = 15, c_r14 = 14, c_r13 = 13, c_r12 = 12, c_r11 = 11, c_r10 = 10, c_r9 = 9, c_r8 = 8,
     c_rbp = 7, c_rdi = 6, c_rsi = 5, c_rdx = 4, c_rcx = 3, c_rbx = 2, c_rax = 1, c_rip = 0x400010, c_cs = 0x23,
     c_rflags = 0x202, c_rsp = 0x7FFFFFFF8000, c_ss = 0x1B\<rparr>"

theorem exception_delivery_witness:
  "\<exists>m. take_exception 14 (Some 6) 0x1234 example_fault (idt_init example_image (gdt_init example_image example_tables))
      = exception_handler 0x1234 14 6 0x400010 0x23 0x202 0x7FFFFFFF8000 0x1B
          ((idt_init example_image (gdt_init example_image example_tables))\<lparr>mem := m\<rparr>)"
proof -
  have "length (gdt example_tables) = 7" "length (idt example_tables) = 256" by (simp_all add: example_tables_def)
  from exception_delivery [OF _ this _ refl, of 14 "Some 6" example_image example_fault "0x1234"]
  show ?thesis by (auto simp: example_fault_def)
qed

section \<open>The ports ring 3 can use\<close>

text \<open>
  The task state segment in memory, and the check of the processor for an access of one byte to a port
  by code of ring 3 when the flags hold an I/O privilege level of 0, as the contexts of tasks do: the two
  bytes at the port's place in the bitmap must lie within the limit of the segment, and the bit be clear.
\<close>

definition word_bytes :: "nat \<Rightarrow> 'a::len word \<Rightarrow> u8 list" where
  "word_bytes n w = map (\<lambda>i. ucast (drop_bit (8 * i) w)) [0..<n]"

definition tss_bytes :: "tss_struct \<Rightarrow> u8 list" where
  "tss_bytes t =
     word_bytes 4 (reserved0 t) @ concat (map (word_bytes 8) [rsp0 t, rsp1 t, rsp2 t, reserved1 t, ist1 t, ist2 t,
       ist3 t, ist4 t, ist5 t, ist6 t, ist7 t, reserved2 t]) @ word_bytes 2 (reserved3 t) @ word_bytes 2 (iomap_base t)"

definition port_allowed :: "kernel \<Rightarrow> u16 \<Rightarrow> bool" where
  "port_allowed s port =
     (case segment s (task_reg s) of
        Some (Tss base lim) \<Rightarrow>
          (let i = unat (iomap_base (tss s)) + unat port div 8
           in i + 1 \<le> lim \<and> \<not> bit (tss_bytes (tss s) ! i) (unat port mod 8))
      | _ \<Rightarrow> False)"

lemma word_bytes_zero [simp]: "word_bytes n 0 = replicate n 0"
  by (simp add: word_bytes_def map_replicate_const)

lemma length_word_bytes [simp]: "length (word_bytes n w) = n"
  by (simp add: word_bytes_def)

definition zero_tss :: tss_struct where
  "zero_tss = \<lparr>reserved0 = 0, rsp0 = 0, rsp1 = 0, rsp2 = 0, reserved1 = 0, ist1 = 0, ist2 = 0, ist3 = 0, ist4 = 0,
     ist5 = 0, ist6 = 0, ist7 = 0, reserved2 = 0, reserved3 = 0, iomap_base = 0\<rparr>"

lemma tss_bytes_zero:
  assumes "i < 4 \<or> 12 \<le> i \<and> i < 36 \<or> 60 \<le> i \<and> i < 104"
  shows "tss_bytes (zero_tss\<lparr>rsp0 := a, ist1 := b, ist2 := c, ist3 := d\<rparr>) ! i = 0"
proof -
  have "tss_bytes (zero_tss\<lparr>rsp0 := a, ist1 := b, ist2 := c, ist3 := d\<rparr>) =
      replicate 4 0 @ word_bytes 8 a @ replicate 24 0 @ word_bytes 8 b @ word_bytes 8 c @ word_bytes 8 d @ replicate 44 0"
    by (simp add: tss_bytes_def zero_tss_def numeral_eq_Suc)
  then show ?thesis using assms by (simp only: nth_append) auto
qed

text \<open>
  C32.  \<open>gdt_init\<close> leaves \<open>tss.iomap_base\<close> at the 0 of the data segment, so the fields of the task state
  segment themselves are the port permissions of ring 3: user programs can access every port in the
  ranges 0 to 31, 96 to 287 and 480 to 823, among them the keyboard controller (0x60, 0x64) and the
  real-time clock (0x70).  With a bitmap base at or beyond the limit no port would be open.
\<close>

theorem tss_opens_ports:
  assumes "length (gdt s) = 7" and "tss s = zero_tss"
  shows "(\<forall>p. unat p < 32 \<or> 96 \<le> unat p \<and> unat p < 288 \<or> 480 \<le> unat p \<and> unat p < 824 \<longrightarrow>
        port_allowed (gdt_init I s) p)
    \<and> (\<forall>p. 824 \<le> unat p \<longrightarrow> \<not> port_allowed (gdt_init I s) p)
    \<and> (\<forall>p b. 103 \<le> unat b \<longrightarrow>
        \<not> port_allowed ((gdt_init I s)\<lparr>tss := (tss (gdt_init I s))\<lparr>iomap_base := b\<rparr>\<rparr>) p)"
proof (intro conjI allI impI)
  have seg: "segment (gdt_init I s) 0x28 = Some (Tss (img_tss I) 103)"
    by (rule gdt_init_segments(5) [OF assms(1)])
  have "segment (u\<lparr>tss := t\<rparr>) sel = segment u sel" for u t sel by (simp add: segment_def Let_def cong: if_cong)
  then show "\<not> port_allowed ((gdt_init I s)\<lparr>tss := (tss (gdt_init I s))\<lparr>iomap_base := b\<rparr>\<rparr>) p" if "103 \<le> unat b" for p b
    using seg that by (simp add: port_allowed_def gdt_init_state(7))
  note [simp] = gdt_init_state assms(2)
  show "\<not> port_allowed (gdt_init I s) p" if "824 \<le> unat p" for p
  proof -
    have "\<not> unat p div 8 + 1 \<le> 103" using that by linarith
    then show ?thesis using seg by (simp add: port_allowed_def Let_def zero_tss_def)
  qed
  fix p :: u16
  assume "unat p < 32 \<or> 96 \<le> unat p \<and> unat p < 288 \<or> 480 \<le> unat p \<and> unat p < 824"
  then have i: "unat p div 8 < 4 \<or> 12 \<le> unat p div 8 \<and> unat p div 8 < 36 \<or> 60 \<le> unat p div 8 \<and> unat p div 8 < 103"
    by linarith
  then have "tss_bytes (tss (gdt_init I s)) ! (unat p div 8) = 0"
    using tss_bytes_zero [of "unat p div 8"] by auto
  moreover have "iomap_base (tss (gdt_init I s)) = 0" by (simp add: zero_tss_def)
  moreover have "unat p div 8 + 1 \<le> 103" using i by linarith
  ultimately show "port_allowed (gdt_init I s) p"
    using seg by (simp add: port_allowed_def)
qed

theorem tss_opens_ports_witness:
  "length (gdt example_tables) = 7 \<and> tss example_tables = zero_tss
    \<and> port_allowed (gdt_init example_image example_tables) 0x64
    \<and> \<not> port_allowed (gdt_init example_image example_tables) 0x3F8"
proof -
  have "length (gdt example_tables) = 7" "tss example_tables = zero_tss"
    by (simp_all add: example_tables_def example_kernel_def zero_tss_def)
  then show ?thesis using tss_opens_ports [of example_tables example_image] by simp
qed

end
