(* ===== verification/Clock_Properties.thy ===== *)
theory Clock_Properties
  imports Clock Example_State
begin

text \<open>
  The calendar: the text \<open>time_get_current\<close> produces is the Gregorian date and the time of day of the
  timestamp, for every timestamp of 64 bits.
\<close>

section \<open>The Gregorian calendar\<close>

definition leap :: "nat \<Rightarrow> bool" where
  "leap y \<longleftrightarrow> y mod 4 = 0 \<and> (y mod 100 \<noteq> 0 \<or> y mod 400 = 0)"

definition year_days :: "nat \<Rightarrow> nat" where
  "year_days y = (if leap y then 366 else 365)"

text \<open>Months are counted from 1.\<close>

definition month_length :: "nat \<Rightarrow> nat \<Rightarrow> nat" where
  "month_length y m =
     (if m = 2 then if leap y then 29 else 28 else if m \<in> {4, 6, 9, 11} then 30 else 31)"

text \<open>The days from the first of January 1970 to a date.\<close>

definition date_days :: "nat \<Rightarrow> nat \<Rightarrow> nat \<Rightarrow> nat" where
  "date_days y m d = (\<Sum>k = 1970..<y. year_days k) + (\<Sum>j = 1..<m. month_length y j) + (d - 1)"

definition valid_date :: "nat \<Rightarrow> nat \<Rightarrow> nat \<Rightarrow> bool" where
  "valid_date y m d \<longleftrightarrow> 1970 \<le> y \<and> 1 \<le> m \<and> m \<le> 12 \<and> 1 \<le> d \<and> d \<le> month_length y m"

lemma month_lengths: "(\<Sum>j = 1..<13. month_length y j) = year_days y"
  by (simp add: month_length_def year_days_def numeral_eq_Suc)

section \<open>The two loops\<close>

lemma is_leap_nat: "is_leap year \<longleftrightarrow> leap (unat year)"
  by (simp add: is_leap_def leap_def word_eq_unat unat_mod_u64)

lemma year_loop_correct:
  assumes "unat year + unat days < 18446744073709551616" and "year_loop year days = (y, d)"
  shows "unat year \<le> unat y \<and> unat d < year_days (unat y)
    \<and> unat days = (\<Sum>k = unat year..<unat y. year_days k) + unat d"
  using assms
proof (induction year days rule: year_loop.induct)
  case (1 year days)
  define n :: u64 where "n = (if is_leap year then 366 else 365)"
  have n: "unat n = year_days (unat year)" by (simp add: n_def year_days_def is_leap_nat)
  show ?case
  proof (cases "n \<le> days")
    case True
    have yl: "year_loop (year + 1) (days - n) = (y, d)"
      using "1.prems"(2) True by (simp add: year_loop.simps [of year] n_def [symmetric])
    have le: "year_days (unat year) \<le> unat days" "1 \<le> year_days (unat year)"
      using True n by (simp_all add: word_le_unat year_days_def)
    have days: "unat (days - n) = unat days - year_days (unat year)"
      using True n by (simp add: unat_diff_small)
    have year: "unat (year + 1) = unat year + 1"
      using "1.prems"(1) le by (intro unat_inc_small) linarith
    have "unat (year + 1) \<le> unat y \<and> unat d < year_days (unat y)
      \<and> unat (days - n) = (\<Sum>k = unat (year + 1)..<unat y. year_days k) + unat d"
      using "1.IH" [OF refl] True yl "1.prems"(1) year days le by (simp add: n_def [symmetric])
    then show ?thesis
      using year days le by (auto simp: sum.atLeast_Suc_lessThan)
  next
    case False
    then have "(y, d) = (year, days)"
      using "1.prems"(2) by (simp add: year_loop.simps [of year] n_def [symmetric])
    then show ?thesis using False n by (simp add: word_le_unat)
  qed
qed

lemma month_days_nth:
  assumes "m < 12"
  shows "unat (if m = 1 \<and> is_leap year then 29 else ucast (month_days ! m) :: u64) = month_length (unat year) (m + 1)"
proof -
  have "list_all (\<lambda>m. unat (if m = 1 \<and> is_leap year then 29 else ucast (month_days ! m) :: u64)
      = month_length (unat year) (m + 1)) [0, 1, 2, 3, 4, 5, 6, 7, 8, 9, 10, 11]"
    by (simp add: month_days_def month_length_def is_leap_nat)
  moreover have "m \<in> set [0, 1, 2, 3, 4, 5, 6, 7, 8, 9, 10, 11]" using assms by simp presburger
  ultimately show ?thesis by (simp only: list_all_iff)
qed

lemma month_loop_correct:
  assumes "unat days < (\<Sum>j = unat month + 1..<13. month_length (unat year) j)"
  shows "\<exists>m d. month_loop year month days = Some (m, d) \<and> unat month \<le> unat m \<and> unat m < 12
    \<and> unat d < month_length (unat year) (unat m + 1)
    \<and> unat days = (\<Sum>j = unat month + 1..<unat m + 1. month_length (unat year) j) + unat d"
  using assms
proof (induction year month days rule: month_loop.induct)
  case (1 year month days)
  have m: "unat month < 12" using "1.prems" by (cases "unat month < 12") simp_all
  define n :: u64 where "n = (if month = 1 \<and> is_leap year then 29 else ucast (month_days ! unat month))"
  have one: "month = 1 \<longleftrightarrow> unat month = 1" by (simp add: word_eq_unat)
  have n: "unat n = month_length (unat year) (unat month + 1)"
    using month_days_nth [OF m, of year] by (simp only: n_def one)
  have "\<not> 12 \<le> month" using m by (simp add: word_le_unat)
  then have eq: "month_loop year month days = (if n \<le> days then month_loop year (month + 1) (days - n) else Some (month, days))"
    by (subst month_loop.simps) (simp only: n_def Let_def if_False)
  show ?case
  proof (cases "n \<le> days")
    case True
    have month: "unat (month + 1) = unat month + 1" using m by (intro unat_inc_small) simp
    have days: "unat (days - n) = unat days - unat n" "unat n \<le> unat days"
      using True by (simp_all add: unat_diff_small word_le_unat)
    have step: "(\<Sum>j = unat month + 1..<k. month_length (unat year) j)
        = unat n + (\<Sum>j = unat month + 1 + 1..<k. month_length (unat year) j)" if "unat month + 1 < k" for k
      using that n by (simp add: sum.atLeast_Suc_lessThan)
    have "unat (days - n) < (\<Sum>j = unat (month + 1) + 1..<13. month_length (unat year) j)"
      using "1.prems" step [of 13] m month days by simp
    then obtain m' d where r: "month_loop year (month + 1) (days - n) = Some (m', d)"
      "unat (month + 1) \<le> unat m'" "unat m' < 12" "unat d < month_length (unat year) (unat m' + 1)"
      "unat (days - n) = (\<Sum>j = unat (month + 1) + 1..<unat m' + 1. month_length (unat year) j) + unat d"
      using "1.IH" [OF \<open>\<not> 12 \<le> month\<close> refl] True by (auto simp: n_def [symmetric])
    have "unat days = (\<Sum>j = unat month + 1..<unat m' + 1. month_length (unat year) j) + unat d"
      using r(2,5) days step [of "unat m' + 1"] month by simp
    then show ?thesis using r month eq True by auto
  next
    case False
    then show ?thesis using m n eq by (simp add: word_le_unat)
  qed
qed

section \<open>The text\<close>

definition decimal :: "nat \<Rightarrow> nat \<Rightarrow> u8 list" where
  "decimal k n = map (\<lambda>i. of_nat (48 + n div 10 ^ i mod 10)) (rev [0..<k])"

definition datetime_text :: "nat \<Rightarrow> nat \<Rightarrow> nat \<Rightarrow> nat \<Rightarrow> nat \<Rightarrow> nat \<Rightarrow> u8 list" where
  "datetime_text y m d h mi sec =
     decimal 4 y @ bytes ''/'' @ decimal 2 m @ bytes ''/'' @ decimal 2 d @ bytes '' ''
       @ decimal 2 h @ bytes '':'' @ decimal 2 mi @ bytes '':'' @ decimal 2 sec @ [0]"

lemma decimal_unfold:
  "decimal 2 n = [of_nat (48 + n div 10 mod 10), of_nat (48 + n mod 10)]"
  "decimal 4 n = [of_nat (48 + n div 1000 mod 10), of_nat (48 + n div 100 mod 10), of_nat (48 + n div 10 mod 10),
     of_nat (48 + n mod 10)]"
  by (simp_all add: decimal_def upt_rec)

lemma digit_char_nat: "unat d < 10 \<Longrightarrow> digit_char d = of_nat (48 + unat d)"
  by (simp add: digit_char_def word_unat_eq_iff unsigned_ucast_eq take_bit_nat_def unat_word_ariths unat_of_nat)

lemma two_digits:
  "unat v < 100 \<Longrightarrow> digit_char (v div 10) = of_nat (48 + unat v div 10 mod 10)"
  "digit_char (v mod 10) = of_nat (48 + unat v mod 10)"
  using digit_char_nat [of "v div 10"] digit_char_nat [of "v mod 10"]
  by (simp_all add: unat_div_u64 unat_mod_u64 del: of_nat_add)

lemma datetime_bytes_text:
  assumes "unat month < 12" "unat day < 100" "unat hour < 24" "unat minute < 60" "unat sec < 60"
  shows "datetime_bytes year month day hour minute sec =
    datetime_text (unat year) (unat month + 1) (unat day) (unat hour) (unat minute) (unat sec)"
proof -
  have m: "unat (month + 1) = unat month + 1" using assms(1) by (intro unat_inc_small) simp
  then have "unat (month + 1) < 100" using assms(1) by simp
  then have "digit_char ((month + 1) div 10) = of_nat (48 + (unat month + 1) div 10 mod 10)"
    "digit_char ((month + 1) mod 10) = of_nat (48 + (unat month + 1) mod 10)"
    using two_digits [of "month + 1"] by (simp_all only: m)
  moreover have "digit_char (year div 1000 mod 10) = of_nat (48 + unat year div 1000 mod 10)"
    "digit_char (year div 100 mod 10) = of_nat (48 + unat year div 100 mod 10)"
    "digit_char (year div 10 mod 10) = of_nat (48 + unat year div 10 mod 10)"
    using two_digits(2) [of "year div 1000"] two_digits(2) [of "year div 100"] two_digits(2) [of "year div 10"]
    by (simp_all add: unat_div_u64 del: of_nat_add)
  ultimately show ?thesis
    using assms by (simp add: datetime_bytes_def datetime_text_def decimal_unfold two_digits del: of_nat_add)
qed

section \<open>time_get_current\<close>

lemma seconds_split:
  "t = 86400 * (t div 86400) + 3600 * (t mod 86400 div 3600) + 60 * (t mod 86400 mod 3600 div 60) + t mod 86400 mod 60"
  for t :: nat
proof -
  define n where "n = t mod 86400"
  define r where "r = n mod 3600"
  have "r mod 60 = n mod 60" by (simp add: r_def mod_mod_cancel)
  then have "r = 60 * (r div 60) + n mod 60" using mult_div_mod_eq [of 60 r] by simp
  moreover have "n = 3600 * (n div 3600) + r" using mult_div_mod_eq [of 3600 n] by (simp add: r_def)
  moreover have "t = 86400 * (t div 86400) + n" using mult_div_mod_eq [of 86400 t] by (simp add: n_def)
  ultimately have "t = 86400 * (t div 86400) + (3600 * (n div 3600) + (60 * (r div 60) + n mod 60))" by metis
  then show ?thesis by (simp only: n_def r_def add.assoc)
qed

definition timestamp_now :: "hardware \<Rightarrow> 'a clock_state_scheme \<Rightarrow> u64" where
  "timestamp_now H s =
     boot_timestamp s + (hw_read H (io_log s) Rdtsc - boot_tsc s) div tsc_frequency_hz s"

text \<open>
  C33.  \<open>time_get_current\<close> always returns once the frequency of the time stamp counter is known, and its
  text is the date and the time of day of the current timestamp in the Gregorian calendar: the date
  is valid, and the days before it together with the time of day make up the seconds since 1970.  The
  year is shown by its last four digits.
\<close>

theorem time_get_current_correct:
  assumes "tsc_frequency_hz s \<noteq> 0"
  shows "\<exists>y m d h mi sec t. time_get_current H s = Some (datetime_text y m d h mi sec, t)
    \<and> current_datetime t = datetime_text y m d h mi sec
    \<and> t = s\<lparr>io_log := io_log s @ [Rdtsc], current_datetime := current_datetime t\<rparr>
    \<and> valid_date y m d \<and> h < 24 \<and> mi < 60 \<and> sec < 60
    \<and> unat (timestamp_now H s) = 86400 * date_days y m d + 3600 * h + 60 * mi + sec"
proof -
  define ts where "ts = timestamp_now H s"
  define n where "n = unat ts mod 86400"
  define h mi sec where "h = n div 3600" and "mi = n mod 3600 div 60" and "sec = n mod 60"
  have tg: "time_get_timestamp H s = Some (ts, s\<lparr>io_log := io_log s @ [Rdtsc]\<rparr>)"
    using assms by (simp add: time_get_timestamp_def dev_read_def ts_def timestamp_now_def)
  obtain y d where yd: "year_loop 1970 (ts div 86400) = (y, d)" by fastforce
  have small: "unat ts div 86400 < 213503982334602" using unat_u64_less [of ts] by linarith
  then have yl: "1970 \<le> unat y" "unat d < year_days (unat y)"
    "unat ts div 86400 = (\<Sum>k = 1970..<unat y. year_days k) + unat d"
    using year_loop_correct [OF _ yd] by (simp_all add: unat_div_u64)
  have "unat d < (\<Sum>j = unat (0 :: u64) + 1..<13. month_length (unat y) j)"
    using yl(2) month_lengths [of "unat y"] by simp
  from month_loop_correct [OF this] obtain mo da where md: "month_loop y 0 d = Some (mo, da)" "unat mo < 12"
    "unat da < month_length (unat y) (unat mo + 1)"
    "unat d = (\<Sum>j = 1..<unat mo + 1. month_length (unat y) j) + unat da"
    by auto
  have da: "unat da < 31" using md(3) by (auto simp: month_length_def split: if_splits)
  then have day: "unat (da + 1) = unat da + 1" by (intro unat_inc_small) simp
  have n: "n < 86400" by (simp add: n_def)
  have hms: "unat (ts mod 86400 div 3600) = h" "unat (ts mod 86400 mod 3600 div 60) = mi"
    "unat (ts mod 86400 mod 60) = sec"
    by (simp_all add: h_def mi_def sec_def n_def unat_div_u64 unat_mod_u64)
  have hms': "h < 24" "mi < 60" "sec < 60" using n by (simp_all add: h_def mi_def sec_def less_mult_imp_div_less)
  have tx: "datetime_bytes y mo (da + 1) (ts mod 86400 div 3600) (ts mod 86400 mod 3600 div 60) (ts mod 86400 mod 60)
      = datetime_text (unat y) (unat mo + 1) (unat da + 1) h mi sec"
    using datetime_bytes_text [of mo "da + 1"] md(2) da day hms hms' by simp
  have "valid_date (unat y) (unat mo + 1) (unat da + 1)"
    using yl(1) md(2,3) by (simp add: valid_date_def)
  moreover have "unat ts = 86400 * date_days (unat y) (unat mo + 1) (unat da + 1) + 3600 * h
      + 60 * mi + sec"
  proof -
    have "date_days (unat y) (unat mo + 1) (unat da + 1) = unat ts div 86400"
      using yl(3) md(4) by (simp add: date_days_def)
    then show ?thesis unfolding h_def mi_def sec_def n_def using seconds_split [of "unat ts"] by metis
  qed
  moreover have "time_get_current H s = Some (datetime_text (unat y) (unat mo + 1) (unat da + 1) h mi sec,
      s\<lparr>io_log := io_log s @ [Rdtsc], current_datetime := datetime_text (unat y) (unat mo + 1) (unat da + 1) h mi sec\<rparr>)"
    by (simp add: time_get_current_def tg yd md(1) tx Let_def)
  ultimately show ?thesis
    unfolding ts_def [symmetric] using hms'
    by (intro exI conjI [OF _ conjI]) (assumption, simp_all)
qed

text \<open>The last day of February 2000.\<close>

definition example_clock :: kernel where
  "example_clock = example_kernel\<lparr>tsc_frequency_hz := 1000000000, boot_timestamp := 951868799\<rparr>"

theorem time_get_current_correct_witness:
  "tsc_frequency_hz example_clock \<noteq> 0
    \<and> map_option fst (time_get_current example_hardware example_clock) = Some (bytes ''2000/02/29 23:59:59'' @ [0])
    \<and> (\<exists>y m d h mi sec. bytes ''2000/02/29 23:59:59'' @ [0] = datetime_text y m d h mi sec \<and> valid_date y m d
        \<and> 951868799 = 86400 * date_days y m d + 3600 * h + 60 * mi + sec)"
proof -
  have f: "tsc_frequency_hz example_clock \<noteq> 0" by (simp add: example_clock_def)
  have ts: "timestamp_now example_hardware example_clock = 951868799"
    by (simp add: timestamp_now_def example_clock_def example_hardware_def example_kernel_def)
  have ev: "map_option fst (time_get_current example_hardware example_clock) = Some (bytes ''2000/02/29 23:59:59'' @ [0])"
    by code_simp
  obtain y m d h mi sec t where r: "time_get_current example_hardware example_clock = Some (datetime_text y m d h mi sec, t)"
    "valid_date y m d" "unat (timestamp_now example_hardware example_clock) = 86400 * date_days y m d + 3600 * h + 60 * mi + sec"
    using time_get_current_correct [OF f, of example_hardware] by blast
  have "bytes ''2000/02/29 23:59:59'' @ [0] = datetime_text y m d h mi sec" using ev by (simp add: r(1))
  moreover have "951868799 = 86400 * date_days y m d + 3600 * h + 60 * mi + sec" using r(3) by (simp add: ts)
  ultimately show ?thesis using f ev r(2) by blast
qed

end
