(* ===== verification/Userlib.thy ===== *)
theory Userlib
  imports Klib_String "HOL-Library.Signed_Division"
begin

text \<open>
  The library user programs link, \<open>userspace/lib\<close>, and the programs of \<open>userspace/programs\<close>.

  A program sees its own memory.  What it asks of the kernel is the list of its system calls: a call
  \<open>write(fd, p, n)\<close> is \<open>Write fd bs\<close> with the \<open>n\<close> bytes at \<open>p\<close>, and \<open>read(fd, p, n)\<close> is \<open>Read fd n\<close>.  What the
  kernel answers to a read is an argument of the program that makes it: the result and the bytes
  stored in the buffer; \<open>getpid\<close> is \<open>Getpid\<close>, its answer the argument \<open>pid\<close>.
\<close>

section \<open>System calls\<close>

abbreviation (input) SYS_READ_NR :: u64 where "SYS_READ_NR \<equiv> 0"
abbreviation (input) SYS_WRITE_NR :: u64 where "SYS_WRITE_NR \<equiv> 1"
abbreviation (input) SYS_GETPID_NR :: u64 where "SYS_GETPID_NR \<equiv> 39"
abbreviation (input) SYS_EXIT_NR :: u64 where "SYS_EXIT_NR \<equiv> 60"

text \<open>The registers a stub loads before the instruction \<open>syscall\<close>; \<open>None\<close>: left as they are.\<close>

record syscall_regs =
  u_rax :: u64
  u_rdi :: "u64 option"
  u_rsi :: "u64 option"
  u_rdx :: "u64 option"

definition syscall0 :: "u64 \<Rightarrow> syscall_regs" where
  "syscall0 n = \<lparr>u_rax = n, u_rdi = None, u_rsi = None, u_rdx = None\<rparr>"

definition syscall1 :: "u64 \<Rightarrow> u64 \<Rightarrow> syscall_regs" where
  "syscall1 n arg1 = \<lparr>u_rax = n, u_rdi = Some arg1, u_rsi = None, u_rdx = None\<rparr>"

definition syscall3 :: "u64 \<Rightarrow> u64 \<Rightarrow> u64 \<Rightarrow> u64 \<Rightarrow> syscall_regs" where
  "syscall3 n arg1 arg2 arg3 = \<lparr>u_rax = n, u_rdi = Some arg1, u_rsi = Some arg2, u_rdx = Some arg3\<rparr>"

definition u_write :: "u32 \<Rightarrow> u64 \<Rightarrow> u64 \<Rightarrow> syscall_regs" where
  "u_write fd buf count = syscall3 SYS_WRITE_NR (scast fd) buf count"

definition u_read :: "u32 \<Rightarrow> u64 \<Rightarrow> u64 \<Rightarrow> syscall_regs" where
  "u_read fd buf count = syscall3 SYS_READ_NR (scast fd) buf count"

definition u_getpid :: syscall_regs where
  "u_getpid = syscall0 SYS_GETPID_NR"

definition u_exit :: "u32 \<Rightarrow> syscall_regs" where
  "u_exit status = syscall1 SYS_EXIT_NR (scast status)"

section \<open>Strings\<close>

definition u_strlen :: "memory \<Rightarrow> u64 \<Rightarrow> u64 option" where
  "u_strlen m s = strlen_loop m s 0"

partial_function (option) u_strcmp :: "memory \<Rightarrow> u64 \<Rightarrow> memory \<Rightarrow> u64 \<Rightarrow> int option" where
  "u_strcmp m1 a m2 b =
     (if m1 a \<noteq> 0 \<and> m1 a = m2 b then u_strcmp m1 (a + 1) m2 (b + 1) else Some (uint (m1 a) - uint (m2 b)))"

definition u_memset :: "u64 \<Rightarrow> u32 \<Rightarrow> u64 \<Rightarrow> memory \<Rightarrow> memory" where
  "u_memset s c n m = for_upto n (\<lambda>i m. m(s + i := ucast c)) m"

section \<open>Numbers\<close>

text \<open>\<open>tmp\<close> has room for 32 digits: \<open>None\<close> is a store behind its end.\<close>

function utoa_digits :: "u64 \<Rightarrow> u64 \<Rightarrow> u8 list \<Rightarrow> u8 list option" where
  "utoa_digits base value tmp =
     (if value > 0
      then if length tmp < 32
           then utoa_digits base (value div base) (tmp @ [bytes ''0123456789abcdef'' ! unat (value mod base)])
           else None
      else Some tmp)"
  by pat_completeness auto
termination
  by (relation "measure (\<lambda>(base, value, tmp). 33 - length tmp)") auto

declare utoa_digits.simps [simp del]

text \<open>The bytes stored in the buffer and the result.\<close>

definition utoa_base :: "u64 \<Rightarrow> int \<Rightarrow> (u8 list \<times> u64) option" where
  "utoa_base value base =
     (if base < 2 \<or> base > 16 then Some ([0], 0)
      else if value = 0 then Some ([of_char CHR ''0''], 1)
      else Option.bind (utoa_digits (of_int base) value []) (\<lambda>tmp. Some (rev tmp, of_nat (length tmp))))"

text \<open>
  \<open>-value\<close> of the least \<open>long\<close> is undefined in C; here it is the negation of two's complement, which gives the least
  \<open>long\<close> again.
\<close>

definition itoa_signed :: "u64 \<Rightarrow> (u8 list \<times> u64) option" where
  "itoa_signed value =
     (if sint value < 0
      then let abs_val = - value
           in Option.bind (utoa_base abs_val 10) (\<lambda>(buf, len). Some (of_char CHR ''-'' # buf, 1 + len))
      else let abs_val = value in utoa_base abs_val 10)"

section \<open>printf\<close>

datatype user_call = Write u32 "u8 list" | Read u32 u64 | Getpid | Exit u32

text \<open>\<open>write(1, buf, len)\<close> of a local buffer.\<close>

definition write_number :: "(u8 list \<times> u64) option \<Rightarrow> user_call list option" where
  "write_number r = Option.bind r (\<lambda>(buf, len). Some [Write 1 (take (unat len) buf)])"

definition write_string :: "memory \<Rightarrow> u64 \<Rightarrow> user_call list option" where
  "write_string m s =
     Option.bind (u_strlen m s) (\<lambda>n. Some [Write 1 (map (\<lambda>i. m (s + of_nat i)) [0..<unat n])])"

text \<open>
  One conversion, \<open>fmt\<close> pointing behind the percent sign: the calls, the address of its last
  character, and the arguments left.  \<open>None\<close> also stands for an argument that was not passed.
\<close>

definition next_arg :: "u64 list \<Rightarrow> (u64 \<Rightarrow> user_call list option) \<Rightarrow> u64 \<Rightarrow> (user_call list \<times> u64 \<times> u64 list) option" where
  "next_arg args f fmt = (case args of [] \<Rightarrow> None | a # as \<Rightarrow> Option.bind (f a) (\<lambda>calls. Some (calls, fmt, as)))"

definition printf_conversion :: "memory \<Rightarrow> u64 \<Rightarrow> u64 list \<Rightarrow> (user_call list \<times> u64 \<times> u64 list) option" where
  "printf_conversion m fmt args =
     (if m fmt = of_char CHR ''s'' then next_arg args (write_string m) fmt
      else if m fmt = of_char CHR ''d''
      then next_arg args (\<lambda>a. write_number (itoa_signed (scast (ucast a :: u32)))) fmt
      else if m fmt = of_char CHR ''x''
      then next_arg args (\<lambda>a. write_number (utoa_base (ucast (ucast a :: u32)) 16)) fmt
      else if m fmt = of_char CHR ''l''
      then let fmt = fmt + 1
           in if m fmt = of_char CHR ''l''
              then let fmt = fmt + 1
                   in if m fmt = of_char CHR ''d''
                      then next_arg args (\<lambda>a. write_number (itoa_signed a)) fmt
                      else Some ([Write 1 [of_char CHR ''?'']], fmt, args)
              else if m fmt = of_char CHR ''d''
              then next_arg args (\<lambda>a. write_number (itoa_signed a)) fmt
              else Some ([Write 1 [of_char CHR ''?'']], fmt, args)
      else if m fmt = of_char CHR ''%'' then Some ([Write 1 [of_char CHR ''%'']], fmt, args)
      else Some ([Write 1 [of_char CHR ''?'']], fmt, args))"

partial_function (option) printf_loop :: "memory \<Rightarrow> u64 \<Rightarrow> u64 list \<Rightarrow> user_call list \<Rightarrow> user_call list option" where
  "printf_loop m fmt args out =
     (if m fmt \<noteq> 0
      then if m fmt = of_char CHR ''%''
           then Option.bind (printf_conversion m (fmt + 1) args)
                  (\<lambda>(calls, fmt, args). printf_loop m (fmt + 1) args (out @ calls))
           else printf_loop m (fmt + 1) args (out @ [Write 1 [m fmt]])
      else Some out)"

definition printf :: "memory \<Rightarrow> u64 \<Rightarrow> u64 list \<Rightarrow> user_call list option" where
  "printf m fmt args = printf_loop m fmt args []"

section \<open>Programs\<close>

text \<open>
  \<open>_start\<close> loads the data segment registers, clears \<open>rbp\<close> and aligns the stack before the call of \<open>main\<close>
  pushes a return address.  It passes the result of \<open>main\<close> to \<open>_exit\<close>.
\<close>

record crt0_regs =
  r_data_segments :: u16
  r_rbp :: u64
  r_rsp :: u64

definition crt0_entry :: "u64 \<Rightarrow> crt0_regs" where
  "crt0_entry rsp = \<lparr>r_data_segments = 0x1B, r_rbp = 0, r_rsp = (rsp AND - 16) - 8\<rparr>"

definition u_start :: "(u32 \<times> user_call list) option \<Rightarrow> user_call list option" where
  "u_start main = Option.bind main (\<lambda>(status, calls). Some (calls @ [Exit status]))"

text \<open>
  The loop of the three test tasks: every 500000000 rounds a line, and an end after \<open>limit\<close> lines.  The counter is a
  signed 64-bit number with the truncating division of C; \<open>None\<close> also stands for its overflow, which is undefined.
\<close>

definition next_round :: "u64 \<Rightarrow> u64 option" where
  "next_round i = (if sint i = 9223372036854775807 then None else Some (i + 1))"

partial_function (option) task_loop ::
  "(u64 \<Rightarrow> user_call list option) \<Rightarrow> int \<Rightarrow> u32 \<Rightarrow> u64 \<Rightarrow> user_call list \<Rightarrow> (u32 \<times> user_call list) option" where
  "task_loop say limit ret i out =
     (if sint i smod 500000000 = 0 \<and> sint i \<noteq> 0
      then Option.bind (say i) (\<lambda>calls.
             if sint i sdiv 500000000 = limit then Some (ret, out @ calls)
             else Option.bind (next_round i) (\<lambda>i. task_loop say limit ret i (out @ calls)))
      else Option.bind (next_round i) (\<lambda>i. task_loop say limit ret i out))"

definition task_a_main :: "u64 \<Rightarrow> (u32 \<times> user_call list) option" where
  "task_a_main pid =
     Option.bind (printf (lit ''[Task A] (pid: %lld) started (return 42 after 4 'ping')\<newline>'') 0 [pid]) (\<lambda>calls.
       task_loop (\<lambda>i. printf (lit ''[Task A] ping %lld!\<newline>'') 0 [i]) 4 42 0 (Getpid # calls))"

definition task_b_main :: "(u32 \<times> user_call list) option" where
  "task_b_main =
     Option.bind (printf (lit ''[Task B] started (return 52 after 6 'PONG')\<newline>'') 0 [])
       (task_loop (\<lambda>i. printf (lit ''[Task B] PONG %lld!\<newline>'') 0 [i]) 6 52 0)"

definition task_c_main :: "(u32 \<times> user_call list) option" where
  "task_c_main =
     Option.bind (printf (lit ''[TASK C] started\<newline>'') 0 [])
       (task_loop (\<lambda>i. printf (lit ''Hello from task C!\<newline>'') 0 []) 2 0 0)"

text \<open>The arguments are 42, 0xABCD and the address of \<open>test\<close>, here behind the format.\<close>

definition printf_return_main :: "(u32 \<times> user_call list) option" where
  "printf_return_main =
     (let text = ''Dec: %d, Hex: %x, String: %s\<newline>''
      in Option.bind (printf (lit ''Hello userspace!\<newline>'') 0 []) (\<lambda>c1.
         Option.bind (printf (lit (text @ CHR 0x00 # ''test'')) 0 [42, 0xABCD, of_nat (length text) + 1]) (\<lambda>c2.
         Some (42, c1 @ c2))))"

definition write_and_exit_main :: "user_call list" where
  "write_and_exit_main =
     (let msg = bytes ''Hello from userspace!\<newline>'' in [Write 1 msg, Exit 42])"

section \<open>Interactive programs\<close>

text \<open>The bytes of a local array, and a format with a string behind it.\<close>

definition array_mem :: "u8 list \<Rightarrow> memory" where
  "array_mem bs a = (if unat a < length bs then bs ! unat a else 0)"

definition printf_string :: "string \<Rightarrow> u8 list \<Rightarrow> user_call list option" where
  "printf_string fmt str = printf (array_mem (bytes fmt @ [0] @ str)) 0 [of_nat (length fmt + 1)]"

text \<open>Storing \<open>bs\<close> at the start of an array.\<close>

definition overlay :: "u8 list \<Rightarrow> u8 list \<Rightarrow> u8 list" where
  "overlay bs arr = bs @ drop (length bs) arr"

text \<open>
  \<open>buf\<close> is the stack from the address of the array \<open>buf\<close> upwards: the array is not initialised, and the
  last \<open>printf\<close> reads on behind the bytes the kernel stored.
\<close>

definition readandprint_main :: "u8 list \<Rightarrow> u64 \<times> u8 list \<Rightarrow> (u32 \<times> user_call list) option" where
  "readandprint_main buf answer =
     (let (n, bs) = answer
      in Option.bind (printf (lit ''Type something: '') 0 []) (\<lambda>c1.
         let buf = overlay bs buf
         in Option.bind (printf (lit ''read returned: %d \<newline>'') 0 [n]) (\<lambda>c2.
            Option.bind (printf_string ''You typed: %s \<newline>'' buf) (\<lambda>c3.
            Some (0, c1 @ [Read 0 63] @ c2 @ c3)))))"

text \<open>The commands of the user shell.\<close>

definition u_execute_command :: "u8 list \<Rightarrow> user_call list option" where
  "u_execute_command line =
     (if array_mem line 0 = 0 then Some []
      else Option.bind (u_strcmp (array_mem line) 0 (lit ''help'') 0) (\<lambda>c.
        if c = 0 then printf (lit ''Available commands: help, about\<newline>'') 0 []
        else Option.bind (u_strcmp (array_mem line) 0 (lit ''about'') 0) (\<lambda>c.
          if c = 0 then printf (lit ''Estella userspace shell\<newline>'') 0 []
          else printf_string ''Unknown command: %s \<newline>'' line)))"

text \<open>
  The welcome, and one round of the endless loop with the array \<open>line\<close> of 128 bytes.  \<open>None\<close> also
  stands for a store behind its end.
\<close>

definition usershell_welcome :: "user_call list option" where
  "usershell_welcome =
     Option.bind (printf (lit ''Welcome to Estella userspace shell! \<newline>'') 0 []) (\<lambda>c1.
     Option.bind (printf (lit ''Type 'help' for commands. \<newline>\<newline>'') 0 []) (\<lambda>c2. Some (c1 @ c2)))"

definition usershell_round :: "u64 \<times> u8 list \<Rightarrow> u8 list \<Rightarrow> (user_call list \<times> u8 list) option" where
  "usershell_round answer line =
     (let (ret, bs) = answer; n = (ucast ret :: u32)
      in Option.bind (printf (lit ''sh> '') 0 []) (\<lambda>c1.
         let line = overlay bs line; c1 = c1 @ [Read 0 127]
         in if sint n > 0
            then if nat (sint n) < length line
                 then let line = line[nat (sint n) := 0]
                      in Option.bind (u_execute_command line) (\<lambda>c2. Some (c1 @ c2, line))
                 else None
            else Some (c1, line)))"

end
