(* ===== verification/Number_Text.thy ===== *)
theory Number_Text
  imports Userlib Fbtext
begin

text \<open>
  Numbers as text.  \<open>nat_digits\<close> is the numeral of a number in a base; the four routines of the kernel
  and the user library that print numbers are shown to print it.
\<close>

section \<open>Numerals\<close>

function nat_digits :: "nat \<Rightarrow> nat \<Rightarrow> nat list" where
  "nat_digits b n = (if b < 2 \<or> n < b then [n] else nat_digits b (n div b) @ [n mod b])"
  by pat_completeness auto
termination
  by (relation "measure snd") (auto intro: div_less_dividend)

declare nat_digits.simps [simp del]

definition digits_value :: "nat \<Rightarrow> nat list \<Rightarrow> nat" where
  "digits_value b ds = foldl (\<lambda>acc d. acc * b + d) 0 ds"

lemma digits_value_snoc: "digits_value b (ds @ [d]) = digits_value b ds * b + d"
  by (simp add: digits_value_def)

lemma nat_digits_value: "digits_value b (nat_digits b n) = n"
proof (induction b n rule: nat_digits.induct)
  case (1 b n)
  then show ?case
    by (subst nat_digits.simps) (auto simp: digits_value_snoc digits_value_def [of b "[n]"])
qed

lemma nat_digits_range: "2 \<le> b \<Longrightarrow> d \<in> set (nat_digits b n) \<Longrightarrow> d < b"
proof (induction b n rule: nat_digits.induct)
  case (1 b n)
  then show ?case by (subst (asm) (2) nat_digits.simps) (auto split: if_splits)
qed

lemma nat_digits_not_Nil [simp]: "nat_digits b n \<noteq> []"
  by (subst nat_digits.simps) simp

lemma nat_digits_hd: "2 \<le> b \<Longrightarrow> 0 < n \<Longrightarrow> hd (nat_digits b n) \<noteq> 0"
proof (induction b n rule: nat_digits.induct)
  case (1 b n)
  have "0 < n div b" if "\<not> n < b" using that 1 by (simp add: div_greater_zero_iff)
  then show ?case using 1 by (subst nat_digits.simps) auto
qed

lemma nat_digits_length:
  "2 \<le> b \<Longrightarrow> 1 \<le> k \<Longrightarrow> length (nat_digits b n) \<le> k \<longleftrightarrow> n < b ^ k"
proof (induction b n arbitrary: k rule: nat_digits.induct)
  case (1 b n)
  show ?case
  proof (cases "n < b")
    case True
    have "b ^ 1 \<le> b ^ k" using 1 by (intro power_increasing) auto
    then show ?thesis using True 1 by (subst nat_digits.simps) simp
  next
    case False
    obtain j where k: "k = Suc j" using 1 by (cases k) auto
    show ?thesis
    proof (cases "j = 0")
      case True
      then show ?thesis using False 1 k by (subst nat_digits.simps) simp
    next
      case nz: False
      have "length (nat_digits b (n div b)) \<le> j \<longleftrightarrow> n div b < b ^ j"
        using 1 False nz by simp
      moreover have "n div b < b ^ j \<longleftrightarrow> n < b ^ k"
        using 1 by (simp add: k div_less_iff_less_mult mult.commute)
      ultimately show ?thesis using False 1 k by (subst nat_digits.simps) simp
    qed
  qed
qed

section \<open>The user library\<close>

definition digit16 :: "nat \<Rightarrow> u8" where
  "digit16 d = bytes ''0123456789abcdef'' ! d"

definition number_text :: "nat \<Rightarrow> nat \<Rightarrow> u8 list" where
  "number_text b n = map digit16 (nat_digits b n)"

lemma utoa_digits_text:
  assumes "2 \<le> unat base" and "0 < val"
  shows "utoa_digits base val tmp =
    (if length tmp + length (nat_digits (unat base) (unat val)) \<le> 32
     then Some (tmp @ rev (number_text (unat base) (unat val))) else None)"
  using assms
proof (induction base val tmp rule: utoa_digits.induct)
  case (1 base val tmp)
  let ?b = "unat base" and ?v = "unat val"
  show ?case
  proof (cases "length tmp < 32")
    case False
    then show ?thesis using 1 by (cases "nat_digits ?b ?v") (auto simp: utoa_digits.simps)
  next
    case True
    define d where "d = bytes ''0123456789abcdef'' ! unat (val mod base)"
    have d: "d = digit16 (?v mod ?b)" by (simp add: d_def digit16_def unat_mod_u64)
    have step: "utoa_digits base val tmp = utoa_digits base (val div base) (tmp @ [d])"
      using True 1 by (simp add: utoa_digits.simps [of base val] d_def)
    show ?thesis
    proof (cases "?v < ?b")
      case small: True
      then have "val div base = 0" by (simp add: word_eq_unat unat_div_u64 del: word_unat_eq_iff)
      then have "utoa_digits base val tmp = Some (tmp @ [d])" by (simp add: step utoa_digits.simps [of base 0])
      then show ?thesis using small True d by (simp add: nat_digits.simps number_text_def)
    next
      case big: False
      have pos: "0 < val div base"
        using big 1 by (simp add: word_less_unat unat_div_u64 div_greater_zero_iff)
      have "nat_digits ?b ?v = nat_digits ?b (?v div ?b) @ [?v mod ?b]"
        using big 1 by (subst nat_digits.simps) simp
      moreover have "utoa_digits base (val div base) (tmp @ [d]) =
          (if length (tmp @ [d]) + length (nat_digits ?b (unat (val div base))) \<le> 32
           then Some ((tmp @ [d]) @ rev (number_text ?b (unat (val div base)))) else None)"
        unfolding d_def by (rule "1.IH" [OF "1.prems"(2) True "1.prems"(1) pos])
      ultimately show ?thesis by (simp add: step d number_text_def unat_div_u64)
    qed
  qed
qed

lemma utoa_base_text:
  assumes "2 \<le> base" "base \<le> 16"
  shows "utoa_base v base =
    (if unat v < nat base ^ 32
     then Some (number_text (nat base) (unat v), of_nat (length (number_text (nat base) (unat v)))) else None)"
proof -
  have b: "unat (of_int base :: u64) = nat base"
    using assms by (cases base) (simp_all add: unat_of_nat_small)
  show ?thesis
  proof (cases "v = 0")
    case True
    then show ?thesis using assms by (simp add: utoa_base_def number_text_def nat_digits.simps digit16_def)
  next
    case False
    have "length (nat_digits (nat base) (unat v)) \<le> 32 \<longleftrightarrow> unat v < nat base ^ 32"
      using assms by (intro nat_digits_length) simp_all
    then show ?thesis
      using utoa_digits_text [of "of_int base" v "[]"] assms False
      by (simp add: utoa_base_def b word_gt_0 number_text_def)
  qed
qed

lemma utoa_base_total: "unat v < base ^ 32" if "4 \<le> base" for v :: u64
proof -
  have "unat v < 4 ^ 32" using unat_u64_less [of v] by simp
  also have "\<dots> \<le> base ^ 32" using that by (rule power_mono) simp
  finally show ?thesis .
qed

definition int_text :: "int \<Rightarrow> u8 list" where
  "int_text i = (if i < 0 then bytes ''-'' else []) @ number_text 10 (nat \<bar>i\<bar>)"

lemma sint_u64_cases:
  "sint (v :: u64) < 0 \<Longrightarrow> sint v = uint v - 18446744073709551616"
  "\<not> sint v < 0 \<Longrightarrow> sint v = uint v"
proof -
  have "take_bit 64 (uint v) = uint v" using uint_lt2p [of v] by (simp add: take_bit_int_eq_self)
  then have "sint v = uint v - 18446744073709551616 * of_bool (bit (uint v) 63)"
    by (simp add: sint_uint signed_take_bit_eq_take_bit_minus)
  then show "sint v < 0 \<Longrightarrow> sint v = uint v - 18446744073709551616" "\<not> sint v < 0 \<Longrightarrow> sint v = uint v"
    using uint_ge_0 [of v] uint_lt2p [of v] by (auto split: if_splits simp: of_bool_def)
qed

lemma unat_uminus_sint:
  assumes "sint (v :: u64) < 0"
  shows "unat (- v) = nat \<bar>sint v\<bar>"
proof -
  have "v \<noteq> 0" using assms by auto
  then have "unat (- v) + unat v = 18446744073709551616" using unat_diff_sum [of 0 v] by simp
  moreover have "sint v = uint v - 18446744073709551616"
    using assms by (rule sint_u64_cases)
  moreover have "uint v = int (unat v)" by simp
  ultimately have "sint v = - int (unat (- v))" by linarith
  then show ?thesis by (simp only: abs_minus_cancel abs_of_nat nat_int)
qed

lemma itoa_signed_text: "itoa_signed v = Some (int_text (sint v), of_nat (length (int_text (sint v))))"
proof (cases "sint v < 0")
  case True
  then show ?thesis
    using utoa_base_text [of 10 "- v"] utoa_base_total [of 10 "- v"] unat_uminus_sint [OF True]
    by (simp add: itoa_signed_def int_text_def)
next
  case False
  then have "nat (sint v) = unat v" using sint_u64_cases(2) [of v] by simp
  then show ?thesis
    using utoa_base_text [of 10 v] utoa_base_total [of 10 v] False
    by (simp add: itoa_signed_def int_text_def)
qed

section \<open>The kernel\<close>

lemma digit16_decimal:
  assumes "d < 10"
  shows "digit16 d = of_nat (48 + d)"
proof -
  have "list_all (\<lambda>d. digit16 d = of_nat (48 + d)) [0, 1, 2, 3, 4, 5, 6, 7, 8, 9]"
    by (simp add: digit16_def)
  moreover have "d \<in> set [0, 1, 2, 3, 4, 5, 6, 7, 8, 9]" using assms by simp presburger
  ultimately show ?thesis by (simp only: list_all_iff)
qed

lemma decimal_byte: "(ucast (48 + v mod 10 :: u64) :: u8) = digit16 (unat v mod 10)"
  using digit_byte [of v] by (simp add: digit16_decimal word_unat_eq_iff unat_of_nat unat_word_ariths)

lemma number_text_step:
  "number_text 10 n = (if n < 10 then [digit16 n] else number_text 10 (n div 10) @ [digit16 (n mod 10)])"
  by (subst (1) number_text_def, subst nat_digits.simps) (simp add: number_text_def)

lemma u64_to_dec_temp_text:
  assumes "0 < v" and "length temp + length (number_text 10 (unat v)) \<le> 21"
  shows "u64_to_dec_temp v temp = temp @ rev (number_text 10 (unat v))"
  using assms
proof (induction v temp rule: u64_to_dec_temp.induct)
  case (1 v temp)
  have "1 \<le> length (number_text 10 (unat v))" by (simp add: number_text_def Suc_le_eq)
  then have len: "length temp < 21" using 1 by linarith
  then have step: "u64_to_dec_temp v temp = u64_to_dec_temp (v div 10) (temp @ [digit16 (unat v mod 10)])"
    using 1 by (subst u64_to_dec_temp.simps) (simp add: decimal_byte)
  show ?case
  proof (cases "unat v < 10")
    case True
    then have "v div 10 = 0" by (simp add: word_eq_unat unat_div_u64 del: word_unat_eq_iff)
    then show ?thesis using True step by (simp add: u64_to_dec_temp.simps [of 0] number_text_step)
  next
    case False
    then have "0 < v div 10" by (simp add: word_less_unat unat_div_u64)
    then show ?thesis
      using "1.IH" 1(2,3) len False step number_text_step [of "unat v"]
      by (simp add: decimal_byte unat_div_u64)
  qed
qed

lemma u64_to_dec_bytes_text: "u64_to_dec_bytes v = number_text 10 (unat v)"
proof (cases "v = 0")
  case True
  then show ?thesis by (simp add: u64_to_dec_bytes_def number_text_step digit16_def)
next
  case False
  have "unat v < 10 ^ 20" using unat_u64_less [of v] by simp
  then have "length (number_text 10 (unat v)) \<le> 20"
    using nat_digits_length [of 10 20 "unat v"] by (simp add: number_text_def)
  then show ?thesis
    using False u64_to_dec_temp_text [of v "[]"] by (simp add: u64_to_dec_bytes_def word_gt_0)
qed

lemma number_bytes_text: "number_bytes n p = number_text 10 (unat n) @ p"
proof (induction n p rule: number_bytes.induct)
  case (1 n p)
  have z: "n div 10 = 0 \<longleftrightarrow> unat n < 10" by (auto simp: word_eq_unat unat_div_u64 simp del: word_unat_eq_iff)
  show ?case
  proof (cases "unat n < 10")
    case True
    then show ?thesis using z by (simp add: number_bytes.simps [of n] decimal_byte number_text_step)
  next
    case False
    then show ?thesis
      using "1.IH" [OF refl refl] z number_text_step [of "unat n"]
      by (simp add: number_bytes.simps [of n] decimal_byte unat_div_u64)
  qed
qed

end
