(* ===== verification/Userlib_Properties.thy ===== *)
theory Userlib_Properties
  imports Number_Text
begin

text \<open>
  The number formatting, \<open>printf\<close> and the test programs of user space.
\<close>

section \<open>Strings\<close>

lemma cstr_bytes:
  assumes "cstr m a bs"
  shows "i < length bs \<Longrightarrow> m (a + of_nat i) = bs ! i" and "m (a + of_nat (length bs)) = 0" and "0 \<notin> set bs"
  using assms cstr_append [of m a bs "[]"] cstr_no_zero [of m a bs] by auto

lemma cstr_length:
  assumes "cstr m a bs"
  shows "length bs < 18446744073709551616"
proof (rule ccontr)
  assume "\<not> ?thesis"
  then have i: "length bs mod 18446744073709551616 < length bs"
    by (intro order_less_le_trans [OF mod_less_divisor]) simp_all
  have "(of_nat (length bs mod 18446744073709551616) :: u64) = of_nat (length bs)"
    by (simp add: word_eq_unat unat_of_nat del: word_unat_eq_iff)
  then have "bs ! (length bs mod 18446744073709551616) = 0"
    using cstr_bytes(1) [OF assms i] cstr_bytes(2) [OF assms] by simp
  then show False using cstr_bytes(3) [OF assms] nth_mem [OF i] by simp
qed

lemma write_string_cstr:
  assumes "cstr m a bs"
  shows "write_string m a = Some [Write 1 bs]"
proof -
  have "u_strlen m a = Some (of_nat (length bs))"
    using strlen_loop_cstr [of m a 0 bs] assms by (simp add: u_strlen_def)
  moreover have "map (\<lambda>i. m (a + of_nat i)) [0..<length bs] = bs"
    by (rule nth_equalityI) (simp_all add: cstr_bytes(1) [OF assms])
  ultimately show ?thesis
    using cstr_length [OF assms] by (simp add: write_string_def unat_of_nat_small)
qed

section \<open>Numbers\<close>

lemma number_text_length: "2 \<le> b \<Longrightarrow> length (number_text b (unat (v :: u64))) \<le> 64"
proof -
  assume b: "2 \<le> b"
  have "unat v < 2 ^ 64" using unat_u64_less [of v] by simp
  also have "\<dots> \<le> b ^ 64" using b by (rule power_mono) simp
  finally show ?thesis using nat_digits_length [OF b, of 64] by (simp add: number_text_def)
qed

lemma int_text_length: "length (int_text (sint (v :: u64))) \<le> 65"
proof (cases "sint v < 0")
  case True
  then show ?thesis
    using number_text_length [of 10 "- v"] unat_uminus_sint [OF True] by (simp add: int_text_def)
next
  case False
  then have "nat \<bar>sint v\<bar> = unat v" using sint_u64_cases(2) [of v] by simp
  then show ?thesis using number_text_length [of 10 v] False by (simp add: int_text_def)
qed

lemma write_itoa: "write_number (itoa_signed v) = Some [Write 1 (int_text (sint v))]"
  using int_text_length [of v] by (simp add: write_number_def itoa_signed_text unat_of_nat_small)

lemma write_hex: "write_number (utoa_base v 16) = Some [Write 1 (number_text 16 (unat v))]"
  using number_text_length [of 16 v] utoa_base_total [of 16 v]
  by (simp add: write_number_def utoa_base_text unat_of_nat_small)

text \<open>
  C34.  The three routines that print decimal numbers print the same text: \<open>u64_to_dec\<close> and
  \<open>fb_print_number\<close> of the kernel and \<open>utoa_base\<close> of the user library.  It is the numeral of the number: its
  digits have the number as their value, and there is no leading zero.
\<close>

theorem number_printers_agree:
  "number_bytes v [] = u64_to_dec_bytes v
    \<and> utoa_base v 10 = Some (u64_to_dec_bytes v, of_nat (length (u64_to_dec_bytes v)))
    \<and> (\<exists>ds. u64_to_dec_bytes v = map (\<lambda>d. of_nat (48 + d)) ds \<and> digits_value 10 ds = unat v
        \<and> (\<forall>d\<in>set ds. d < 10) \<and> (hd ds = 0 \<longrightarrow> v = 0) \<and> length ds \<le> 20)"
proof (intro conjI exI [of _ "nat_digits 10 (unat v)"])
  show "number_bytes v [] = u64_to_dec_bytes v" by (simp add: number_bytes_text u64_to_dec_bytes_text)
  show "utoa_base v 10 = Some (u64_to_dec_bytes v, of_nat (length (u64_to_dec_bytes v)))"
    using utoa_base_text [of 10 v] utoa_base_total [of 10 v] by (simp add: u64_to_dec_bytes_text)
  show r: "\<forall>d\<in>set (nat_digits 10 (unat v)). d < 10" using nat_digits_range [of 10] by auto
  then show "u64_to_dec_bytes v = map (\<lambda>d. of_nat (48 + d)) (nat_digits 10 (unat v))"
    by (simp add: u64_to_dec_bytes_text number_text_def digit16_decimal)
  show "digits_value 10 (nat_digits 10 (unat v)) = unat v" by (rule nat_digits_value)
  show "hd (nat_digits 10 (unat v)) = 0 \<longrightarrow> v = 0"
    using nat_digits_hd [of 10 "unat v"] by (cases "v = 0") (auto simp: unat_gt_0)
  have "unat v < 10 ^ 20" using unat_u64_less [of v] by simp
  then show "length (nat_digits 10 (unat v)) \<le> 20" using nat_digits_length [of 10 20] by simp
qed

theorem number_printers_agree_witness:
  "u64_to_dec_bytes 18446744073709551615 = bytes ''18446744073709551615''
    \<and> number_bytes 18446744073709551615 [] = bytes ''18446744073709551615''"
proof -
  have "u64_to_dec_bytes 18446744073709551615 = bytes ''18446744073709551615''"
    by (simp add: u64_to_dec_bytes_text number_text_def nat_digits.simps digit16_def)
  then show ?thesis using number_printers_agree [of 18446744073709551615] by simp
qed

text \<open>
  C35.  \<open>utoa_base\<close> in a base from 2 to 16 stays within its array \<open>tmp\<close> of 32 digits exactly when the number has at
  most 32 digits, which holds for every number in a base of at least 4 and fails for numbers from \<open>base ^ 32\<close> on in
  the bases 2 and 3.  When it stays inside, it returns the numeral, whose digits are below the base,
  have the number as their value and do not start with 0.  \<open>itoa_signed\<close> returns the text of every signed number,
  the least one included.
\<close>

theorem utoa_base_bounds:
  assumes "2 \<le> base" "base \<le> 16"
  shows "(utoa_base v base = None \<longleftrightarrow> nat base ^ 32 \<le> unat v)
    \<and> (4 \<le> base \<longrightarrow> utoa_base v base \<noteq> None)
    \<and> (unat v < nat base ^ 32 \<longrightarrow>
        (\<exists>ds. utoa_base v base = Some (map digit16 ds, of_nat (length ds)) \<and> length ds \<le> 32
          \<and> digits_value (nat base) ds = unat v \<and> (\<forall>d\<in>set ds. d < nat base) \<and> (hd ds = 0 \<longrightarrow> v = 0)))
    \<and> itoa_signed v = Some (int_text (sint v), of_nat (length (int_text (sint v))))"
proof (intro conjI impI)
  note t = utoa_base_text [OF assms, of v]
  show "utoa_base v base = None \<longleftrightarrow> nat base ^ 32 \<le> unat v" by (simp add: t)
  show "utoa_base v base \<noteq> None" if "4 \<le> base"
    using utoa_base_total [of "nat base" v] that by (simp add: t)
  show "itoa_signed v = Some (int_text (sint v), of_nat (length (int_text (sint v))))" by (rule itoa_signed_text)
  assume small: "unat v < nat base ^ 32"
  have b: "2 \<le> nat base" using assms by simp
  have h: "hd (nat_digits (nat base) (unat v)) = 0 \<longrightarrow> v = 0"
    using nat_digits_hd [OF b, of "unat v"] by (cases "v = 0") (auto simp: unat_gt_0)
  show "\<exists>ds. utoa_base v base = Some (map digit16 ds, of_nat (length ds)) \<and> length ds \<le> 32
          \<and> digits_value (nat base) ds = unat v \<and> (\<forall>d\<in>set ds. d < nat base) \<and> (hd ds = 0 \<longrightarrow> v = 0)"
    using small nat_digits_length [OF b, of 32] nat_digits_range [OF b] h
    by (intro exI [of _ "nat_digits (nat base) (unat v)"])
      (auto simp: t number_text_def nat_digits_value)
qed

theorem utoa_base_bounds_witness:
  "utoa_base 0xFFFFFFFFFFFFFFFF 2 = None \<and> utoa_base 0xFFFFFFFFFFFFFFFF 16 \<noteq> None
    \<and> itoa_signed 0x8000000000000000 = Some (bytes ''-9223372036854775808'', 20)"
proof -
  have "int_text (sint (0x8000000000000000 :: u64)) = bytes ''-9223372036854775808''"
    by (simp add: int_text_def number_text_def nat_digits.simps digit16_def)
  then show ?thesis
    using utoa_base_bounds [of 2 "0xFFFFFFFFFFFFFFFF"] utoa_base_bounds [of 16 "0xFFFFFFFFFFFFFFFF"]
      utoa_base_bounds [of 2 "0x8000000000000000"] by simp
qed

section \<open>printf\<close>

text \<open>
  The pieces of a format with the arguments they take: what they look like in the format, which
  arguments they consume, and the text they stand for.
\<close>

datatype piece = Char u8 | Str u64 "u8 list" | Dec u64 | Hex u64 | Long u64 | Llong u64 | Percent | Other u8

fun piece_format :: "piece \<Rightarrow> u8 list" where
  "piece_format (Char c) = [c]"
| "piece_format (Str a bs) = bytes ''%s''"
| "piece_format (Dec w) = bytes ''%d''"
| "piece_format (Hex w) = bytes ''%x''"
| "piece_format (Long w) = bytes ''%ld''"
| "piece_format (Llong w) = bytes ''%lld''"
| "piece_format Percent = bytes ''%%''"
| "piece_format (Other c) = bytes ''%'' @ [c]"

fun piece_args :: "piece \<Rightarrow> u64 list" where
  "piece_args (Str a bs) = [a]"
| "piece_args (Dec w) = [w]"
| "piece_args (Hex w) = [w]"
| "piece_args (Long w) = [w]"
| "piece_args (Llong w) = [w]"
| "piece_args _ = []"

fun piece_text :: "piece \<Rightarrow> u8 list" where
  "piece_text (Char c) = [c]"
| "piece_text (Str a bs) = bs"
| "piece_text (Dec w) = int_text (sint (ucast w :: u32))"
| "piece_text (Hex w) = number_text 16 (unat (ucast w :: u32))"
| "piece_text (Long w) = int_text (sint w)"
| "piece_text (Llong w) = int_text (sint w)"
| "piece_text Percent = bytes ''%''"
| "piece_text (Other c) = bytes ''?''"

fun piece_ok :: "memory \<Rightarrow> piece \<Rightarrow> bool" where
  "piece_ok m (Char c) \<longleftrightarrow> c \<noteq> of_char CHR ''%''"
| "piece_ok m (Str a bs) \<longleftrightarrow> cstr m a bs"
| "piece_ok m (Other c) \<longleftrightarrow> c \<notin> set (bytes ''sdxl%'')"
| "piece_ok m _ \<longleftrightarrow> True"

lemma sint_scast_u32: "sint (scast (x :: u32) :: u64) = sint x"
  using sint_ge [of x] sint_lt [of x] by (simp add: signed_scast_eq signed_take_bit_int_eq_self)

lemma printf_plain:
  "m fmt \<noteq> 0 \<Longrightarrow> m fmt \<noteq> of_char CHR ''%'' \<Longrightarrow> printf_loop m fmt args out = printf_loop m (fmt + 1) args (out @ [Write 1 [m fmt]])"
  by (subst printf_loop.simps) simp

lemma printf_percent:
  "m fmt = of_char CHR ''%'' \<Longrightarrow> printf_conversion m (fmt + 1) args = Some (calls, f, as) \<Longrightarrow>
   printf_loop m fmt args out = printf_loop m (f + 1) as (out @ calls)"
  by (subst printf_loop.simps) simp

lemma printf_piece:
  assumes c: "cstr m fmt (piece_format p @ rest)" and ok: "piece_ok m p"
  shows "printf_loop m fmt (piece_args p @ args) out =
    printf_loop m (fmt + of_nat (length (piece_format p))) args (out @ [Write 1 (piece_text p)])"
proof (cases p)
  case (Char ch)
  then show ?thesis using c ok by (simp add: printf_plain)
next
  case (Str a bs)
  then have "m fmt = of_char CHR ''%''" and "printf_conversion m (fmt + 1) (a # args) = Some ([Write 1 (piece_text p)], fmt + 1, args)"
    using c ok by (simp_all add: printf_conversion_def next_arg_def write_string_cstr)
  from printf_percent [OF this] show ?thesis by (simp add: Str add.commute [of fmt])
next
  case (Dec w)
  then have "m fmt = of_char CHR ''%''" and "printf_conversion m (fmt + 1) (w # args) = Some ([Write 1 (piece_text p)], fmt + 1, args)"
    using c by (simp_all add: printf_conversion_def next_arg_def write_itoa sint_scast_u32)
  from printf_percent [OF this] show ?thesis by (simp add: Dec add.commute [of fmt])
next
  case (Hex w)
  then have "m fmt = of_char CHR ''%''" and "printf_conversion m (fmt + 1) (w # args) = Some ([Write 1 (piece_text p)], fmt + 1, args)"
    using c by (simp_all add: printf_conversion_def next_arg_def write_hex)
  from printf_percent [OF this] show ?thesis by (simp add: Hex add.commute [of fmt])
next
  case (Long w)
  then have "m fmt = of_char CHR ''%''" and "printf_conversion m (fmt + 1) (w # args) = Some ([Write 1 (piece_text p)], fmt + 2, args)"
    using c by (simp_all add: printf_conversion_def next_arg_def write_itoa Let_def)
  from printf_percent [OF this] show ?thesis by (simp add: Long add.commute [of fmt])
next
  case (Llong w)
  then have "m fmt = of_char CHR ''%''" and "printf_conversion m (fmt + 1) (w # args) = Some ([Write 1 (piece_text p)], fmt + 3, args)"
    using c by (simp_all add: printf_conversion_def next_arg_def write_itoa Let_def)
  from printf_percent [OF this] show ?thesis by (simp add: Llong add.commute [of fmt])
next
  case Percent
  then have "m fmt = of_char CHR ''%''" and "printf_conversion m (fmt + 1) args = Some ([Write 1 (piece_text p)], fmt + 1, args)"
    using c by (simp_all add: printf_conversion_def)
  from printf_percent [OF this] show ?thesis by (simp add: Percent add.commute [of fmt])
next
  case (Other ch)
  then have "m fmt = of_char CHR ''%''" and "printf_conversion m (fmt + 1) args = Some ([Write 1 (piece_text p)], fmt + 1, args)"
    using c ok by (simp_all add: printf_conversion_def)
  from printf_percent [OF this] show ?thesis by (simp add: Other add.commute [of fmt])
qed

lemma printf_pieces:
  assumes "cstr m fmt (concat (map piece_format ps))" and "\<forall>p\<in>set ps. piece_ok m p"
  shows "printf_loop m fmt (concat (map piece_args ps) @ rest) out
    = Some (out @ map (\<lambda>p. Write 1 (piece_text p)) ps)"
  using assms
proof (induction ps arbitrary: fmt out)
  case Nil
  then show ?case by (simp add: printf_loop.simps)
next
  case (Cons p ps)
  have "cstr m (fmt + of_nat (length (piece_format p))) (concat (map piece_format ps))"
    using Cons.prems(1) by (simp add: cstr_append)
  then show ?case
    using printf_piece [of m fmt p "concat (map piece_format ps)" "concat (map piece_args ps) @ rest" out] Cons
    by simp
qed

text \<open>
  C36.  \<open>printf\<close> returns for every format made of plain characters, the conversions \<open>%s\<close>, \<open>%d\<close>, \<open>%x\<close>, \<open>%ld\<close>,
  \<open>%lld\<close>, \<open>%%\<close> and unknown ones, with their arguments, and writes piece by piece the text they stand for: a
  string as it is, \<open>%d\<close> the signed number in the low 32 bits of its argument, \<open>%x\<close> these bits as an
  unsigned hexadecimal number, \<open>%ld\<close> and \<open>%lld\<close> the signed number of 64 bits.
\<close>

theorem printf_correct:
  assumes "cstr m fmt (concat (map piece_format ps))" and "\<forall>p\<in>set ps. piece_ok m p"
  shows "printf m fmt (concat (map piece_args ps)) = Some (map (\<lambda>p. Write 1 (piece_text p)) ps)"
  using printf_pieces [OF assms, of "[]" "[]"] by (simp add: printf_def)

theorem printf_correct_witness:
  "printf (lit ''%d%%'') 0 [0xFFFFFFFF] = Some [Write 1 (bytes ''-1''), Write 1 (bytes ''%'')]"
proof -
  have "cstr (lit ''%d%%'') 0 (concat (map piece_format [Dec 0xFFFFFFFF, Percent]))" by (simp add: lit_def)
  moreover have "piece_text (Dec 0xFFFFFFFF) = bytes ''-1''"
    by (simp add: int_text_def number_text_def nat_digits.simps digit16_def)
  ultimately show ?thesis using printf_correct [of "lit ''%d%%''" 0 "[Dec 0xFFFFFFFF, Percent]"] by simp
qed

section \<open>The test programs\<close>

lemma lit_cstr:
  assumes "0 \<notin> set (bytes str)" and "length str < 18446744073709551616"
  shows "cstr (lit str) 0 (bytes str)"
proof -
  have "\<forall>i<length (bytes str). lit str (0 + of_nat i) = bytes str ! i" "lit str (0 + of_nat (length (bytes str))) = 0"
    using assms(2) by (simp_all add: lit_def bytes_def unat_of_nat_small)
  moreover have "\<forall>i<length (bytes str). bytes str ! i \<noteq> 0" using assms(1) by (metis nth_mem)
  ultimately show ?thesis using cstr_append [of "lit str" 0 "bytes str" "[]"] by simp
qed

lemma printf_lit:
  assumes "bytes str = concat (map piece_format ps)" and "0 \<notin> set (bytes str)" and "length str < 18446744073709551616"
    and "\<forall>p\<in>set ps. piece_ok (lit str) p"
  shows "printf (lit str) 0 (concat (map piece_args ps)) = Some (map (\<lambda>p. Write 1 (piece_text p)) ps)"
  using printf_pieces [of "lit str" 0 ps "[]" "[]"] lit_cstr [OF assms(2,3)] assms(1,4) by (simp add: printf_def)

text \<open>The calls only write to descriptor 1, the bytes \<open>str\<close> in all.\<close>

definition prints :: "user_call list \<Rightarrow> u8 list \<Rightarrow> bool" where
  "prints calls str \<longleftrightarrow> (\<exists>bss. calls = map (Write 1) bss \<and> concat bss = str)"

lemma prints_append: "prints c a \<Longrightarrow> prints d b \<Longrightarrow> prints (c @ d) (a @ b)"
  unfolding prints_def by (metis concat_append map_append)

lemma prints_concat: "\<forall>j\<in>set ks. prints (f j) (g j) \<Longrightarrow> prints (concat (map f ks)) (concat (map g ks))"
proof (induction ks)
  case Nil
  then show ?case by (simp add: prints_def)
next
  case (Cons j ks)
  then show ?case using prints_append [of "f j" "g j"] by simp
qed

text \<open>One round of the loop, for a counter that is not negative.\<close>

lemma sint_small: "0 \<le> i \<Longrightarrow> i < 9223372036854775808 \<Longrightarrow> sint (of_int i :: u64) = i"
  by (simp add: signed_of_int signed_take_bit_int_eq_self)

lemma task_loop_round:
  assumes "0 \<le> i" and "i < 9223372036854775807"
  shows "task_loop say limit ret (of_int i) out =
     (if i mod 500000000 = 0 \<and> i \<noteq> 0
      then Option.bind (say (of_int i)) (\<lambda>calls.
             if i div 500000000 = limit then Some (ret, out @ calls)
             else task_loop say limit ret (of_int (i + 1)) (out @ calls))
      else task_loop say limit ret (of_int (i + 1)) out)"
proof -
  have "sint (of_int i :: u64) = i" using assms by (intro sint_small) simp_all
  moreover from this have "next_round (of_int i) = Some (of_int (i + 1))" using assms by (simp add: next_round_def)
  moreover have "i smod 500000000 = i mod 500000000" "i sdiv 500000000 = i div 500000000"
    using assms by (simp_all add: signed_modulo_int_def signed_divide_int_def sgn_if)
  ultimately show ?thesis by (subst task_loop.simps) (simp cong: if_cong)
qed

lemma task_loop_lines:
  assumes "\<forall>j. k \<le> j \<and> j \<le> limit \<longrightarrow> say (of_int (j * 500000000)) = Some (f j)"
    and "1 \<le> k" "k \<le> limit" "(k - 1) * 500000000 < i" "i \<le> k * 500000000" and "limit \<le> 1000"
  shows "task_loop say limit ret (of_int i) out = Some (ret, out @ concat (map f [k..limit]))"
  using assms
proof (induction "nat (limit * 500000000 - i)" arbitrary: i k out rule: less_induct)
  case less
  have "0 \<le> (k - 1) * 500000000" using less.prems(2) by simp
  then have "0 \<le> i" using less.prems(4) by linarith
  moreover have "i < 9223372036854775807" using less.prems(3,5,6) by linarith
  ultimately have round: "task_loop say limit ret (of_int i) out =
     (if i mod 500000000 = 0 \<and> i \<noteq> 0
      then Option.bind (say (of_int i)) (\<lambda>calls.
             if i div 500000000 = limit then Some (ret, out @ calls)
             else task_loop say limit ret (of_int (i + 1)) (out @ calls))
      else task_loop say limit ret (of_int (i + 1)) out)" for out by (rule task_loop_round)
  show ?case
  proof (cases "i = k * 500000000")
    case True
    have i: "i mod 500000000 = 0 \<and> i \<noteq> 0" "i div 500000000 = k" "say (of_int i) = Some (f k)"
      using True less.prems by auto
    show ?thesis
    proof (cases "k = limit")
      case True
      then show ?thesis using i unfolding round by simp
    next
      case False
      then have "task_loop say limit ret (of_int (i + 1)) (out @ f k) = Some (ret, (out @ f k) @ concat (map f [k + 1..limit]))"
        using less.prems True by (intro less.hyps) auto
      moreover have "[k..limit] = k # [k + 1..limit]" using less.prems by (simp add: upto_rec1)
      ultimately show ?thesis using i False unfolding round by simp
    qed
  next
    case False
    have "i mod 500000000 \<noteq> 0"
    proof
      assume "i mod 500000000 = 0"
      then obtain q where q: "i = 500000000 * q" by (auto simp: mod_eq_0_iff_dvd elim: dvdE)
      have "i < k * 500000000" using False less.prems(5) by simp
      then have "q < k" using q by linarith
      moreover have "k * 500000000 - 500000000 < 500000000 * q" using q less.prems(4) by (simp add: algebra_simps)
      ultimately show False by linarith
    qed
    then have "\<not> (i mod 500000000 = 0 \<and> i \<noteq> 0)" by simp
    moreover have "task_loop say limit ret (of_int (i + 1)) out = Some (ret, out @ concat (map f [k..limit]))"
      using less.prems False by (intro less.hyps) auto
    ultimately show ?thesis unfolding round by (simp only: if_False)
  qed
qed

lemma task_loop_start:
  assumes "\<forall>j. 1 \<le> j \<and> j \<le> limit \<longrightarrow> say (of_int (j * 500000000)) = Some (f j)" and "1 \<le> limit" and "limit \<le> 1000"
  shows "task_loop say limit ret 0 out = Some (ret, out @ concat (map f [1..limit]))"
  using task_loop_lines [OF assms(1), of 1 ret out] assms(2,3) task_loop_round [of 0 say limit ret out] by simp

text \<open>Formats without, and with one conversion.\<close>

definition plain_text :: "string \<Rightarrow> bool" where
  "plain_text str \<longleftrightarrow> 0 \<notin> set (bytes str) \<and> of_char CHR ''%'' \<notin> set (bytes str)"

lemma bytes_append [simp]: "bytes (xs @ ys) = bytes xs @ bytes ys"
  by (simp add: bytes_def)

lemma length_bytes [simp]: "length (bytes str) = length str"
  by (simp add: bytes_def)

lemma concat_single [simp]: "concat (map (\<lambda>x. [f x]) xs) = map f xs"
  by (induction xs) simp_all

lemma char_pieces [simp]:
  "concat (map piece_format (map Char bs)) = bs" "concat (map piece_args (map Char bs)) = []"
  "concat (map piece_text (map Char bs)) = bs" "concat (map (piece_format \<circ> Char) bs) = bs"
  "concat (map (piece_args \<circ> Char) bs) = []" "concat (map (piece_text \<circ> Char) bs) = bs"
  by (induction bs) simp_all

lemma prints_pieces: "prints (map (\<lambda>p. Write 1 (piece_text p)) ps) (concat (map piece_text ps))"
  unfolding prints_def by (rule exI [of _ "map piece_text ps"]) (simp add: comp_def)

lemma printf_text:
  assumes "plain_text str" and "length str < 1000"
  shows "\<exists>calls. printf (lit str) 0 [] = Some calls \<and> prints calls (bytes str)"
proof -
  have "printf (lit str) 0 (concat (map piece_args (map Char (bytes str))))
      = Some (map (\<lambda>p. Write 1 (piece_text p)) (map Char (bytes str)))"
    by (rule printf_lit) (use assms in \<open>auto simp: plain_text_def\<close>)
  then show ?thesis
    using prints_pieces [of "map Char (bytes str)"] by (simp only: char_pieces) blast
qed

lemma printf_llong:
  assumes "plain_text pre" "plain_text post" and "length pre + length post < 1000"
  shows "\<exists>calls. printf (lit (pre @ ''%lld'' @ post)) 0 [w] = Some calls
    \<and> prints calls (bytes pre @ int_text (sint w) @ bytes post)"
proof -
  let ?ps = "map Char (bytes pre) @ [Llong w] @ map Char (bytes post)"
  have "printf (lit (pre @ ''%lld'' @ post)) 0 (concat (map piece_args ?ps)) = Some (map (\<lambda>p. Write 1 (piece_text p)) ?ps)"
    by (rule printf_lit) (use assms in \<open>auto simp: plain_text_def\<close>)
  moreover have "concat (map piece_args ?ps) = [w]" by simp
  moreover have "prints (map (\<lambda>p. Write 1 (piece_text p)) ?ps) (bytes pre @ int_text (sint w) @ bytes post)"
    using prints_pieces [of ?ps] by simp
  ultimately show ?thesis by (simp only:) blast
qed

text \<open>The text of a program whose first line is \<open>start\<close> and whose \<open>k\<close>th line is \<open>g k\<close>, with the calls \<open>pre\<close> before.\<close>

lemma task_main_text:
  assumes "\<exists>calls. first = Some calls \<and> prints calls start"
    and "\<forall>j. 1 \<le> j \<and> j \<le> limit \<longrightarrow> (\<exists>calls. say (of_int (j * 500000000)) = Some calls \<and> prints calls (g j))"
    and "1 \<le> limit" and "limit \<le> 1000"
  shows "\<exists>calls. Option.bind first (\<lambda>c. task_loop say limit ret 0 (pre @ c)) = Some (ret, pre @ calls)
    \<and> prints calls (start @ concat (map g [1..limit]))"
proof -
  obtain c where c: "first = Some c" "prints c start" using assms(1) by blast
  obtain f where f: "\<forall>j. 1 \<le> j \<and> j \<le> limit \<longrightarrow> say (of_int (j * 500000000)) = Some (f j) \<and> prints (f j) (g j)"
    using assms(2) by metis
  have "prints (concat (map f [1..limit])) (concat (map g [1..limit]))" by (rule prints_concat) (use f in simp)
  then have "prints (c @ concat (map f [1..limit])) (start @ concat (map g [1..limit]))" by (rule prints_append [OF c(2)])
  moreover have "task_loop say limit ret 0 (pre @ c) = Some (ret, (pre @ c) @ concat (map f [1..limit]))"
    using f assms(3,4) by (intro task_loop_start) blast+
  ultimately show ?thesis using c(1) by simp
qed

lemmas task_main_lines = task_main_text [where pre = "[]", unfolded append_Nil]

lemma u_start_exit:
  "\<exists>calls. main = Some (ret, pre @ calls) \<and> P calls \<Longrightarrow> \<exists>calls. u_start main = Some (pre @ calls @ [Exit ret]) \<and> P calls"
  by (auto simp: u_start_def)

text \<open>
  C37.  The three test programs end, before their 64-bit counter overflows: task A asks for its process id, prints its
  start line with it and four lines and exits with 42, task B prints six lines and exits with 52, task C
  prints two and exits with 0.  They make no other system calls than these, and print to descriptor 1 only.
\<close>

theorem tasks_terminate:
  "(\<exists>calls. u_start (task_a_main pid) = Some (Getpid # calls @ [Exit 42])
      \<and> prints calls (bytes ''[Task A] (pid: '' @ int_text (sint pid) @ bytes '') started (return 42 after 4 'ping')\<newline>''
          @ concat (map (\<lambda>k. bytes ''[Task A] ping '' @ int_text (k * 500000000) @ bytes ''!\<newline>'') [1..4])))
   \<and> (\<exists>calls. u_start task_b_main = Some (calls @ [Exit 52])
      \<and> prints calls (bytes ''[Task B] started (return 52 after 6 'PONG')\<newline>''
          @ concat (map (\<lambda>k. bytes ''[Task B] PONG '' @ int_text (k * 500000000) @ bytes ''!\<newline>'') [1..6])))
   \<and> (\<exists>calls. u_start task_c_main = Some (calls @ [Exit 0])
      \<and> prints calls (bytes ''[TASK C] started\<newline>'' @ concat (map (\<lambda>k. bytes ''Hello from task C!\<newline>'') [1..2])))"
proof (intro conjI)
  have line: "\<exists>calls. printf (lit (pre @ ''%lld'' @ post)) 0 [of_int (j * 500000000)] = Some calls
      \<and> prints calls (bytes pre @ int_text (j * 500000000) @ bytes post)"
    if "plain_text pre" "plain_text post" "length pre + length post < 1000" "1 \<le> j \<and> j \<le> 6" for pre post j
    using printf_llong [OF that(1-3), of "of_int (j * 500000000)"] that(4) sint_small [of "j * 500000000"] by simp
  have "\<exists>calls. task_a_main pid = Some (42, Getpid # calls)
      \<and> prints calls ((bytes ''[Task A] (pid: '' @ int_text (sint pid) @ bytes '') started (return 42 after 4 'ping')\<newline>'')
          @ concat (map (\<lambda>k. bytes ''[Task A] ping '' @ int_text (k * 500000000) @ bytes ''!\<newline>'') [1..4]))"
    unfolding task_a_main_def
    by (rule task_main_text [where pre = "[Getpid]", unfolded append_Cons append_Nil])
      (use printf_llong [of "''[Task A] (pid: ''" "'') started (return 42 after 4 'ping')\<newline>''" pid]
        line [of "''[Task A] ping ''" "''!\<newline>''"] in \<open>simp_all add: plain_text_def del: bytes_append\<close>)
  then have "\<exists>calls. u_start (task_a_main pid) = Some (Getpid # calls @ [Exit 42])
      \<and> prints calls ((bytes ''[Task A] (pid: '' @ int_text (sint pid) @ bytes '') started (return 42 after 4 'ping')\<newline>'')
          @ concat (map (\<lambda>k. bytes ''[Task A] ping '' @ int_text (k * 500000000) @ bytes ''!\<newline>'') [1..4]))"
    by (rule u_start_exit [where pre = "[Getpid]", unfolded append_Cons append_Nil])
  then show "\<exists>calls. u_start (task_a_main pid) = Some (Getpid # calls @ [Exit 42])
      \<and> prints calls (bytes ''[Task A] (pid: '' @ int_text (sint pid) @ bytes '') started (return 42 after 4 'ping')\<newline>''
          @ concat (map (\<lambda>k. bytes ''[Task A] ping '' @ int_text (k * 500000000) @ bytes ''!\<newline>'') [1..4]))"
    by (simp only: append_assoc)
  have "\<exists>calls. task_b_main = Some (52, calls)
      \<and> prints calls (bytes ''[Task B] started (return 52 after 6 'PONG')\<newline>''
          @ concat (map (\<lambda>k. bytes ''[Task B] PONG '' @ int_text (k * 500000000) @ bytes ''!\<newline>'') [1..6]))"
    unfolding task_b_main_def
    by (rule task_main_lines)
      (use printf_text [of "''[Task B] started (return 52 after 6 'PONG')\<newline>''"]
        line [of "''[Task B] PONG ''" "''!\<newline>''"] in \<open>simp_all add: plain_text_def\<close>)
  then show "\<exists>calls. u_start task_b_main = Some (calls @ [Exit 52])
      \<and> prints calls (bytes ''[Task B] started (return 52 after 6 'PONG')\<newline>''
          @ concat (map (\<lambda>k. bytes ''[Task B] PONG '' @ int_text (k * 500000000) @ bytes ''!\<newline>'') [1..6]))"
    by (rule u_start_exit [where pre = "[]", unfolded append_Nil])
  have "\<exists>calls. task_c_main = Some (0, calls)
      \<and> prints calls (bytes ''[TASK C] started\<newline>'' @ concat (map (\<lambda>k. bytes ''Hello from task C!\<newline>'') [1..2]))"
    unfolding task_c_main_def
    by (rule task_main_lines)
      (use printf_text [of "''[TASK C] started\<newline>''"] printf_text [of "''Hello from task C!\<newline>''"]
        in \<open>simp_all add: plain_text_def\<close>)
  then show "\<exists>calls. u_start task_c_main = Some (calls @ [Exit 0])
      \<and> prints calls (bytes ''[TASK C] started\<newline>'' @ concat (map (\<lambda>k. bytes ''Hello from task C!\<newline>'') [1..2]))"
    by (rule u_start_exit [where pre = "[]", unfolded append_Nil])
qed

end
