(* ===== verification/Spec2Isabelle.thy ===== *)
theory Spec2Isabelle
  imports Vmm_Properties Scheduler_Properties Line_Input Syscall_Properties Cpio_Properties Task_Creation Limine Apic_Properties Descriptor_Properties Clock_Properties Userlib_Properties
begin

text \<open>
  A verification of SonnaOS, a small x86-64 operating system in C: the kernel \<open>Estella\<close> under
  \<open>src/kernel\<close>, and the library and programs of user space under \<open>src/userspace\<close>.

  \<^bold>\<open>The program.\<close>  The boot loader enters \<open>EstellaEntry\<close> (\<open>boot/main.c\<close>), which checks the answers to its
  requests, sets up the physical memory manager (a bitmap of frames), the virtual memory manager (four-level
  page tables), the descriptor tables, the interrupt controllers found through ACPI, the clocks, the
  framebuffer console and the keyboard, looks up programs in the initial RAM disk, loads them with the
  ELF loader into address spaces of their own and hands them to the round-robin scheduler.  From then on
  the timer interrupt switches tasks, the keyboard interrupt fills a ring buffer, and tasks enter the kernel by
  system calls.

  \<^bold>\<open>How code becomes definitions.\<close>  A C function is a function from the state to its result and the
  new state.  The state is one record that grows by extension along the dependencies of the components:
  \<open>machine\<close> (memory and serial port), \<open>pmm_state\<close>, \<open>vmm_state\<close>, \<open>hw_state\<close> (the trace of device
  accesses), \<open>apic_state\<close>, \<open>clock_state\<close>, \<open>kernel\<close>.  Memory is a total function from 64-bit addresses to
  bytes; pointers are addresses, and structures in memory are read and written field by field at
  their offsets, so aliasing is what it is in C.  Machine integers are words and wrap around; where
  C leaves an overflow undefined, the definition says what the model does.  A loop with a counter
  is a fold or a structural recursion over the values of the counter; a loop that may run for ever
  (polling, walks over tables of the firmware, searches) is a \<open>partial_function\<close> into \<open>option\<close> where
  \<open>None\<close> stands for not returning, and the theorems about it state that it returns.  No definition
  uses fuel.  A function that never returns is the state, or the registers, it hands over.

  \<^bold>\<open>Theories and sources\<close> (paths below \<open>src/kernel\<close>; \<open>x86\<close> is \<open>arch/x86_64\<close>).

  \<^item> \<open>Estella_Prelude\<close>: word types, counted loops, page arithmetic.
  \<^item> \<open>Klib_Memory\<close>, \<open>Klib_String\<close>: \<open>klib/memory.c\<close>, \<open>klib/string.c\<close>; \<open>Number_Text\<close>: all number
    printers of kernel and user space against one numeral function.
  \<^item> \<open>Serial\<close>: \<open>drivers/serial.c\<close>; \<open>Devices\<close>: \<open>x86/cpu/io.c\<close>, \<open>msr.h\<close>, \<open>cpuid.h\<close>.
  \<^item> \<open>Pmm\<close>: \<open>mm/pmm.c\<close>; \<open>Pmm_Search\<close> (next-fit search, locale \<open>next_fit_search\<close>), \<open>Pmm_Alloc\<close> (what calls
    promise), \<open>Pmm_Live\<close> (contents of frames, live blocks), \<open>Pmm_Init\<close> (\<open>pmm_init\<close>), \<open>Pmm_Properties\<close>.
  \<^item> \<open>Vmm\<close>: \<open>x86/mm/vmm.c\<close>; \<open>Page_Tables\<close> (trees of tables, locale \<open>page_source\<close>), \<open>Vmm_Tables\<close>, \<open>Vmm_Walk\<close>,
    \<open>Vmm_Map\<close>, \<open>Vmm_Space\<close> (each layer of the code over the tree), \<open>Vmm_View\<close> (address spaces as maps,
    locale \<open>page_mapper\<close>), \<open>Vmm_Frames\<close> (what mapping leaves alone), \<open>Vmm_Properties\<close>.
  \<^item> \<open>Acpi\<close>: \<open>x86/acpi/acpi.c\<close>; \<open>Apic\<close>: \<open>x86/interrupts/lapic.c\<close>, \<open>ioapic.c\<close>, \<open>irq.c\<close>; \<open>Apic_Properties\<close>:
    the registers of an I/O APIC after a trace.  \<open>Clock\<close>, \<open>Clock_Properties\<close>: \<open>x86/time\<close>.
  \<^item> \<open>Fbtext\<close>, \<open>Fbtext_Bounds\<close>: \<open>drivers/fbtext.c\<close>, \<open>drivers/font.c\<close>; \<open>Keyboard\<close>: \<open>drivers/keyboard.c\<close>
    (locale \<open>char_queue\<close>).
  \<^item> \<open>Descriptors\<close>, \<open>Exceptions\<close>, \<open>Descriptor_Properties\<close>: \<open>x86/cpu/gdt.c\<close>, \<open>x86/interrupts/idt.c\<close> and the
    exception stubs of \<open>isr.S\<close>.
  \<^item> \<open>Kernel\<close>: the state of the whole kernel, descriptor set-up, panic screen, keyboard interrupt.
  \<^item> \<open>Scheduler\<close>: \<open>x86/usermode/scheduler.c\<close>, \<open>apictimer.c\<close> and the timer entry of \<open>isr.S\<close>; \<open>Run_Queue\<close> (locale
    \<open>linked_nodes\<close>), \<open>Round_Robin\<close>, \<open>Context_Switch\<close>, \<open>Scheduler_Properties\<close>.
  \<^item> \<open>Usermode\<close>: \<open>x86/usermode/elf.c\<close>, \<open>usermode.c\<close>, \<open>task_create_from_elf\<close>; \<open>Elf_Properties\<close> (one
    segment), \<open>Elf_File\<close> (a whole file), \<open>Task_Space\<close> (the address space of a new task),
    \<open>Elf_Success\<close> (how much free memory lets a file load), \<open>Task_Creation\<close> (a whole task).
  \<^item> \<open>Syscalls\<close>: \<open>x86/syscalls\<close>; \<open>Line_Input\<close> (\<open>read\<close>), \<open>Syscall_Properties\<close>.
  \<^item> \<open>Cpio\<close>, \<open>Cpio_Properties\<close>: \<open>fs/cpio/cpio.c\<close>.  \<open>Kernelshell\<close>: \<open>shell_kspace/kernelshell.c\<close>.
  \<^item> \<open>Boot\<close>, \<open>Limine\<close>: \<open>x86/boot/main.c\<close> and what it uses of \<open>include/limine.h\<close>.
  \<^item> \<open>Userlib\<close>, \<open>Userlib_Properties\<close>: \<open>src/userspace\<close>.  \<open>Example_State\<close>: a state for the witnesses.

  \<^bold>\<open>What the theorems show.\<close>

  \<^item> Frames: every allocation returns, finds a run whenever one exists and the counter allows it, and takes
    exactly that run; allocation and release are inverse; live blocks never overlap; \<open>pmm_init\<close> leaves
    free exactly the usable frames, with a counter that can be one too low.
  \<^item> Address spaces: every sequence of map and unmap calls implements the same operations on a map from
    pages to entries, with the tables a tree of frames in use; ranges, 2 MiB pages and
    queries; where \<open>PTE_NX\<close> is lost.
  \<^item> Programs: \<open>load_elf\<close> puts all segments of a file in place at once without touching a frame in use,
    or says which one failed and why; \<open>task_create_from_elf\<close> succeeds when a large enough run of frames is free, and
    the task has the segments, the stack and the kernel's upper half and nothing else (\<open>task_created\<close>); \<open>cpio_lookup\<close> finds the first file with a name.
  \<^item> Tasks: the scheduler implements a queue with round-robin choice, every task that can run gets its
    turn within a bounded number of ticks, and an interrupted task continues with its registers and
    its address space; system calls return with the registers the interface promises; \<open>exit\<close> never resumes the dead task.
  \<^item> Devices: the console never writes outside the framebuffer; the keyboard buffer is a bounded queue;
    \<open>read\<close> delivers the edited line and never overruns its buffer, but waits for ever when the line is
    not complete at the call, because \<open>IA32_FMASK\<close> masks the keyboard; a pin of the I/O APIC changes its entry only while masked; all
    selectors and exception gates have the type the processor wants; the calendar is Gregorian.
  \<^item> User space: number formatting, \<open>printf\<close> and the test programs.

  \<^bold>\<open>Parameters and hypotheses.\<close>  What is not in the sources is an argument of the definitions: \<open>hardware\<close>
  (the answers of ports, registers and memory-mapped devices, which may depend on the whole trace, \<open>cpuid\<close>, and when
  the keyboard requests an interrupt),
  \<open>image\<close> (the addresses the linker gives to symbols), \<open>boot_info\<close> (the boot loader's answers), and the line
  status of the serial port.  Hypotheses on them state documented behaviour, such as that the data
  window of an I/O APIC reads back the selected register.  Bounds in the hypotheses are those of
  the machine: at most 2^52 frames, the whole 64-bit space (\<open>load_elf\<close>: 2^40 frames, the width of the
  frame field of an entry), and a direct map that does not wrap around.

  \<^bold>\<open>Not modelled.\<close>  Instruction timing, caches and the TLB beyond the list of invalidations; more than one processor, which the
  kernel does not start.  Interrupts are operations of their own on the state, taken between and not
  inside the operations of the kernel, with one exception: a keyboard interrupt can come in whenever the system call
  \<open>read\<close> polls, if the interrupt flag is set.  The \<open>sti\<close> of \<open>EstellaEntry\<close> is an event of the trace; interrupts
  between it and the first task, while the tasks are created, are not modelled.  Declarations nothing uses have no counterpart: the requests of
  \<open>limine.h\<close> the kernel does not make (multiprocessing, SMBIOS, EFI, device tree, paging mode), the MADT
  entry types and x2APIC register names of \<open>acpi.h\<close> no code reads, and constants of \<open>vmm.h\<close>,
  \<open>ioapic.h\<close>, \<open>irq.h\<close> and \<open>colors.h\<close> no code mentions.  Function prototypes, include lines and
  assembler directives are covered by the definitions of what they declare.
\<close>

end
